(* ===== verification/Prelude.thy ===== *)
theory Prelude
  imports Main "HOL-Library.Word" "HOL-Library.AList"
begin

unbundle bit_operations_syntax

text \<open>
  The vocabulary the component theories share: machine integers with Rust's checked, wrapping
  and saturating operations; byte encodings (\<open>to_le_bytes\<close>, \<open>from_le_bytes\<close>); the hash map
  of the standard library as an association list; and a small result monad with state for code
  whose \<open>Err\<close> return leaves the receiver modified.

  Rust's release profile is the one modelled (the workspace does not switch overflow checks
  on): plain \<open>+\<close>, \<open>-\<close>, \<open>*\<close> on machine integers wrap, as they do on words here.
  \<open>usize\<close> is a 64-bit integer.
\<close>

named_theorems monad_simps \<open>unfolding of the result monad with state\<close>
named_theorems hashmap_simps \<open>lookup after a hash map operation\<close>
named_theorems frame_intros \<open>what a call keeps of the state, by its shape\<close>

section \<open>Machine integers\<close>

type_synonym u8 = "8 word"
type_synonym u16 = "16 word"
type_synonym u32 = "32 word"
type_synonym u64 = "64 word"
type_synonym u128 = "128 word"
type_synonym u256 = "256 word"
type_synonym i32 = "32 word"
type_synonym i64 = "64 word"
type_synonym bytes = "8 word list"

definition checked_add :: "'a::len word \<Rightarrow> 'a word \<Rightarrow> 'a word option" where
  "checked_add a b = (if unat a + unat b < 2 ^ LENGTH('a) then Some (a + b) else None)"

definition checked_sub :: "'a::len word \<Rightarrow> 'a word \<Rightarrow> 'a word option" where
  "checked_sub a b = (if b \<le> a then Some (a - b) else None)"

definition checked_mul :: "'a::len word \<Rightarrow> 'a word \<Rightarrow> 'a word option" where
  "checked_mul a b = (if unat a * unat b < 2 ^ LENGTH('a) then Some (a * b) else None)"

definition checked_div :: "'a::len word \<Rightarrow> 'a word \<Rightarrow> 'a word option" where
  "checked_div a b = (if b = 0 then None else Some (a div b))"

definition checked_rem :: "'a::len word \<Rightarrow> 'a word \<Rightarrow> 'a word option" where
  "checked_rem a b = (if b = 0 then None else Some (a mod b))"

definition saturating_add :: "'a::len word \<Rightarrow> 'a word \<Rightarrow> 'a word" where
  "saturating_add a b = (if unat a + unat b < 2 ^ LENGTH('a) then a + b else - 1)"

definition saturating_sub :: "'a::len word \<Rightarrow> 'a word \<Rightarrow> 'a word" where
  "saturating_sub a b = (if b \<le> a then a - b else 0)"

definition saturating_mul :: "'a::len word \<Rightarrow> 'a word \<Rightarrow> 'a word" where
  "saturating_mul a b = (if unat a * unat b < 2 ^ LENGTH('a) then a * b else - 1)"

text \<open>Rust's \<open>div_ceil\<close>: quotient rounded up, for a non-zero divisor.\<close>

definition div_ceil :: "'a::len word \<Rightarrow> 'a word \<Rightarrow> 'a word" where
  "div_ceil a b = (if a mod b = 0 then a div b else a div b + 1)"

text \<open>Signed \<open>checked_add\<close>, on two's complement representations.\<close>

definition checked_add_signed :: "'a::len word \<Rightarrow> 'a word \<Rightarrow> 'a word option" where
  "checked_add_signed a b =
     (if - (2 ^ (LENGTH('a) - 1)) \<le> sint a + sint b \<and> sint a + sint b < 2 ^ (LENGTH('a) - 1)
      then Some (a + b) else None)"

definition bool_word :: "bool \<Rightarrow> 'a::len word" where
  "bool_word b = (if b then 1 else 0)"

section \<open>Byte encodings\<close>

text \<open>Little-endian bytes of a word, lowest byte first; \<open>n\<close> is the width in bytes.\<close>

definition to_le_bytes :: "nat \<Rightarrow> 'a::len word \<Rightarrow> bytes" where
  "to_le_bytes n w = map (\<lambda>i. ucast (drop_bit (8 * i) w)) [0..<n]"

fun from_le_bytes :: "bytes \<Rightarrow> 'a::len word" where
  "from_le_bytes [] = 0"
| "from_le_bytes (b # bs) = ucast b OR push_bit 8 (from_le_bytes bs)"

text \<open>\<open>copy_from_slice\<close> into the front of a zeroed buffer of \<open>n\<close> bytes.\<close>

definition pad_to :: "nat \<Rightarrow> bytes \<Rightarrow> bytes" where
  "pad_to n bs = take n bs @ replicate (n - length bs) 0"

section \<open>Hash maps\<close>

text \<open>
  \<open>std::collections::HashMap\<close>: an association list with distinct keys. Iteration visits the
  entries in list order; the standard library leaves the order open, and every lemma about
  iteration is stated on the looked-up contents.
\<close>

type_synonym ('k, 'v) hashmap = "('k \<times> 'v) list"

definition hm_get :: "('k, 'v) hashmap \<Rightarrow> 'k \<Rightarrow> 'v option" where
  "hm_get m k = map_of m k"

definition hm_insert :: "'k \<Rightarrow> 'v \<Rightarrow> ('k, 'v) hashmap \<Rightarrow> ('k, 'v) hashmap" where
  "hm_insert k v m = AList.update k v m"

definition hm_remove :: "'k \<Rightarrow> ('k, 'v) hashmap \<Rightarrow> ('k, 'v) hashmap" where
  "hm_remove k m = AList.delete k m"

definition hm_wf :: "('k, 'v) hashmap \<Rightarrow> bool" where
  "hm_wf m \<longleftrightarrow> distinct (map fst m)"

section \<open>Results with state\<close>

text \<open>
  A method \<open>fn f(&mut self) -> Result<A, E>\<close> returns the result and the receiver as it left
  it: on \<open>Err\<close> the changes made before the error stay.
\<close>

type_synonym ('s, 'e, 'a) srm = "'s \<Rightarrow> ('e + 'a) \<times> 's"

definition sret :: "'a \<Rightarrow> ('s, 'e, 'a) srm" where
  "sret x = (\<lambda>s. (Inr x, s))"

definition serr :: "'e \<Rightarrow> ('s, 'e, 'a) srm" where
  "serr e = (\<lambda>s. (Inl e, s))"

definition sbind :: "('s, 'e, 'a) srm \<Rightarrow> ('a \<Rightarrow> ('s, 'e, 'b) srm) \<Rightarrow> ('s, 'e, 'b) srm" where
  "sbind m f = (\<lambda>s. case m s of (Inl e, s') \<Rightarrow> (Inl e, s') | (Inr x, s') \<Rightarrow> f x s')"

definition sget :: "('s \<Rightarrow> 'a) \<Rightarrow> ('s, 'e, 'a) srm" where
  "sget f = (\<lambda>s. (Inr (f s), s))"

definition smod :: "('s \<Rightarrow> 's) \<Rightarrow> ('s, 'e, unit) srm" where
  "smod f = (\<lambda>s. (Inr (), f s))"

definition sguard :: "('s \<Rightarrow> bool) \<Rightarrow> 'e \<Rightarrow> ('s, 'e, unit) srm" where
  "sguard P e = (\<lambda>s. if P s then (Inr (), s) else (Inl e, s))"

text \<open>\<open>Option::ok_or\<close> followed by \<open>?\<close>.\<close>

definition sopt :: "'e \<Rightarrow> 'a option \<Rightarrow> ('s, 'e, 'a) srm" where
  "sopt e x = (case x of None \<Rightarrow> serr e | Some v \<Rightarrow> sret v)"

text \<open>\<open>?\<close> on a pure \<open>Result\<close>.\<close>

definition sres :: "('e + 'a) \<Rightarrow> ('s, 'e, 'a) srm" where
  "sres r = (\<lambda>s. (r, s))"

text \<open>A loop that runs a fallible call for each element and collects the results.\<close>

fun smapM :: "('a \<Rightarrow> ('s, 'e, 'b) srm) \<Rightarrow> 'a list \<Rightarrow> ('s, 'e, 'b list) srm" where
  "smapM f [] = sret []"
| "smapM f (x # xs) = sbind (f x) (\<lambda>y. sbind (smapM f xs) (\<lambda>ys. sret (y # ys)))"

section \<open>Lemmas: machine integers\<close>

lemma checked_add_SomeD:
  assumes "checked_add a b = Some c"
  shows "unat c = unat a + unat b" "c = a + b"
  using assms by (auto simp: checked_add_def unat_add_lem split: if_splits)

lemma checked_add_None_iff:
  "checked_add a (b :: 'a::len word) = None \<longleftrightarrow> 2 ^ LENGTH('a) \<le> unat a + unat b"
  by (auto simp: checked_add_def)

lemma checked_sub_SomeD:
  assumes "checked_sub a b = Some c"
  shows "unat c = unat a - unat b" "b \<le> a" "c = a - b"
  using assms by (auto simp: checked_sub_def unat_sub split: if_splits)

lemma checked_mul_SomeD:
  assumes "checked_mul a b = Some c"
  shows "unat c = unat a * unat b" "c = a * b"
  using assms by (auto simp: checked_mul_def unat_mult_lem split: if_splits)

lemma unat_saturating_sub: "unat (saturating_sub a b) = unat a - unat b"
  by (auto simp: saturating_sub_def unat_sub word_le_nat_alt)

lemma saturating_sub_le: "saturating_sub a b \<le> a"
  by (simp add: word_le_nat_alt unat_saturating_sub)

lemma unat_max_word: "unat (- 1 :: 'a::len word) = 2 ^ LENGTH('a) - 1"
  by (simp add: unsigned_minus_1_eq_mask mask_eq_exp_minus_1)

lemma unat_lt_length: "unat (w :: 'a::len word) < 2 ^ LENGTH('a)"
  by (rule unsigned_less)

lemma unat_saturating_mul:
  "unat (saturating_mul a (b :: 'a::len word)) = min (unat a * unat b) (2 ^ LENGTH('a) - 1)"
proof (cases "unat a * unat b < 2 ^ LENGTH('a)")
  case True
  then have "unat (a * b) = unat a * unat b" by (simp add: unat_word_ariths)
  then show ?thesis using True by (simp add: saturating_mul_def)
next
  case False
  then show ?thesis by (simp add: saturating_mul_def unat_max_word)
qed

lemma unat_saturating_add:
  "unat (saturating_add a (b :: 'a::len word)) = min (unat a + unat b) (2 ^ LENGTH('a) - 1)"
proof (cases "unat a + unat b < 2 ^ LENGTH('a)")
  case True
  then have "unat (a + b) = unat a + unat b" by (simp add: unat_add_lem)
  moreover have "unat a + unat b \<le> 2 ^ LENGTH('a) - 1" using True by linarith
  ultimately show ?thesis using True by (simp add: saturating_add_def)
next
  case False
  then have "2 ^ LENGTH('a) - 1 \<le> unat a + unat b" by linarith
  with False show ?thesis by (simp add: saturating_add_def unat_max_word)
qed

lemma and_mask_lt: "unat (w AND mask n :: 'a::len word) < 2 ^ n"
  by (simp add: take_bit_eq_mask [symmetric] unsigned_take_bit_eq)

lemma unat_and_mask: "unat (w AND mask n :: 'a::len word) = unat w mod 2 ^ n"
  by (simp add: take_bit_eq_mask [symmetric] unsigned_take_bit_eq take_bit_nat_def)

lemma and_mask_id: "unat w < 2 ^ n \<Longrightarrow> w AND mask n = (w :: 'a::len word)"
  by (simp add: take_bit_eq_mask [symmetric] word_unat_eq_iff unsigned_take_bit_eq
      take_bit_nat_eq_self)

lemma and_push_bit_1: "w AND push_bit n 1 \<noteq> 0 \<longleftrightarrow> bit (w :: 'a::len word) n"
  by (simp only: push_bit_of_1 and_exp_eq_0_iff_not_bit not_not)

lemma unat_of_nat_small: "n < 2 ^ LENGTH('a) \<Longrightarrow> unat (of_nat n :: 'a::len word) = n"
  by (simp add: unsigned_of_nat take_bit_nat_eq_self)

lemma unat_drop_bit: "unat (drop_bit n (w :: 'a::len word)) = unat w div 2 ^ n"
proof -
  have "take_bit LENGTH('a) (unat w) = unat w" by (rule take_bit_nat_eq_self) (rule unsigned_less)
  then show ?thesis by (simp only: unsigned_drop_bit_eq) (simp add: drop_bit_eq_div)
qed

lemma unat_ucast_up:
  assumes "LENGTH('a) \<le> LENGTH('b)"
  shows "unat (ucast (x :: 'a::len word) :: 'b::len word) = unat x"
proof -
  have "unat x < 2 ^ LENGTH('a)" by (rule unsigned_less)
  also have "\<dots> \<le> 2 ^ LENGTH('b)" using assms by (simp add: power_increasing)
  finally show ?thesis by (simp add: unsigned_ucast_eq take_bit_nat_eq_self)
qed

lemma unat_ucast_down:
  assumes "unat x < 2 ^ LENGTH('b)"
  shows "unat (ucast (x :: 'a::len word) :: 'b::len word) = unat x"
  using assms by (simp add: unsigned_ucast_eq take_bit_nat_eq_self)

text \<open>Truncating and sign-extending a value that fits the narrow width gives it back.\<close>

lemma scast_ucast_id:
  fixes v :: "'a::len word"
  assumes len: "LENGTH('b) \<le> LENGTH('a)"
    and lo: "- (2 ^ (LENGTH('b::len) - 1)) \<le> sint v" and hi: "sint v < 2 ^ (LENGTH('b) - 1)"
  shows "scast (ucast v :: 'b word) = v"
proof -
  have "(ucast v :: 'b word) = scast v"
  proof (rule bit_word_eqI)
    fix n
    assume "n < LENGTH('b)"
    then have "n < LENGTH('a) - 1 \<or> n = LENGTH('a) - 1" using len by linarith
    then show "bit (ucast v :: 'b word) n = bit (scast v :: 'b word) n"
      by (auto simp: bit_simps min_def)
  qed
  then have "sint (ucast v :: 'b word) = signed_take_bit (LENGTH('b) - Suc 0) (sint v)"
    by (simp add: signed_scast_eq)
  also have "\<dots> = sint v"
    using lo hi by (intro signed_take_bit_int_eq_self) simp_all
  finally show ?thesis by (simp add: scast_eq)
qed

section \<open>Lemmas: byte encodings\<close>

lemma length_to_le_bytes [simp]: "length (to_le_bytes n w) = n"
  by (simp add: to_le_bytes_def)

lemma to_le_bytes_Nil [simp]: "to_le_bytes n w = [] \<longleftrightarrow> n = 0" "[] = to_le_bytes n w \<longleftrightarrow> n = 0"
  by (auto simp: to_le_bytes_def)

lemma nth_to_le_bytes: "i < n \<Longrightarrow> to_le_bytes n w ! i = ucast (drop_bit (8 * i) w)"
  by (simp add: to_le_bytes_def)

lemma bit_from_le_bytes:
  "bit (from_le_bytes bs :: 'a::len word) i \<longleftrightarrow>
     i < LENGTH('a) \<and> i div 8 < length bs \<and> bit (bs ! (i div 8)) (i mod 8)"
proof (induction bs arbitrary: i)
  case Nil
  then show ?case by simp
next
  case (Cons b bs)
  show ?case
  proof (cases "i < 8")
    case True
    then show ?thesis
      by (auto simp: bit_or_iff bit_push_bit_iff bit_ucast_iff)
  next
    case False
    then have "i div 8 = Suc ((i - 8) div 8)" and "(i - 8) mod 8 = i mod 8"
      by (simp_all add: le_div_geq le_mod_geq)
    moreover have "\<not> bit b i"
      using False by (simp add: bit_word.rep_eq bit_take_bit_iff impossible_bit)
    ultimately show ?thesis
      using False by (auto simp: bit_or_iff bit_push_bit_iff bit_ucast_iff Cons.IH)
  qed
qed

lemma from_to_le_bytes:
  assumes "LENGTH('a) \<le> 8 * n"
  shows "from_le_bytes (to_le_bytes n (w :: 'a::len word)) = w"
proof (rule bit_word_eqI)
  fix i
  assume i: "i < LENGTH('a)"
  then have "i div 8 < n" using assms by auto
  then show "bit (from_le_bytes (to_le_bytes n w) :: 'a word) i = bit w i"
    using i by (simp add: bit_from_le_bytes nth_to_le_bytes bit_ucast_iff bit_drop_bit_eq)
qed

lemma to_from_le_bytes:
  assumes "length bs = n" and "8 * n = LENGTH('a)"
  shows "to_le_bytes n (from_le_bytes bs :: 'a::len word) = bs"
proof (rule nth_equalityI)
  show "length (to_le_bytes n (from_le_bytes bs :: 'a word)) = length bs"
    using assms by simp
next
  fix i
  assume "i < length (to_le_bytes n (from_le_bytes bs :: 'a word))"
  then have i: "i < n" by simp
  show "to_le_bytes n (from_le_bytes bs :: 'a word) ! i = bs ! i"
  proof (rule bit_word_eqI)
    fix j
    assume "j < LENGTH(8)"
    then have j: "j < 8" by simp
    then have "8 * i + j < LENGTH('a)" using i assms by linarith
    then show "bit (to_le_bytes n (from_le_bytes bs :: 'a word) ! i) j = bit (bs ! i) j"
      using i j assms(1)
      by (simp add: nth_to_le_bytes bit_ucast_iff bit_drop_bit_eq bit_from_le_bytes)
  qed
qed

lemma to_le_bytes_inject:
  assumes "to_le_bytes n v = to_le_bytes n (w :: 'a::len word)" and "LENGTH('a) \<le> 8 * n"
  shows "v = w"
  using assms from_to_le_bytes by metis

lemma length_pad_to [simp]: "length (pad_to n bs) = n"
  by (simp add: pad_to_def)

lemma pad_to_id: "length bs = n \<Longrightarrow> pad_to n bs = bs"
  by (simp add: pad_to_def)

section \<open>Lemmas: hash maps\<close>

lemma hm_get_insert [hashmap_simps, simp]:
  "hm_get (hm_insert k v m) j = (if j = k then Some v else hm_get m j)"
  by (simp add: hm_get_def hm_insert_def update_conv')

lemma hm_get_remove [hashmap_simps, simp]:
  "hm_get (hm_remove k m) j = (if j = k then None else hm_get m j)"
  by (simp add: hm_get_def hm_remove_def delete_conv')

lemma hm_get_Nil [hashmap_simps, simp]: "hm_get [] k = None"
  by (simp add: hm_get_def)

lemma hm_get_Cons [hashmap_simps]: "hm_get ((k, v) # m) j = (if j = k then Some v else hm_get m j)"
  by (simp add: hm_get_def)

lemma hm_wf_Nil [simp]: "hm_wf []"
  by (simp add: hm_wf_def)

lemma hm_wf_insert [simp]: "hm_wf m \<Longrightarrow> hm_wf (hm_insert k v m)"
  by (simp add: hm_wf_def hm_insert_def distinct_update)

lemma hm_wf_remove [simp]: "hm_wf m \<Longrightarrow> hm_wf (hm_remove k m)"
  by (simp add: hm_wf_def hm_remove_def distinct_delete)

lemma hm_get_mem: "hm_wf m \<Longrightarrow> (k, v) \<in> set m \<longleftrightarrow> hm_get m k = Some v"
  by (auto simp: hm_wf_def hm_get_def)

section \<open>Lemmas: results with state\<close>

lemma srm_apply [monad_simps]:
  "sret x s = (Inr x, s)"
  "serr e s = (Inl e, s)"
  "sget f s = (Inr (f s), s)"
  "smod g s = (Inr (), g s)"
  "sres r s = (r, s)"
  "sguard P e s = (if P s then (Inr (), s) else (Inl e, s))"
  "sopt e o1 s = (case o1 of None \<Rightarrow> (Inl e, s) | Some y \<Rightarrow> (Inr y, s))"
  by (simp_all add: sret_def serr_def sget_def smod_def sres_def sguard_def sopt_def
      split: option.split)

lemma sbind_apply [monad_simps]:
  "sbind m f s = (case m s of (Inl e, s') \<Rightarrow> (Inl e, s') | (Inr x, s') \<Rightarrow> f x s')"
  by (simp add: sbind_def)

lemma sbind_Inr_iff:
  "sbind m f s = (Inr y, t) \<longleftrightarrow> (\<exists>x s'. m s = (Inr x, s') \<and> f x s' = (Inr y, t))"
  by (auto simp: sbind_def split: prod.splits sum.splits)

lemma sbind_assoc: "sbind (sbind m f) g = sbind m (\<lambda>x. sbind (f x) g)"
  by (rule ext) (simp add: sbind_def split: prod.splits sum.splits)

lemma sret_sbind [simp]: "sbind (sret x) f = f x"
  by (rule ext) (simp add: sbind_def sret_def)

lemma serr_sbind [simp]: "sbind (serr e) f = serr e"
  by (rule ext) (simp add: sbind_def serr_def)

section \<open>What a call keeps of the state\<close>

text \<open>
  A pair of relations between the state before and after: \<open>Q\<close> for a call that returns, \<open>E e\<close>
  for one that fails with \<open>e\<close>. If they compose, a method that is built from calls that keep them
  keeps them too; the rules below follow the shape of the method.
\<close>

definition keeps ::
    "('s \<Rightarrow> 's \<Rightarrow> bool) \<Rightarrow> ('e \<Rightarrow> 's \<Rightarrow> 's \<Rightarrow> bool) \<Rightarrow> ('e + 'a) \<times> 's \<Rightarrow> 's \<Rightarrow> bool" where
  "keeps Q E r s = (case r of (Inl e, t) \<Rightarrow> E e s t | (Inr x, t) \<Rightarrow> Q s t)"

lemma keeps_simps [simp]:
  "keeps Q E (Inr x, t) s = Q s t"
  "keeps Q E (Inl e, t) s = E e s t"
  by (simp_all add: keeps_def)

lemma keeps_same: "keeps Q (\<lambda>_. Q) r s \<longleftrightarrow> Q s (snd r)"
  by (auto simp: keeps_def split: prod.split sum.split)

lemma keeps_if [frame_intros]:
  "(b \<Longrightarrow> keeps Q E (f t) s) \<Longrightarrow> (\<not> b \<Longrightarrow> keeps Q E (g t) s) \<Longrightarrow>
   keeps Q E ((if b then f else g) t) s"
  "(b \<Longrightarrow> keeps Q E x s) \<Longrightarrow> (\<not> b \<Longrightarrow> keeps Q E y s) \<Longrightarrow>
   keeps Q E (if b then x else y) s"
  by simp_all

lemma keeps_case_option [frame_intros]:
  "(o1 = None \<Longrightarrow> keeps Q E (f t) s) \<Longrightarrow> (\<And>v. o1 = Some v \<Longrightarrow> keeps Q E (g v t) s) \<Longrightarrow>
   keeps Q E ((case o1 of None \<Rightarrow> f | Some v \<Rightarrow> g v) t) s"
  "(o1 = None \<Longrightarrow> keeps Q E x s) \<Longrightarrow> (\<And>v. o1 = Some v \<Longrightarrow> keeps Q E (y v) s) \<Longrightarrow>
   keeps Q E (case o1 of None \<Rightarrow> x | Some v \<Rightarrow> y v) s"
  by (simp_all split: option.split)

lemma keeps_mono:
  assumes "keeps Q E r s" and "\<And>t. Q s t \<Longrightarrow> Q' s t" and "\<And>e t. E e s t \<Longrightarrow> E' e s t"
  shows "keeps Q' E' r s"
  using assms by (auto simp: keeps_def split: prod.splits sum.splits)

locale result_frame =
  fixes Q :: "'s \<Rightarrow> 's \<Rightarrow> bool" and E :: "'e \<Rightarrow> 's \<Rightarrow> 's \<Rightarrow> bool"
  assumes Q_refl: "Q s s" and E_refl: "E e s s"
    and Q_trans: "Q s t \<Longrightarrow> Q t u \<Longrightarrow> Q s u"
    and QE_trans: "Q s t \<Longrightarrow> E e t u \<Longrightarrow> E e s u"
begin

lemma pure [frame_intros]:
  "keeps Q E (sret x s) s" "keeps Q E (serr e s) s" "keeps Q E (sget f s) s"
  "keeps Q E (sres r s) s" "keeps Q E (sopt e p s) s" "keeps Q E (sguard P e s) s"
  by (auto simp: monad_simps keeps_def Q_refl E_refl split: option.split sum.split)

lemma bind_eq:
  assumes "keeps Q E (m s) s" and "\<And>x t. m s = (Inr x, t) \<Longrightarrow> keeps Q E (f x t) t"
  shows "keeps Q E (sbind m f s) s"
  using assms
  by (auto simp: monad_simps keeps_def intro: Q_trans QE_trans split: prod.splits sum.splits)

lemma bind [frame_intros]:
  assumes "keeps Q E (m s) s" and "\<And>x t. keeps Q E (f x t) t"
  shows "keeps Q E (sbind m f s) s"
  using assms by (rule bind_eq)

lemma guard: "(P s \<Longrightarrow> keeps Q E (m s) s) \<Longrightarrow> keeps Q E (sbind (sguard P e) (\<lambda>_. m) s) s"
  by (simp add: monad_simps E_refl)

lemma modify [frame_intros]: "Q s (f s) \<Longrightarrow> keeps Q E (smod f s) s"
  by (simp add: monad_simps)

lemma mapM [frame_intros]:
  assumes "\<And>x t. keeps Q E (f x t) t"
  shows "keeps Q E (smapM f xs s) s"
  by (induction xs arbitrary: s) (auto intro!: pure bind assms)

end

end
