(* ===== verification/Isa.thy ===== *)
theory Isa
  imports Prelude
begin

text \<open>
  The instruction set of the PVM (\<open>crates/pvm/src/isa.rs\<close>): opcodes and their six-bit
  numbers, the 32-bit instruction word with its fields, immediates, and the gas table with the
  precomputed lookup the interpreter uses. The lemmas show that encoding and decoding are
  inverse to each other, that immediates survive the trip through the 18-bit field, and that the
  lookup table agrees with \<open>gas_cost\<close> and never charges less than 3.
\<close>

section \<open>Opcodes\<close>

datatype (plugins only: code) opcode =
    Op_Add | Op_Sub | Op_Mul | Op_Div | Op_Mod | Op_And | Op_Or | Op_Xor
  | Op_Wadd | Op_Wsub | Op_Wmul | Op_Wdiv | Op_Wmod | Op_Wand | Op_Wor | Op_Wxor
  | Op_Wnot | Op_Wshift | Op_Addi | Op_Not | Op_Shl | Op_Shr | Op_Sar | Op_Lt
  | Op_Gt | Op_Eq | Op_Slt | Op_Sgt | Op_Load | Op_Store | Op_Push | Op_Pop
  | Op_Wload | Op_Wstore | Op_Wmov | Op_Narrow | Op_Widen | Op_Jmp | Op_Beq | Op_Bne
  | Op_Blt | Op_Bge | Op_Call | Op_Ret | Op_Sload | Op_Sstore | Op_Sdelete | Op_Caller
  | Op_Callvalue | Op_Blockhash | Op_CallExt | Op_Delegate | Op_Create | Op_Selfdestruct | Op_Log | Op_Revert
  | Op_Halt | Op_Poseidon | Op_VerifySig | Op_MerkleVerify | Op_Assert | Op_Memcpy | Op_Weq | Op_Wlt
  | Op_Invalid

definition from_u8 :: "u8 \<Rightarrow> opcode" where
  "from_u8 val =
    (if val = 0x01 then Op_Add
     else if val = 0x02 then Op_Sub
     else if val = 0x03 then Op_Mul
     else if val = 0x04 then Op_Div
     else if val = 0x05 then Op_Mod
     else if val = 0x06 then Op_And
     else if val = 0x07 then Op_Or
     else if val = 0x08 then Op_Xor
     else if val = 0x09 then Op_Wadd
     else if val = 0x0A then Op_Wsub
     else if val = 0x0B then Op_Wmul
     else if val = 0x0C then Op_Wdiv
     else if val = 0x0D then Op_Wmod
     else if val = 0x0E then Op_Addi
     else if val = 0x0F then Op_Not
     else if val = 0x10 then Op_Load
     else if val = 0x11 then Op_Store
     else if val = 0x12 then Op_Push
     else if val = 0x13 then Op_Pop
     else if val = 0x14 then Op_Shl
     else if val = 0x15 then Op_Shr
     else if val = 0x16 then Op_Sar
     else if val = 0x17 then Op_Lt
     else if val = 0x18 then Op_Jmp
     else if val = 0x19 then Op_Beq
     else if val = 0x1A then Op_Bne
     else if val = 0x1B then Op_Blt
     else if val = 0x1C then Op_Bge
     else if val = 0x1D then Op_Call
     else if val = 0x1E then Op_Ret
     else if val = 0x1F then Op_Wnot
     else if val = 0x20 then Op_Sload
     else if val = 0x21 then Op_Sstore
     else if val = 0x22 then Op_Sdelete
     else if val = 0x23 then Op_Caller
     else if val = 0x24 then Op_Callvalue
     else if val = 0x25 then Op_Blockhash
     else if val = 0x26 then Op_CallExt
     else if val = 0x27 then Op_Delegate
     else if val = 0x28 then Op_Create
     else if val = 0x29 then Op_Selfdestruct
     else if val = 0x2A then Op_Log
     else if val = 0x2B then Op_Revert
     else if val = 0x2C then Op_Halt
     else if val = 0x2D then Op_Wand
     else if val = 0x2E then Op_Wor
     else if val = 0x2F then Op_Wxor
     else if val = 0x3A then Op_Wshift
     else if val = 0x30 then Op_Poseidon
     else if val = 0x31 then Op_VerifySig
     else if val = 0x32 then Op_MerkleVerify
     else if val = 0x33 then Op_Gt
     else if val = 0x34 then Op_Eq
     else if val = 0x35 then Op_Slt
     else if val = 0x36 then Op_Sgt
     else if val = 0x37 then Op_Wload
     else if val = 0x38 then Op_Assert
     else if val = 0x39 then Op_Memcpy
     else if val = 0x3B then Op_Wstore
     else if val = 0x3C then Op_Wmov
     else if val = 0x3D then Op_Narrow
     else if val = 0x3E then Op_Widen
     else if val = 0x00 then Op_Weq
     else if val = 0x3F then Op_Wlt
     else Op_Invalid)"

primrec to_u8 :: "opcode \<Rightarrow> u8" where
  "to_u8 Op_Add = 0x01"
| "to_u8 Op_Sub = 0x02"
| "to_u8 Op_Mul = 0x03"
| "to_u8 Op_Div = 0x04"
| "to_u8 Op_Mod = 0x05"
| "to_u8 Op_And = 0x06"
| "to_u8 Op_Or = 0x07"
| "to_u8 Op_Xor = 0x08"
| "to_u8 Op_Wadd = 0x09"
| "to_u8 Op_Wsub = 0x0A"
| "to_u8 Op_Wmul = 0x0B"
| "to_u8 Op_Wdiv = 0x0C"
| "to_u8 Op_Wmod = 0x0D"
| "to_u8 Op_Wand = 0x2D"
| "to_u8 Op_Wor = 0x2E"
| "to_u8 Op_Wxor = 0x2F"
| "to_u8 Op_Wnot = 0x1F"
| "to_u8 Op_Wshift = 0x3A"
| "to_u8 Op_Addi = 0x0E"
| "to_u8 Op_Not = 0x0F"
| "to_u8 Op_Shl = 0x14"
| "to_u8 Op_Shr = 0x15"
| "to_u8 Op_Sar = 0x16"
| "to_u8 Op_Lt = 0x17"
| "to_u8 Op_Gt = 0x33"
| "to_u8 Op_Eq = 0x34"
| "to_u8 Op_Slt = 0x35"
| "to_u8 Op_Sgt = 0x36"
| "to_u8 Op_Load = 0x10"
| "to_u8 Op_Store = 0x11"
| "to_u8 Op_Push = 0x12"
| "to_u8 Op_Pop = 0x13"
| "to_u8 Op_Wload = 0x37"
| "to_u8 Op_Wstore = 0x3B"
| "to_u8 Op_Wmov = 0x3C"
| "to_u8 Op_Narrow = 0x3D"
| "to_u8 Op_Widen = 0x3E"
| "to_u8 Op_Jmp = 0x18"
| "to_u8 Op_Beq = 0x19"
| "to_u8 Op_Bne = 0x1A"
| "to_u8 Op_Blt = 0x1B"
| "to_u8 Op_Bge = 0x1C"
| "to_u8 Op_Call = 0x1D"
| "to_u8 Op_Ret = 0x1E"
| "to_u8 Op_Sload = 0x20"
| "to_u8 Op_Sstore = 0x21"
| "to_u8 Op_Sdelete = 0x22"
| "to_u8 Op_Caller = 0x23"
| "to_u8 Op_Callvalue = 0x24"
| "to_u8 Op_Blockhash = 0x25"
| "to_u8 Op_CallExt = 0x26"
| "to_u8 Op_Delegate = 0x27"
| "to_u8 Op_Create = 0x28"
| "to_u8 Op_Selfdestruct = 0x29"
| "to_u8 Op_Log = 0x2A"
| "to_u8 Op_Revert = 0x2B"
| "to_u8 Op_Halt = 0x2C"
| "to_u8 Op_Poseidon = 0x30"
| "to_u8 Op_VerifySig = 0x31"
| "to_u8 Op_MerkleVerify = 0x32"
| "to_u8 Op_Assert = 0x38"
| "to_u8 Op_Memcpy = 0x39"
| "to_u8 Op_Weq = 0x00"
| "to_u8 Op_Wlt = 0x3F"
| "to_u8 Op_Invalid = 0xFF"

definition is_wide :: "opcode \<Rightarrow> bool" where
  "is_wide op \<longleftrightarrow> op \<in>
    {Op_Wadd, Op_Wsub, Op_Wmul, Op_Wdiv, Op_Wmod, Op_Wand, Op_Wor, Op_Wxor,
     Op_Wnot, Op_Wshift, Op_Wload, Op_Wstore, Op_Wmov, Op_Widen, Op_Callvalue, Op_Blockhash,
     Op_Poseidon}"

definition uses_immediate :: "opcode \<Rightarrow> bool" where
  "uses_immediate op \<longleftrightarrow> op \<in>
    {Op_Addi, Op_Load, Op_Store, Op_Jmp, Op_Beq, Op_Bne, Op_Blt, Op_Bge,
     Op_Call}"

definition ALL_OPCODES :: "opcode list" where
  "ALL_OPCODES =
    [Op_Add, Op_Sub, Op_Mul, Op_Div, Op_Mod, Op_And, Op_Or, Op_Xor,
     Op_Wadd, Op_Wsub, Op_Wmul, Op_Wdiv, Op_Wmod, Op_Wand, Op_Wor, Op_Wxor,
     Op_Wnot, Op_Wshift, Op_Addi, Op_Not, Op_Load, Op_Store, Op_Push, Op_Pop,
     Op_Shl, Op_Shr, Op_Sar, Op_Lt, Op_Jmp, Op_Beq, Op_Bne, Op_Blt,
     Op_Bge, Op_Call, Op_Ret, Op_Sload, Op_Sstore, Op_Sdelete, Op_Caller, Op_Callvalue,
     Op_Blockhash, Op_CallExt, Op_Delegate, Op_Create, Op_Selfdestruct, Op_Log, Op_Revert, Op_Halt,
     Op_Poseidon, Op_VerifySig, Op_MerkleVerify, Op_Gt, Op_Eq, Op_Slt, Op_Sgt, Op_Wload,
     Op_Assert, Op_Memcpy, Op_Wstore, Op_Wmov, Op_Narrow, Op_Widen, Op_Weq, Op_Wlt]"

section \<open>Instruction words\<close>

datatype instruction = Instruction (instr_word: u32)

record decoded_instruction =
  opcode :: opcode
  rd :: u8
  rs1 :: u8
  rs2_or_imm :: u32

definition OPCODE_SHIFT :: nat where "OPCODE_SHIFT = 26"

definition OPCODE_MASK :: u32 where "OPCODE_MASK = 0x3F"

definition RD_SHIFT :: nat where "RD_SHIFT = 22"

definition RD_MASK :: u32 where "RD_MASK = 0x0F"

definition RS1_SHIFT :: nat where "RS1_SHIFT = 18"

definition RS1_MASK :: u32 where "RS1_MASK = 0x0F"

definition RS2_IMM_MASK :: u32 where "RS2_IMM_MASK = 0x3FFFF"

definition GP_REG_COUNT :: nat where "GP_REG_COUNT = 16"

definition WIDE_REG_COUNT :: nat where "WIDE_REG_COUNT = 8"

definition encode :: "opcode \<Rightarrow> u8 \<Rightarrow> u8 \<Rightarrow> u32 \<Rightarrow> instruction" where
  "encode op r s imm = Instruction
     (push_bit OPCODE_SHIFT (ucast (to_u8 op) AND OPCODE_MASK)
      OR push_bit RD_SHIFT (ucast r AND RD_MASK)
      OR push_bit RS1_SHIFT (ucast s AND RS1_MASK)
      OR (imm AND RS2_IMM_MASK))"

definition decode :: "instruction \<Rightarrow> decoded_instruction" where
  "decode instr =
     (let w = instr_word instr;
          opcode_bits = ucast (drop_bit OPCODE_SHIFT w AND OPCODE_MASK)
      in \<lparr>opcode = from_u8 opcode_bits,
          rd = ucast (drop_bit RD_SHIFT w AND RD_MASK),
          rs1 = ucast (drop_bit RS1_SHIFT w AND RS1_MASK),
          rs2_or_imm = w AND RS2_IMM_MASK\<rparr>)"

definition sign_extend_18 :: "u32 \<Rightarrow> i32" where
  "sign_extend_18 raw0 =
     (let raw = raw0 AND RS2_IMM_MASK
      in if raw AND push_bit 17 1 \<noteq> 0 then raw OR NOT RS2_IMM_MASK else raw)"

definition encode_immediate :: "i32 \<Rightarrow> u32 option" where
  "encode_immediate val =
     (if \<not> (- 131072 \<le> sint val \<and> sint val \<le> 131071) then None
      else Some (val AND RS2_IMM_MASK))"

section \<open>Width-encoded memory immediates\<close>

datatype mem_width = W8 | W16 | W32 | W64

primrec mem_width_tag :: "mem_width \<Rightarrow> u32" where
  "mem_width_tag W8 = 0"
| "mem_width_tag W16 = 1"
| "mem_width_tag W32 = 2"
| "mem_width_tag W64 = 3"

definition decode_mem_width :: "u32 \<Rightarrow> mem_width" where
  "decode_mem_width raw =
     (let t = raw AND 0x03
      in if t = 0 then W8 else if t = 1 then W16 else if t = 2 then W32 else if t = 3 then W64
         else W8)"

definition decode_mem_offset :: "u32 \<Rightarrow> i32" where
  "decode_mem_offset raw =
     (let b = drop_bit 2 raw AND 0xFFFF
      in if b AND push_bit 15 1 \<noteq> 0 then b OR 0xFFFF0000 else b)"

definition encode_mem_immediate :: "i32 \<Rightarrow> mem_width \<Rightarrow> u32 option" where
  "encode_mem_immediate offset width =
     (if \<not> (- 32768 \<le> sint offset \<and> sint offset \<le> 32767) then None
      else Some ((push_bit 2 (offset AND 0xFFFF) OR mem_width_tag width) AND RS2_IMM_MASK))"

section \<open>Gas table\<close>

primrec gas_cost :: "opcode \<Rightarrow> u32" where
  "gas_cost Op_Add = 3"
| "gas_cost Op_Sub = 3"
| "gas_cost Op_Mul = 5"
| "gas_cost Op_Div = 8"
| "gas_cost Op_Mod = 8"
| "gas_cost Op_And = 3"
| "gas_cost Op_Or = 3"
| "gas_cost Op_Xor = 3"
| "gas_cost Op_Addi = 3"
| "gas_cost Op_Not = 3"
| "gas_cost Op_Shl = 3"
| "gas_cost Op_Shr = 3"
| "gas_cost Op_Sar = 3"
| "gas_cost Op_Lt = 3"
| "gas_cost Op_Gt = 3"
| "gas_cost Op_Eq = 3"
| "gas_cost Op_Slt = 3"
| "gas_cost Op_Sgt = 3"
| "gas_cost Op_Wadd = 6"
| "gas_cost Op_Wsub = 6"
| "gas_cost Op_Wmul = 12"
| "gas_cost Op_Wdiv = 15"
| "gas_cost Op_Wmod = 15"
| "gas_cost Op_Wand = 4"
| "gas_cost Op_Wor = 4"
| "gas_cost Op_Wxor = 4"
| "gas_cost Op_Wnot = 4"
| "gas_cost Op_Wshift = 4"
| "gas_cost Op_Wmov = 3"
| "gas_cost Op_Narrow = 3"
| "gas_cost Op_Widen = 3"
| "gas_cost Op_Load = 5"
| "gas_cost Op_Store = 5"
| "gas_cost Op_Push = 5"
| "gas_cost Op_Pop = 5"
| "gas_cost Op_Wload = 8"
| "gas_cost Op_Wstore = 8"
| "gas_cost Op_Jmp = 3"
| "gas_cost Op_Beq = 3"
| "gas_cost Op_Bne = 3"
| "gas_cost Op_Blt = 3"
| "gas_cost Op_Bge = 3"
| "gas_cost Op_Call = 50"
| "gas_cost Op_Ret = 5"
| "gas_cost Op_Sload = 100"
| "gas_cost Op_Sstore = 200"
| "gas_cost Op_Sdelete = 200"
| "gas_cost Op_Caller = 5"
| "gas_cost Op_Callvalue = 5"
| "gas_cost Op_Blockhash = 20"
| "gas_cost Op_CallExt = 2500"
| "gas_cost Op_Delegate = 2500"
| "gas_cost Op_Create = 32000"
| "gas_cost Op_Selfdestruct = 5000"
| "gas_cost Op_Log = 375"
| "gas_cost Op_Revert = 3"
| "gas_cost Op_Halt = 3"
| "gas_cost Op_Poseidon = 1000"
| "gas_cost Op_VerifySig = 20000"
| "gas_cost Op_MerkleVerify = 5000"
| "gas_cost Op_Assert = 3"
| "gas_cost Op_Memcpy = 5"
| "gas_cost Op_Weq = 4"
| "gas_cost Op_Wlt = 4"
| "gas_cost Op_Invalid = 0"

definition gas_table_entry :: "u8 \<Rightarrow> u32 option" where
  "gas_table_entry i =
    (if i = 0x00 then Some 4
     else if i = 0x01 then Some 3
     else if i = 0x02 then Some 3
     else if i = 0x03 then Some 5
     else if i = 0x04 then Some 8
     else if i = 0x05 then Some 8
     else if i = 0x06 then Some 3
     else if i = 0x07 then Some 3
     else if i = 0x08 then Some 3
     else if i = 0x09 then Some 6
     else if i = 0x0A then Some 6
     else if i = 0x0B then Some 12
     else if i = 0x0C then Some 15
     else if i = 0x0D then Some 15
     else if i = 0x0E then Some 3
     else if i = 0x0F then Some 3
     else if i = 0x10 then Some 5
     else if i = 0x11 then Some 5
     else if i = 0x12 then Some 5
     else if i = 0x13 then Some 5
     else if i = 0x14 then Some 3
     else if i = 0x15 then Some 3
     else if i = 0x16 then Some 3
     else if i = 0x17 then Some 3
     else if i = 0x18 then Some 3
     else if i = 0x19 then Some 3
     else if i = 0x1A then Some 3
     else if i = 0x1B then Some 3
     else if i = 0x1C then Some 3
     else if i = 0x1D then Some 50
     else if i = 0x1E then Some 5
     else if i = 0x1F then Some 4
     else if i = 0x20 then Some 100
     else if i = 0x21 then Some 200
     else if i = 0x22 then Some 200
     else if i = 0x23 then Some 5
     else if i = 0x24 then Some 5
     else if i = 0x25 then Some 20
     else if i = 0x26 then Some 2500
     else if i = 0x27 then Some 2500
     else if i = 0x28 then Some 32000
     else if i = 0x29 then Some 5000
     else if i = 0x2A then Some 375
     else if i = 0x2B then Some 3
     else if i = 0x2C then Some 3
     else if i = 0x2D then Some 4
     else if i = 0x2E then Some 4
     else if i = 0x2F then Some 4
     else if i = 0x3A then Some 4
     else if i = 0x30 then Some 1000
     else if i = 0x31 then Some 20000
     else if i = 0x32 then Some 5000
     else if i = 0x33 then Some 3
     else if i = 0x34 then Some 3
     else if i = 0x35 then Some 3
     else if i = 0x36 then Some 3
     else if i = 0x37 then Some 8
     else if i = 0x38 then Some 3
     else if i = 0x39 then Some 5
     else if i = 0x3B then Some 8
     else if i = 0x3C then Some 3
     else if i = 0x3D then Some 3
     else if i = 0x3E then Some 3
     else if i = 0x3F then Some 4
     else None)"

definition TOTAL_GAS_TABLE :: "u64 list" where
  "TOTAL_GAS_TABLE =
     map (\<lambda>i. case gas_table_entry (of_nat i) of Some c \<Rightarrow> ucast c | None \<Rightarrow> 0) [0..<64]"

definition total_gas :: "u8 \<Rightarrow> u64" where
  "total_gas opcode_val = TOTAL_GAS_TABLE ! unat (opcode_val AND 0x3F)"

section \<open>Opcode numbers\<close>

lemmas isa_layout = OPCODE_SHIFT_def OPCODE_MASK_def RD_SHIFT_def RD_MASK_def RS1_SHIFT_def
  RS1_MASK_def RS2_IMM_MASK_def

lemma isa_masks:
  "(0x3F :: 'a::len word) = mask 6" "(0x0F :: 'a::len word) = mask 4"
  "(0x3FFFF :: 'a::len word) = mask 18" "(0xFFFF :: 'a::len word) = mask 16"
  "(0x03 :: 'a::len word) = mask 2"
  by (simp_all add: mask_numeral)

lemma from_u8_to_u8: "from_u8 (to_u8 op) = op"
  by (cases op) (simp_all add: from_u8_def)

lemma to_u8_lt_64: "op \<noteq> Op_Invalid \<Longrightarrow> unat (to_u8 op) < 64"
  by (cases op) simp_all

lemma lt_64_cases:
  fixes v :: u8
  assumes "unat v < 64"
  shows "v \<in> set (map of_nat [0..<64])"
proof -
  have "of_nat (unat v) = v" by simp
  with assms show ?thesis
    by (metis atLeastLessThan_iff image_eqI list.set_map set_upt zero_le)
qed

lemma to_u8_from_u8:
  assumes "unat v < 64"
  shows "to_u8 (from_u8 v) = v"
proof -
  have "\<forall>v \<in> set (map of_nat [0..<64]). to_u8 (from_u8 v) = v"
    by (simp add: upt_rec from_u8_def)
  with lt_64_cases [OF assms] show ?thesis by blast
qed

lemma from_u8_valid: "unat v < 64 \<Longrightarrow> from_u8 v \<noteq> Op_Invalid"
  using to_u8_from_u8 [of v] by auto

section \<open>Instruction words: encoding and decoding are inverse\<close>

lemma instr_fields:
  fixes a b c d :: u32
  defines "w \<equiv> push_bit 26 (a AND mask 6) OR push_bit 22 (b AND mask 4)
     OR push_bit 18 (c AND mask 4) OR (d AND mask 18)"
  shows "drop_bit 26 w AND mask 6 = a AND mask 6"
    "drop_bit 22 w AND mask 4 = b AND mask 4"
    "drop_bit 18 w AND mask 4 = c AND mask 4"
    "w AND mask 18 = d AND mask 18"
  unfolding w_def
  by (rule bit_word_eqI; auto simp: bit_simps)+

lemma word_split_fields:
  fixes w :: u32
  shows "push_bit 26 (drop_bit 26 w AND mask 6) OR push_bit 22 (drop_bit 22 w AND mask 4)
     OR push_bit 18 (drop_bit 18 w AND mask 4) OR (w AND mask 18) = w"
proof (rule bit_word_eqI)
  fix i
  assume "i < LENGTH(32)"
  then consider "i < 18" | "18 \<le> i" "i < 22" | "22 \<le> i" "i < 26" | "26 \<le> i" "i < 32"
    by fastforce
  then show "bit (push_bit 26 (drop_bit 26 w AND mask 6) OR push_bit 22 (drop_bit 22 w AND mask 4)
     OR push_bit 18 (drop_bit 18 w AND mask 4) OR (w AND mask 18)) i = bit w i"
    by cases (auto simp: bit_simps)
qed

lemma ucast_ucast_mask:
  fixes x :: u32
  shows "n \<le> 8 \<Longrightarrow> ucast (ucast (x AND mask n) :: u8) = (x AND mask n)"
  by (rule bit_word_eqI) (auto simp: bit_simps)

lemma ucast_u8_u32_u8: "ucast (ucast (x :: u8) :: u32) = x"
  by (rule bit_word_eqI) (auto simp: bit_simps)

lemma and_mask_u8_u32: "unat (x :: u8) < 2 ^ n \<Longrightarrow> (ucast x :: u32) AND mask n = ucast x"
  by (rule and_mask_id) (simp add: unat_ucast_up)

lemma decode_opcode_lt_64:
  fixes w :: u32
  shows "unat (ucast (drop_bit 26 w AND mask 6) :: u8) < 64"
proof -
  have "unat (drop_bit 26 w AND mask 6) < 64"
    using and_mask_lt [of "drop_bit 26 w" 6] by simp
  then show ?thesis by (simp add: unsigned_ucast_eq take_bit_eq_mod)
qed

text \<open>
  Every 32-bit word is a valid instruction and is exactly the encoding of its decoded
  fields: the 64 opcode slots are all assigned, so \<open>decode\<close> never yields \<open>Invalid\<close>, and
  \<open>encode\<close> after \<open>decode\<close> is the identity on instruction words.
\<close>

theorem encode_decode:
  "encode (opcode (decode i)) (rd (decode i)) (rs1 (decode i)) (rs2_or_imm (decode i)) = i
   \<and> opcode (decode i) \<noteq> Op_Invalid"
proof (cases i)
  case (Instruction w)
  have idem: "(x AND mask n) AND mask n = x AND mask n" for x :: u32 and n
    by (simp add: and.assoc)
  have "encode (opcode (decode i)) (rd (decode i)) (rs1 (decode i)) (rs2_or_imm (decode i))
    = Instruction (push_bit 26 (drop_bit 26 w AND mask 6) OR push_bit 22 (drop_bit 22 w AND mask 4)
     OR push_bit 18 (drop_bit 18 w AND mask 4) OR (w AND mask 18))"
    unfolding Instruction encode_def decode_def isa_layout isa_masks Let_def instruction.sel
      decoded_instruction.simps to_u8_from_u8 [OF decode_opcode_lt_64]
    by (simp only: ucast_ucast_mask idem)
  moreover have "opcode (decode i) \<noteq> Op_Invalid"
    unfolding Instruction decode_def isa_layout isa_masks Let_def instruction.sel
      decoded_instruction.simps by (rule from_u8_valid [OF decode_opcode_lt_64])
  ultimately show ?thesis unfolding word_split_fields Instruction by blast
qed

text \<open>
  Decoding an encoded instruction gives back its opcode, both register fields and the
  18-bit field, for every valid opcode and fields within their widths.
\<close>

theorem decode_encode:
  assumes "op \<noteq> Op_Invalid" and "unat r < 16" and "unat s < 16" and "unat imm < 2 ^ 18"
  shows "decode (encode op r s imm) = \<lparr>opcode = op, rd = r, rs1 = s, rs2_or_imm = imm\<rparr>"
proof -
  have "(ucast (to_u8 op) :: u32) AND mask 6 = ucast (to_u8 op)"
    using to_u8_lt_64 [OF assms(1)] by (intro and_mask_u8_u32) simp
  moreover have "(ucast r :: u32) AND mask 4 = ucast r" "(ucast s :: u32) AND mask 4 = ucast s"
    using assms by (intro and_mask_u8_u32; simp)+
  moreover have "imm AND mask 18 = imm"
    using assms(4) by (rule and_mask_id)
  moreover note instr_fields [of "ucast (to_u8 op)" "ucast r" "ucast s" imm]
  ultimately show ?thesis
    unfolding decode_def encode_def isa_layout isa_masks Let_def instruction.sel
    by (simp only: ucast_u8_u32_u8 from_u8_to_u8)
qed

theorem decode_encode_witness:
  "decode (encode Op_Load 3 15 0x3FFFF)
     = \<lparr>opcode = Op_Load, rd = 3, rs1 = 15, rs2_or_imm = 0x3FFFF\<rparr>"
  using decode_encode [of Op_Load 3 15 "0x3FFFF"] by simp

section \<open>Immediates\<close>

lemma sign_extend_18_alt:
  "sign_extend_18 raw =
     (if bit raw 17 then (raw AND mask 18) OR NOT (mask 18) else raw AND mask 18)"
proof -
  have "bit (raw AND mask 18) 17 = bit raw 17" by (simp add: bit_simps)
  then show ?thesis
    unfolding sign_extend_18_def Let_def RS2_IMM_MASK_def isa_masks and_push_bit_1 by simp
qed

lemma decode_mem_offset_alt:
  "decode_mem_offset raw =
     (if bit raw 17 then (drop_bit 2 raw AND mask 16) OR NOT (mask 16)
      else drop_bit 2 raw AND mask 16)"
proof -
  have "bit (drop_bit 2 raw AND mask 16) 15 = bit raw 17" by (simp add: bit_simps)
  moreover have "(0xFFFF0000 :: 32 word) = NOT (mask 16)"
    by (simp add: mask_numeral)
  ultimately show ?thesis
    unfolding decode_mem_offset_def Let_def isa_masks and_push_bit_1 by simp
qed

lemma sign_extend_18_scast: "sign_extend_18 raw = scast (ucast raw :: 18 word)"
proof (rule bit_word_eqI)
  fix i
  assume i: "i < LENGTH(32)"
  show "bit (sign_extend_18 raw) i = bit (scast (ucast raw :: 18 word) :: 32 word) i"
  proof (cases "i < 17")
    case True
    then show ?thesis by (auto simp: sign_extend_18_alt bit_simps min_def)
  next
    case False
    then have "i = 17 \<or> 18 \<le> i" by linarith
    then show ?thesis using i by (auto simp: sign_extend_18_alt bit_simps min_def)
  qed
qed

lemma decode_mem_offset_scast:
  "decode_mem_offset raw = scast (ucast (drop_bit 2 raw) :: 16 word)"
proof (rule bit_word_eqI)
  fix i
  assume i: "i < LENGTH(32)"
  show "bit (decode_mem_offset raw) i = bit (scast (ucast (drop_bit 2 raw) :: 16 word) :: 32 word) i"
  proof (cases "i < 15")
    case True
    then show ?thesis by (auto simp: decode_mem_offset_alt bit_simps min_def)
  next
    case False
    then have "i = 15 \<or> 16 \<le> i" by linarith
    then show ?thesis using i by (auto simp: decode_mem_offset_alt bit_simps min_def)
  qed
qed

lemma ucast_18_mask: "(ucast (raw AND mask 18) :: 18 word) = ucast (raw :: u32)"
  by (rule bit_word_eqI) (auto simp: bit_simps)

lemma mem_field_split:
  fixes off t :: u32
  assumes "unat t < 4"
  defines "raw \<equiv> (push_bit 2 (off AND mask 16) OR t) AND mask 18"
  shows "raw AND mask 2 = t" "(ucast (drop_bit 2 raw) :: 16 word) = ucast off"
proof -
  have "t AND mask 2 = t" using assms(1) by (intro and_mask_id) simp
  then have t: "bit t i \<Longrightarrow> i < 2" for i
    by (metis bit_and_iff bit_mask_iff)
  show "raw AND mask 2 = t"
    unfolding raw_def by (rule bit_word_eqI) (auto simp: bit_simps dest: t)
  show "(ucast (drop_bit 2 raw) :: 16 word) = ucast off"
    unfolding raw_def by (rule bit_word_eqI) (auto simp: bit_simps dest: t)
qed

lemma mem_width_tag_lt: "unat (mem_width_tag wd) < 4"
  by (cases wd) simp_all

lemma sign_extend_encode:
  "encode_immediate v = Some raw \<Longrightarrow> sign_extend_18 raw = v"
  by (auto simp: encode_immediate_def sign_extend_18_scast RS2_IMM_MASK_def isa_masks ucast_18_mask
      intro!: scast_ucast_id split: if_splits)

lemma decode_mem_encode:
  assumes "encode_mem_immediate offset wd = Some raw"
  shows "decode_mem_offset raw = offset \<and> decode_mem_width raw = wd"
proof -
  have rng: "- 32768 \<le> sint offset" "sint offset \<le> 32767"
    and raw: "raw = (push_bit 2 (offset AND mask 16) OR mem_width_tag wd) AND mask 18"
    using assms by (auto simp: encode_mem_immediate_def RS2_IMM_MASK_def isa_masks split: if_splits)
  note split = mem_field_split [OF mem_width_tag_lt [of wd], of offset, folded raw]
  have "decode_mem_offset raw = offset"
    unfolding decode_mem_offset_scast split(2) by (rule scast_ucast_id) (use rng in simp_all)
  moreover have "decode_mem_width raw = wd"
    unfolding decode_mem_width_def isa_masks split(1) Let_def by (cases wd) (simp_all add: mask_numeral)
  ultimately show ?thesis ..
qed

text \<open>
  Signed immediates survive the 18-bit field. Every value \<open>encode_immediate\<close> accepts is read
  back by \<open>sign_extend_18\<close>, and every offset and width \<open>encode_mem_immediate\<close> accepts are
  read back by \<open>decode_mem_offset\<close> and \<open>decode_mem_width\<close>; the encoders accept exactly the
  ranges of 18-bit and 16-bit two's complement.
\<close>

theorem immediate_roundtrip:
  "(case encode_immediate v of
      None \<Rightarrow> sint v < - 131072 \<or> 131071 < sint v
    | Some raw \<Rightarrow> sign_extend_18 raw = v)
   \<and> (case encode_mem_immediate v wd of
        None \<Rightarrow> sint v < - 32768 \<or> 32767 < sint v
      | Some raw \<Rightarrow> decode_mem_offset raw = v \<and> decode_mem_width raw = wd)"
proof (rule conjI)
  show "case encode_immediate v of None \<Rightarrow> sint v < - 131072 \<or> 131071 < sint v
    | Some raw \<Rightarrow> sign_extend_18 raw = v"
    using sign_extend_encode [of v]
    by (auto simp: encode_immediate_def split: option.splits if_splits)
  show "case encode_mem_immediate v wd of None \<Rightarrow> sint v < - 32768 \<or> 32767 < sint v
    | Some raw \<Rightarrow> decode_mem_offset raw = v \<and> decode_mem_width raw = wd"
    using decode_mem_encode [of v wd]
    by (auto simp: encode_mem_immediate_def split: option.splits if_splits)
qed

lemma sint_sign_extend_18: "- 131072 \<le> sint (sign_extend_18 raw)" "sint (sign_extend_18 raw) < 131072"
  using sint_ge [of "ucast raw :: 18 word"] sint_lt [of "ucast raw :: 18 word"]
  by (simp_all add: sign_extend_18_scast signed_scast_eq signed_take_bit_int_eq_self)

section \<open>The gas table\<close>

lemma total_gas_entry:
  "total_gas v = (case gas_table_entry (v AND 0x3F) of Some c \<Rightarrow> ucast c | None \<Rightarrow> 0)"
proof -
  have "unat (v AND 0x3F) < 64"
    using and_mask_lt [of v 6] by (simp add: isa_masks)
  then show ?thesis
    unfolding total_gas_def TOTAL_GAS_TABLE_def by (simp add: nth_upt)
qed

lemma gas_table_entry_from_u8:
  assumes "unat v < 64"
  shows "gas_table_entry v = Some (gas_cost (from_u8 v))"
proof -
  have "\<forall>v \<in> set (map of_nat [0..<64]). gas_table_entry v = Some (gas_cost (from_u8 v))"
    by (simp add: upt_rec from_u8_def gas_table_entry_def)
  with lt_64_cases [OF assms] show ?thesis by blast
qed

lemma gas_cost_ge_3: "op \<noteq> Op_Invalid \<Longrightarrow> 3 \<le> unat (gas_cost op)"
  by (cases op) simp_all

lemma gas_cost_le: "unat (gas_cost op) \<le> 32000"
  by (cases op) simp_all

lemma total_gas_bounds: "3 \<le> unat (total_gas v)" "unat (total_gas v) \<le> 32000"
proof -
  have lt: "unat (v AND 0x3F) < 64"
    using and_mask_lt [of v 6] by (simp add: isa_masks)
  then have "total_gas v = ucast (gas_cost (from_u8 (v AND 0x3F)))"
    by (simp add: total_gas_entry gas_table_entry_from_u8)
  then have "unat (total_gas v) = unat (gas_cost (from_u8 (v AND 0x3F)))"
    using gas_cost_le [of "from_u8 (v AND 0x3F)"]
    by (simp add: unsigned_ucast_eq take_bit_nat_eq_self)
  then show "3 \<le> unat (total_gas v)" "unat (total_gas v) \<le> 32000"
    using gas_cost_ge_3 [OF from_u8_valid [OF lt]] gas_cost_le by simp_all
qed

text \<open>
  The precomputed table the interpreter charges from agrees with \<open>gas_cost\<close> on every valid
  opcode, and every charge is at least 3 and at most 32000 gas; no instruction is free.
\<close>

theorem total_gas_correct:
  "(op \<noteq> Op_Invalid \<longrightarrow> total_gas (to_u8 op) = ucast (gas_cost op))
   \<and> 3 \<le> unat (total_gas v) \<and> unat (total_gas v) \<le> 32000"
proof (intro conjI impI)
  assume "op \<noteq> Op_Invalid"
  then have "unat (to_u8 op) < 64" by (rule to_u8_lt_64)
  then show "total_gas (to_u8 op) = ucast (gas_cost op)"
    using and_mask_id [of "to_u8 op" 6]
    by (simp add: total_gas_entry isa_masks gas_table_entry_from_u8 from_u8_to_u8)
qed (rule total_gas_bounds)+

theorem total_gas_correct_witness:
  "total_gas (to_u8 Op_Create) = 32000 \<and> 3 \<le> unat (total_gas 0xFF)"
  using total_gas_correct [of Op_Create "0xFF"] by simp

end
