(* ===== verification/Cpu.thy ===== *)
theory Cpu
  imports Isa
begin

unbundle bit_operations_syntax

text \<open>
  The register file and the register-to-register instructions (\<open>crates/pvm/src/cpu.rs\<close> and
  \<open>crates/pvm/src/wide.rs\<close>). The arrays \<open>gp: [u64; 16]\<close> and \<open>wide: [U256; 8]\<close> are
  functions from the index; every general-purpose index the code uses is a four-bit field, and
  every wide index is compared with \<open>WIDE_REG_COUNT\<close> or masked before use, so no index leaves
  the array (lemma \<open>decode_reg_bounds\<close>). \<open>alu_spec\<close> states what each arithmetic instruction
  computes on integers, with its trap, and \<open>exec_alu\<close> is shown to implement it.
\<close>

section \<open>Traps\<close>

datatype trap =
    Overflow | Underflow | DivisionByZero | InvalidOpcode | NarrowOverflow | MemoryFault
  | StackOverflow | StackUnderflow | OutOfGas | StaticModeViolation | Reentrancy
  | AccessListViolation

section \<open>256-bit arithmetic\<close>

definition ok_or :: "'a option \<Rightarrow> 'e \<Rightarrow> 'e + 'a" where
  "ok_or x e = (case x of Some v \<Rightarrow> Inr v | None \<Rightarrow> Inl e)"

definition wide_add :: "u256 \<Rightarrow> u256 \<Rightarrow> trap + u256" where
  "wide_add a b = ok_or (checked_add a b) Overflow"

definition wide_sub :: "u256 \<Rightarrow> u256 \<Rightarrow> trap + u256" where
  "wide_sub a b = ok_or (checked_sub a b) Underflow"

definition wide_mul :: "u256 \<Rightarrow> u256 \<Rightarrow> trap + u256" where
  "wide_mul a b = ok_or (checked_mul a b) Overflow"

definition wide_div :: "u256 \<Rightarrow> u256 \<Rightarrow> trap + u256" where
  "wide_div a b = ok_or (checked_div a b) DivisionByZero"

definition wide_mod :: "u256 \<Rightarrow> u256 \<Rightarrow> trap + u256" where
  "wide_mod a b = ok_or (checked_rem a b) DivisionByZero"

definition narrow :: "u256 \<Rightarrow> u64 option" where
  "narrow val = (if val > ucast (- 1 :: u64) then None else Some (ucast val))"

section \<open>Registers\<close>

record cpu =
  gp :: "nat \<Rightarrow> u64"
  wide :: "nat \<Rightarrow> u256"

definition cpu_new :: cpu where
  "cpu_new = \<lparr>gp = (\<lambda>_. 0), wide = (\<lambda>_. 0)\<rparr>"

definition read_gp :: "cpu \<Rightarrow> u8 \<Rightarrow> u64" where
  "read_gp c reg = (if reg = 0 then 0 else gp c (unat reg))"

definition write_gp :: "u8 \<Rightarrow> u64 \<Rightarrow> cpu \<Rightarrow> cpu" where
  "write_gp reg val c = (if reg \<noteq> 0 then c\<lparr>gp := (gp c)(unat reg := val)\<rparr> else c)"

definition read_wide :: "cpu \<Rightarrow> u8 \<Rightarrow> u256" where
  "read_wide c reg = wide c (unat (reg AND 0x07))"

definition write_wide :: "u8 \<Rightarrow> u256 \<Rightarrow> cpu \<Rightarrow> cpu" where
  "write_wide reg val c = c\<lparr>wide := (wide c)(unat (reg AND 0x07) := val)\<rparr>"

definition read_wide_checked :: "cpu \<Rightarrow> u8 \<Rightarrow> trap + u256" where
  "read_wide_checked c reg =
     (if unat reg \<ge> WIDE_REG_COUNT then Inl InvalidOpcode else Inr (wide c (unat reg)))"

definition write_wide_checked :: "u8 \<Rightarrow> u256 \<Rightarrow> (cpu, trap, unit) srm" where
  "write_wide_checked reg val =
     (if unat reg \<ge> WIDE_REG_COUNT then serr InvalidOpcode
      else smod (\<lambda>c. c\<lparr>wide := (wide c)(unat reg := val)\<rparr>))"

section \<open>The arithmetic and logic instructions\<close>

definition sar64 :: "u64 \<Rightarrow> u64 \<Rightarrow> u64" where
  "sar64 a b =
     (if b \<ge> 64 then (if sint a < 0 then - 1 else 0) else signed_drop_bit (unat b) a)"

definition exec_alu :: "instruction \<Rightarrow> (cpu, trap, unit) srm" where
  "exec_alu instr = (\<lambda>c.
     let d = decode instr;
         rs1_val = read_gp c (rs1 d);
         rs2_val = read_gp c (ucast (rs2_or_imm d) AND 0x0F);
         put = (\<lambda>v. smod (write_gp (rd d) v))
     in (if opcode d = Op_Add then sbind (sopt Overflow (checked_add rs1_val rs2_val)) put
         else if opcode d = Op_Sub then sbind (sopt Underflow (checked_sub rs1_val rs2_val)) put
         else if opcode d = Op_Mul then sbind (sopt Overflow (checked_mul rs1_val rs2_val)) put
         else if opcode d = Op_Div then sbind (sopt DivisionByZero (checked_div rs1_val rs2_val)) put
         else if opcode d = Op_Mod then
           (if rs2_val = 0 then serr DivisionByZero else put (rs1_val mod rs2_val))
         else if opcode d = Op_Addi then
           sbind (sopt Overflow (checked_add_signed rs1_val (scast (sign_extend_18 (rs2_or_imm d))))) put
         else if opcode d = Op_And then put (rs1_val AND rs2_val)
         else if opcode d = Op_Or then put (rs1_val OR rs2_val)
         else if opcode d = Op_Xor then put (rs1_val XOR rs2_val)
         else if opcode d = Op_Not then put (NOT rs1_val)
         else if opcode d = Op_Shl then
           put (if rs2_val \<ge> 64 then 0 else push_bit (unat rs2_val) rs1_val)
         else if opcode d = Op_Shr then
           put (if rs2_val \<ge> 64 then 0 else drop_bit (unat rs2_val) rs1_val)
         else if opcode d = Op_Sar then put (sar64 rs1_val rs2_val)
         else if opcode d = Op_Lt then put (if rs1_val < rs2_val then 1 else 0)
         else if opcode d = Op_Gt then put (if rs1_val > rs2_val then 1 else 0)
         else if opcode d = Op_Eq then put (if rs1_val = rs2_val then 1 else 0)
         else if opcode d = Op_Slt then put (if sint rs1_val < sint rs2_val then 1 else 0)
         else if opcode d = Op_Sgt then put (if sint rs1_val > sint rs2_val then 1 else 0)
         else serr InvalidOpcode) c)"

section \<open>The 256-bit instructions\<close>

text \<open>
  The two-operand arms of \<open>exec_wide\<close>: both operands are read with the checked accessor, the
  second from the low eight bits of the immediate field, then the result is written back.
\<close>

definition wide_binop ::
    "decoded_instruction \<Rightarrow> (u256 \<Rightarrow> u256 \<Rightarrow> trap + u256) \<Rightarrow> (cpu, trap, unit) srm" where
  "wide_binop d f =
     (\<lambda>c. sbind (sres (read_wide_checked c (rs1 d))) (\<lambda>ws1.
          sbind (sres (read_wide_checked c (ucast (rs2_or_imm d)))) (\<lambda>ws2.
          sbind (sres (f ws1 ws2)) (\<lambda>result.
          write_wide_checked (rd d) result))) c)"

definition wide_unop ::
    "decoded_instruction \<Rightarrow> (u256 \<Rightarrow> u256) \<Rightarrow> (cpu, trap, unit) srm" where
  "wide_unop d f =
     (\<lambda>c. sbind (sres (read_wide_checked c (rs1 d))) (\<lambda>ws1.
          write_wide_checked (rd d) (f ws1)) c)"

definition wide_cmp ::
    "decoded_instruction \<Rightarrow> (u256 \<Rightarrow> u256 \<Rightarrow> bool) \<Rightarrow> (cpu, trap, unit) srm" where
  "wide_cmp d f =
     (\<lambda>c. sbind (sres (read_wide_checked c (rs1 d))) (\<lambda>ws1.
          sbind (sres (read_wide_checked c (ucast (rs2_or_imm d)))) (\<lambda>ws2.
          smod (write_gp (rd d) (if f ws1 ws2 then 1 else 0)))) c)"

definition wide_shift :: "decoded_instruction \<Rightarrow> cpu \<Rightarrow> u256 \<Rightarrow> u256" where
  "wide_shift d c ws1 =
     (let dir = rs2_or_imm d AND 1;
          shift_reg = ucast (drop_bit 1 (rs2_or_imm d) AND 0xF);
          shift = ucast (read_gp c shift_reg) :: u32
      in if shift \<ge> 256 then 0
         else if dir = 0 then push_bit (unat shift) ws1
         else drop_bit (unat shift) ws1)"

definition exec_wide :: "instruction \<Rightarrow> (cpu, trap, unit) srm" where
  "exec_wide instr = (\<lambda>c.
     let d = decode instr
     in (if opcode d = Op_Wadd then wide_binop d wide_add
         else if opcode d = Op_Wsub then wide_binop d wide_sub
         else if opcode d = Op_Wmul then wide_binop d wide_mul
         else if opcode d = Op_Wdiv then wide_binop d wide_div
         else if opcode d = Op_Wmod then wide_binop d wide_mod
         else if opcode d = Op_Wand then wide_binop d (\<lambda>a b. Inr (a AND b))
         else if opcode d = Op_Wor then wide_binop d (\<lambda>a b. Inr (a OR b))
         else if opcode d = Op_Wxor then wide_binop d (\<lambda>a b. Inr (a XOR b))
         else if opcode d = Op_Wnot then wide_unop d (\<lambda>a. NOT a)
         else if opcode d = Op_Wshift then wide_unop d (wide_shift d c)
         else if opcode d = Op_Wmov then wide_unop d (\<lambda>a. a)
         else if opcode d = Op_Narrow then
           sbind (sres (read_wide_checked c (rs1 d))) (\<lambda>ws1.
           sbind (sopt NarrowOverflow (narrow ws1)) (\<lambda>val.
           smod (write_gp (rd d) val)))
         else if opcode d = Op_Widen then write_wide_checked (rd d) (ucast (read_gp c (rs1 d)))
         else if opcode d = Op_Weq then wide_cmp d (\<lambda>a b. a = b)
         else if opcode d = Op_Wlt then wide_cmp d (\<lambda>a b. a < b)
         else serr InvalidOpcode) c)"

section \<open>What the arithmetic instructions compute\<close>

text \<open>
  The contract of the arithmetic instructions on numbers: operands as naturals, the immediate
  as an integer, the result as a natural below \<open>2 ^ 64\<close> or the trap.
\<close>

definition signed64 :: "nat \<Rightarrow> int" where
  "signed64 n = (if n < 2 ^ 63 then int n else int n - 2 ^ 64)"

definition alu_spec :: "opcode \<Rightarrow> nat \<Rightarrow> nat \<Rightarrow> int \<Rightarrow> trap + nat" where
  "alu_spec op a b imm =
     (if op = Op_Add then (if a + b < 2 ^ 64 then Inr (a + b) else Inl Overflow)
      else if op = Op_Sub then (if b \<le> a then Inr (a - b) else Inl Underflow)
      else if op = Op_Mul then (if a * b < 2 ^ 64 then Inr (a * b) else Inl Overflow)
      else if op = Op_Div then (if b = 0 then Inl DivisionByZero else Inr (a div b))
      else if op = Op_Mod then (if b = 0 then Inl DivisionByZero else Inr (a mod b))
      else if op = Op_Addi then
        (let s = signed64 a + imm
         in if - (2 ^ 63) \<le> s \<and> s < 2 ^ 63 then Inr (nat (s mod 2 ^ 64)) else Inl Overflow)
      else if op = Op_And then Inr (a AND b)
      else if op = Op_Or then Inr (a OR b)
      else if op = Op_Xor then Inr (a XOR b)
      else if op = Op_Not then Inr (2 ^ 64 - 1 - a)
      else if op = Op_Shl then Inr ((a * 2 ^ b) mod 2 ^ 64)
      else if op = Op_Shr then Inr (a div 2 ^ b)
      else if op = Op_Sar then Inr (nat ((signed64 a div 2 ^ b) mod 2 ^ 64))
      else if op = Op_Lt then Inr (of_bool (a < b))
      else if op = Op_Gt then Inr (of_bool (a > b))
      else if op = Op_Eq then Inr (of_bool (a = b))
      else if op = Op_Slt then Inr (of_bool (signed64 a < signed64 b))
      else if op = Op_Sgt then Inr (of_bool (signed64 a > signed64 b))
      else Inl InvalidOpcode)"

section \<open>Lemmas: registers\<close>

lemma read_gp_r0 [simp]: "read_gp c 0 = 0"
  by (simp add: read_gp_def)

lemma read_write_gp:
  "read_gp (write_gp r v c) q = (if q = r \<and> r \<noteq> 0 then v else read_gp c q)"
  by (auto simp: read_gp_def write_gp_def word_unat_eq_iff)

lemma wide_write_gp [simp]: "wide (write_gp r v c) = wide c"
  by (simp add: write_gp_def)

lemma gp_write_wide [simp]: "gp (write_wide r v c) = gp c"
  by (simp add: write_wide_def)

lemma read_gp_write_wide [simp]: "read_gp (write_wide r v c) q = read_gp c q"
  by (simp add: read_gp_def)

lemma decode_reg_bounds: "unat (rd (decode i)) < 16" "unat (rs1 (decode i)) < 16"
proof -
  have *: "unat (ucast (x AND mask 4 :: u32) :: u8) < 16" for x
    using and_mask_lt [of x 4] by (simp add: unat_ucast_down)
  show "unat (rd (decode i)) < 16" "unat (rs1 (decode i)) < 16"
    unfolding decode_def Let_def isa_layout isa_masks decoded_instruction.simps by (rule *)+
qed

section \<open>Lemmas: the arithmetic instructions implement their contract\<close>

lemma sint_signed64: "sint (w :: u64) = signed64 (unat w)"
proof -
  have u: "int (unat w) = uint w" by simp
  have lt: "uint w < 2 ^ 64" using uint_lt2p [of w] by simp
  have nonneg: "0 \<le> uint w" by simp
  have s: "sint w = (uint w + 2 ^ 63) mod 2 ^ 64 - 2 ^ 63"
    by (simp add: sint_uint signed_take_bit_eq_take_bit_shift take_bit_eq_mod)
  show ?thesis
  proof (cases "unat w < 2 ^ 63")
    case True
    then have "uint w < 2 ^ 63" using u
      by (metis of_nat_less_iff of_nat_numeral of_nat_power)
    then have "(uint w + 2 ^ 63) mod 2 ^ 64 = uint w + 2 ^ 63"
      using nonneg by (intro mod_pos_pos_trivial) simp_all
    with s u True show ?thesis by (simp add: signed64_def)
  next
    case False
    then have "2 ^ 63 \<le> uint w" using u
      by (metis of_nat_less_iff of_nat_numeral of_nat_power linorder_not_le)
    then have "(uint w + 2 ^ 63) mod 2 ^ 64 = uint w + 2 ^ 63 - 2 ^ 64"
      using lt by (subst mod_pos_geq) (auto intro: mod_pos_pos_trivial)
    with s u False show ?thesis by (simp add: signed64_def)
  qed
qed

lemma of_nat_unat_word: "(of_nat (unat w) :: 'a::len word) = w"
  by simp

lemma of_int_sint_word: "(of_int (sint w) :: 'a::len word) = w"
  by simp

lemma word_of_nat_mod: "(of_nat (nat (x mod 2 ^ 64)) :: u64) = of_int x"
proof -
  have "(of_nat (nat (x mod 2 ^ 64)) :: u64) = of_int (x mod 2 ^ 64)"
    by (subst of_nat_nat) simp_all
  also have "\<dots> = of_int (take_bit LENGTH(64) x)" by (simp add: take_bit_eq_mod)
  also have "\<dots> = of_int x" by (simp only: word_of_int_eq_iff take_bit_take_bit min.idem)
  finally show ?thesis .
qed

lemma div_neg_small: "- l \<le> k \<Longrightarrow> k < 0 \<Longrightarrow> k div l = - 1" for k l :: int
  by (rule int_div_pos_eq [where r = "k + l"]) auto

lemma shl_word:
  "(of_nat ((unat a * 2 ^ unat b) mod 2 ^ 64) :: u64) =
     (if b \<ge> 64 then 0 else push_bit (unat b) a)" for a b :: u64
proof (cases "b \<ge> 64")
  case True
  then have "64 \<le> unat b" by (simp add: word_le_nat_alt)
  then obtain k where "unat b = 64 + k" using le_Suc_ex by blast
  then have "(unat a * 2 ^ unat b) mod 2 ^ 64 = 0" by (simp add: power_add)
  with True show ?thesis by simp
next
  case False
  have "(of_nat ((unat a * 2 ^ unat b) mod 2 ^ 64) :: u64) = of_nat (unat a * 2 ^ unat b)"
    by (simp only: word_of_nat_eq_iff take_bit_eq_mod) simp
  also have "\<dots> = push_bit (unat b) a"
    by (simp add: push_bit_eq_mult)
  finally show ?thesis using False by simp
qed

lemma shr_word:
  "(of_nat (unat a div 2 ^ unat b) :: u64) = (if b \<ge> 64 then 0 else drop_bit (unat b) a)"
  for a b :: u64
proof (cases "b \<ge> 64")
  case True
  then have "64 \<le> unat b" by (simp add: word_le_nat_alt)
  then have "(2::nat) ^ 64 \<le> 2 ^ unat b" by (intro power_increasing) simp_all
  then have "unat a < 2 ^ unat b" using unat_lt_length [of a] by simp
  with True show ?thesis by simp
next
  case False
  have "unat (drop_bit (unat b) a) = unat a div 2 ^ unat b"
    unfolding unat_drop_bit_eq by (simp add: drop_bit_eq_div)
  then show ?thesis using False by (metis of_nat_unat_word)
qed

lemma sar_word:
  "(of_nat (nat ((sint a div 2 ^ unat b) mod 2 ^ 64)) :: u64) = sar64 a b" for a b :: u64
proof (cases "b \<ge> 64")
  case True
  then have "64 \<le> unat b" by (simp add: word_le_nat_alt)
  then have "(2::int) ^ 64 \<le> 2 ^ unat b" by (intro power_increasing) simp_all
  moreover have "- (2 ^ 63) \<le> sint a" "sint a < 2 ^ 63"
    using sint_ge [of a] sint_lt [of a] by simp_all
  ultimately have "sint a div 2 ^ unat b = (if sint a < 0 then - 1 else 0)"
    by (cases "sint a < 0") (simp_all add: div_neg_small)
  with True show ?thesis
    by (simp only: word_of_nat_mod sar64_def if_True) simp
next
  case False
  have "sint (signed_drop_bit (unat b) a) = sint a div 2 ^ unat b"
    by (simp add: sint_signed_drop_bit_eq drop_bit_eq_div)
  then have "signed_drop_bit (unat b) a = of_int (sint a div 2 ^ unat b)"
    by (metis of_int_sint_word)
  with False show ?thesis by (simp only: word_of_nat_mod sar64_def if_False)
qed

text \<open>The word each arithmetic instruction writes, before the register is updated.\<close>

definition alu_word :: "opcode \<Rightarrow> u64 \<Rightarrow> u64 \<Rightarrow> u64 \<Rightarrow> trap + u64" where
  "alu_word op a b imm =
     (if op = Op_Add then ok_or (checked_add a b) Overflow
      else if op = Op_Sub then ok_or (checked_sub a b) Underflow
      else if op = Op_Mul then ok_or (checked_mul a b) Overflow
      else if op = Op_Div then ok_or (checked_div a b) DivisionByZero
      else if op = Op_Mod then (if b = 0 then Inl DivisionByZero else Inr (a mod b))
      else if op = Op_Addi then ok_or (checked_add_signed a imm) Overflow
      else if op = Op_And then Inr (a AND b)
      else if op = Op_Or then Inr (a OR b)
      else if op = Op_Xor then Inr (a XOR b)
      else if op = Op_Not then Inr (NOT a)
      else if op = Op_Shl then Inr (if b \<ge> 64 then 0 else push_bit (unat b) a)
      else if op = Op_Shr then Inr (if b \<ge> 64 then 0 else drop_bit (unat b) a)
      else if op = Op_Sar then Inr (sar64 a b)
      else if op = Op_Lt then Inr (if a < b then 1 else 0)
      else if op = Op_Gt then Inr (if a > b then 1 else 0)
      else if op = Op_Eq then Inr (if a = b then 1 else 0)
      else if op = Op_Slt then Inr (if sint a < sint b then 1 else 0)
      else if op = Op_Sgt then Inr (if sint a > sint b then 1 else 0)
      else Inl InvalidOpcode)"

lemma exec_alu_word:
  "exec_alu i c =
     (case alu_word (opcode (decode i)) (read_gp c (rs1 (decode i)))
             (read_gp c (ucast (rs2_or_imm (decode i)) AND 0x0F))
             (scast (sign_extend_18 (rs2_or_imm (decode i)))) of
        Inl t \<Rightarrow> (Inl t, c)
      | Inr v \<Rightarrow> (Inr (), write_gp (rd (decode i)) v c))"
  unfolding exec_alu_def alu_word_def Let_def
  by (simp add: monad_simps ok_or_def split: option.split)

lemma alu_word_arith:
  fixes a b :: u64
  shows "ok_or (checked_add a b) Overflow = map_sum id of_nat (alu_spec Op_Add (unat a) (unat b) i)"
    "ok_or (checked_sub a b) Underflow = map_sum id of_nat (alu_spec Op_Sub (unat a) (unat b) i)"
    "ok_or (checked_mul a b) Overflow = map_sum id of_nat (alu_spec Op_Mul (unat a) (unat b) i)"
    "ok_or (checked_div a b) DivisionByZero
       = map_sum id of_nat (alu_spec Op_Div (unat a) (unat b) i)"
    "(if b = 0 then Inl DivisionByZero else Inr (a mod b))
       = map_sum id of_nat (alu_spec Op_Mod (unat a) (unat b) i)"
  by (simp_all add: ok_or_def checked_add_def checked_sub_def checked_mul_def checked_div_def
      alu_spec_def word_le_nat_alt of_nat_diff unat_eq_0 word_arith_nat_div word_arith_nat_mod)

lemma alu_word_bits:
  fixes a b :: u64
  shows "a AND b = of_nat (unat a AND unat b)" "a OR b = of_nat (unat a OR unat b)"
    "a XOR b = of_nat (unat a XOR unat b)" "NOT a = of_nat (2 ^ 64 - 1 - unat a)"
proof -
  show "a AND b = of_nat (unat a AND unat b)" "a OR b = of_nat (unat a OR unat b)"
    "a XOR b = of_nat (unat a XOR unat b)"
    by (metis of_nat_unat_word unsigned_and_eq unsigned_or_eq unsigned_xor_eq)+
  have "unat a \<le> 2 ^ 64 - 1" using unat_lt_length [of a] by simp
  then show "NOT a = of_nat (2 ^ 64 - 1 - unat a)"
    by (subst of_nat_diff) (simp_all add: not_eq_complement)
qed

lemma alu_word_addi:
  fixes a imm :: u64
  shows "ok_or (checked_add_signed a imm) Overflow
     = map_sum id of_nat (alu_spec Op_Addi (unat a) b (sint imm))"
  using word_of_nat_mod [of "sint a + sint imm"]
  by (simp add: ok_or_def checked_add_signed_def alu_spec_def Let_def sint_signed64 [symmetric])

lemma alu_word_spec:
  "alu_word op a b imm = map_sum id of_nat (alu_spec op (unat a) (unat b) (sint imm))"
proof (cases op)
  case Op_Shl
  then show ?thesis by (simp add: alu_word_def alu_spec_def shl_word [symmetric] del: of_nat_mod)
next
  case Op_Shr
  then show ?thesis by (simp add: alu_word_def alu_spec_def shr_word [symmetric])
next
  case Op_Sar
  then show ?thesis
    by (simp add: alu_word_def alu_spec_def sar_word [symmetric] sint_signed64 [symmetric])
qed (simp_all add: alu_word_def alu_word_arith alu_word_addi alu_word_bits,
     simp_all add: alu_spec_def sint_signed64 word_less_nat_alt word_unat_eq_iff)

lemma nat_bitop_bounds:
  fixes a b :: u64
  shows "unat a AND unat b < 2 ^ 64" "unat a OR unat b < 2 ^ 64" "unat a XOR unat b < 2 ^ 64"
  using unat_lt_length [of "a AND b"] unat_lt_length [of "a OR b"] unat_lt_length [of "a XOR b"]
  by (simp_all add: unsigned_and_eq unsigned_or_eq unsigned_xor_eq)

lemma nat_mod_bound: "nat (x mod 2 ^ 64) < 2 ^ 64"
proof -
  have "x mod 2 ^ 64 < (2 ^ 64 :: int)" "0 \<le> x mod (2 ^ 64 :: int)" by simp_all
  then show ?thesis by simp
qed

lemma alu_spec_bound:
  fixes a b :: u64
  assumes "alu_spec op (unat a) (unat b) imm = Inr v"
  shows "v < 2 ^ 64"
proof -
  have a: "unat a < 2 ^ 64" using unat_lt_length [of a] by simp
  have one: "Suc 0 < 2 ^ 64" by simp
  have q: "unat a div x < 2 ^ 64" "unat a mod unat b < 2 ^ 64" "unat a - x < 2 ^ 64" for x
    using a le_less_trans [OF div_le_dividend a] le_less_trans [OF mod_less_eq_dividend a]
    by simp_all
  show ?thesis
    using assms a
    by (cases op) (auto simp: alu_spec_def Let_def nat_bitop_bounds nat_mod_bound q one
        split: if_splits simp del: power_numeral)
qed

text \<open>
  The arithmetic and logic instructions of \<open>exec_alu\<close> compute exactly what their contract on numbers says.
  For every instruction word and register file, \<open>exec_alu\<close> either writes the contract's result
  (a number below \<open>2 ^ 64\<close>) to the destination register, or returns the contract's trap and
  leaves every register unchanged; in particular \<open>Add\<close>, \<open>Sub\<close> and \<open>Mul\<close> trap exactly when the
  true result does not fit, division and remainder trap exactly on a zero divisor, and shifts by
  64 or more give what shifting one position at a time would give.
\<close>

theorem exec_alu_refines:
  fixes i c
  defines "spec \<equiv> alu_spec (opcode (decode i)) (unat (read_gp c (rs1 (decode i))))
       (unat (read_gp c (ucast (rs2_or_imm (decode i)) AND 0x0F)))
       (sint (sign_extend_18 (rs2_or_imm (decode i))))"
  shows "exec_alu i c =
      (case spec of
         Inl t \<Rightarrow> (Inl t, c)
       | Inr v \<Rightarrow> (Inr (), write_gp (rd (decode i)) (of_nat v) c))
    \<and> (case spec of Inl t \<Rightarrow> True | Inr v \<Rightarrow> v < 2 ^ 64)"
proof
  have imm: "sint (scast (sign_extend_18 (rs2_or_imm (decode i))) :: u64)
      = sint (sign_extend_18 (rs2_or_imm (decode i)))"
    by (simp add: sint_up_scast is_up)
  show "exec_alu i c =
      (case spec of Inl t \<Rightarrow> (Inl t, c)
       | Inr v \<Rightarrow> (Inr (), write_gp (rd (decode i)) (of_nat v) c))"
    unfolding exec_alu_word alu_word_spec imm spec_def [symmetric]
    by (simp split: sum.split)
  show "case spec of Inl t \<Rightarrow> True | Inr v \<Rightarrow> v < 2 ^ 64"
    unfolding spec_def using alu_spec_bound by (fastforce split: sum.split)
qed

section \<open>Lemmas: the 256-bit instructions\<close>

lemma write_wide_checked_apply:
  "write_wide_checked r v c =
     (if unat r \<ge> WIDE_REG_COUNT then (Inl InvalidOpcode, c)
      else (Inr (), c\<lparr>wide := (wide c)(unat r := v)\<rparr>))"
  by (simp add: write_wide_checked_def monad_simps)

text \<open>The frame of a 256-bit instruction, for its decoded fields and its result.\<close>

definition wide_frame ::
    "decoded_instruction \<Rightarrow> cpu \<Rightarrow> (trap + unit) \<times> cpu \<Rightarrow> bool" where
  "wide_frame d c res =
     (case res of
        (Inl t, c') \<Rightarrow> c' = c
      | (Inr u, c') \<Rightarrow>
          (opcode d \<in> {Op_Narrow, Op_Weq, Op_Wlt} \<and> wide c' = wide c)
          \<or> (gp c' = gp c \<and> unat (rd d) < WIDE_REG_COUNT
              \<and> (\<forall>r. r \<noteq> unat (rd d) \<longrightarrow> wide c' r = wide c r)))"

lemma wide_frame_err: "wide_frame d c (Inl t, c)"
  by (simp add: wide_frame_def)

lemma wide_frame_write: "wide_frame d c (write_wide_checked (rd d) v c)"
  by (simp add: wide_frame_def write_wide_checked_apply not_le)

lemma wide_frame_gp:
  "opcode d \<in> {Op_Narrow, Op_Weq, Op_Wlt} \<Longrightarrow> wide_frame d c (Inr u, write_gp r v c)"
  by (simp add: wide_frame_def)

lemma wide_frame_binop: "wide_frame d c (wide_binop d f c)"
  by (simp add: wide_binop_def monad_simps wide_frame_err wide_frame_write split: sum.split)

lemma wide_frame_unop: "wide_frame d c (wide_unop d f c)"
  by (simp add: wide_unop_def monad_simps wide_frame_err wide_frame_write split: sum.split)

lemma wide_frame_cmp: "opcode d \<in> {Op_Weq, Op_Wlt} \<Longrightarrow> wide_frame d c (wide_cmp d f c)"
  by (auto simp add: wide_cmp_def monad_simps wide_frame_err wide_frame_gp split: sum.split)

lemma exec_wide_frame: "wide_frame (decode i) c (exec_wide i c)"
  unfolding exec_wide_def Let_def
  by (simp add: wide_frame_binop wide_frame_unop wide_frame_cmp wide_frame_write)
    (simp add: monad_simps wide_frame_err wide_frame_gp split: sum.split option.split)

text \<open>
  A 256-bit instruction either succeeds or traps without changing any register, and it never
  touches a wide register outside \<open>w0\<close> to \<open>w7\<close>: every instruction with a wide destination
  whose index is 8 or more traps.
\<close>

theorem exec_wide_atomic:
  "(case exec_wide i c of
      (Inl t, c') \<Rightarrow> c' = c
    | (Inr u, c') \<Rightarrow>
        (opcode (decode i) \<in> {Op_Narrow, Op_Weq, Op_Wlt} \<and> wide c' = wide c)
        \<or> (gp c' = gp c \<and> unat (rd (decode i)) < WIDE_REG_COUNT
            \<and> (\<forall>r. r = unat (rd (decode i)) \<or> wide c' r = wide c r)))"
  using exec_wide_frame [of i c]
  by (auto simp: wide_frame_def split: prod.splits sum.splits)

end
