(* ===== verification/Memory.thy ===== *)
theory Memory
  imports Cpu
begin

unbundle bit_operations_syntax

text \<open>
  The linear memory of the PVM (\<open>crates/pvm/src/memory.rs\<close>): 4 MB in lazily allocated 4 KB
  pages, a trapping null page, a write-protected code section, a heap that grows upwards and a
  stack that grows downwards, and gas for the first touch of a page. A page is a function from
  the offset to the byte, the page table a function from the page number; the methods that may
  fail return the memory they leave behind, since the page gas charged before a write-protection
  error stays charged.
\<close>

section \<open>Layout\<close>

definition MEMORY_SIZE :: nat where "MEMORY_SIZE = 4 * 1024 * 1024"

definition PAGE_SIZE :: nat where "PAGE_SIZE = 4096"

definition PAGE_COUNT :: nat where "PAGE_COUNT = MEMORY_SIZE div PAGE_SIZE"

definition NULL_PAGE_END :: u32 where "NULL_PAGE_END = 0x001000"

definition CODE_START :: u32 where "CODE_START = 0x001000"

definition CODE_END :: u32 where "CODE_END = 0x010000"

definition HEAP_START :: u32 where "HEAP_START = 0x010000"

definition STACK_TOP :: u32 where "STACK_TOP = of_nat MEMORY_SIZE"

definition PAGE_ALLOC_GAS :: u64 where "PAGE_ALLOC_GAS = 200"

datatype memory_error =
    NullPageAccess u32 | OutOfBounds u32 | CodeWriteProtected u32 | HeapStackCollision

definition trap_of_memory_error :: "memory_error \<Rightarrow> trap" where
  "trap_of_memory_error e =
     (case e of
        NullPageAccess _ \<Rightarrow> MemoryFault
      | OutOfBounds _ \<Rightarrow> MemoryFault
      | CodeWriteProtected _ \<Rightarrow> MemoryFault
      | HeapStackCollision \<Rightarrow> MemoryFault)"

type_synonym page = "nat \<Rightarrow> u8"

record memory =
  pages :: "nat \<Rightarrow> page option"
  pages_touched :: "nat \<Rightarrow> bool"
  page_gas_used :: u64
  heap_top :: u32
  stack_pointer :: u32
  code_end :: u32

definition memory_new :: memory where
  "memory_new =
     \<lparr>pages = (\<lambda>_. None), pages_touched = (\<lambda>_. False), page_gas_used = 0,
      heap_top = HEAP_START, stack_pointer = STACK_TOP, code_end = CODE_START\<rparr>"

section \<open>Bytes\<close>

definition ensure_page :: "nat \<Rightarrow> memory \<Rightarrow> page" where
  "ensure_page page_idx m = (case pages m page_idx of Some p \<Rightarrow> p | None \<Rightarrow> (\<lambda>_. 0))"

definition read_byte :: "memory \<Rightarrow> u32 \<Rightarrow> u8" where
  "read_byte m addr =
     (let page_idx = unat addr div PAGE_SIZE;
          offset = unat addr mod PAGE_SIZE
      in case pages m page_idx of Some p \<Rightarrow> p offset | None \<Rightarrow> 0)"

definition write_byte :: "u32 \<Rightarrow> u8 \<Rightarrow> memory \<Rightarrow> memory" where
  "write_byte addr val m =
     (let page_idx = unat addr div PAGE_SIZE;
          offset = unat addr mod PAGE_SIZE
      in m\<lparr>pages := (pages m)(page_idx \<mapsto> (ensure_page page_idx m)(offset := val))\<rparr>)"

definition read_bytes :: "memory \<Rightarrow> u32 \<Rightarrow> nat \<Rightarrow> bytes" where
  "read_bytes m addr n = map (\<lambda>i. read_byte m (addr + of_nat i)) [0..<n]"

definition write_bytes :: "u32 \<Rightarrow> bytes \<Rightarrow> memory \<Rightarrow> memory" where
  "write_bytes addr data m =
     fold (\<lambda>(i, b). write_byte (addr + of_nat i) b) (enumerate 0 data) m"

definition load_code :: "bytes \<Rightarrow> (memory, memory_error, unit) srm" where
  "load_code bytecode =
     (let e = unat CODE_START + length bytecode
      in if e > unat CODE_END then serr (OutOfBounds (of_nat e))
         else smod (\<lambda>m. (write_bytes CODE_START bytecode m)\<lparr>code_end := of_nat e\<rparr>))"

section \<open>Access checks and page gas\<close>

definition touch_page :: "nat \<Rightarrow> memory \<Rightarrow> memory" where
  "touch_page p m =
     (if \<not> pages_touched m p
      then m\<lparr>pages_touched := (pages_touched m)(p := True),
             page_gas_used := page_gas_used m + PAGE_ALLOC_GAS\<rparr>
      else m)"

definition check_access :: "u32 \<Rightarrow> u32 \<Rightarrow> (memory, memory_error, unit) srm" where
  "check_access addr len =
     (if addr < NULL_PAGE_END then serr (NullPageAccess addr)
      else sbind (sopt (OutOfBounds addr) (checked_add addr len)) (\<lambda>e.
        if unat e > MEMORY_SIZE then serr (OutOfBounds addr)
        else
          (let first_page = unat addr div PAGE_SIZE;
               last_page = (unat e - 1) div PAGE_SIZE
           in smod (fold touch_page [first_page..<Suc last_page]))))"

definition check_writable :: "u32 \<Rightarrow> (memory, memory_error, unit) srm" where
  "check_writable addr =
     (if CODE_START \<le> addr \<and> addr < CODE_END then serr (CodeWriteProtected addr) else sret ())"

section \<open>Heap and stack\<close>

definition heap_alloc :: "u32 \<Rightarrow> (memory, memory_error, u32) srm" where
  "heap_alloc n = (\<lambda>m.
     sbind (sopt (OutOfBounds (heap_top m)) (checked_add (heap_top m) n)) (\<lambda>new_top.
     if new_top > stack_pointer m then serr HeapStackCollision
     else sbind (smod (\<lambda>m. m\<lparr>heap_top := new_top\<rparr>)) (\<lambda>_. sret (heap_top m))) m)"

definition stack_alloc :: "u32 \<Rightarrow> (memory, memory_error, u32) srm" where
  "stack_alloc n = (\<lambda>m.
     sbind (sopt HeapStackCollision (checked_sub (stack_pointer m) n)) (\<lambda>new_sp.
     if new_sp < heap_top m then serr HeapStackCollision
     else sbind (smod (\<lambda>m. m\<lparr>stack_pointer := new_sp\<rparr>)) (\<lambda>_. sret new_sp)) m)"

section \<open>Loads and stores\<close>

definition load_bytes :: "memory \<Rightarrow> nat \<Rightarrow> nat \<Rightarrow> bytes" where
  "load_bytes m addr len = map (\<lambda>i. read_byte m (of_nat (addr + i))) [0..<len]"

text \<open>
  \<open>read_byte\<close> above is the read inside of the memory: the page table has \<open>PAGE_COUNT\<close> entries and the
  source panics on an index beyond it. Loads and stores check the range first. \<open>load_bytes\<close> of the
  source does not; \<open>load_bytes_or_panic\<close> is that method with its panic, which is \<open>None\<close>.
\<close>

definition load_bytes_or_panic :: "memory \<Rightarrow> nat \<Rightarrow> nat \<Rightarrow> bytes option" where
  "load_bytes_or_panic m addr len =
     (if list_all (\<lambda>i. unat (of_nat (addr + i) :: u32) div PAGE_SIZE < PAGE_COUNT) [0..<len]
      then Some (load_bytes m addr len) else None)"

definition load8 :: "u32 \<Rightarrow> (memory, memory_error, u8) srm" where
  "load8 addr = sbind (check_access addr 1) (\<lambda>_. sget (\<lambda>m. read_byte m addr))"

definition store8 :: "u32 \<Rightarrow> u8 \<Rightarrow> (memory, memory_error, unit) srm" where
  "store8 addr val =
     sbind (check_access addr 1) (\<lambda>_. sbind (check_writable addr) (\<lambda>_.
     smod (write_byte addr val)))"

definition load16 :: "u32 \<Rightarrow> (memory, memory_error, u16) srm" where
  "load16 addr =
     sbind (check_access addr 2) (\<lambda>_. sget (\<lambda>m. from_le_bytes (read_bytes m addr 2)))"

definition store16 :: "u32 \<Rightarrow> u16 \<Rightarrow> (memory, memory_error, unit) srm" where
  "store16 addr val =
     sbind (check_access addr 2) (\<lambda>_. sbind (check_writable addr) (\<lambda>_.
     smod (write_bytes addr (to_le_bytes 2 val))))"

definition load32 :: "u32 \<Rightarrow> (memory, memory_error, u32) srm" where
  "load32 addr =
     sbind (check_access addr 4) (\<lambda>_. sget (\<lambda>m. from_le_bytes (read_bytes m addr 4)))"

definition store32 :: "u32 \<Rightarrow> u32 \<Rightarrow> (memory, memory_error, unit) srm" where
  "store32 addr val =
     sbind (check_access addr 4) (\<lambda>_. sbind (check_writable addr) (\<lambda>_.
     smod (write_bytes addr (to_le_bytes 4 val))))"

definition load64 :: "u32 \<Rightarrow> (memory, memory_error, u64) srm" where
  "load64 addr =
     sbind (check_access addr 8) (\<lambda>_. sget (\<lambda>m. from_le_bytes (read_bytes m addr 8)))"

definition store64 :: "u32 \<Rightarrow> u64 \<Rightarrow> (memory, memory_error, unit) srm" where
  "store64 addr val =
     sbind (check_access addr 8) (\<lambda>_. sbind (check_writable addr) (\<lambda>_.
     smod (write_bytes addr (to_le_bytes 8 val))))"

definition load256 :: "u32 \<Rightarrow> (memory, memory_error, bytes) srm" where
  "load256 addr = sbind (check_access addr 32) (\<lambda>_. sget (\<lambda>m. read_bytes m addr 32))"

definition store256 :: "u32 \<Rightarrow> bytes \<Rightarrow> (memory, memory_error, unit) srm" where
  "store256 addr val =
     sbind (check_access addr 32) (\<lambda>_. sbind (check_writable addr) (\<lambda>_.
     smod (write_bytes addr val)))"

definition read_slice :: "memory \<Rightarrow> u32 \<Rightarrow> nat \<Rightarrow> bytes" where
  "read_slice m addr len = read_bytes m addr len"

definition checked_read_slice :: "u32 \<Rightarrow> nat \<Rightarrow> (memory, memory_error, bytes) srm" where
  "checked_read_slice addr len =
     (if len = 0 then sret []
      else if len > MEMORY_SIZE then serr (OutOfBounds addr)
      else sbind (check_access addr (of_nat len)) (\<lambda>_. sget (\<lambda>m. read_slice m addr len)))"

definition checked_write_slice :: "u32 \<Rightarrow> bytes \<Rightarrow> (memory, memory_error, unit) srm" where
  "checked_write_slice addr data =
     (if data = [] then sret ()
      else if length data > MEMORY_SIZE then serr (OutOfBounds addr)
      else sbind (check_access addr (of_nat (length data))) (\<lambda>_.
           sbind (check_writable addr) (\<lambda>_. smod (write_bytes addr data))))"

definition fetch_code_u32 :: "memory \<Rightarrow> u32 \<Rightarrow> u32" where
  "fetch_code_u32 m addr =
     from_le_bytes [read_byte m addr, read_byte m (addr + 1), read_byte m (addr + 2),
                    read_byte m (addr + 3)]"

definition pages_allocated :: "memory \<Rightarrow> nat" where
  "pages_allocated m = length (filter (pages_touched m) [0..<PAGE_COUNT])"

definition pages_materialized :: "memory \<Rightarrow> nat" where
  "pages_materialized m = length (filter (\<lambda>p. pages m p \<noteq> None) [0..<PAGE_COUNT])"

section \<open>The byte store interface\<close>

text \<open>
  What the rest of the memory relies on of the page table: a byte written is the byte read
  back, and no other address changes. Multi-byte reads and writes are proved on this interface
  alone, and the paged memory is one instance of it.
\<close>

locale byte_store =
  fixes peek :: "'m \<Rightarrow> u32 \<Rightarrow> u8"
    and poke :: "u32 \<Rightarrow> u8 \<Rightarrow> 'm \<Rightarrow> 'm"
  assumes peek_poke: "peek (poke a v m) x = (if x = a then v else peek m x)"
begin

lemma peek_poke_seq:
  assumes "unat a + k + length data \<le> 2 ^ 32"
  shows "peek (fold (\<lambda>(i, b). poke (a + of_nat i) b) (enumerate k data) m) x =
     (if unat a + k \<le> unat x \<and> unat x < unat a + k + length data
      then data ! (unat x - unat a - k) else peek m x)"
  using assms
proof (induction data arbitrary: k m)
  case Nil
  then show ?case by auto
next
  case (Cons b bs)
  have k: "unat (a + of_nat k) = unat a + k"
    using Cons.prems by (simp add: unat_word_ariths unat_of_nat)
  then have eq: "x = a + of_nat k \<longleftrightarrow> unat x = unat a + k"
    by (metis word_unat_eq_iff)
  show ?case
    using Cons.prems
    by (auto simp: Cons.IH peek_poke eq nth_Cons')
qed

lemma peek_seq_self:
  assumes "unat a + length data \<le> 2 ^ 32"
  shows "map (\<lambda>i. peek (fold (\<lambda>(i, b). poke (a + of_nat i) b) (enumerate 0 data) m) (a + of_nat i))
           [0..<length data] = data"
proof (rule nth_equalityI)
  fix i
  assume "i < length (map (\<lambda>i. peek (fold (\<lambda>(i, b). poke (a + of_nat i) b) (enumerate 0 data) m)
    (a + of_nat i)) [0..<length data])"
  then have i: "i < length data" by simp
  then have "unat (a + of_nat i) = unat a + i"
    using assms by (simp add: unat_word_ariths unat_of_nat)
  then show "map (\<lambda>i. peek (fold (\<lambda>(i, b). poke (a + of_nat i) b) (enumerate 0 data) m)
      (a + of_nat i)) [0..<length data] ! i = data ! i"
    using i assms by (simp add: peek_poke_seq)
qed simp

end

lemma read_write_byte: "read_byte (write_byte a v m) x = (if x = a then v else read_byte m x)"
proof (cases "x = a")
  case True
  then show ?thesis by (simp add: read_byte_def write_byte_def Let_def)
next
  case False
  then have "unat x \<noteq> unat a" by (simp add: word_unat_eq_iff)
  then have "unat x div PAGE_SIZE \<noteq> unat a div PAGE_SIZE \<or> unat x mod PAGE_SIZE \<noteq> unat a mod PAGE_SIZE"
    by (metis div_mult_mod_eq)
  with False show ?thesis
    by (auto simp: read_byte_def write_byte_def ensure_page_def Let_def split: option.split)
qed

interpretation paged: byte_store read_byte write_byte
  by unfold_locales (rule read_write_byte)

section \<open>Lemmas: bytes and pages\<close>

lemma read_byte_cong [simp]:
  "read_byte (m\<lparr>pages_touched := t\<rparr>) a = read_byte m a"
  "read_byte (m\<lparr>page_gas_used := g\<rparr>) a = read_byte m a"
  "read_byte (m\<lparr>heap_top := h\<rparr>) a = read_byte m a"
  "read_byte (m\<lparr>stack_pointer := h\<rparr>) a = read_byte m a"
  "read_byte (m\<lparr>code_end := h\<rparr>) a = read_byte m a"
  by (simp_all add: read_byte_def)

lemma read_byte_write_bytes:
  assumes "unat a + length data \<le> 2 ^ 32"
  shows "read_byte (write_bytes a data m) x =
     (if unat a \<le> unat x \<and> unat x < unat a + length data then data ! (unat x - unat a)
      else read_byte m x)"
  using paged.peek_poke_seq [of a 0 data m x] assms by (simp add: write_bytes_def)

lemma read_bytes_write_bytes:
  assumes "unat a + length data \<le> 2 ^ 32"
  shows "read_bytes (write_bytes a data m) a (length data) = data"
  using paged.peek_seq_self [OF assms, of m] by (simp add: read_bytes_def write_bytes_def)

lemma length_read_bytes [simp]: "length (read_bytes m a n) = n"
  by (simp add: read_bytes_def)

definition mem_frame :: "memory \<Rightarrow> (nat \<Rightarrow> bool) \<times> u64 \<times> u32 \<times> u32 \<times> u32" where
  "mem_frame m = (pages_touched m, page_gas_used m, heap_top m, stack_pointer m, code_end m)"

lemma mem_frame_write_byte [simp]: "mem_frame (write_byte a v m) = mem_frame m"
  by (simp add: mem_frame_def write_byte_def Let_def)

lemma mem_frame_write_bytes [simp]: "mem_frame (write_bytes a data m) = mem_frame m"
proof -
  have "mem_frame (fold (\<lambda>(i, b). write_byte (a + of_nat i) b) xs m) = mem_frame m" for xs
    by (induction xs arbitrary: m) auto
  then show ?thesis by (simp add: write_bytes_def)
qed

lemma write_bytes_fields [simp]:
  "pages_touched (write_bytes a data m) = pages_touched m"
  "page_gas_used (write_bytes a data m) = page_gas_used m"
  "heap_top (write_bytes a data m) = heap_top m"
  "stack_pointer (write_bytes a data m) = stack_pointer m"
  "code_end (write_bytes a data m) = code_end m"
  using mem_frame_write_bytes [of a data m] by (simp_all add: mem_frame_def)

section \<open>Lemmas: page gas\<close>

lemma touch_page_fields [simp]:
  "pages (touch_page p m) = pages m" "heap_top (touch_page p m) = heap_top m"
  "stack_pointer (touch_page p m) = stack_pointer m" "code_end (touch_page p m) = code_end m"
  "read_byte (touch_page p m) a = read_byte m a"
  by (simp_all add: touch_page_def)

lemma touch_pages_fields [simp]:
  "pages (fold touch_page ps m) = pages m" "heap_top (fold touch_page ps m) = heap_top m"
  "stack_pointer (fold touch_page ps m) = stack_pointer m"
  "code_end (fold touch_page ps m) = code_end m"
  "read_byte (fold touch_page ps m) a = read_byte m a"
  by (induction ps arbitrary: m) auto

lemma pages_touched_touch_pages:
  "pages_touched (fold touch_page ps m) p \<longleftrightarrow> pages_touched m p \<or> p \<in> set ps"
  by (induction ps arbitrary: m) (auto simp: touch_page_def)

lemma page_gas_touch_pages:
  "distinct ps \<Longrightarrow>
   page_gas_used (fold touch_page ps m) =
     page_gas_used m + of_nat (length (filter (\<lambda>p. \<not> pages_touched m p) ps)) * PAGE_ALLOC_GAS"
proof (induction ps arbitrary: m)
  case Nil
  then show ?case by simp
next
  case (Cons p ps)
  have "filter (\<lambda>q. \<not> pages_touched (touch_page p m) q) ps = filter (\<lambda>q. \<not> pages_touched m q) ps"
    using Cons.prems by (intro filter_cong) (auto simp: touch_page_def)
  then show ?case
    using Cons by (simp add: algebra_simps) (simp add: touch_page_def)
qed

lemma check_access_cases:
  obtains (err) e where "check_access addr len m = (Inl e, m)"
  | (ok) "NULL_PAGE_END \<le> addr" "unat addr + unat len \<le> MEMORY_SIZE"
      "check_access addr len m =
         (Inr (), fold touch_page
            [unat addr div PAGE_SIZE..<Suc ((unat addr + unat len - 1) div PAGE_SIZE)] m)"
proof (cases "addr < NULL_PAGE_END")
  case True
  then show ?thesis using err by (simp add: check_access_def monad_simps)
next
  case False
  show ?thesis
  proof (cases "checked_add addr len")
    case None
    with False show ?thesis using err by (simp add: check_access_def monad_simps)
  next
    case (Some e)
    note e = checked_add_SomeD [OF Some]
    show ?thesis
    proof (cases "unat e > MEMORY_SIZE")
      case True
      with False Some show ?thesis using err by (simp add: check_access_def monad_simps)
    next
      case le: False
      show ?thesis
        by (rule ok) (use False Some le e in
            \<open>simp_all add: check_access_def monad_simps Let_def not_less\<close>)
    qed
  qed
qed

lemma check_access_ok_iff:
  "check_access addr len m = (Inr (), m') \<longleftrightarrow>
     NULL_PAGE_END \<le> addr \<and> unat addr + unat len \<le> MEMORY_SIZE \<and>
     m' = fold touch_page
       [unat addr div PAGE_SIZE..<Suc ((unat addr + unat len - 1) div PAGE_SIZE)] m"
proof (rule check_access_cases [of addr len m])
  fix e
  assume e: "check_access addr len m = (Inl e, m)"
  have "\<not> (NULL_PAGE_END \<le> addr \<and> unat addr + unat len \<le> MEMORY_SIZE)"
  proof
    assume *: "NULL_PAGE_END \<le> addr \<and> unat addr + unat len \<le> MEMORY_SIZE"
    then have "checked_add addr len = Some (addr + len)" and "unat (addr + len) = unat addr + unat len"
      by (simp_all add: checked_add_def MEMORY_SIZE_def unat_add_lem [symmetric])
    moreover have "\<not> addr < NULL_PAGE_END" using * by auto
    ultimately show False using * e by (simp add: check_access_def monad_simps Let_def)
  qed
  with e show ?thesis by auto
next
  assume "NULL_PAGE_END \<le> addr" "unat addr + unat len \<le> MEMORY_SIZE"
    "check_access addr len m =
         (Inr (), fold touch_page
            [unat addr div PAGE_SIZE..<Suc ((unat addr + unat len - 1) div PAGE_SIZE)] m)"
  then show ?thesis by auto
qed

text \<open>An access that passes the check stays within the page table, and so does a read below the end.\<close>

lemma check_access_pages:
  assumes "check_access addr len m = (Inr (), m')" "i < unat len"
  shows "unat (addr + of_nat i) div PAGE_SIZE < PAGE_COUNT"
proof -
  have "unat addr + unat len \<le> MEMORY_SIZE" using assms(1) by (simp add: check_access_ok_iff)
  then have "unat addr + i < MEMORY_SIZE" using assms(2) by simp
  moreover from this have "unat (addr + of_nat i) = unat addr + i"
    by (subst unat_add_lem [THEN iffD1]) (simp_all add: MEMORY_SIZE_def unat_of_nat)
  ultimately show ?thesis by (simp add: MEMORY_SIZE_def PAGE_COUNT_def PAGE_SIZE_def)
qed

lemma load_bytes_in_range:
  assumes "addr + len \<le> MEMORY_SIZE"
  shows "load_bytes_or_panic m addr len = Some (load_bytes m addr len)"
proof -
  have "unat (of_nat (addr + i) :: u32) div PAGE_SIZE < PAGE_COUNT" if "i < len" for i
  proof -
    have "unat (of_nat (addr + i) :: u32) = addr + i"
      using that assms by (intro unat_of_nat_small) (simp add: MEMORY_SIZE_def)
    then show ?thesis using that assms by (simp only:) (simp add: MEMORY_SIZE_def PAGE_COUNT_def PAGE_SIZE_def)
  qed
  then show ?thesis by (simp add: load_bytes_or_panic_def list_all_iff del: of_nat_add)
qed

lemma check_access_err: "check_access addr len m = (Inl e, m') \<Longrightarrow> m' = m"
  by (rule check_access_cases [of addr len m]) auto

text \<open>Every store is a bounds check, a protection check and a write of the value's bytes.\<close>

definition guarded_write :: "u32 \<Rightarrow> bytes \<Rightarrow> (memory, memory_error, unit) srm" where
  "guarded_write addr data =
     sbind (check_access addr (of_nat (length data))) (\<lambda>_. sbind (check_writable addr) (\<lambda>_.
     smod (write_bytes addr data)))"

lemma write_byte_write_bytes: "write_byte a v = write_bytes a [v]"
  by (rule ext) (simp add: write_bytes_def)

lemma stores_guarded_write:
  "store8 a v8 = guarded_write a [v8]"
  "store16 a v16 = guarded_write a (to_le_bytes 2 v16)"
  "store32 a v32 = guarded_write a (to_le_bytes 4 v32)"
  "store64 a v64 = guarded_write a (to_le_bytes 8 v64)"
  "length bs = 32 \<Longrightarrow> store256 a bs = guarded_write a bs"
  "checked_write_slice a data =
     (if data = [] then sret () else if length data > MEMORY_SIZE then serr (OutOfBounds a)
      else guarded_write a data)"
  by (simp_all add: store8_def store16_def store32_def store64_def store256_def
      checked_write_slice_def guarded_write_def write_byte_write_bytes)

lemma guarded_write_cases:
  assumes "length data \<le> MEMORY_SIZE"
  obtains (unchanged) e where "guarded_write addr data m = (Inl e, m)"
  | (protected) e ps where "guarded_write addr data m = (Inl e, fold touch_page ps m)"
  | (ok) ps where "NULL_PAGE_END \<le> addr" "unat addr + length data \<le> MEMORY_SIZE"
      "\<not> (CODE_START \<le> addr \<and> addr < CODE_END)"
      "guarded_write addr data m = (Inr (), write_bytes addr data (fold touch_page ps m))"
proof (rule check_access_cases [of addr "of_nat (length data)" m])
  fix e
  assume "check_access addr (of_nat (length data)) m = (Inl e, m)"
  then show ?thesis using unchanged by (simp add: guarded_write_def monad_simps)
next
  let ?ps = "[unat addr div PAGE_SIZE..<
    Suc ((unat addr + unat (of_nat (length data) :: u32) - 1) div PAGE_SIZE)]"
  assume *: "NULL_PAGE_END \<le> addr" "unat addr + unat (of_nat (length data) :: u32) \<le> MEMORY_SIZE"
    "check_access addr (of_nat (length data)) m = (Inr (), fold touch_page ?ps m)"
  have "unat (of_nat (length data) :: u32) = length data"
    using assms by (simp add: unat_of_nat MEMORY_SIZE_def)
  then have "unat addr + length data \<le> MEMORY_SIZE" using *(2) by simp
  show ?thesis
  proof (cases "CODE_START \<le> addr \<and> addr < CODE_END")
    case True
    with *(3) show ?thesis
      using protected by (simp add: guarded_write_def check_writable_def monad_simps)
  next
    case False
    with *(3) have "guarded_write addr data m
        = (Inr (), write_bytes addr data (fold touch_page ?ps m))"
      by (simp add: guarded_write_def check_writable_def monad_simps)
    with ok *(1) False \<open>unat addr + length data \<le> MEMORY_SIZE\<close> show ?thesis by blast
  qed
qed

lemma guarded_write_read:
  assumes "guarded_write a data m = (Inr (), m')" and "data \<noteq> []" and "length data \<le> MEMORY_SIZE"
  shows "read_bytes m' a (length data) = data"
    and "NULL_PAGE_END \<le> a" and "unat a + length data \<le> MEMORY_SIZE"
    and "\<exists>m''. check_access a (of_nat (length data)) m' = (Inr (), m'') \<and> read_byte m'' = read_byte m'"
proof -
  obtain ps where *: "NULL_PAGE_END \<le> a" "unat a + length data \<le> MEMORY_SIZE"
    "m' = write_bytes a data (fold touch_page ps m)"
    using guarded_write_cases [OF assms(3), of a m] assms(1) by (metis Inl_Inr_False prod.inject)
  then show "read_bytes m' a (length data) = data"
    by (simp add: read_bytes_write_bytes MEMORY_SIZE_def)
  show "NULL_PAGE_END \<le> a" "unat a + length data \<le> MEMORY_SIZE" by (fact *)+
  have "unat (of_nat (length data) :: u32) = length data"
    using assms(3) by (simp add: unat_of_nat MEMORY_SIZE_def)
  with *(1,2) show "\<exists>m''. check_access a (of_nat (length data)) m' = (Inr (), m'')
      \<and> read_byte m'' = read_byte m'"
    by (auto simp: check_access_ok_iff)
qed

lemma load_after_guarded_write:
  assumes "guarded_write a data m = (Inr (), m')" "data \<noteq> []" "length data \<le> MEMORY_SIZE"
    and f: "\<And>n n'. read_byte n = read_byte n' \<Longrightarrow> f n = f n'"
  shows "fst (sbind (check_access a (of_nat (length data))) (\<lambda>_. sget f) m') = Inr (f m')"
proof -
  obtain m'' where "check_access a (of_nat (length data)) m' = (Inr (), m'')"
    and "read_byte m'' = read_byte m'"
    using guarded_write_read(4) [OF assms(1-3)] by blast
  then show ?thesis using f [of m'' m'] by (simp add: monad_simps)
qed

text \<open>
  A value stored is the value loaded back. After a successful store of any width, the load
  of the same width at the same address succeeds and returns the stored value.
\<close>

theorem store_load_roundtrip:
  "(store8 a v8 m = (Inr (), m1) \<longrightarrow> fst (load8 a m1) = Inr v8) \<and>
   (store16 a v16 m = (Inr (), m2) \<longrightarrow> fst (load16 a m2) = Inr v16) \<and>
   (store32 a v32 m = (Inr (), m3) \<longrightarrow> fst (load32 a m3) = Inr v32) \<and>
   (store64 a v64 m = (Inr (), m4) \<longrightarrow> fst (load64 a m4) = Inr v64) \<and>
   (store256 a (to_le_bytes 32 v256) m = (Inr (), m5) \<longrightarrow>
      fst (load256 a m5) = Inr (to_le_bytes 32 (v256 :: u256)))"
proof -
  have sz: "32 \<le> MEMORY_SIZE" by (simp add: MEMORY_SIZE_def)
  note ld = load_after_guarded_write [of a _ m] and rdb = guarded_write_read(1) [of a _ m]
  have 1: "store8 a v8 m = (Inr (), m1) \<Longrightarrow> fst (load8 a m1) = Inr v8"
    using ld [of "[v8]" m1 "\<lambda>m. read_byte m a"] rdb [of "[v8]" m1] sz
    by (simp add: stores_guarded_write load8_def read_bytes_def)
  have 2: "store16 a v16 m = (Inr (), m2) \<Longrightarrow> fst (load16 a m2) = Inr v16"
    using ld [of "to_le_bytes 2 v16" m2 "\<lambda>m. from_le_bytes (read_bytes m a 2) :: u16"]
      rdb [of "to_le_bytes 2 v16" m2] sz
    by (simp add: stores_guarded_write load16_def from_to_le_bytes read_bytes_def
        flip: length_greater_0_conv)
  have 3: "store32 a v32 m = (Inr (), m3) \<Longrightarrow> fst (load32 a m3) = Inr v32"
    using ld [of "to_le_bytes 4 v32" m3 "\<lambda>m. from_le_bytes (read_bytes m a 4) :: u32"]
      rdb [of "to_le_bytes 4 v32" m3] sz
    by (simp add: stores_guarded_write load32_def from_to_le_bytes read_bytes_def
        flip: length_greater_0_conv)
  have 4: "store64 a v64 m = (Inr (), m4) \<Longrightarrow> fst (load64 a m4) = Inr v64"
    using ld [of "to_le_bytes 8 v64" m4 "\<lambda>m. from_le_bytes (read_bytes m a 8) :: u64"]
      rdb [of "to_le_bytes 8 v64" m4] sz
    by (simp add: stores_guarded_write load64_def from_to_le_bytes read_bytes_def
        flip: length_greater_0_conv)
  have 5: "store256 a (to_le_bytes 32 v256) m = (Inr (), m5) \<Longrightarrow>
      fst (load256 a m5) = Inr (to_le_bytes 32 v256)"
    using ld [of "to_le_bytes 32 v256" m5 "\<lambda>m. read_bytes m a 32"]
      rdb [of "to_le_bytes 32 v256" m5] sz
    by (simp add: stores_guarded_write load256_def read_bytes_def flip: length_greater_0_conv)
  show ?thesis using 1 2 3 4 5 by blast
qed

theorem store_load_roundtrip_witness:
  "fst (load64 0x3FFFF8 (snd (store64 0x3FFFF8 0xDEADBEEF memory_new))) = Inr 0xDEADBEEF"
proof -
  have "store64 0x3FFFF8 0xDEADBEEF memory_new
      = (Inr (), snd (store64 0x3FFFF8 0xDEADBEEF memory_new))"
    by (simp add: store64_def check_access_def check_writable_def monad_simps checked_add_def
        NULL_PAGE_END_def MEMORY_SIZE_def CODE_START_def CODE_END_def Let_def)
  then show ?thesis
    using store_load_roundtrip [of "0x3FFFF8" _ memory_new _ _ _ _ _ "0xDEADBEEF"
        "snd (store64 0x3FFFF8 0xDEADBEEF memory_new)"] by blast
qed

section \<open>Lemmas: code protection, page gas and the heap-stack boundary\<close>

lemma guarded_write_code:
  assumes "length data \<le> MEMORY_SIZE" and "CODE_START \<le> x" and "x < CODE_END"
  shows "read_byte (snd (guarded_write a data m)) x = read_byte m x"
proof (rule guarded_write_cases [OF assms(1), of a m])
  fix e
  assume "guarded_write a data m = (Inl e, m)"
  then show ?thesis by simp
next
  fix e ps
  assume "guarded_write a data m = (Inl e, fold touch_page ps m)"
  then show ?thesis by simp
next
  fix ps
  assume *: "NULL_PAGE_END \<le> a" "unat a + length data \<le> MEMORY_SIZE"
    "\<not> (CODE_START \<le> a \<and> a < CODE_END)"
    "guarded_write a data m = (Inr (), write_bytes a data (fold touch_page ps m))"
  then have "CODE_END \<le> a" by (auto simp: NULL_PAGE_END_def CODE_START_def)
  with assms(3) have "unat x < unat a" by (meson le_less_trans not_le word_less_nat_alt)
  with * show ?thesis by (simp add: read_byte_write_bytes MEMORY_SIZE_def)
qed

text \<open>
  The code section is read-only. No store of any width and no bulk write, whether it
  succeeds or fails and however far it reaches, changes a byte of the code section.
\<close>

theorem code_section_readonly:
  assumes "CODE_START \<le> x" and "x < CODE_END"
  shows "read_byte (snd (store8 a v8 m)) x = read_byte m x
    \<and> read_byte (snd (store16 a v16 m)) x = read_byte m x
    \<and> read_byte (snd (store32 a v32 m)) x = read_byte m x
    \<and> read_byte (snd (store64 a v64 m)) x = read_byte m x
    \<and> read_byte (snd (store256 a (to_le_bytes 32 (v256 :: u256)) m)) x = read_byte m x
    \<and> read_byte (snd (checked_write_slice a data m)) x = read_byte m x"
  using guarded_write_code [OF _ assms]
  by (auto simp: stores_guarded_write monad_simps MEMORY_SIZE_def not_less)

theorem code_section_readonly_witness:
  "read_byte (snd (checked_write_slice 0x1000 [1, 2, 3]
     (snd (load_code [0x2C, 0, 0, 0xB0] memory_new)))) 0x1003 = 0xB0"
proof -
  have "read_byte (snd (load_code [0x2C, 0, 0, 0xB0] memory_new)) 0x1003 = 0xB0"
    by (simp add: load_code_def Let_def monad_simps CODE_START_def CODE_END_def
        read_byte_write_bytes)
  then show ?thesis
    using code_section_readonly [of "0x1003" "0x1000" _ "snd (load_code [0x2C, 0, 0, 0xB0] memory_new)"
        _ _ _ _ "[1, 2, 3]"]
    by (simp add: CODE_START_def CODE_END_def)
qed

text \<open>
  Memory accesses are bounds-checked and metered exactly. \<open>check_access\<close> succeeds precisely
  when the range lies above the null page and below 4 MB; it then charges 200 gas for each page
  of the range not touched before, marks exactly these pages and stays inside the page table;
  when it fails nothing is charged.
\<close>

theorem check_access_meters:
  assumes "len \<noteq> 0"
  shows "case check_access addr len m of
      (Inl e, m') \<Rightarrow> m' = m \<and> (addr < NULL_PAGE_END \<or> MEMORY_SIZE < unat addr + unat len)
    | (Inr u, m') \<Rightarrow>
        NULL_PAGE_END \<le> addr \<and> unat addr + unat len \<le> MEMORY_SIZE
        \<and> (unat addr + unat len - 1) div PAGE_SIZE < PAGE_COUNT
        \<and> page_gas_used m' = page_gas_used m
            + PAGE_ALLOC_GAS * of_nat (card {p. \<not> pages_touched m p \<and> pages_touched m' p})
        \<and> (\<forall>p. pages_touched m' p \<longleftrightarrow> pages_touched m p \<or>
             (unat addr div PAGE_SIZE \<le> p \<and> p \<le> (unat addr + unat len - 1) div PAGE_SIZE))"
proof (rule check_access_cases [of addr len m])
  fix e
  assume e: "check_access addr len m = (Inl e, m)"
  then have "\<not> (NULL_PAGE_END \<le> addr \<and> unat addr + unat len \<le> MEMORY_SIZE)"
    using check_access_ok_iff [of addr len m] by auto
  with e show ?thesis by auto
next
  let ?ps = "[unat addr div PAGE_SIZE..<Suc ((unat addr + unat len - 1) div PAGE_SIZE)]"
  assume *: "NULL_PAGE_END \<le> addr" "unat addr + unat len \<le> MEMORY_SIZE"
    "check_access addr len m = (Inr (), fold touch_page ?ps m)"
  have "{p. \<not> pages_touched m p \<and> pages_touched (fold touch_page ?ps m) p}
      = set (filter (\<lambda>p. \<not> pages_touched m p) ?ps)"
    by (auto simp: pages_touched_touch_pages)
  then have "card {p. \<not> pages_touched m p \<and> pages_touched (fold touch_page ?ps m) p}
      = length (filter (\<lambda>p. \<not> pages_touched m p) ?ps)"
    by (simp only: distinct_card distinct_filter distinct_upt)
  moreover have "page_gas_used (fold touch_page ?ps m) = page_gas_used m
      + of_nat (length (filter (\<lambda>p. \<not> pages_touched m p) ?ps)) * PAGE_ALLOC_GAS"
    by (rule page_gas_touch_pages) simp
  moreover have "(unat addr + unat len - 1) div PAGE_SIZE < PAGE_COUNT"
  proof -
    have "0 < unat len" using assms by (simp add: unat_gt_0)
    then have "unat addr + unat len - 1 < MEMORY_SIZE" using *(2) by linarith
    then show ?thesis by (simp add: PAGE_COUNT_def PAGE_SIZE_def MEMORY_SIZE_def div_less_mono)
  qed
  ultimately show ?thesis
    using * by (simp add: pages_touched_touch_pages less_Suc_eq_le mult.commute del: upt_Suc)
qed

theorem check_access_meters_witness:
  "page_gas_used (snd (check_access 0x10FFF 2 memory_new)) = 400"
  using check_access_meters [of 2 memory_new "0x10FFF"]
  by (simp add: check_access_def monad_simps checked_add_def NULL_PAGE_END_def MEMORY_SIZE_def
      PAGE_SIZE_def Let_def touch_page_def PAGE_ALLOC_GAS_def memory_new_def upt_rec)

definition heap_stack_ok :: "memory \<Rightarrow> bool" where
  "heap_stack_ok m \<longleftrightarrow>
     HEAP_START \<le> heap_top m \<and> heap_top m \<le> stack_pointer m \<and> stack_pointer m \<le> STACK_TOP"

lemma heap_stack_ok_new: "heap_stack_ok memory_new"
  by (simp add: heap_stack_ok_def memory_new_def HEAP_START_def STACK_TOP_def MEMORY_SIZE_def)

lemma heap_alloc_ok:
  assumes "heap_stack_ok m" and "heap_alloc n m = (r, m')"
  shows "heap_stack_ok m'"
  using assms
  by (auto simp: heap_alloc_def monad_simps heap_stack_ok_def word_le_nat_alt word_less_nat_alt
      checked_add_def unat_add_lem [THEN iffD1] split: option.splits if_splits)

lemma stack_alloc_ok:
  assumes "heap_stack_ok m" and "stack_alloc n m = (r, m')"
  shows "heap_stack_ok m'"
  using assms
  by (auto simp: stack_alloc_def monad_simps heap_stack_ok_def word_le_nat_alt word_less_nat_alt
      checked_sub_def unat_sub split: option.splits if_splits)

section \<open>What the memory operations keep\<close>

text \<open>
  Every operation the instructions use leaves the code section, its end and the order of heap
  and stack alone.
\<close>

definition mem_step :: "memory \<Rightarrow> memory \<Rightarrow> bool" where
  "mem_step m m' \<longleftrightarrow>
     (\<forall>x. CODE_START \<le> x \<and> x < CODE_END \<longrightarrow> read_byte m' x = read_byte m x)
     \<and> code_end m' = code_end m \<and> (heap_stack_ok m \<longrightarrow> heap_stack_ok m')"

lemma mem_step_refl [simp]: "mem_step m m"
  by (simp add: mem_step_def)

lemma mem_step_trans: "mem_step m m' \<Longrightarrow> mem_step m' m'' \<Longrightarrow> mem_step m m''"
  by (simp add: mem_step_def)

interpretation mem_frame: result_frame mem_step "\<lambda>_. mem_step"
  by unfold_locales (auto intro: mem_step_trans)

lemma mem_step_page_gas [simp]: "mem_step m (m\<lparr>page_gas_used := g\<rparr>)"
  by (simp add: mem_step_def heap_stack_ok_def)

lemma mem_step_check_access [frame_intros]: "keeps mem_step (\<lambda>_. mem_step) (check_access a n m) m"
  by (rule check_access_cases [of a n m]) (auto simp: mem_step_def heap_stack_ok_def)

lemma mem_step_loads [frame_intros]:
  "keeps mem_step (\<lambda>_. mem_step) (load8 a m) m" "keeps mem_step (\<lambda>_. mem_step) (load16 a m) m"
  "keeps mem_step (\<lambda>_. mem_step) (load32 a m) m" "keeps mem_step (\<lambda>_. mem_step) (load64 a m) m"
  "keeps mem_step (\<lambda>_. mem_step) (load256 a m) m"
  "keeps mem_step (\<lambda>_. mem_step) (checked_read_slice a n m) m"
  unfolding load8_def load16_def load32_def load64_def load256_def checked_read_slice_def
  by (intro frame_intros)+

lemma mem_step_guarded_write:
  assumes "length data \<le> MEMORY_SIZE"
  shows "keeps mem_step (\<lambda>_. mem_step) (guarded_write a data m) m"
proof -
  have "heap_stack_ok (snd (guarded_write a data m)) = heap_stack_ok m
      \<and> code_end (snd (guarded_write a data m)) = code_end m"
    by (rule guarded_write_cases [OF assms, of a m]) (auto simp: heap_stack_ok_def)
  then have "mem_step m (snd (guarded_write a data m))"
    using guarded_write_code [OF assms] by (simp add: mem_step_def)
  then show ?thesis by (simp add: keeps_same)
qed

lemma mem_step_stores [frame_intros]:
  "keeps mem_step (\<lambda>_. mem_step) (store8 a v8 m) m" "keeps mem_step (\<lambda>_. mem_step) (store16 a v16 m) m"
  "keeps mem_step (\<lambda>_. mem_step) (store32 a v32 m) m" "keeps mem_step (\<lambda>_. mem_step) (store64 a v64 m) m"
  "keeps mem_step (\<lambda>_. mem_step) (store256 a (to_le_bytes 32 (v256 :: u256)) m) m"
  "keeps mem_step (\<lambda>_. mem_step) (checked_write_slice a data m) m"
  by (auto simp: stores_guarded_write MEMORY_SIZE_def not_less
      intro!: frame_intros mem_step_guarded_write)

lemma mem_step_stack_alloc [frame_intros]: "keeps mem_step (\<lambda>_. mem_step) (stack_alloc n m) m"
proof -
  obtain r m' where r: "stack_alloc n m = (r, m')" by (cases "stack_alloc n m")
  then have "read_byte m' = read_byte m \<and> code_end m' = code_end m"
    by (auto simp: stack_alloc_def monad_simps split: option.splits if_splits)
  then have "mem_step m m'" using stack_alloc_ok [OF _ r] by (auto simp: mem_step_def)
  with r show ?thesis by (simp add: keeps_def split: sum.split)
qed

end
