(* ===== verification/Crypto.thy ===== *)
theory Crypto
  imports Prelude
begin

unbundle bit_operations_syntax

text \<open>
  The hash and signature wrappers of \<open>crates/crypto\<close> (\<open>poseidon2.rs\<close>, \<open>hash.rs\<close>,
  \<open>falcon.rs\<close>). The Poseidon2 sponge over the Goldilocks field and the FN-DSA verifier are
  third-party crates: they are the fields of the record \<open>crypto_lib\<close>, which every definition
  that hashes or verifies takes as an argument. A field element is its canonical \<open>u64\<close>
  representative. What is modelled is the code of the repository around them: how bytes become
  field elements, how field elements become a hash, and which keys and signatures are admitted.
\<close>

section \<open>Third-party primitives\<close>

type_synonym goldilocks = u64

text \<open>
  \<open>sponge\<close> is \<open>PaddingFreeSponge::hash_iter\<close> with four output elements;
  \<open>fn_dsa_verify sig pk msg ctx\<close> is \<open>FnDsaSignature::verify(..).is_ok()\<close>.
\<close>

record crypto_lib =
  sponge :: "goldilocks list \<Rightarrow> goldilocks \<times> goldilocks \<times> goldilocks \<times> goldilocks"
  fn_dsa_verify :: "bytes \<Rightarrow> bytes \<Rightarrow> bytes \<Rightarrow> bytes \<Rightarrow> bool"

text \<open>A concrete instance, for the examples: a constant sponge and a verifier that rejects.\<close>

definition example_crypto :: crypto_lib where
  "example_crypto = \<lparr>sponge = (\<lambda>_. (0, 0, 0, 0)), fn_dsa_verify = (\<lambda>_ _ _ _. False)\<rparr>"

section \<open>Hash256\<close>

type_synonym hash256 = bytes

definition hash256_ZERO :: hash256 where
  "hash256_ZERO = replicate 32 0"

definition hash256_from_slice :: "bytes \<Rightarrow> hash256 option" where
  "hash256_from_slice bs = (if length bs = 32 then Some bs else None)"

section \<open>Poseidon2\<close>

definition goldilocks_modulus :: u64 where
  "goldilocks_modulus = 0xFFFFFFFF00000001"

definition u64_to_goldilocks :: "u64 \<Rightarrow> goldilocks" where
  "u64_to_goldilocks val = val mod goldilocks_modulus"

definition goldilocks_to_u64 :: "goldilocks \<Rightarrow> u64" where
  "goldilocks_to_u64 el = el"

definition elements_to_hash ::
    "goldilocks \<times> goldilocks \<times> goldilocks \<times> goldilocks \<Rightarrow> hash256" where
  "elements_to_hash els =
     (case els of (a, b, c, d) \<Rightarrow>
        concat (map (\<lambda>el. to_le_bytes 8 (goldilocks_to_u64 el)) [a, b, c, d]))"

text \<open>Rust's \<open>slice::chunks\<close>: pieces of \<open>n\<close> elements, the last one possibly shorter.\<close>

function chunks :: "nat \<Rightarrow> 'a list \<Rightarrow> 'a list list" where
  "chunks n xs = (if n = 0 \<or> xs = [] then [] else take n xs # chunks n (drop n xs))"
  by pat_completeness auto
termination
  by (relation "measure (\<lambda>(n, xs). length xs)") auto

declare chunks.simps [simp del]

definition bytes_to_elements :: "bytes \<Rightarrow> goldilocks list" where
  "bytes_to_elements data =
     (if data = [] then [0]
      else map (\<lambda>chunk. u64_to_goldilocks (from_le_bytes (pad_to 8 chunk))) (chunks 7 data)
           @ [u64_to_goldilocks (of_nat (length data))])"

definition hash256_to_elements :: "hash256 \<Rightarrow> goldilocks list" where
  "hash256_to_elements b =
     [u64_to_goldilocks (from_le_bytes (take 8 b)),
      u64_to_goldilocks (from_le_bytes (take 8 (drop 8 b))),
      u64_to_goldilocks (from_le_bytes (take 8 (drop 16 b))),
      u64_to_goldilocks (from_le_bytes (take 8 (drop 24 b)))]"

definition poseidon2_hash :: "crypto_lib \<Rightarrow> bytes \<Rightarrow> hash256" where
  "poseidon2_hash C data = elements_to_hash (sponge C (bytes_to_elements data))"

definition poseidon2_pair :: "crypto_lib \<Rightarrow> hash256 \<Rightarrow> hash256 \<Rightarrow> hash256" where
  "poseidon2_pair C left right =
     elements_to_hash (sponge C (hash256_to_elements left @ hash256_to_elements right))"

definition poseidon2_many :: "crypto_lib \<Rightarrow> hash256 list \<Rightarrow> hash256" where
  "poseidon2_many C hashes =
     elements_to_hash (sponge C (concat (map hash256_to_elements hashes)))"

section \<open>FALCON-512 keys and signatures\<close>

definition FALCON_PK_SIZE :: nat where "FALCON_PK_SIZE = 897"

definition falcon_pk_from_bytes :: "bytes \<Rightarrow> bytes option" where
  "falcon_pk_from_bytes bs = (if length bs = FALCON_PK_SIZE then Some bs else None)"

definition falcon_sig_from_bytes :: "bytes \<Rightarrow> bytes option" where
  "falcon_sig_from_bytes bs = (if 500 \<le> length bs \<and> length bs \<le> 1000 then Some bs else None)"

text \<open>The domain separation context, the bytes of \<open>pyde-falcon-v1\<close>.\<close>

definition falcon_context :: bytes where
  "falcon_context = [112, 121, 100, 101, 45, 102, 97, 108, 99, 111, 110, 45, 118, 49]"

definition falcon_verify :: "crypto_lib \<Rightarrow> bytes \<Rightarrow> bytes \<Rightarrow> bytes \<Rightarrow> bool" where
  "falcon_verify C pk msg sig = fn_dsa_verify C sig pk msg falcon_context"

definition falcon_verify_all :: "crypto_lib \<Rightarrow> (bytes \<times> bytes \<times> bytes) list \<Rightarrow> bool" where
  "falcon_verify_all C items = list_all (\<lambda>(pk, msg, sig). falcon_verify C pk msg sig) items"

section \<open>Lemmas\<close>

lemma length_elements_to_hash [simp]: "length (elements_to_hash els) = 32"
  by (cases els) (simp add: elements_to_hash_def)

lemma to_le_bytes_8_inject [simp]: "to_le_bytes 8 v = to_le_bytes 8 (w :: u64) \<longleftrightarrow> v = w"
  using to_le_bytes_inject [of 8 v w] by auto

lemma elements_to_hash_inject [simp]: "elements_to_hash x = elements_to_hash y \<longleftrightarrow> x = y"
  by (cases x; cases y) (simp add: elements_to_hash_def goldilocks_to_u64_def)

lemma length_poseidon2 [simp]:
  "length (poseidon2_hash C data) = 32"
  "length (poseidon2_pair C l r) = 32"
  "length (poseidon2_many C hs) = 32"
  by (simp_all add: poseidon2_hash_def poseidon2_pair_def poseidon2_many_def)

lemma chunks_eq_Nil_iff [simp]: "chunks n xs = [] \<longleftrightarrow> n = 0 \<or> xs = []"
  by (subst chunks.simps) simp

lemma chunks_Nil [simp]: "chunks n [] = []"
  by (subst chunks.simps) simp

lemma chunks_Cons: "n \<noteq> 0 \<Longrightarrow> xs \<noteq> [] \<Longrightarrow> chunks n xs = take n xs # chunks n (drop n xs)"
  by (subst chunks.simps) simp

lemma chunks_inject:
  assumes f: "\<And>c c'. length c = length c' \<Longrightarrow> length c \<le> n \<Longrightarrow> f c = f c' \<Longrightarrow> c = c'"
    and n: "n \<noteq> 0" and "length xs = length ys" and "map f (chunks n xs) = map f (chunks n ys)"
  shows "xs = ys"
  using assms(3,4)
proof (induction "length xs" arbitrary: xs ys rule: less_induct)
  case less
  show ?case
  proof (cases "xs = []")
    case True
    then show ?thesis using less.prems(1) by simp
  next
    case False
    then have "ys \<noteq> []" using less.prems(1) by auto
    with False n less.prems have "f (take n xs) = f (take n ys)"
      and *: "map f (chunks n (drop n xs)) = map f (chunks n (drop n ys))"
      by (simp_all add: chunks_Cons)
    then have "take n xs = take n ys" using less.prems(1) by (intro f) simp_all
    moreover have "drop n xs = drop n ys"
      using \<open>ys \<noteq> []\<close> n less.prems(1) * by (intro less.hyps) simp_all
    ultimately show ?thesis by (metis append_take_drop_id)
  qed
qed

lemma chunk_value_lt:
  assumes "length c \<le> 7"
  shows "unat (from_le_bytes (pad_to 8 c) :: u64) < 2 ^ 56"
proof -
  have "pad_to 8 c ! 7 = 0" using assms by (simp add: pad_to_def nth_append)
  then have top: "\<not> bit (pad_to 8 c ! (i div 8)) (i mod 8)" if "56 \<le> i" "i < 64" for i
  proof -
    have "i div 8 = 7" using that by presburger
    then show ?thesis using \<open>pad_to 8 c ! 7 = 0\<close> by simp
  qed
  have "(from_le_bytes (pad_to 8 c) :: u64) = take_bit 56 (from_le_bytes (pad_to 8 c))"
    by (rule bit_word_eqI)
       (use top in \<open>auto simp: bit_take_bit_iff bit_from_le_bytes intro: leI ccontr\<close>)
  then show ?thesis by (metis unsigned_take_bit_eq take_bit_nat_less_exp)
qed

lemma u64_to_goldilocks_id: "unat v < 2 ^ 63 \<Longrightarrow> u64_to_goldilocks v = v"
  by (simp add: u64_to_goldilocks_def goldilocks_modulus_def word_unat_eq_iff unat_mod_distrib)

lemma chunk_inject:
  assumes "length c = length c'" and "length c \<le> 7"
    and "u64_to_goldilocks (from_le_bytes (pad_to 8 c)) = u64_to_goldilocks (from_le_bytes (pad_to 8 c'))"
  shows "c = c'"
proof -
  have "(from_le_bytes (pad_to 8 c) :: u64) = from_le_bytes (pad_to 8 c')"
    using assms chunk_value_lt [of c] chunk_value_lt [of c']
    by (simp add: u64_to_goldilocks_id)
  moreover have "to_le_bytes 8 (from_le_bytes (pad_to 8 xs) :: u64) = pad_to 8 xs" for xs
    by (rule to_from_le_bytes) simp_all
  ultimately have "pad_to 8 c = pad_to 8 c'" by metis
  with assms(1,2) show ?thesis by (simp add: pad_to_def)
qed

lemma bytes_to_elements_inject:
  assumes "length a < 2 ^ 63" and "length b < 2 ^ 63"
    and eq: "bytes_to_elements a = bytes_to_elements b"
  shows "a = b"
proof (cases "a = [] \<or> b = []")
  case True
  then show ?thesis using eq by (auto simp: bytes_to_elements_def split: if_splits)
next
  case False
  have len: "u64_to_goldilocks (of_nat (length xs)) = of_nat (length xs)"
    "unat (of_nat (length xs) :: u64) = length xs" if "length xs < 2 ^ 63" for xs :: bytes
    using that by (simp_all add: u64_to_goldilocks_id unat_of_nat)
  let ?f = "\<lambda>chunk. u64_to_goldilocks (from_le_bytes (pad_to 8 chunk))"
  have "map ?f (chunks 7 a) = map ?f (chunks 7 b)"
    and "u64_to_goldilocks (of_nat (length a)) = u64_to_goldilocks (of_nat (length b))"
    using False eq by (simp_all add: bytes_to_elements_def)
  moreover from this(2) have "length a = length b" using len assms(1,2) by metis
  ultimately show ?thesis
    using chunks_inject [of 7 ?f a b] chunk_inject by simp
qed

text \<open>
  The byte hash is as collision resistant as the sponge. Two inputs have the same
  Poseidon2 hash only if they are equal or their (then different) field element sequences are
  a collision of the sponge itself: packing into 7-byte chunks with the length appended loses
  nothing. (Slices are shorter than \<open>2 ^ 63\<close> bytes in Rust.)
\<close>

theorem poseidon2_hash_collision:
  assumes "length a < 2 ^ 63" and "length b < 2 ^ 63"
  shows "poseidon2_hash C a = poseidon2_hash C b \<longleftrightarrow>
    a = b \<or> (bytes_to_elements a \<noteq> bytes_to_elements b \<and>
             sponge C (bytes_to_elements a) = sponge C (bytes_to_elements b))"
  using bytes_to_elements_inject [OF assms] by (auto simp: poseidon2_hash_def)

theorem poseidon2_hash_collision_witness:
  defines "C \<equiv> \<lparr>sponge = \<lambda>xs. (of_nat (length xs), hd xs, last xs, 0),
    fn_dsa_verify = \<lambda>_ _ _ _. False\<rparr>"
  shows "poseidon2_hash C [1] \<noteq> poseidon2_hash C [1, 0]"
  using poseidon2_hash_collision [of "[1]" "[1, 0]" C]
  by (simp add: C_def bytes_to_elements_def u64_to_goldilocks_def goldilocks_modulus_def)

text \<open>Two words with one residue modulo the prime are at most one multiple of it apart.\<close>

lemma residue_partner:
  "(\<exists>w. w \<noteq> v \<and> u64_to_goldilocks w = u64_to_goldilocks v) \<longleftrightarrow> unat v < 2 ^ 32 - 1 \<or> goldilocks_modulus \<le> v"
proof
  let ?p = "18446744069414584321 :: nat"
  have res: "u64_to_goldilocks w = u64_to_goldilocks x \<longleftrightarrow> unat w mod ?p = unat x mod ?p" for w x
    by (simp add: u64_to_goldilocks_def goldilocks_modulus_def word_unat_eq_iff unat_mod_distrib)
  have le: "goldilocks_modulus \<le> x \<longleftrightarrow> ?p \<le> unat x" for x
    by (simp add: goldilocks_modulus_def word_le_nat_alt)
  have lt: "unat x < 2 ^ 64" for x :: u64 using unat_lt_length [of x] by simp
  {
    assume "\<exists>w. w \<noteq> v \<and> u64_to_goldilocks w = u64_to_goldilocks v"
    then obtain w where "w \<noteq> v" "u64_to_goldilocks w = u64_to_goldilocks v" by blast
    then have w: "unat w \<noteq> unat v" "unat w mod ?p = unat v mod ?p" unfolding res by (simp_all add: word_unat_eq_iff)
    show "unat v < 2 ^ 32 - 1 \<or> goldilocks_modulus \<le> v"
    proof (rule ccontr)
      assume "\<not> ?thesis"
      then have v: "2 ^ 32 - 1 \<le> unat v" "unat v < ?p" unfolding le by simp_all
      then have "\<not> unat w < ?p" using w by auto
      then have "unat w mod ?p = unat w - ?p" using lt [of w] by (simp add: mod_if)
      then show False using w(2) v lt [of w] by simp
    qed
  }
  assume "unat v < 2 ^ 32 - 1 \<or> goldilocks_modulus \<le> v"
  then show "\<exists>w. w \<noteq> v \<and> u64_to_goldilocks w = u64_to_goldilocks v"
  proof
    assume "unat v < 2 ^ 32 - 1"
    then have "unat (v + goldilocks_modulus) = unat v + ?p"
      by (subst unat_add_lem [THEN iffD1]) (simp_all add: goldilocks_modulus_def)
    then show ?thesis unfolding res by (intro exI [of _ "v + goldilocks_modulus"]) (auto simp: word_unat_eq_iff)
  next
    assume v: "goldilocks_modulus \<le> v"
    then have "unat (v - goldilocks_modulus) = unat v - ?p" by (simp add: unat_sub) (simp add: goldilocks_modulus_def)
    then show ?thesis using v unfolding res le
      by (intro exI [of _ "v - goldilocks_modulus"]) (simp add: word_unat_eq_iff le_mod_geq)
  qed
qed

definition hash256_limbs :: "hash256 \<Rightarrow> u64 list" where
  "hash256_limbs b =
     [from_le_bytes (take 8 b), from_le_bytes (take 8 (drop 8 b)), from_le_bytes (take 8 (drop 16 b)),
      from_le_bytes (take 8 (drop 24 b))]"

lemma hash256_to_elements_limbs: "hash256_to_elements h = map u64_to_goldilocks (hash256_limbs h)"
  by (simp add: hash256_to_elements_def hash256_limbs_def)

lemma hash256_of_limbs: "hash256_limbs (elements_to_hash (a, b, c, d)) = [a, b, c, d]"
  by (simp add: hash256_limbs_def elements_to_hash_def goldilocks_to_u64_def from_to_le_bytes)

lemma hash256_cases:
  assumes "length h = 32"
  obtains a b c d where "h = elements_to_hash (a, b, c, d)"
proof -
  have split: "take 8 h @ take 8 (drop 8 h) @ take 8 (drop 16 h) @ take 8 (drop 24 h) = h"
  proof -
    have "take 8 (drop 16 h) @ drop 24 h = drop 16 h" "take 8 (drop 8 h) @ drop 16 h = drop 8 h"
      using append_take_drop_id [of 8 "drop 16 h"] append_take_drop_id [of 8 "drop 8 h"] by (simp_all del: append_take_drop_id)
    moreover have "take 8 (drop 24 h) = drop 24 h" using assms by simp
    ultimately show ?thesis by simp
  qed
  have "to_le_bytes 8 (from_le_bytes xs :: u64) = xs" if "length xs = 8" for xs
    using that by (intro to_from_le_bytes) simp_all
  then have "h = elements_to_hash (from_le_bytes (take 8 h), from_le_bytes (take 8 (drop 8 h)),
      from_le_bytes (take 8 (drop 16 h)), from_le_bytes (take 8 (drop 24 h)))"
    using assms split by (simp add: elements_to_hash_def goldilocks_to_u64_def)
  then show thesis using that by blast
qed

lemma ex_hash256: "(\<exists>h. length h = 32 \<and> P h) \<longleftrightarrow> (\<exists>a b c d. P (elements_to_hash (a, b, c, d)))"
  by (metis hash256_cases length_elements_to_hash)

text \<open>
  C22: two-to-one hashing is not collision free on 32-byte values. Every limb of a \<open>Hash256\<close> is
  reduced modulo the Goldilocks prime, so values whose limbs agree modulo the prime have the same
  parent with every sibling, on either side and whatever the sponge; and a value has such a partner
  exactly when one of its limbs is below \<open>2 ^ 32 - 1\<close> or not below the prime.
\<close>

theorem poseidon2_pair_noncanonical_collision:
  assumes "length h = 32"
  shows "(\<forall>h'. map u64_to_goldilocks (hash256_limbs h') = map u64_to_goldilocks (hash256_limbs h) \<longrightarrow>
            poseidon2_pair C h' r = poseidon2_pair C h r \<and> poseidon2_pair C r h' = poseidon2_pair C r h)
    \<and> ((\<exists>h'. length h' = 32 \<and> h' \<noteq> h \<and> map u64_to_goldilocks (hash256_limbs h') = map u64_to_goldilocks (hash256_limbs h))
       \<longleftrightarrow> (\<exists>l\<in>set (hash256_limbs h). unat l < 2 ^ 32 - 1 \<or> goldilocks_modulus \<le> l))"
proof
  show "\<forall>h'. map u64_to_goldilocks (hash256_limbs h') = map u64_to_goldilocks (hash256_limbs h) \<longrightarrow>
      poseidon2_pair C h' r = poseidon2_pair C h r \<and> poseidon2_pair C r h' = poseidon2_pair C r h"
    by (simp add: poseidon2_pair_def hash256_to_elements_limbs)
  obtain a b c d where h: "h = elements_to_hash (a, b, c, d)" using assms by (rule hash256_cases)
  let ?same = "\<lambda>x y. u64_to_goldilocks x = u64_to_goldilocks y"
  have "(\<exists>h'. length h' = 32 \<and> h' \<noteq> h \<and> map u64_to_goldilocks (hash256_limbs h') = map u64_to_goldilocks (hash256_limbs h))
      \<longleftrightarrow> (\<exists>a' b' c' d'. (a', b', c', d') \<noteq> (a, b, c, d) \<and> ?same a' a \<and> ?same b' b \<and> ?same c' c \<and> ?same d' d)"
    unfolding h ex_hash256 by (simp add: hash256_of_limbs)
  also have "\<dots> \<longleftrightarrow> (\<exists>l\<in>{a, b, c, d}. \<exists>w. w \<noteq> l \<and> ?same w l)" by (auto; metis)
  finally show "(\<exists>h'. length h' = 32 \<and> h' \<noteq> h \<and> map u64_to_goldilocks (hash256_limbs h') = map u64_to_goldilocks (hash256_limbs h))
      \<longleftrightarrow> (\<exists>l\<in>set (hash256_limbs h). unat l < 2 ^ 32 - 1 \<or> goldilocks_modulus \<le> l)"
    unfolding residue_partner h by (simp add: hash256_of_limbs)
qed

theorem poseidon2_pair_noncanonical_collision_witness:
  "poseidon2_pair example_crypto (elements_to_hash (goldilocks_modulus, 0, 0, 0)) hash256_ZERO
     = poseidon2_pair example_crypto (elements_to_hash (0, 0, 0, 0)) hash256_ZERO
   \<and> (\<exists>h'. length h' = 32 \<and> h' \<noteq> elements_to_hash (0, 0, 0, 0))"
proof -
  note t = poseidon2_pair_noncanonical_collision [of "elements_to_hash (0, 0, 0, 0)" example_crypto hash256_ZERO]
  have "map u64_to_goldilocks (hash256_limbs (elements_to_hash (goldilocks_modulus, 0, 0, 0)))
      = map u64_to_goldilocks (hash256_limbs (elements_to_hash (0, 0, 0, 0)))"
    by (simp add: hash256_of_limbs u64_to_goldilocks_def)
  moreover have "\<exists>l\<in>set (hash256_limbs (elements_to_hash (0, 0, 0, 0))). unat l < 2 ^ 32 - 1 \<or> goldilocks_modulus \<le> l"
    by (simp add: hash256_of_limbs)
  ultimately show ?thesis using t [OF length_elements_to_hash] by blast
qed

end
