(* ===== verification/VmState.thy ===== *)
theory VmState
  imports Memory Crypto
begin

unbundle bit_operations_syntax

text \<open>
  The state of the virtual machine (\<open>crates/pvm/src/vm.rs\<close>) and the operations its
  instructions share: the records of the execution context, the machine, its call frames, logs
  and results; construction and loading of a program; charging gas; journaling and rolling back
  storage and balance writes; deriving storage keys. A storage or code backend is a field of
  the machine, as in the source: a function the host supplies.
\<close>

section \<open>Data\<close>

type_synonym address = bytes

definition ZERO_ADDRESS :: address where "ZERO_ADDRESS = replicate 32 0"

definition MAX_CALL_DEPTH :: nat where "MAX_CALL_DEPTH = 1024"

definition MAX_EXT_CALL_DEPTH :: nat where "MAX_EXT_CALL_DEPTH = 64"

definition env_gp_BLOCK_NUMBER :: u32 where "env_gp_BLOCK_NUMBER = 0"
definition env_gp_TIMESTAMP :: u32 where "env_gp_TIMESTAMP = 1"
definition env_gp_GAS_REMAINING :: u32 where "env_gp_GAS_REMAINING = 2"
definition env_gp_TX_NONCE :: u32 where "env_gp_TX_NONCE = 3"
definition env_gp_TX_GAS_LIMIT :: u32 where "env_gp_TX_GAS_LIMIT = 4"

definition env_wide_CALL_VALUE :: u32 where "env_wide_CALL_VALUE = 0"
definition env_wide_GAS_PRICE :: u32 where "env_wide_GAS_PRICE = 1"
definition env_wide_BALANCE :: u32 where "env_wide_BALANCE = 2"
definition env_wide_CALLER :: u32 where "env_wide_CALLER = 3"
definition env_wide_ADDRESS :: u32 where "env_wide_ADDRESS = 4"
definition env_wide_TX_HASH :: u32 where "env_wide_TX_HASH = 5"
definition env_wide_BLOCK_PROPOSER :: u32 where "env_wide_BLOCK_PROPOSER = 6"

record execution_context =
  caller :: address
  self_address :: address
  call_value :: u256
  block_number :: u64
  timestamp :: u64
  gas_price :: u256
  tx_nonce :: u64
  tx_gas_limit :: u64
  tx_hash :: u256
  block_proposer :: address
  block_hashes :: "u256 list"
  balances :: "(address, u256) hashmap"

definition execution_context_default :: execution_context where
  "execution_context_default =
     \<lparr>caller = ZERO_ADDRESS, self_address = ZERO_ADDRESS, call_value = 0, block_number = 0,
      timestamp = 0, gas_price = 0, tx_nonce = 0, tx_gas_limit = 0, tx_hash = 0,
      block_proposer = ZERO_ADDRESS, block_hashes = [], balances = []\<rparr>"

record call_frame =
  return_addr :: u32
  frame_pointer :: u32

record call_result =
  cr_success :: bool
  cr_return_data :: bytes
  cr_gas_used :: u64

datatype exec_result = ExecHalt | ExecRevert

datatype outcome = Success | Reverted | OutcomeOutOfGas | Trapped trap

record event_log =
  ev_address :: address
  ev_topics :: "u256 list"
  ev_data :: bytes

record execution_output =
  out_outcome :: outcome
  out_gas_used :: u64
  out_gas_used_raw :: u64
  out_gas_refund :: u64
  out_logs :: "event_log list"

record vm =
  pc :: u32
  fp :: u32
  gas_used_total :: u64
  gas_limit :: u64
  gas_refund :: u64
  cpu :: cpu
  decoded_cache :: "decoded_instruction list"
  memory :: memory
  ctx :: execution_context
  storage :: "(u256, bytes) hashmap"
  storage_backend :: "(u256 \<Rightarrow> bytes option) option"
  call_stack :: "call_frame list"
  logs :: "event_log list"
  storage_journal :: "(u256 \<times> bytes option) list"
  storage_journal_keys :: "u256 set"
  balance_journal :: "(address \<times> u256 option) list"
  balance_journal_keys :: "address set"
  contracts :: "(address, bytes) hashmap"
  code_backend :: "(address \<Rightarrow> bytes option) option"
  calldata :: bytes
  return_data :: bytes
  static_mode :: bool
  ext_call_depth :: nat
  allowed_storage_keys :: "u256 set option"
  warm_storage_keys :: "u256 set"
  accessed_raw_slots :: "u256 set"
  written_raw_slots :: "u256 set"
  create_counter :: "(address, u64) hashmap"

type_synonym 'a vmop = "(vm, trap, 'a) srm"

definition vm_new :: vm where
  "vm_new =
     \<lparr>pc = 0, fp = 0, gas_used_total = 0, gas_limit = 0, gas_refund = 0, cpu = cpu_new,
      decoded_cache = [], memory = memory_new, ctx = execution_context_default, storage = [],
      storage_backend = None, call_stack = [], logs = [], storage_journal = [],
      storage_journal_keys = {}, balance_journal = [], balance_journal_keys = {}, contracts = [],
      code_backend = None, calldata = [], return_data = [], static_mode = False,
      ext_call_depth = 0, allowed_storage_keys = None, warm_storage_keys = {},
      accessed_raw_slots = {}, written_raw_slots = {}, create_counter = []\<rparr>"

definition with_gas_limit :: "u64 \<Rightarrow> vm" where
  "with_gas_limit limit = vm_new\<lparr>gas_limit := limit\<rparr>"

definition with_context :: "execution_context \<Rightarrow> vm" where
  "with_context c = vm_new\<lparr>ctx := c\<rparr>"

definition with_gas_limit_and_context :: "u64 \<Rightarrow> execution_context \<Rightarrow> vm" where
  "with_gas_limit_and_context limit c = vm_new\<lparr>gas_limit := limit, ctx := c\<rparr>"

section \<open>Access to the components of the machine\<close>

text \<open>
  \<open>self.memory.f(..).map_err(|_| Trap::MemoryFault)?\<close> and \<open>self.cpu.f(..)?\<close>: the component
  keeps what the call left in it, also on an error.
\<close>

definition on_memory :: "(memory, memory_error, 'a) srm \<Rightarrow> 'a vmop" where
  "on_memory f = (\<lambda>s.
     case f (memory s) of
       (Inl e, m) \<Rightarrow> (Inl MemoryFault, s\<lparr>memory := m\<rparr>)
     | (Inr x, m) \<Rightarrow> (Inr x, s\<lparr>memory := m\<rparr>))"

definition on_cpu :: "(cpu, trap, 'a) srm \<Rightarrow> 'a vmop" where
  "on_cpu f = (\<lambda>s. case f (cpu s) of (r, c) \<Rightarrow> (r, s\<lparr>cpu := c\<rparr>))"

definition gp_of :: "u8 \<Rightarrow> vm \<Rightarrow> u64" where
  "gp_of reg s = read_gp (cpu s) reg"

definition set_gp :: "u8 \<Rightarrow> u64 \<Rightarrow> unit vmop" where
  "set_gp reg val = smod (\<lambda>s. s\<lparr>cpu := write_gp reg val (cpu s)\<rparr>)"

definition next_pc :: "unit vmop" where
  "next_pc = smod (\<lambda>s. s\<lparr>pc := pc s + 4\<rparr>)"

definition safe_addr :: "u64 \<Rightarrow> i64 \<Rightarrow> trap + u32" where
  "safe_addr base offset =
     (let result = uint base + sint offset
      in if result < 0 \<or> result > 2 ^ 32 - 1 then Inl MemoryFault else Inr (word_of_int result))"

section \<open>Loading a program\<close>

definition map_calldata :: "unit vmop" where
  "map_calldata = (\<lambda>s.
     let len = length (calldata s)
     in (if len = 0 then sret ()
         else if len > MEMORY_SIZE - unat HEAP_START then serr MemoryFault
         else
           sbind (on_memory (checked_write_slice HEAP_START (calldata s))) (\<lambda>_.
           let aligned_len = (len + 7) div 8 * 8
           in sbind (smod (\<lambda>s. s\<lparr>memory :=
                (memory s)\<lparr>heap_top := HEAP_START + of_nat aligned_len\<rparr>\<rparr>)) (\<lambda>_.
              sbind (set_gp 4 (of_nat len)) (\<lambda>_.
              set_gp 5 (ucast HEAP_START))))) s)"

definition decode_program :: "bytes \<Rightarrow> decoded_instruction list" where
  "decode_program bytecode =
     map (\<lambda>i. decode (Instruction (from_le_bytes
            [bytecode ! (i * 4), bytecode ! (i * 4 + 1), bytecode ! (i * 4 + 2),
             bytecode ! (i * 4 + 3)])))
         [0..<length bytecode div 4]"

definition load :: "bytes \<Rightarrow> unit vmop" where
  "load bytecode =
     sbind (on_memory (load_code bytecode)) (\<lambda>_.
     sbind (smod (\<lambda>s. s\<lparr>pc := 0, decoded_cache := decode_program bytecode\<rparr>)) (\<lambda>_.
     (\<lambda>s. (if calldata s \<noteq> [] then map_calldata else sret ()) s)))"

definition check_pc_bounds :: "unit vmop" where
  "check_pc_bounds = (\<lambda>s.
     (if pc s AND 3 \<noteq> 0 then serr InvalidOpcode
      else if unat (pc s div 4) \<ge> length (decoded_cache s) then serr InvalidOpcode
      else sret ()) s)"

definition fetch :: "instruction vmop" where
  "fetch =
     sbind check_pc_bounds (\<lambda>_.
     sget (\<lambda>s. Instruction (fetch_code_u32 (memory s) (CODE_START + pc s))))"

section \<open>Gas\<close>

text \<open>
  The charging sequence that recurs in the source: a checked addition to the accumulator, then
  the comparison with the limit, where limit 0 means no limit.
\<close>

definition charge_gas :: "u64 \<Rightarrow> unit vmop" where
  "charge_gas amount = (\<lambda>s.
     sbind (sopt OutOfGas (checked_add (gas_used_total s) amount)) (\<lambda>total.
     sbind (smod (\<lambda>s. s\<lparr>gas_used_total := total\<rparr>)) (\<lambda>_.
     sguard (\<lambda>s. \<not> (gas_limit s > 0 \<and> gas_used_total s > gas_limit s)) OutOfGas)) s)"

text \<open>The page gas the memory accumulated during an instruction.\<close>

definition drain_page_gas :: "unit vmop" where
  "drain_page_gas = (\<lambda>s.
     (if page_gas_used (memory s) > 0 then
        sbind (sopt OutOfGas (checked_add (gas_used_total s) (page_gas_used (memory s)))) (\<lambda>total.
        sbind (smod (\<lambda>s. s\<lparr>gas_used_total := total,
                           memory := (memory s)\<lparr>page_gas_used := 0\<rparr>\<rparr>)) (\<lambda>_.
        sguard (\<lambda>s. \<not> (gas_limit s > 0 \<and> gas_used_total s > gas_limit s)) OutOfGas))
      else sret ()) s)"

definition gas_remaining :: "vm \<Rightarrow> u64" where
  "gas_remaining s =
     (if gas_limit s = 0 then - 1 else saturating_sub (gas_limit s) (gas_used_total s))"

definition effective_gas_used :: "vm \<Rightarrow> u64" where
  "effective_gas_used s =
     (let max_refund = gas_used_total s div 2;
          refund = min (gas_refund s) max_refund
      in gas_used_total s - refund)"

definition precheck_bulk_page_budget :: "nat \<Rightarrow> unit vmop" where
  "precheck_bulk_page_budget n = (\<lambda>s.
     (if n = 0 \<or> gas_limit s = 0 then sret ()
      else
        (let page_count = div_ceil (of_nat n) (of_nat PAGE_SIZE) :: u64
         in sbind (sopt OutOfGas (checked_mul page_count PAGE_ALLOC_GAS)) (\<lambda>worst.
            sbind (sopt OutOfGas (checked_add (gas_used_total s) worst)) (\<lambda>projected.
            if projected > gas_limit s then serr OutOfGas else sret ())))) s)"

section \<open>Storage keys\<close>

definition derive_storage_key :: "crypto_lib \<Rightarrow> address \<Rightarrow> u256 \<Rightarrow> u256" where
  "derive_storage_key C self_addr slot =
     (let slot_bytes = to_le_bytes 32 slot;
          significant_len = 32 - length (takeWhile (\<lambda>b. b = 0) (rev slot_bytes));
          slot_len = max significant_len 8
      in from_le_bytes (poseidon2_hash C (self_addr @ [0x04] @ take slot_len slot_bytes)))"

section \<open>Journals\<close>

definition journal_storage_write :: "u256 \<Rightarrow> vm \<Rightarrow> vm" where
  "journal_storage_write key s =
     (if key \<notin> storage_journal_keys s
      then s\<lparr>storage_journal_keys := insert key (storage_journal_keys s),
             storage_journal := storage_journal s @ [(key, hm_get (storage s) key)]\<rparr>
      else s)"

definition journal_balance_write :: "address \<Rightarrow> vm \<Rightarrow> vm" where
  "journal_balance_write addr s =
     (if addr \<notin> balance_journal_keys s
      then s\<lparr>balance_journal_keys := insert addr (balance_journal_keys s),
             balance_journal := balance_journal s @ [(addr, hm_get (balances (ctx s)) addr)]\<rparr>
      else s)"

text \<open>One entry of a journal undone: the old value is put back, or the key removed.\<close>

definition restore_entry :: "'k \<times> 'v option \<Rightarrow> ('k, 'v) hashmap \<Rightarrow> ('k, 'v) hashmap" where
  "restore_entry e m =
     (case snd e of Some v \<Rightarrow> hm_insert (fst e) v m | None \<Rightarrow> hm_remove (fst e) m)"

definition rollback_storage :: "vm \<Rightarrow> vm" where
  "rollback_storage s =
     s\<lparr>storage_journal_keys := {},
       storage := fold restore_entry (rev (storage_journal s)) (storage s),
       storage_journal := []\<rparr>"

definition rollback_balances :: "vm \<Rightarrow> vm" where
  "rollback_balances s =
     s\<lparr>balance_journal_keys := {},
       ctx := (ctx s)\<lparr>balances := fold restore_entry (rev (balance_journal s)) (balances (ctx s))\<rparr>,
       balance_journal := []\<rparr>"

definition clear_journal :: "vm \<Rightarrow> vm" where
  "clear_journal s = s\<lparr>storage_journal := [], storage_journal_keys := {}\<rparr>"

end
