(* ===== verification/VmOps.thy ===== *)
theory VmOps
  imports VmState
begin

unbundle bit_operations_syntax

text \<open>
  The instructions of \<open>Vm::step\<close> that involve one machine only (\<open>crates/pvm/src/vm.rs\<close>):
  control flow, the inlined arithmetic, the 256-bit instructions, memory, environment queries,
  hashing, storage, logs, signature and Merkle verification, assertions and bulk copies. There
  is one definition per match arm of the source. An arm either falls through to the page-gas
  charge at the end of \<open>step\<close> or returns from it.
\<close>

datatype flow = Fallthrough | Return "exec_result option"

section \<open>Control flow\<close>

definition op_jmp :: "decoded_instruction \<Rightarrow> unit vmop" where
  "op_jmp d = smod (\<lambda>s. s\<lparr>pc := pc s + sign_extend_18 (rs2_or_imm d)\<rparr>)"

text \<open>The four conditional branches differ in the comparison only.\<close>

definition op_branch :: "(u64 \<Rightarrow> u64 \<Rightarrow> bool) \<Rightarrow> decoded_instruction \<Rightarrow> unit vmop" where
  "op_branch cond d = (\<lambda>s.
     let rs1_val = gp_of (rd d) s;
         rs2_val = gp_of (rs1 d) s
     in (if cond rs1_val rs2_val
         then smod (\<lambda>s. s\<lparr>pc := pc s + sign_extend_18 (rs2_or_imm d)\<rparr>)
         else next_pc) s)"

definition op_call :: "decoded_instruction \<Rightarrow> unit vmop" where
  "op_call d =
     sbind (sguard (\<lambda>s. \<not> length (call_stack s) \<ge> MAX_CALL_DEPTH) StackOverflow) (\<lambda>_.
     smod (\<lambda>s. s\<lparr>
       call_stack := \<lparr>return_addr = pc s + 4, frame_pointer = fp s\<rparr> # call_stack s,
       fp := stack_pointer (memory s),
       pc := pc s + sign_extend_18 (rs2_or_imm d)\<rparr>))"

definition op_ret :: "unit vmop" where
  "op_ret = (\<lambda>s.
     case call_stack s of
       [] \<Rightarrow> serr StackUnderflow s
     | frame # rest \<Rightarrow>
         smod (\<lambda>s. s\<lparr>call_stack := rest, pc := return_addr frame, fp := frame_pointer frame\<rparr>) s)"

definition op_revert :: "decoded_instruction \<Rightarrow> flow vmop" where
  "op_revert d = (\<lambda>s.
     let ptr = ucast (gp_of (rs1 d) s);
         len = unat (gp_of (ucast (rs2_or_imm d AND 0xF)) s)
     in if rs1 d \<noteq> 0 \<and> len > 0
        then (case checked_read_slice ptr len (memory s) of
                (Inr data, m) \<Rightarrow> (Inr (Return (Some ExecRevert)), s\<lparr>memory := m, return_data := data\<rparr>)
              | (Inl e, m) \<Rightarrow> (Inr (Return (Some ExecRevert)), s\<lparr>memory := m\<rparr>))
        else (Inr (Return (Some ExecRevert)), s))"

definition op_assert :: "decoded_instruction \<Rightarrow> flow vmop" where
  "op_assert d = (\<lambda>s.
     (if gp_of (rs1 d) s = 0 then sret (Return (Some ExecRevert))
      else sbind next_pc (\<lambda>_. sret Fallthrough)) s)"

section \<open>Arithmetic\<close>

definition step_alu :: "decoded_instruction \<Rightarrow> unit vmop" where
  "step_alu d = (\<lambda>s.
     let a = gp_of (rs1 d) s;
         b = gp_of (ucast (rs2_or_imm d AND 0xF)) s;
         put = (\<lambda>v. sbind (set_gp (rd d) v) (\<lambda>_. next_pc))
     in (if opcode d = Op_Add then sbind (sopt Overflow (checked_add a b)) put
         else if opcode d = Op_Sub then sbind (sopt Underflow (checked_sub a b)) put
         else if opcode d = Op_Mul then sbind (sopt Overflow (checked_mul a b)) put
         else if opcode d = Op_Div then (if b = 0 then serr DivisionByZero else put (a div b))
         else if opcode d = Op_Mod then (if b = 0 then serr DivisionByZero else put (a mod b))
         else if opcode d = Op_Addi then put (a + scast (sign_extend_18 (rs2_or_imm d)))
         else if opcode d = Op_And then put (a AND b)
         else if opcode d = Op_Or then put (a OR b)
         else if opcode d = Op_Xor then put (a XOR b)
         else if opcode d = Op_Not then put (NOT a)
         else if opcode d = Op_Shl then put (if b \<ge> 64 then 0 else push_bit (unat b) a)
         else if opcode d = Op_Shr then put (if b \<ge> 64 then 0 else drop_bit (unat b) a)
         else if opcode d = Op_Sar then
           put (if b \<ge> 64 then (if sint a < 0 then - 1 else 0) else signed_drop_bit (unat b) a)
         else if opcode d = Op_Lt then put (if a < b then 1 else 0)
         else if opcode d = Op_Gt then put (if a > b then 1 else 0)
         else if opcode d = Op_Eq then put (if a = b then 1 else 0)
         else if opcode d = Op_Slt then put (if sint a < sint b then 1 else 0)
         else if opcode d = Op_Sgt then put (if sint a > sint b then 1 else 0)
         else serr InvalidOpcode) s)"

definition step_wide :: "decoded_instruction \<Rightarrow> unit vmop" where
  "step_wide d =
     sbind (on_cpu (exec_wide (encode (opcode d) (rd d) (rs1 d) (rs2_or_imm d)))) (\<lambda>_. next_pc)"

section \<open>Memory\<close>

definition op_load :: "decoded_instruction \<Rightarrow> unit vmop" where
  "op_load d = (\<lambda>s.
     let base = gp_of (rs1 d) s;
         offset = scast (decode_mem_offset (rs2_or_imm d)) :: i64;
         width = decode_mem_width (rs2_or_imm d)
     in sbind (sres (safe_addr base offset)) (\<lambda>addr.
        sbind (case width of
                 W8 \<Rightarrow> sbind (on_memory (load8 addr)) (\<lambda>v. sret (ucast v))
               | W16 \<Rightarrow> sbind (on_memory (load16 addr)) (\<lambda>v. sret (ucast v))
               | W32 \<Rightarrow> sbind (on_memory (load32 addr)) (\<lambda>v. sret (ucast v))
               | W64 \<Rightarrow> on_memory (load64 addr)) (\<lambda>val.
        sbind (set_gp (rd d) val) (\<lambda>_. next_pc))) s)"

definition op_store :: "decoded_instruction \<Rightarrow> unit vmop" where
  "op_store d = (\<lambda>s.
     let base = gp_of (rs1 d) s;
         offset = scast (decode_mem_offset (rs2_or_imm d)) :: i64;
         width = decode_mem_width (rs2_or_imm d);
         val = gp_of (rd d) s
     in sbind (sres (safe_addr base offset)) (\<lambda>addr.
        sbind (case width of
                 W8 \<Rightarrow> on_memory (store8 addr (ucast val))
               | W16 \<Rightarrow> on_memory (store16 addr (ucast val))
               | W32 \<Rightarrow> on_memory (store32 addr (ucast val))
               | W64 \<Rightarrow> on_memory (store64 addr val)) (\<lambda>_. next_pc)) s)"

definition op_wload :: "decoded_instruction \<Rightarrow> unit vmop" where
  "op_wload d = (\<lambda>s.
     let base = gp_of (rs1 d) s;
         offset = scast (sign_extend_18 (rs2_or_imm d)) :: i64
     in sbind (sres (safe_addr base offset)) (\<lambda>addr.
        sbind (on_memory (load256 addr)) (\<lambda>bs.
        sbind (on_cpu (write_wide_checked (rd d) (from_le_bytes bs))) (\<lambda>_. next_pc))) s)"

definition op_wstore :: "decoded_instruction \<Rightarrow> unit vmop" where
  "op_wstore d = (\<lambda>s.
     let base = gp_of (rs1 d) s;
         offset = scast (sign_extend_18 (rs2_or_imm d)) :: i64
     in sbind (sres (safe_addr base offset)) (\<lambda>addr.
        sbind (sres (read_wide_checked (cpu s) (rd d))) (\<lambda>val.
        sbind (on_memory (store256 addr (to_le_bytes 32 val))) (\<lambda>_. next_pc))) s)"

definition op_push :: "decoded_instruction \<Rightarrow> unit vmop" where
  "op_push d = (\<lambda>s.
     let val = gp_of (rd d) s
     in sbind (on_memory (stack_alloc 8)) (\<lambda>sp.
        sbind (on_memory (store64 sp val)) (\<lambda>_. next_pc)) s)"

definition op_pop :: "decoded_instruction \<Rightarrow> unit vmop" where
  "op_pop d = (\<lambda>s.
     let sp = stack_pointer (memory s)
     in (if checked_add sp 8 = None \<or> sp + 8 > STACK_TOP then serr MemoryFault
         else
           sbind (on_memory (load64 sp)) (\<lambda>val.
           sbind (set_gp (rd d) val) (\<lambda>_.
           sbind (smod (\<lambda>s. s\<lparr>memory := (memory s)\<lparr>stack_pointer := sp + 8\<rparr>\<rparr>)) (\<lambda>_.
           next_pc)))) s)"

definition op_memcpy :: "decoded_instruction \<Rightarrow> unit vmop" where
  "op_memcpy d = (\<lambda>s.
     let dst_ptr = ucast (gp_of (rd d) s);
         src_ptr = ucast (gp_of (rs1 d) s);
         len_u64 = gp_of (ucast (rs2_or_imm d AND 0xF)) s
     in (if len_u64 > of_nat MEMORY_SIZE then serr MemoryFault
         else
           (let len = unat len_u64
            in sbind
                 (if len > 0 then
                    sbind (charge_gas (div_ceil (of_nat len) 8 * 3)) (\<lambda>_.
                    sbind (precheck_bulk_page_budget (len * 2)) (\<lambda>_.
                    sbind (on_memory (checked_read_slice src_ptr len)) (\<lambda>data.
                    on_memory (checked_write_slice dst_ptr data))))
                  else sret ())
                 (\<lambda>_. next_pc))) s)"

section \<open>Environment\<close>

definition op_caller :: "decoded_instruction \<Rightarrow> unit vmop" where
  "op_caller d = (\<lambda>s.
     let sub = rs2_or_imm d
     in sbind
          (if sub = env_gp_BLOCK_NUMBER then sret (block_number (ctx s))
           else if sub = env_gp_TIMESTAMP then sret (timestamp (ctx s))
           else if sub = env_gp_GAS_REMAINING then sret (gas_remaining s)
           else if sub = env_gp_TX_NONCE then sret (tx_nonce (ctx s))
           else if sub = env_gp_TX_GAS_LIMIT then sret (tx_gas_limit (ctx s))
           else serr InvalidOpcode) (\<lambda>val.
        sbind (set_gp (rd d) val) (\<lambda>_. next_pc)) s)"

definition op_callvalue :: "decoded_instruction \<Rightarrow> unit vmop" where
  "op_callvalue d = (\<lambda>s.
     let sub = rs2_or_imm d
     in sbind
          (if sub = env_wide_CALL_VALUE then sret (call_value (ctx s))
           else if sub = env_wide_GAS_PRICE then sret (gas_price (ctx s))
           else if sub = env_wide_BALANCE then
             sbind (sres (read_wide_checked (cpu s) (rs1 d))) (\<lambda>addr_u256.
             sret (case hm_get (balances (ctx s)) (to_le_bytes 32 addr_u256) of
                     Some b \<Rightarrow> b | None \<Rightarrow> 0))
           else if sub = env_wide_CALLER then sret (from_le_bytes (caller (ctx s)))
           else if sub = env_wide_ADDRESS then sret (from_le_bytes (self_address (ctx s)))
           else if sub = env_wide_TX_HASH then sret (tx_hash (ctx s))
           else if sub = env_wide_BLOCK_PROPOSER then sret (from_le_bytes (block_proposer (ctx s)))
           else serr InvalidOpcode) (\<lambda>val.
        sbind (on_cpu (write_wide_checked (rd d) val)) (\<lambda>_. next_pc)) s)"

definition op_blockhash :: "decoded_instruction \<Rightarrow> unit vmop" where
  "op_blockhash d = (\<lambda>s.
     let height = gp_of (rs1 d) s;
         current = block_number (ctx s);
         hash = (if height < current \<and> current - height \<le> 256
                 then (let idx = unat (current - height - 1)
                       in if idx < length (block_hashes (ctx s)) then block_hashes (ctx s) ! idx
                          else 0)
                 else 0)
     in sbind (on_cpu (write_wide_checked (rd d) hash)) (\<lambda>_. next_pc) s)"

section \<open>Hashing\<close>

definition op_poseidon :: "crypto_lib \<Rightarrow> decoded_instruction \<Rightarrow> unit vmop" where
  "op_poseidon C d = (\<lambda>s.
     let addr = ucast (gp_of (rs1 d) s);
         byte_len = gp_of (ucast (rs2_or_imm d AND 0xF)) s
     in sbind (charge_gas (div_ceil byte_len 32 * 250)) (\<lambda>_.
        sbind (on_memory (checked_read_slice addr (unat byte_len))) (\<lambda>data.
        sbind (on_cpu (write_wide_checked (rd d) (from_le_bytes (poseidon2_hash C data)))) (\<lambda>_.
        next_pc))) s)"

section \<open>Storage\<close>

definition check_access_list :: "u256 \<Rightarrow> unit vmop" where
  "check_access_list key =
     sguard (\<lambda>s. case allowed_storage_keys s of None \<Rightarrow> True | Some allowed \<Rightarrow> key \<in> allowed)
       AccessListViolation"

definition charge_cold_access :: "u256 \<Rightarrow> unit vmop" where
  "charge_cold_access key = (\<lambda>s.
     (if key \<notin> warm_storage_keys s then
        sbind (smod (\<lambda>s. s\<lparr>warm_storage_keys := insert key (warm_storage_keys s)\<rparr>)) (\<lambda>_.
        charge_gas 1800)
      else sret ()) s)"

text \<open>The overlay first, then the backend; a value from the backend is cached in the overlay.\<close>

definition storage_lookup :: "u256 \<Rightarrow> bytes option vmop" where
  "storage_lookup key = (\<lambda>s.
     let storage_value =
           (case hm_get (storage s) key of
              Some v \<Rightarrow> Some v
            | None \<Rightarrow> (case storage_backend s of Some backend \<Rightarrow> backend key | None \<Rightarrow> None));
         s' = (case hm_get (storage s) key of
                 Some _ \<Rightarrow> s
               | None \<Rightarrow>
                   (case storage_value of
                      Some val \<Rightarrow> s\<lparr>storage := hm_insert key val (storage s)\<rparr>
                    | None \<Rightarrow> s))
     in (Inr storage_value, s'))"

definition sload_to_memory :: "decoded_instruction \<Rightarrow> bytes option \<Rightarrow> unit vmop" where
  "sload_to_memory d storage_value = (\<lambda>s.
     let ptr = ucast (gp_of (ucast (drop_bit 2 (rs2_or_imm d) AND 0xF)) s)
     in (case storage_value of
           Some data \<Rightarrow>
             sbind (charge_gas (div_ceil (of_nat (length data)) 8 * 3)) (\<lambda>_.
             sbind (precheck_bulk_page_budget (length data)) (\<lambda>_.
             sbind (on_memory (checked_write_slice ptr data)) (\<lambda>_.
             set_gp (rd d) (of_nat (length data)))))
         | None \<Rightarrow> set_gp (rd d) 0) s)"

definition op_sload :: "crypto_lib \<Rightarrow> decoded_instruction \<Rightarrow> unit vmop" where
  "op_sload C d = (\<lambda>s.
     sbind (sres (read_wide_checked (cpu s) (rs1 d))) (\<lambda>slot.
     sbind (smod (\<lambda>s. s\<lparr>accessed_raw_slots := insert slot (accessed_raw_slots s)\<rparr>)) (\<lambda>_.
     let key = derive_storage_key C (self_address (ctx s)) slot
     in sbind (check_access_list key) (\<lambda>_.
        sbind (charge_cold_access key) (\<lambda>_.
        sbind (storage_lookup key) (\<lambda>storage_value.
        let mode = rs2_or_imm d AND 0x3;
            data = (case storage_value of Some v \<Rightarrow> v | None \<Rightarrow> [])
        in sbind
             (if mode = 0 then
                smod (\<lambda>s. s\<lparr>cpu := write_wide (rd d) (from_le_bytes (pad_to 32 data)) (cpu s)\<rparr>)
              else if mode = 1 then sload_to_memory d storage_value
              else if mode = 2 then set_gp (rd d) (from_le_bytes (pad_to 8 data))
              else serr InvalidOpcode)
             (\<lambda>_. next_pc)))))) s)"

definition put_storage :: "u256 \<Rightarrow> bytes \<Rightarrow> unit vmop" where
  "put_storage key val = smod (\<lambda>s. s\<lparr>storage := hm_insert key val (storage s)\<rparr>)"

definition sstore_from_memory :: "decoded_instruction \<Rightarrow> u256 \<Rightarrow> unit vmop" where
  "sstore_from_memory d key = (\<lambda>s.
     let ptr = ucast (gp_of (ucast (drop_bit 2 (rs2_or_imm d) AND 0xF)) s);
         len = gp_of (ucast (drop_bit 6 (rs2_or_imm d) AND 0xF)) s
     in sbind (charge_gas (div_ceil len 8 * 3)) (\<lambda>_.
        sbind (precheck_bulk_page_budget (unat len)) (\<lambda>_.
        sbind (on_memory (checked_read_slice ptr (unat len))) (\<lambda>data.
        put_storage key data))) s)"

definition op_sstore :: "crypto_lib \<Rightarrow> decoded_instruction \<Rightarrow> unit vmop" where
  "op_sstore C d = (\<lambda>s.
     sbind (sguard (\<lambda>s. \<not> static_mode s) StaticModeViolation) (\<lambda>_.
     sbind (sres (read_wide_checked (cpu s) (rs1 d))) (\<lambda>slot.
     sbind (smod (\<lambda>s. s\<lparr>accessed_raw_slots := insert slot (accessed_raw_slots s),
                        written_raw_slots := insert slot (written_raw_slots s)\<rparr>)) (\<lambda>_.
     let key = derive_storage_key C (self_address (ctx s)) slot
     in sbind (check_access_list key) (\<lambda>_.
        sbind (charge_cold_access key) (\<lambda>_.
        sbind (smod (journal_storage_write key)) (\<lambda>_.
        let mode = rs2_or_imm d AND 0x3
        in sbind
             (if mode = 0 then
                sbind (sres (read_wide_checked (cpu s) (rd d))) (\<lambda>val.
                put_storage key (to_le_bytes 32 val))
              else if mode = 2 then put_storage key (to_le_bytes 8 (gp_of (rd d) s))
              else if mode = 1 then sstore_from_memory d key
              else serr InvalidOpcode)
             (\<lambda>_. next_pc))))))) s)"

definition op_sdelete :: "crypto_lib \<Rightarrow> decoded_instruction \<Rightarrow> unit vmop" where
  "op_sdelete C d = (\<lambda>s.
     sbind (sguard (\<lambda>s. \<not> static_mode s) StaticModeViolation) (\<lambda>_.
     sbind (sres (read_wide_checked (cpu s) (rs1 d))) (\<lambda>slot.
     sbind (smod (\<lambda>s. s\<lparr>accessed_raw_slots := insert slot (accessed_raw_slots s),
                        written_raw_slots := insert slot (written_raw_slots s)\<rparr>)) (\<lambda>_.
     let key = derive_storage_key C (self_address (ctx s)) slot
     in sbind (charge_cold_access key) (\<lambda>_.
        sbind (smod (journal_storage_write key)) (\<lambda>_.
        sbind (smod (\<lambda>s.
                 case hm_get (storage s) key of
                   Some v \<Rightarrow> if v \<noteq> [] then s\<lparr>gas_refund := gas_refund s + 1500\<rparr> else s
                 | None \<Rightarrow> s)) (\<lambda>_.
        sbind (put_storage key []) (\<lambda>_. next_pc))))))) s)"

section \<open>Logs\<close>

definition log_topic :: "u32 \<Rightarrow> nat \<Rightarrow> u256 vmop" where
  "log_topic desc_ptr t =
     (let offset = desc_ptr + of_nat t * 32
      in sbind (smapM (\<lambda>j. on_memory (load8 (offset + of_nat j))) [0..<32]) (\<lambda>buf.
         sret (from_le_bytes buf)))"

definition op_log :: "decoded_instruction \<Rightarrow> unit vmop" where
  "op_log d = (\<lambda>s.
     sbind (sguard (\<lambda>s. \<not> static_mode s) StaticModeViolation) (\<lambda>_.
     let num_topics = unat (rs2_or_imm d AND 0x7)
     in if num_topics > 4 then serr InvalidOpcode
        else
          (let desc_ptr = ucast (gp_of (rs1 d) s) :: u32
           in sbind (smapM (log_topic desc_ptr) [0..<num_topics]) (\<lambda>topics.
              let after_topics = desc_ptr + of_nat num_topics * 32
              in sbind (on_memory (load64 after_topics)) (\<lambda>data_ptr.
                 sbind (on_memory (load64 (after_topics + 8))) (\<lambda>data_len.
                 sbind (on_memory (checked_read_slice (ucast data_ptr) (unat data_len))) (\<lambda>data.
                 sbind (charge_gas (100 + data_len * 8 + of_nat num_topics * 50)) (\<lambda>_.
                 sbind (smod (\<lambda>s. s\<lparr>logs := logs s @
                   [\<lparr>ev_address = self_address (ctx s), ev_topics = topics, ev_data = data\<rparr>]\<rparr>)) (\<lambda>_.
                 next_pc)))))))) s)"

section \<open>Verification\<close>

text \<open>The early returns of the verification instructions write 0 and charge the page gas.\<close>

definition verify_fail :: "decoded_instruction \<Rightarrow> flow vmop" where
  "verify_fail d =
     sbind (set_gp (rd d) 0) (\<lambda>_. sbind next_pc (\<lambda>_.
     sbind drain_page_gas (\<lambda>_. sret (Return None))))"

definition op_verify_sig :: "crypto_lib \<Rightarrow> decoded_instruction \<Rightarrow> flow vmop" where
  "op_verify_sig C d = (\<lambda>s.
     let desc_addr = ucast (gp_of (rs1 d) s) :: u32
     in sbind (on_memory (load64 desc_addr)) (\<lambda>msg_ptr.
        sbind (on_memory (load64 (desc_addr + 8))) (\<lambda>msg_len.
        sbind (on_memory (load64 (desc_addr + 16))) (\<lambda>sig_ptr.
        sbind (on_memory (load64 (desc_addr + 24))) (\<lambda>sig_len.
        sbind (on_memory (load64 (desc_addr + 32))) (\<lambda>pk_ptr.
        sbind (on_memory (load64 (desc_addr + 40))) (\<lambda>pk_len.
        sbind (on_memory (checked_read_slice (ucast msg_ptr) (unat msg_len))) (\<lambda>msg.
        sbind (on_memory (checked_read_slice (ucast sig_ptr) (unat sig_len))) (\<lambda>sig_bytes.
        sbind (on_memory (checked_read_slice (ucast pk_ptr) (unat pk_len))) (\<lambda>pk_bytes.
        case falcon_pk_from_bytes pk_bytes of
          None \<Rightarrow> verify_fail d
        | Some pk \<Rightarrow>
            (case falcon_sig_from_bytes sig_bytes of
               None \<Rightarrow> verify_fail d
             | Some sig \<Rightarrow>
                 sbind (set_gp (rd d) (if falcon_verify C pk msg sig then 1 else 0)) (\<lambda>_.
                 sbind next_pc (\<lambda>_. sret Fallthrough)))))))))))) s)"

text \<open>The walk from the leaf to the root: sibling \<open>i\<close> of \<open>proof_len\<close> is hashed in.\<close>

fun merkle_walk :: "crypto_lib \<Rightarrow> u32 \<Rightarrow> nat list \<Rightarrow> hash256 \<Rightarrow> hash256 vmop" where
  "merkle_walk C desc_ptr [] current = sret current"
| "merkle_walk C desc_ptr (i # is) current =
     sbind (sopt MemoryFault (checked_add desc_ptr (72 + of_nat i * 32))) (\<lambda>sib_offset.
     sbind (on_memory (checked_read_slice sib_offset 32)) (\<lambda>sib_bytes.
     sbind (sopt MemoryFault (hash256_from_slice sib_bytes)) (\<lambda>sibling.
     merkle_walk C desc_ptr is (poseidon2_pair C current sibling))))"

definition op_merkle_verify :: "crypto_lib \<Rightarrow> decoded_instruction \<Rightarrow> flow vmop" where
  "op_merkle_verify C d = (\<lambda>s.
     let desc_ptr = ucast (gp_of (rs1 d) s) :: u32
     in sbind (on_memory (checked_read_slice desc_ptr 32)) (\<lambda>root_bytes.
        sbind (on_memory (checked_read_slice (desc_ptr + 32) 32)) (\<lambda>leaf_bytes.
        sbind (on_memory (load64 (desc_ptr + 64))) (\<lambda>proof_len.
        if proof_len > 256 then verify_fail d
        else
          sbind (charge_gas (proof_len * 1000)) (\<lambda>_.
          sbind (sopt MemoryFault (hash256_from_slice leaf_bytes)) (\<lambda>leaf.
          sbind (merkle_walk C desc_ptr [0..<unat proof_len] leaf) (\<lambda>current.
          sbind (sopt MemoryFault (hash256_from_slice root_bytes)) (\<lambda>root.
          sbind (set_gp (rd d) (if current = root then 1 else 0)) (\<lambda>_.
          sbind next_pc (\<lambda>_. sret Fallthrough))))))))) s)"

definition op_selfdestruct :: "unit vmop" where
  "op_selfdestruct =
     sbind (sguard (\<lambda>s. \<not> static_mode s) StaticModeViolation) (\<lambda>_. serr InvalidOpcode)"

section \<open>Arithmetic on numbers\<close>

text \<open>The contract of the machine's own arithmetic: as \<open>alu_spec\<close>, except that \<open>Addi\<close> wraps around.\<close>

definition step_alu_spec :: "opcode \<Rightarrow> nat \<Rightarrow> nat \<Rightarrow> int \<Rightarrow> trap + nat" where
  "step_alu_spec op a b imm = (if op = Op_Addi then Inr (nat ((int a + imm) mod 2 ^ 64)) else alu_spec op a b imm)"

definition step_alu_word :: "opcode \<Rightarrow> u64 \<Rightarrow> u64 \<Rightarrow> u64 \<Rightarrow> trap + u64" where
  "step_alu_word op a b imm = (if op = Op_Addi then Inr (a + imm) else alu_word op a b imm)"

lemma step_alu_word:
  "step_alu d s =
     (case step_alu_word (opcode d) (gp_of (rs1 d) s) (gp_of (ucast (rs2_or_imm d AND 0xF)) s)
             (scast (sign_extend_18 (rs2_or_imm d))) of
        Inl t \<Rightarrow> (Inl t, s)
      | Inr v \<Rightarrow> (Inr (), s\<lparr>cpu := write_gp (rd d) v (cpu s), pc := pc s + 4\<rparr>))"
  unfolding step_alu_def step_alu_word_def alu_word_def Let_def
  by (simp add: monad_simps ok_or_def checked_div_def sar64_def set_gp_def next_pc_def split: option.split)

lemma step_alu_word_spec:
  "step_alu_word op a b imm = map_sum id of_nat (step_alu_spec op (unat a) (unat b) (sint imm))"
proof (cases "op = Op_Addi")
  case True
  have "a + imm = of_int (int (unat a) + sint imm)" by simp
  then have "a + imm = of_nat (nat ((int (unat a) + sint imm) mod 2 ^ 64))" by (simp only: word_of_nat_mod)
  then show ?thesis using True by (simp add: step_alu_word_def step_alu_spec_def)
qed (simp add: step_alu_word_def step_alu_spec_def alu_word_spec)

text \<open>
  C23: the arithmetic and logic instructions of the running machine compute exactly what their
  contract on numbers says. Every instruction either writes the contract's result (a number below
  \<open>2 ^ 64\<close>) to its destination register and advances the program counter, or returns the contract's
  trap and changes nothing. \<open>Add\<close>, \<open>Sub\<close> and \<open>Mul\<close> trap exactly when the true result does not fit,
  \<open>Addi\<close> wraps, division and remainder trap exactly on a zero divisor, and shifts by 64 or more give
  what shifting one position at a time would give.
\<close>

theorem step_alu_refines:
  fixes d s
  defines "spec \<equiv> step_alu_spec (opcode d) (unat (gp_of (rs1 d) s)) (unat (gp_of (ucast (rs2_or_imm d AND 0xF)) s))
       (sint (sign_extend_18 (rs2_or_imm d)))"
  shows "step_alu d s =
      (case spec of
         Inl t \<Rightarrow> (Inl t, s)
       | Inr v \<Rightarrow> (Inr (), s\<lparr>cpu := write_gp (rd d) (of_nat v) (cpu s), pc := pc s + 4\<rparr>))
    \<and> (case spec of Inl t \<Rightarrow> True | Inr v \<Rightarrow> v < 2 ^ 64)"
proof
  have imm: "sint (scast (sign_extend_18 (rs2_or_imm d)) :: u64) = sint (sign_extend_18 (rs2_or_imm d))"
    by (simp add: sint_up_scast is_up)
  show "step_alu d s = (case spec of Inl t \<Rightarrow> (Inl t, s)
       | Inr v \<Rightarrow> (Inr (), s\<lparr>cpu := write_gp (rd d) (of_nat v) (cpu s), pc := pc s + 4\<rparr>))"
    unfolding step_alu_word step_alu_word_spec imm spec_def [symmetric] by (simp split: sum.split)
  show "case spec of Inl t \<Rightarrow> True | Inr v \<Rightarrow> v < 2 ^ 64"
    unfolding spec_def step_alu_spec_def using alu_spec_bound nat_mod_bound by (fastforce split: sum.split)
qed

end
