(* ===== verification/VmCall.thy ===== *)
theory VmCall
  imports VmOps
begin

unbundle bit_operations_syntax

text \<open>
  Cross-contract calls and deployments (\<open>do_ext_call\<close>, \<open>do_create\<close> and their match arms in
  \<open>Vm::step\<close>). A call builds a child machine and runs \<open>Vm::execute\<close> on it; here the child's
  execution is the argument \<open>execf\<close>, which theory \<open>Vm\<close> instantiates with \<open>execute\<close> itself.
\<close>

type_synonym executor = "vm \<Rightarrow> execution_output \<times> vm"

section \<open>Parts shared by calls and deployments\<close>

definition lookup_code :: "address \<Rightarrow> bytes option vmop" where
  "lookup_code target_addr = (\<lambda>s.
     case hm_get (contracts s) target_addr of
       Some code \<Rightarrow> (Inr (Some code), s)
     | None \<Rightarrow>
         (case code_backend s of
            Some backend \<Rightarrow>
              (case backend target_addr of
                 Some code \<Rightarrow>
                   (Inr (Some code), s\<lparr>contracts := hm_insert target_addr code (contracts s)\<rparr>)
               | None \<Rightarrow> (Inr None, s))
          | None \<Rightarrow> (Inr None, s)))"

definition available_gas :: "vm \<Rightarrow> u64" where
  "available_gas s =
     (if gas_limit s > 0 then saturating_sub (gas_limit s) (gas_used_total s) else - 1)"

definition max_forward_63_64 :: "vm \<Rightarrow> u64" where
  "max_forward_63_64 s = available_gas s - available_gas s div 64"

definition forwarded_gas :: "vm \<Rightarrow> u64 \<Rightarrow> u64" where
  "forwarded_gas s gas_to_forward =
     (if gas_to_forward = 0 then max_forward_63_64 s
      else min gas_to_forward (max_forward_63_64 s))"

definition balance_of :: "(address, u256) hashmap \<Rightarrow> address \<Rightarrow> u256" where
  "balance_of bals addr = (case hm_get bals addr of Some b \<Rightarrow> b | None \<Rightarrow> 0)"

text \<open>Debit the sender, credit the receiver; \<open>None\<close> when the sender's balance is too low.\<close>

definition transfer_value ::
    "address \<Rightarrow> address \<Rightarrow> u256 \<Rightarrow> (address, u256) hashmap \<Rightarrow> (address, u256) hashmap option" where
  "transfer_value caller_addr target_addr cv bals =
     (if cv > 0 then
        (let caller_bal = balance_of bals caller_addr
         in if caller_bal < cv then None
            else
              (let bals' = hm_insert caller_addr (caller_bal - cv) bals;
                   target_bal = balance_of bals' target_addr
               in Some (hm_insert target_addr (target_bal + cv) bals')))
      else Some bals)"

definition callee_context ::
    "vm \<Rightarrow> address \<Rightarrow> u256 \<Rightarrow> (address, u256) hashmap \<Rightarrow> execution_context" where
  "callee_context s target_addr cv bals =
     (ctx s)\<lparr>caller := self_address (ctx s), self_address := target_addr, call_value := cv,
             balances := bals\<rparr>"

text \<open>The balance map of the child is applied to the parent, every change journaled.\<close>

definition merge_balances :: "(address, u256) hashmap \<Rightarrow> vm \<Rightarrow> vm" where
  "merge_balances child_balances s =
     fold (\<lambda>(addr, child_bal) s.
             if hm_get (balances (ctx s)) addr \<noteq> Some child_bal
             then (let s = journal_balance_write addr s
                   in s\<lparr>ctx := (ctx s)\<lparr>balances := hm_insert addr child_bal (balances (ctx s))\<rparr>\<rparr>)
             else s)
       child_balances s"

text \<open>Warm keys and touched slots of the child are kept whatever the outcome.\<close>

definition merge_accesses :: "vm \<Rightarrow> vm \<Rightarrow> vm" where
  "merge_accesses child s =
     s\<lparr>warm_storage_keys := warm_storage_keys s \<union> warm_storage_keys child,
       accessed_raw_slots := accessed_raw_slots s \<union> accessed_raw_slots child,
       written_raw_slots := written_raw_slots s \<union> written_raw_slots child\<rparr>"

section \<open>External calls\<close>

definition failed_call :: call_result where
  "failed_call = \<lparr>cr_success = False, cr_return_data = [], cr_gas_used = 0\<rparr>"

text \<open>
  The context of the callee; \<open>None\<close> when the value attached to the call (register 8, if bit 13
  of the immediate is set) exceeds the caller's balance.
\<close>

definition call_context ::
    "vm \<Rightarrow> decoded_instruction \<Rightarrow> address \<Rightarrow> bool \<Rightarrow> execution_context option" where
  "call_context s d target_addr is_delegate =
     (if is_delegate then Some (ctx s)
      else
        (let has_value = (drop_bit 13 (rs2_or_imm d) AND 1 = 1);
             cv = (if has_value then ucast (gp_of 8 s) else 0)
         in map_option (callee_context s target_addr cv)
              (transfer_value (self_address (ctx s)) target_addr cv (balances (ctx s)))))"

definition spawn_child ::
    "vm \<Rightarrow> u64 \<Rightarrow> execution_context \<Rightarrow> bool \<Rightarrow> bytes \<Rightarrow> vm" where
  "spawn_child s forwarded child_ctx is_static_call cd =
     (with_gas_limit_and_context forwarded child_ctx)\<lparr>
       static_mode := is_static_call \<or> static_mode s,
       contracts := contracts s,
       storage_backend := storage_backend s,
       code_backend := code_backend s,
       ext_call_depth := ext_call_depth s + 1,
       calldata := cd,
       warm_storage_keys := warm_storage_keys s,
       storage := storage s\<rparr>"

definition merge_storage_journal :: "(u256 \<times> bytes option) list \<Rightarrow> vm \<Rightarrow> vm" where
  "merge_storage_journal child_journal s =
     fold (\<lambda>(key, old_value) s.
             if key \<notin> storage_journal_keys s
             then s\<lparr>storage_journal_keys := insert key (storage_journal_keys s),
                    storage_journal := storage_journal s @ [(key, old_value)]\<rparr>
             else s)
       child_journal s"

definition merge_success :: "bool \<Rightarrow> execution_output \<Rightarrow> vm \<Rightarrow> vm \<Rightarrow> vm" where
  "merge_success is_delegate output child s =
     (let s = merge_storage_journal (storage_journal child) s;
          s = s\<lparr>storage := storage child\<rparr>;
          s = (if \<not> is_delegate then merge_balances (balances (ctx child)) s else s)
      in s\<lparr>logs := logs s @ out_logs output, gas_refund := gas_refund s + out_gas_refund output\<rparr>)"

definition call_return_data :: "bool \<Rightarrow> vm \<Rightarrow> bytes" where
  "call_return_data succ child =
     (if return_data child \<noteq> [] then return_data child
      else if succ then
        (let r1 = gp_of 1 child;
             r2 = gp_of 2 child
         in if r2 > 0 then
              (let ptr = ucast r1 :: u32;
                   len = min (unat r2) MEMORY_SIZE;
                   e = unat ptr + len
               in if e \<le> MEMORY_SIZE then load_bytes (memory child) (unat ptr) len
                  else to_le_bytes 8 r1)
            else to_le_bytes 8 r1)
      else [])"

text \<open>From the child's load to the merge of its results; the parent's storage is already moved.\<close>

definition run_callee :: "executor \<Rightarrow> bool \<Rightarrow> vm \<Rightarrow> bytes \<Rightarrow> call_result vmop" where
  "run_callee execf is_delegate child bytecode =
     (case load bytecode child of
        (Inl _, _) \<Rightarrow> serr MemoryFault
      | (Inr _, child) \<Rightarrow>
          (case execf child of (output, child) \<Rightarrow>
             sbind (charge_gas (out_gas_used output)) (\<lambda>_.
             let succ = (out_outcome output = Success)
             in sbind (smod (\<lambda>s. if succ then merge_success is_delegate output child s
                                 else s\<lparr>storage := storage child\<rparr>)) (\<lambda>_.
                sbind (smod (merge_accesses child)) (\<lambda>_.
                sret \<lparr>cr_success = succ, cr_return_data = call_return_data succ child,
                      cr_gas_used = out_gas_used output\<rparr>)))))"

definition do_ext_call ::
    "executor \<Rightarrow> decoded_instruction \<Rightarrow> bool \<Rightarrow> bool \<Rightarrow> call_result vmop" where
  "do_ext_call execf d is_static is_delegate = (\<lambda>s.
     if ext_call_depth s \<ge> MAX_EXT_CALL_DEPTH then serr StackOverflow s
     else
       sbind (sres (read_wide_checked (cpu s) (rd d))) (\<lambda>target.
       let target_addr = to_le_bytes 32 target;
           calldata_ptr = ucast (gp_of (rs1 d) s);
           calldata_len = unat (gp_of (ucast (rs2_or_imm d AND 0xF)) s);
           gas_to_forward = gp_of (ucast (drop_bit 4 (rs2_or_imm d) AND 0xF)) s;
           is_static_call = (is_static \<or> drop_bit 12 (rs2_or_imm d) AND 1 = 1)
       in sbind (on_memory (checked_read_slice calldata_ptr calldata_len)) (\<lambda>cd.
          sbind (lookup_code target_addr) (\<lambda>code.
          case code of
            None \<Rightarrow> sret failed_call
          | Some bytecode \<Rightarrow> (\<lambda>s.
              case call_context s d target_addr is_delegate of
                None \<Rightarrow> sret failed_call s
              | Some child_ctx \<Rightarrow>
                  (let child = spawn_child s (forwarded_gas s gas_to_forward) child_ctx
                                 is_static_call cd
                   in sbind (smod (\<lambda>s. s\<lparr>storage := []\<rparr>)) (\<lambda>_.
                      run_callee execf is_delegate child bytecode) s))))) s)"

text \<open>
  The result convention of both call instructions: the flag in the result register; on success
  more than eight bytes go to the heap pointer in register 12, up to eight into register 1.
\<close>

definition deliver_return_data :: "bytes \<Rightarrow> vm \<Rightarrow> vm" where
  "deliver_return_data data s =
     (if length data > 8 then
        (let heap = ucast (gp_of 12 s) :: u32
         in case checked_write_slice heap data (memory s) of
              (Inr _, m) \<Rightarrow>
                s\<lparr>memory := m,
                  cpu := write_gp 2 (of_nat (length data)) (write_gp 1 (ucast heap) (cpu s))\<rparr>
            | (Inl _, m) \<Rightarrow>
                s\<lparr>memory := m,
                  cpu := write_gp 2 0 (write_gp 1 (from_le_bytes (take 8 data)) (cpu s))\<rparr>)
      else s\<lparr>cpu := write_gp 2 0 (write_gp 1 (from_le_bytes (pad_to 8 data)) (cpu s))\<rparr>)"

definition finish_call :: "decoded_instruction \<Rightarrow> call_result \<Rightarrow> unit vmop" where
  "finish_call d result =
     (let result_reg = ucast (drop_bit 8 (rs2_or_imm d) AND 0xF)
      in sbind (set_gp result_reg (if cr_success result then 1 else 0)) (\<lambda>_.
         sbind (smod (\<lambda>s. if cr_success result \<and> cr_return_data result \<noteq> []
                          then deliver_return_data (cr_return_data result) s else s)) (\<lambda>_.
         sbind (smod (\<lambda>s. s\<lparr>return_data := cr_return_data result\<rparr>)) (\<lambda>_.
         next_pc))))"

definition op_call_ext :: "executor \<Rightarrow> decoded_instruction \<Rightarrow> unit vmop" where
  "op_call_ext execf d =
     (let is_static_flag = (drop_bit 12 (rs2_or_imm d) AND 1 = 1)
      in sbind (sguard (\<lambda>s. \<not> (static_mode s \<and> \<not> is_static_flag)) StaticModeViolation) (\<lambda>_.
         sbind (do_ext_call execf d is_static_flag False) (finish_call d)))"

definition op_delegate :: "executor \<Rightarrow> decoded_instruction \<Rightarrow> unit vmop" where
  "op_delegate execf d = sbind (do_ext_call execf d False True) (finish_call d)"

section \<open>Deployment\<close>

definition create2_address :: "crypto_lib \<Rightarrow> address \<Rightarrow> u256 \<Rightarrow> bytes \<Rightarrow> address" where
  "create2_address C self_addr salt init_code =
     poseidon2_hash C
       ([0xFF] @ self_addr @ to_le_bytes 32 salt @ poseidon2_hash C init_code)"

definition create_address :: "crypto_lib \<Rightarrow> address \<Rightarrow> u256 \<Rightarrow> u64 \<Rightarrow> bytes \<Rightarrow> address" where
  "create_address C self_addr txh nonce init_code =
     poseidon2_hash C (self_addr @ to_le_bytes 32 txh @ to_le_bytes 8 nonce @ init_code)"

definition new_address :: "crypto_lib \<Rightarrow> bool \<Rightarrow> bytes \<Rightarrow> address vmop" where
  "new_address C is_create2 init_code = (\<lambda>s.
     let self_addr = self_address (ctx s)
     in (if is_create2 then
           sbind (sres (read_wide_checked (cpu s) 0)) (\<lambda>salt.
           sret (create2_address C self_addr salt init_code))
         else
           (let nonce = (case hm_get (create_counter s) self_addr of Some n \<Rightarrow> n | None \<Rightarrow> 0)
            in sbind (smod (\<lambda>s. s\<lparr>create_counter := hm_insert self_addr nonce (create_counter s)\<rparr>)) (\<lambda>_.
               sbind (sopt OutOfGas (checked_add nonce 1)) (\<lambda>next.
               sbind (smod (\<lambda>s. s\<lparr>create_counter := hm_insert self_addr next (create_counter s)\<rparr>)) (\<lambda>_.
               sret (create_address C self_addr (tx_hash (ctx s)) nonce init_code)))))) s)"

text \<open>
  The deploy format \<open>[clen:4][rlen:4][constructor][runtime][args]\<close>; code without a valid header
  is deployed as it is.
\<close>

definition parse_deploy :: "bytes \<Rightarrow> bytes option \<times> bytes \<times> bytes" where
  "parse_deploy init_code =
     (if length init_code \<ge> 8 then
        (let clen = unat (from_le_bytes (take 4 init_code) :: u32);
             rlen = unat (from_le_bytes (take 4 (drop 4 init_code)) :: u32)
         in if clen > 0 \<and> rlen > 0 \<and> 8 + clen + rlen \<le> length init_code
            then (Some (take clen (drop 8 init_code)), take rlen (drop (8 + clen) init_code),
                  drop (8 + clen + rlen) init_code)
            else (None, init_code, []))
      else (None, init_code, []))"

definition spawn_constructor :: "vm \<Rightarrow> execution_context \<Rightarrow> bytes \<Rightarrow> vm" where
  "spawn_constructor s child_ctx constructor_args =
     (with_gas_limit_and_context (max_forward_63_64 s) child_ctx)\<lparr>
       contracts := contracts s,
       storage_backend := storage_backend s,
       code_backend := code_backend s,
       warm_storage_keys := warm_storage_keys s,
       ext_call_depth := ext_call_depth s + 1,
       calldata := constructor_args\<rparr>"

definition merge_constructor_storage :: "(u256, bytes) hashmap \<Rightarrow> vm \<Rightarrow> vm" where
  "merge_constructor_storage child_storage s =
     fold (\<lambda>(k, v) s.
             let s = journal_storage_write k s in s\<lparr>storage := hm_insert k v (storage s)\<rparr>)
       child_storage s"

text \<open>Runs the constructor; the result is the balance map it leaves.\<close>

definition run_constructor ::
    "executor \<Rightarrow> vm \<Rightarrow> bytes \<Rightarrow> (address, u256) hashmap vmop" where
  "run_constructor execf child constructor_code =
     (case load constructor_code child of
        (Inl _, _) \<Rightarrow> serr MemoryFault
      | (Inr _, child) \<Rightarrow>
          (case execf child of (output, child) \<Rightarrow>
             sbind (charge_gas (out_gas_used output)) (\<lambda>_.
             sbind (case out_outcome output of
                      Success \<Rightarrow> sret ()
                    | OutcomeOutOfGas \<Rightarrow> serr OutOfGas
                    | Trapped t \<Rightarrow> serr t
                    | Reverted \<Rightarrow> serr MemoryFault) (\<lambda>_.
             sbind (smod (merge_constructor_storage (storage child))) (\<lambda>_.
             sbind (smod (merge_accesses child)) (\<lambda>_.
             sret (balances (ctx child))))))))"

definition do_create :: "crypto_lib \<Rightarrow> executor \<Rightarrow> decoded_instruction \<Rightarrow> bool \<Rightarrow> address vmop" where
  "do_create C execf d is_create2 = (\<lambda>s.
     if ext_call_depth s \<ge> MAX_EXT_CALL_DEPTH then serr StackOverflow s
     else
       (let code_ptr = ucast (gp_of (rs1 d) s);
            code_len = unat (gp_of (ucast (rs2_or_imm d AND 0xF)) s)
        in sbind (on_memory (checked_read_slice code_ptr code_len)) (\<lambda>init_code.
           sbind (new_address C is_create2 init_code) (\<lambda>new_addr s.
           if hm_get (contracts s) new_addr \<noteq> None then serr MemoryFault s
           else
             (case parse_deploy init_code of (constructor, runtime, constructor_args) \<Rightarrow>
                let cv = ucast (gp_of 8 s)
                in case transfer_value (self_address (ctx s)) new_addr cv (balances (ctx s)) of
                     None \<Rightarrow> serr MemoryFault s
                   | Some bals \<Rightarrow>
                       (let child_ctx = callee_context s new_addr cv bals
                        in sbind
                             (case constructor of
                                Some constructor_code \<Rightarrow>
                                  run_constructor execf
                                    (spawn_constructor s child_ctx constructor_args)
                                    constructor_code
                              | None \<Rightarrow> sret (balances child_ctx)) (\<lambda>final_balances.
                           sbind (smod (merge_balances final_balances)) (\<lambda>_.
                           sbind (charge_gas (of_nat (length runtime) * 200)) (\<lambda>_.
                           sbind (smod (\<lambda>s. s\<lparr>contracts :=
                             hm_insert new_addr runtime (contracts s)\<rparr>)) (\<lambda>_.
                           sret new_addr)))) s)))) s))"

definition op_create :: "crypto_lib \<Rightarrow> executor \<Rightarrow> decoded_instruction \<Rightarrow> unit vmop" where
  "op_create C execf d =
     sbind (sguard (\<lambda>s. \<not> static_mode s) StaticModeViolation) (\<lambda>_.
     sbind (\<lambda>s.
       case do_create C execf d False s of
         (Inr new_addr, s) \<Rightarrow>
           (Inr (), s\<lparr>cpu := write_wide (rd d) (from_le_bytes new_addr) (cpu s)\<rparr>)
       | (Inl t, s) \<Rightarrow>
           if t = OutOfGas then (Inl OutOfGas, s)
           else (Inr (), s\<lparr>cpu := write_wide (rd d) 0 (cpu s)\<rparr>)) (\<lambda>_.
     next_pc))"

end
