(* ===== verification/Journal.thy ===== *)
theory Journal
  imports VmState
begin

text \<open>
  The write journals of the machine. Storage and balances are maps that are written only after
  the old value of the key was recorded; a revert replays the record backwards. The interface
  \<open>journaled_map\<close> states what the two pairs of methods (\<open>journal_storage_write\<close> with
  \<open>rollback_storage\<close>, \<open>journal_balance_write\<close> with \<open>rollback_balances\<close>) do to map, journal and
  key set, proves once that a rollback restores what was visible when the journal was empty, and
  is interpreted for both.
\<close>

section \<open>Views and the journal invariant\<close>

text \<open>What a read sees: the overlay, and behind it the fallback (the storage backend).\<close>

definition overlay_view :: "('k \<Rightarrow> 'v option) \<Rightarrow> ('k, 'v) hashmap \<Rightarrow> 'k \<Rightarrow> 'v option" where
  "overlay_view fb m k = (case hm_get m k of Some v \<Rightarrow> Some v | None \<Rightarrow> fb k)"

definition undo_view ::
    "('k \<Rightarrow> 'v option) \<Rightarrow> ('k, 'v) hashmap \<Rightarrow> ('k \<times> 'v option) list \<Rightarrow> 'k \<Rightarrow> 'v option" where
  "undo_view fb m j k =
     (case map_of j k of
        Some old \<Rightarrow> (case old of Some v \<Rightarrow> Some v | None \<Rightarrow> fb k)
      | None \<Rightarrow> overlay_view fb m k)"

definition journal_wf :: "('k \<times> 'v option) list \<Rightarrow> 'k set \<Rightarrow> bool" where
  "journal_wf j ks \<longleftrightarrow> ks = fst ` set j \<and> distinct (map fst j)"

lemma journal_wf_Nil [simp]: "journal_wf [] {}"
  by (simp add: journal_wf_def)

lemma undo_view_Nil [simp]: "undo_view fb m [] = overlay_view fb m"
  by (rule ext) (simp add: undo_view_def)

lemma hm_get_restore_entry:
  "hm_get (restore_entry (a, old) m) k = (if k = a then old else hm_get m k)"
  by (cases old) (simp_all add: restore_entry_def)

lemma hm_get_restore_entries:
  "distinct (map fst es) \<Longrightarrow>
   hm_get (fold restore_entry es m) k = (case map_of es k of Some old \<Rightarrow> old | None \<Rightarrow> hm_get m k)"
proof (induction es arbitrary: m)
  case Nil
  then show ?case by simp
next
  case (Cons e es)
  obtain a old where e: "e = (a, old)" by (cases e)
  have "map_of es a = None" using Cons.prems e by (simp add: map_of_eq_None_iff)
  with Cons e show ?case by (auto simp: hm_get_restore_entry split: option.split)
qed

lemma hm_wf_restore_entries: "hm_wf m \<Longrightarrow> hm_wf (fold restore_entry es m)"
proof (induction es arbitrary: m)
  case (Cons e es)
  have "hm_wf (restore_entry e m)"
    using Cons.prems by (cases "snd e") (simp_all add: restore_entry_def)
  then show ?case using Cons.IH by simp
qed simp

lemma hm_get_rollback:
  assumes "journal_wf j ks"
  shows "hm_get (fold restore_entry (rev j) m) k
    = (case map_of j k of Some old \<Rightarrow> old | None \<Rightarrow> hm_get m k)"
proof -
  have d: "distinct (map fst (rev j))" "distinct (map fst j)"
    using assms by (simp_all add: journal_wf_def rev_map [symmetric])
  moreover have "map_of (rev j) = map_of j"
    using d by (simp add: map_of_inject_set)
  ultimately show ?thesis using hm_get_restore_entries by metis
qed

lemma view_rollback:
  assumes "journal_wf j ks"
  shows "overlay_view fb (fold restore_entry (rev j) m) = undo_view fb m j"
  using hm_get_rollback [OF assms, of m]
  by (auto simp: fun_eq_iff overlay_view_def undo_view_def split: option.splits)

lemma journal_record:
  assumes "journal_wf j ks" and "k \<notin> ks"
  shows "journal_wf (j @ [(k, hm_get m k)]) (insert k ks)"
    and "undo_view fb m (j @ [(k, hm_get m k)]) = undo_view fb m j"
proof -
  show "journal_wf (j @ [(k, hm_get m k)]) (insert k ks)"
    using assms by (auto simp: journal_wf_def)
  have "map_of j k = None" using assms by (auto simp: journal_wf_def map_of_eq_None_iff)
  then show "undo_view fb m (j @ [(k, hm_get m k)]) = undo_view fb m j"
    by (auto simp: fun_eq_iff undo_view_def overlay_view_def map_add_def split: option.splits)
qed

lemma undo_view_insert:
  assumes "journal_wf j ks" and "k \<in> ks"
  shows "undo_view fb (hm_insert k v m) j = undo_view fb m j"
proof -
  have "map_of j k \<noteq> None" using assms by (simp add: journal_wf_def map_of_eq_None_iff)
  then show ?thesis
    by (auto simp: fun_eq_iff undo_view_def overlay_view_def split: option.splits)
qed

lemma undo_view_overlay:
  "overlay_view fb m' = overlay_view fb m \<Longrightarrow> undo_view fb m' j = undo_view fb m j"
  by (simp add: fun_eq_iff undo_view_def split: option.split)

section \<open>The interface\<close>

locale journaled_map =
  fixes overlay :: "'s \<Rightarrow> ('k, 'v) hashmap"
    and fallback :: "'s \<Rightarrow> 'k \<Rightarrow> 'v option"
    and journal :: "'s \<Rightarrow> ('k \<times> 'v option) list"
    and jkeys :: "'s \<Rightarrow> 'k set"
    and record_write :: "'k \<Rightarrow> 's \<Rightarrow> 's"
    and rollback :: "'s \<Rightarrow> 's"
  assumes record_overlay: "overlay (record_write k s) = overlay s"
    and record_fallback: "fallback (record_write k s) = fallback s"
    and record_jkeys: "jkeys (record_write k s) = insert k (jkeys s)"
    and record_journal: "journal (record_write k s) =
      (if k \<in> jkeys s then journal s else journal s @ [(k, hm_get (overlay s) k)])"
    and rollback_overlay: "overlay (rollback s) = fold restore_entry (rev (journal s)) (overlay s)"
    and rollback_fallback: "fallback (rollback s) = fallback s"
begin

lemma record_wf: "journal_wf (journal s) (jkeys s) \<Longrightarrow>
    journal_wf (journal (record_write k s)) (jkeys (record_write k s))"
  by (simp add: record_jkeys record_journal journal_record insert_absorb)

lemma record_undo: "journal_wf (journal s) (jkeys s) \<Longrightarrow>
    undo_view (fallback (record_write k s)) (overlay (record_write k s)) (journal (record_write k s))
    = undo_view (fallback s) (overlay s) (journal s)"
  by (simp add: record_overlay record_fallback record_journal journal_record)

lemma write_undo:
  assumes "journal_wf (journal s) (jkeys s)" and "k \<in> jkeys s"
    and "overlay t = hm_insert k v (overlay s)" and "fallback t = fallback s"
    and "journal t = journal s"
  shows "undo_view (fallback t) (overlay t) (journal t)
    = undo_view (fallback s) (overlay s) (journal s)"
  using assms by (simp add: undo_view_insert)

lemma rollback_restores:
  assumes "journal_wf (journal s) (jkeys s)"
  shows "overlay_view (fallback (rollback s)) (overlay (rollback s))
    = undo_view (fallback s) (overlay s) (journal s)"
  by (simp add: rollback_overlay rollback_fallback view_rollback [OF assms])

end

definition backend_get :: "vm \<Rightarrow> u256 \<Rightarrow> bytes option" where
  "backend_get s k = (case storage_backend s of Some b \<Rightarrow> b k | None \<Rightarrow> None)"

lemma backend_get_update [simp]:
  "backend_get (s\<lparr>storage := m\<rparr>) = backend_get s"
  "backend_get (s\<lparr>ctx := c\<rparr>) = backend_get s"
  "backend_get (s\<lparr>logs := l\<rparr>) = backend_get s"
  "backend_get (s\<lparr>gas_refund := g\<rparr>) = backend_get s"
  "backend_get (s\<lparr>contracts := cs\<rparr>) = backend_get s"
  "backend_get (s\<lparr>memory := mem\<rparr>) = backend_get s"
  "backend_get (s\<lparr>cpu := r\<rparr>) = backend_get s"
  "backend_get (s\<lparr>storage_journal := j\<rparr>) = backend_get s"
  "backend_get (s\<lparr>storage_journal_keys := ks\<rparr>) = backend_get s"
  "backend_get (s\<lparr>balance_journal := bj\<rparr>) = backend_get s"
  "backend_get (s\<lparr>balance_journal_keys := bk\<rparr>) = backend_get s"
  "backend_get (s\<lparr>warm_storage_keys := w\<rparr>) = backend_get s"
  "backend_get (s\<lparr>accessed_raw_slots := w\<rparr>) = backend_get s"
  "backend_get (s\<lparr>written_raw_slots := w\<rparr>) = backend_get s"
  "backend_get (s\<lparr>create_counter := cc\<rparr>) = backend_get s"
  by (simp_all add: backend_get_def fun_eq_iff)

interpretation storage_log: journaled_map storage backend_get storage_journal storage_journal_keys
  journal_storage_write rollback_storage
  by unfold_locales
     (auto simp: journal_storage_write_def rollback_storage_def backend_get_def fun_eq_iff)

interpretation balance_log: journaled_map "\<lambda>s. balances (ctx s)" "\<lambda>s k. None" balance_journal
  balance_journal_keys journal_balance_write rollback_balances
  by unfold_locales (auto simp: journal_balance_write_def rollback_balances_def)

text \<open>The storage a contract sees, and what would be seen after a rollback.\<close>

definition storage_view :: "vm \<Rightarrow> u256 \<Rightarrow> bytes option" where
  "storage_view s = overlay_view (backend_get s) (storage s)"

definition storage_base :: "vm \<Rightarrow> u256 \<Rightarrow> bytes option" where
  "storage_base s = undo_view (backend_get s) (storage s) (storage_journal s)"

definition balance_base :: "vm \<Rightarrow> address \<Rightarrow> u256 option" where
  "balance_base s = undo_view (\<lambda>_. None) (balances (ctx s)) (balance_journal s)"

lemma overlay_view_None [simp]: "overlay_view (\<lambda>_. None) m = hm_get m"
  by (rule ext) (simp add: overlay_view_def split: option.split)

end
