(* ===== verification/VmFrame.thy ===== *)
theory VmFrame
  imports VmOps Journal
begin

unbundle bit_operations_syntax

text \<open>
  What the single-machine instructions leave alone. \<open>local_step\<close> describes an instruction that
  computes: registers, program counter, memory and gas may change, gas only grows, the code
  section is kept, and nothing of the context, storage, journals, logs or contracts changes.
  \<open>local_ok\<close> adds that an instruction which completes within the gas limit stays within it.
\<close>

definition within_limit :: "vm \<Rightarrow> bool" where
  "within_limit s \<longleftrightarrow> gas_limit s = 0 \<or> gas_used_total s \<le> gas_limit s"

definition call_stack_ok :: "vm \<Rightarrow> bool" where
  "call_stack_ok s \<longleftrightarrow> length (call_stack s) \<le> MAX_CALL_DEPTH"

text \<open>What no instruction changes at all.\<close>

definition same_setup :: "vm \<Rightarrow> vm \<Rightarrow> bool" where
  "same_setup s t \<longleftrightarrow>
     gas_limit t = gas_limit s \<and> decoded_cache t = decoded_cache s
     \<and> storage_backend t = storage_backend s \<and> code_backend t = code_backend s
     \<and> calldata t = calldata s \<and> static_mode t = static_mode s
     \<and> ext_call_depth t = ext_call_depth s \<and> allowed_storage_keys t = allowed_storage_keys s
     \<and> (ctx t)\<lparr>balances := []\<rparr> = (ctx s)\<lparr>balances := []\<rparr>"

text \<open>
  What every instruction keeps: gas grows, the code section stays, the stacks stay bounded, logs
  are only appended to.
\<close>

definition machine_step :: "vm \<Rightarrow> vm \<Rightarrow> bool" where
  "machine_step s t \<longleftrightarrow>
     same_setup s t \<and> gas_used_total s \<le> gas_used_total t \<and> mem_step (memory s) (memory t)
     \<and> (call_stack_ok s \<longrightarrow> call_stack_ok t) \<and> (\<exists>l. logs t = logs s @ l)"

definition machine_ok :: "vm \<Rightarrow> vm \<Rightarrow> bool" where
  "machine_ok s t \<longleftrightarrow> machine_step s t \<and> (within_limit s \<longrightarrow> within_limit t)"

text \<open>Only a call that runs out of gas may leave the accumulator above the limit.\<close>

definition machine_err :: "trap \<Rightarrow> vm \<Rightarrow> vm \<Rightarrow> bool" where
  "machine_err e s t \<longleftrightarrow> (if e = OutOfGas then machine_step s t else machine_ok s t)"

definition same_world :: "vm \<Rightarrow> vm \<Rightarrow> bool" where
  "same_world s t \<longleftrightarrow>
     ctx t = ctx s \<and> storage t = storage s \<and> logs t = logs s
     \<and> storage_journal t = storage_journal s \<and> storage_journal_keys t = storage_journal_keys s
     \<and> balance_journal t = balance_journal s \<and> balance_journal_keys t = balance_journal_keys s
     \<and> contracts t = contracts s \<and> create_counter t = create_counter s
     \<and> gas_refund t = gas_refund s"

definition local_step :: "vm \<Rightarrow> vm \<Rightarrow> bool" where
  "local_step s t \<longleftrightarrow> machine_step s t \<and> same_world s t"

definition local_ok :: "vm \<Rightarrow> vm \<Rightarrow> bool" where
  "local_ok s t \<longleftrightarrow> machine_ok s t \<and> same_world s t"

definition local_err :: "trap \<Rightarrow> vm \<Rightarrow> vm \<Rightarrow> bool" where
  "local_err e s t \<longleftrightarrow> (if e = OutOfGas then local_step s t else local_ok s t)"

lemmas step_rel_defs =
  machine_step_def machine_ok_def machine_err_def local_step_def local_ok_def local_err_def
  same_setup_def same_world_def

lemma machine_step_refl [simp]: "machine_step s s"
  by (simp add: step_rel_defs)

lemma machine_step_trans: "machine_step s t \<Longrightarrow> machine_step t u \<Longrightarrow> machine_step s u"
  by (auto simp: step_rel_defs intro: mem_step_trans)

interpretation machine: result_frame machine_ok machine_err
  by unfold_locales
     (auto simp: machine_ok_def machine_err_def intro: machine_step_trans split: if_splits)

interpretation local_frame: result_frame local_ok local_err
  by unfold_locales
     (auto simp: local_ok_def local_step_def local_err_def machine_ok_def same_world_def
       intro: machine_step_trans split: if_splits)

lemma local_imp_machine:
  "keeps local_ok local_err r s \<Longrightarrow> keeps machine_ok machine_err r s"
  by (erule keeps_mono)
     (auto simp: local_ok_def local_step_def local_err_def machine_err_def split: if_splits)

section \<open>The shared operations\<close>

lemma checked_add_ge: "checked_add a b = Some c \<Longrightarrow> a \<le> c"
  using checked_add_SomeD(1) by (fastforce simp: word_le_nat_alt)

lemma local_on_memory [frame_intros]:
  assumes "keeps mem_step (\<lambda>_. mem_step) (f (memory s)) (memory s)"
  shows "keeps local_ok local_err (on_memory f s) s"
  using assms
  by (auto simp: on_memory_def keeps_def step_rel_defs within_limit_def call_stack_ok_def
      split: prod.splits sum.splits)

lemma local_on_cpu [frame_intros]: "keeps local_ok local_err (on_cpu f s) s"
  by (auto simp: on_cpu_def keeps_def step_rel_defs within_limit_def call_stack_ok_def
      split: prod.splits sum.splits)

lemma local_updates [frame_intros]:
  "local_ok s (s\<lparr>pc := p\<rparr>)" "local_ok s (s\<lparr>cpu := c\<rparr>)"
  "local_ok s (s\<lparr>warm_storage_keys := w\<rparr>)" "local_ok s (s\<lparr>accessed_raw_slots := w\<rparr>)"
  "local_ok s (s\<lparr>accessed_raw_slots := w, written_raw_slots := w'\<rparr>)"
  "local_ok s (s\<lparr>return_data := rdata\<rparr>)"
  by (simp_all add: step_rel_defs within_limit_def call_stack_ok_def)

lemma local_set_gp [frame_intros]: "keeps local_ok local_err (set_gp r v s) s"
  unfolding set_gp_def by (intro frame_intros)

lemma local_next_pc [frame_intros]: "keeps local_ok local_err (next_pc s) s"
  unfolding next_pc_def by (intro frame_intros)

lemma local_charge_gas [frame_intros]: "keeps local_ok local_err (charge_gas g s) s"
  by (auto simp: charge_gas_def monad_simps keeps_def step_rel_defs within_limit_def
      call_stack_ok_def not_less word_neq_0_conv dest: checked_add_ge split: option.splits)

lemma local_drain [frame_intros]: "keeps local_ok local_err (drain_page_gas s) s"
  by (auto simp: drain_page_gas_def monad_simps keeps_def step_rel_defs within_limit_def
      call_stack_ok_def not_less word_neq_0_conv dest: checked_add_ge split: option.splits)

lemma local_precheck [frame_intros]: "keeps local_ok local_err (precheck_bulk_page_budget n s) s"
  unfolding precheck_bulk_page_budget_def Let_def by (intro frame_intros)

lemma charge_gas_within: "charge_gas g s = (Inr x, t) \<Longrightarrow> within_limit t"
  by (auto simp: charge_gas_def monad_simps within_limit_def not_less word_neq_0_conv
      split: option.splits if_splits)

lemma keeps_case_mem_width [frame_intros]:
  "keeps Q E (a t) s \<Longrightarrow> keeps Q E (b t) s \<Longrightarrow> keeps Q E (c t) s \<Longrightarrow> keeps Q E (d t) s \<Longrightarrow>
   keeps Q E ((case w of W8 \<Rightarrow> a | W16 \<Rightarrow> b | W32 \<Rightarrow> c | W64 \<Rightarrow> d) t) s"
  by (cases w) simp_all

section \<open>The instructions that compute\<close>

lemma local_control [frame_intros]:
  "keeps local_ok local_err (op_jmp d s) s"
  "keeps local_ok local_err (op_branch f d s) s"
  "keeps local_ok local_err (op_assert d s) s"
  unfolding op_jmp_def op_branch_def op_assert_def Let_def by (intro frame_intros)+

lemma local_op_call [frame_intros]: "keeps local_ok local_err (op_call d s) s"
  by (auto simp: op_call_def monad_simps step_rel_defs within_limit_def call_stack_ok_def)

lemma local_op_ret [frame_intros]: "keeps local_ok local_err (op_ret s) s"
  by (auto simp: op_ret_def monad_simps step_rel_defs within_limit_def call_stack_ok_def
      split: list.splits)

lemma local_op_revert [frame_intros]: "keeps local_ok local_err (op_revert d s) s"
proof -
  have "mem_step (memory s) (snd (checked_read_slice p n (memory s)))" for p n
    using mem_step_loads(6) [of p n "memory s"] by (simp add: keeps_same)
  then have "mem_step (memory s) m" if "checked_read_slice p n (memory s) = (r, m)" for p n r m
    using that by (metis snd_conv)
  then show ?thesis
    by (auto simp: op_revert_def Let_def step_rel_defs within_limit_def call_stack_ok_def
        split: prod.splits sum.splits)
qed

lemma local_alu [frame_intros]: "keeps local_ok local_err (step_alu d s) s"
  unfolding step_alu_def Let_def by (intro frame_intros)

lemma local_wide [frame_intros]: "keeps local_ok local_err (step_wide d s) s"
  unfolding step_wide_def by (intro frame_intros)

lemma local_stack_pointer [frame_intros]:
  "x \<le> STACK_TOP \<Longrightarrow> stack_pointer (memory s) \<le> x \<Longrightarrow>
   local_ok s (s\<lparr>memory := (memory s)\<lparr>stack_pointer := x\<rparr>\<rparr>)"
  by (auto simp: step_rel_defs within_limit_def call_stack_ok_def mem_step_def heap_stack_ok_def)

lemma local_memory [frame_intros]:
  "keeps local_ok local_err (op_load d s) s"
  "keeps local_ok local_err (op_store d s) s"
  "keeps local_ok local_err (op_wload d s) s"
  "keeps local_ok local_err (op_wstore d s) s"
  "keeps local_ok local_err (op_push d s) s"
  "keeps local_ok local_err (op_memcpy d s) s"
  unfolding op_load_def op_store_def op_wload_def op_wstore_def op_push_def op_memcpy_def Let_def
  by (intro frame_intros)+

lemma local_environment [frame_intros]:
  "keeps local_ok local_err (op_caller d s) s"
  "keeps local_ok local_err (op_callvalue d s) s"
  "keeps local_ok local_err (op_blockhash d s) s"
  "keeps local_ok local_err (op_poseidon C d s) s"
  unfolding op_caller_def op_callvalue_def op_blockhash_def op_poseidon_def Let_def
  by (intro frame_intros)+

lemma local_verify_fail [frame_intros]: "keeps local_ok local_err (verify_fail d s) s"
  unfolding verify_fail_def by (intro frame_intros)

lemma local_verify_sig [frame_intros]: "keeps local_ok local_err (op_verify_sig C d s) s"
  unfolding op_verify_sig_def Let_def by (intro frame_intros)

lemma local_merkle_walk [frame_intros]: "keeps local_ok local_err (merkle_walk C p is h s) s"
  by (induction "is" arbitrary: h s) (simp_all only: merkle_walk.simps, (intro frame_intros | assumption)+)

lemma local_merkle_verify [frame_intros]: "keeps local_ok local_err (op_merkle_verify C d s) s"
  unfolding op_merkle_verify_def Let_def by (intro frame_intros)

lemma local_selfdestruct [frame_intros]: "keeps local_ok local_err (op_selfdestruct s) s"
  unfolding op_selfdestruct_def by (intro frame_intros)

lemma load64_fields:
  "load64 a m = (r, m') \<Longrightarrow> heap_top m' = heap_top m \<and> stack_pointer m' = stack_pointer m"
  by (rule check_access_cases [of a 8 m]) (auto simp: load64_def monad_simps)

lemma local_op_pop [frame_intros]: "keeps local_ok local_err (op_pop d s) s"
proof (cases "checked_add (stack_pointer (memory s)) 8 = None \<or> stack_pointer (memory s) + 8 > STACK_TOP")
  case True
  then show ?thesis
    unfolding op_pop_def Let_def by (simp add: monad_simps local_frame.E_refl)
next
  case False
  let ?sp = "stack_pointer (memory s)"
  have "checked_add ?sp 8 = Some (?sp + 8)" using False by (auto simp: checked_add_def split: if_splits)
  then have le: "?sp \<le> ?sp + 8" by (rule checked_add_ge)
  have "keeps local_ok local_err
      (sbind (set_gp (rd d) v) (\<lambda>_.
       sbind (smod (\<lambda>s. s\<lparr>memory := (memory s)\<lparr>stack_pointer := ?sp + 8\<rparr>\<rparr>)) (\<lambda>_. next_pc)) t) t"
    if "on_memory (load64 ?sp) s = (Inr v, t)" for v t
  proof -
    have "stack_pointer (memory t) = ?sp"
      using that load64_fields [of ?sp "memory s"]
      by (auto simp: on_memory_def split: prod.splits sum.splits)
    then have "local_ok (t\<lparr>cpu := write_gp (rd d) v (cpu t)\<rparr>)
        (t\<lparr>cpu := write_gp (rd d) v (cpu t), memory := (memory t)\<lparr>stack_pointer := ?sp + 8\<rparr>\<rparr>)"
      using local_stack_pointer [of "?sp + 8" "t\<lparr>cpu := write_gp (rd d) v (cpu t)\<rparr>"] le False
      by (simp add: not_less)
    moreover have "local_ok t (t\<lparr>cpu := write_gp (rd d) v (cpu t)\<rparr>)" by (intro frame_intros)
    ultimately have "local_ok t (t\<lparr>cpu := write_gp (rd d) v (cpu t),
        memory := (memory t)\<lparr>stack_pointer := ?sp + 8\<rparr>\<rparr>)"
      by (rule local_frame.Q_trans [rotated])
    then show ?thesis
      by (simp add: monad_simps set_gp_def next_pc_def)
         (erule local_frame.Q_trans, intro frame_intros)
  qed
  then have "keeps local_ok local_err
      (sbind (on_memory (load64 ?sp)) (\<lambda>v. sbind (set_gp (rd d) v) (\<lambda>_.
       sbind (smod (\<lambda>s. s\<lparr>memory := (memory s)\<lparr>stack_pointer := ?sp + 8\<rparr>\<rparr>)) (\<lambda>_. next_pc))) s) s"
    by (rule local_frame.bind_eq [rotated]) (assumption | intro local_on_memory mem_step_loads)+
  then show ?thesis
    unfolding op_pop_def Let_def using False by (intro keeps_if) auto
qed

section \<open>The instructions on storage and logs\<close>

text \<open>
  \<open>world_step\<close>: balances and contracts stay, logs are appended to, storage writes are
  journaled (a rollback would show the same storage before and after), and in static mode the
  visible storage and the logs stay as they are.
\<close>

definition world_step :: "vm \<Rightarrow> vm \<Rightarrow> bool" where
  "world_step s t \<longleftrightarrow>
     machine_step s t \<and> ctx t = ctx s
     \<and> balance_journal t = balance_journal s \<and> balance_journal_keys t = balance_journal_keys s
     \<and> contracts t = contracts s \<and> create_counter t = create_counter s
     \<and> (journal_wf (storage_journal s) (storage_journal_keys s) \<longrightarrow>
          journal_wf (storage_journal t) (storage_journal_keys t) \<and> storage_base t = storage_base s)
     \<and> storage_journal_keys s \<subseteq> storage_journal_keys t
     \<and> (static_mode s \<longrightarrow>
          storage_view t = storage_view s \<and> logs t = logs s \<and> gas_refund t = gas_refund s
          \<and> storage_journal t = storage_journal s)"

definition world_ok :: "vm \<Rightarrow> vm \<Rightarrow> bool" where
  "world_ok s t \<longleftrightarrow> world_step s t \<and> (within_limit s \<longrightarrow> within_limit t)"

definition world_err :: "trap \<Rightarrow> vm \<Rightarrow> vm \<Rightarrow> bool" where
  "world_err e s t \<longleftrightarrow> (if e = OutOfGas then world_step s t else world_ok s t)"

lemma machine_step_static: "machine_step s t \<Longrightarrow> static_mode t = static_mode s"
  by (simp add: step_rel_defs)

lemma world_step_refl [simp]: "world_step s s"
  by (simp add: world_step_def)

lemma world_step_trans: "world_step s t \<Longrightarrow> world_step t u \<Longrightarrow> world_step s u"
  by (auto simp: world_step_def machine_step_static intro: machine_step_trans)

interpretation world: result_frame world_ok world_err
  by unfold_locales
     (auto simp: world_ok_def world_err_def intro: world_step_trans split: if_splits)

lemma machine_step_backend: "machine_step s t \<Longrightarrow> backend_get t = backend_get s"
  by (simp add: step_rel_defs backend_get_def fun_eq_iff)

lemma local_step_world: "local_step s t \<Longrightarrow> world_step s t"
  using machine_step_backend [of s t]
  by (simp add: world_step_def local_step_def same_world_def storage_view_def storage_base_def)

lemma local_ok_world: "local_ok s t \<Longrightarrow> world_ok s t"
  using local_step_world by (auto simp: world_ok_def local_ok_def local_step_def machine_ok_def)

lemma keeps_local_world:
  "keeps local_ok local_err r s \<Longrightarrow> keeps world_ok world_err r s"
  by (erule keeps_mono)
     (auto simp: local_step_world local_ok_world local_err_def world_err_def split: if_splits)

text \<open>A write is allowed outside static mode and after its key was journaled.\<close>

definition writer_err :: "u256 set \<Rightarrow> trap \<Rightarrow> vm \<Rightarrow> vm \<Rightarrow> bool" where
  "writer_err ks e s t \<longleftrightarrow>
     (\<not> static_mode s \<and> ks \<subseteq> storage_journal_keys s \<longrightarrow> world_err e s t)"

definition writer_ok :: "u256 set \<Rightarrow> vm \<Rightarrow> vm \<Rightarrow> bool" where
  "writer_ok ks s t \<longleftrightarrow>
     (\<not> static_mode s \<and> ks \<subseteq> storage_journal_keys s \<longrightarrow> world_ok s t)"

lemma world_step_writer:
  "world_step s t \<Longrightarrow> \<not> static_mode s \<and> ks \<subseteq> storage_journal_keys s \<Longrightarrow>
   \<not> static_mode t \<and> ks \<subseteq> storage_journal_keys t"
  by (auto simp: world_step_def machine_step_static)

interpretation writer: result_frame "writer_ok ks" "writer_err ks" for ks
  by unfold_locales
     (auto simp: writer_ok_def writer_err_def world_ok_def world_err_def dest: world_step_writer
       intro: world_step_trans split: if_splits)

lemma writer_local [frame_intros]:
  assumes "keeps local_ok local_err r s"
  shows "keeps (writer_ok ks) (writer_err ks) r s"
  using assms
  by (rule keeps_mono)
     (auto simp: writer_ok_def writer_err_def local_err_def world_err_def local_step_world
       local_ok_world split: if_splits)

lemma writer_update: "local_ok s t \<Longrightarrow> writer_ok ks s t"
  by (simp add: writer_ok_def local_ok_world)

text \<open>The guard against static mode, and the journaling of a key before it is written.\<close>

lemma keeps_nonstatic:
  assumes "\<And>t. keeps (writer_ok {}) (writer_err {}) (m t) t"
  shows "keeps world_ok world_err
    (sbind (sguard (\<lambda>s. \<not> static_mode s) StaticModeViolation) (\<lambda>_. m) s) s"
proof (cases "static_mode s")
  case True
  then show ?thesis by (simp add: monad_simps world.E_refl)
next
  case False
  with assms [of s] show ?thesis
    by (auto simp: monad_simps keeps_def writer_ok_def writer_err_def
        split: prod.splits sum.splits)
qed

lemma world_journal: "\<not> static_mode s \<Longrightarrow> world_ok s (journal_storage_write k s)"
  using storage_log.record_wf [of s k] storage_log.record_undo [of s k]
  by (auto simp: world_ok_def world_step_def step_rel_defs within_limit_def call_stack_ok_def
      journal_storage_write_def storage_base_def backend_get_def)

lemma keeps_journaled:
  assumes "\<And>t. keeps (writer_ok {k}) (writer_err {k}) (m t) t"
  shows "keeps (writer_ok {}) (writer_err {})
    (sbind (smod (journal_storage_write k)) (\<lambda>_. m) s) s"
proof -
  let ?t = "journal_storage_write k s"
  have "k \<in> storage_journal_keys ?t" by (simp add: storage_log.record_jkeys)
  moreover have "static_mode ?t = static_mode s" by (simp add: journal_storage_write_def)
  ultimately show ?thesis
    using assms [of ?t] world_journal [of s k]
    by (auto simp: monad_simps keeps_def writer_ok_def writer_err_def
        split: prod.splits sum.splits intro: world.Q_trans world.QE_trans)
qed

lemma writer_put_storage [frame_intros]:
  "keeps (writer_ok {k}) (writer_err {k}) (put_storage k v s) s"
  using storage_log.write_undo [of s k "s\<lparr>storage := hm_insert k v (storage s)\<rparr>" v]
  by (auto simp: put_storage_def monad_simps writer_ok_def world_ok_def world_step_def
      step_rel_defs within_limit_def call_stack_ok_def storage_base_def backend_get_def)

lemma world_local [frame_intros]:
  "keeps local_ok local_err r s \<Longrightarrow> keeps world_ok world_err r s"
  by (rule keeps_local_world)

lemma local_charge_cold [frame_intros]: "keeps local_ok local_err (charge_cold_access k s) s"
  unfolding charge_cold_access_def by (intro frame_intros)

lemma local_access_list [frame_intros]: "keeps local_ok local_err (check_access_list k s) s"
  unfolding check_access_list_def by (intro frame_intros)

lemma local_sload_to_memory [frame_intros]: "keeps local_ok local_err (sload_to_memory d v s) s"
  unfolding sload_to_memory_def Let_def by (intro frame_intros)

text \<open>Caching a backend value in the overlay is invisible.\<close>

lemma overlay_view_cache:
  "hm_get m k = None \<Longrightarrow> fb k = Some v \<Longrightarrow> overlay_view fb (hm_insert k v m) = overlay_view fb m"
  by (auto simp: fun_eq_iff overlay_view_def)

lemma world_storage_lookup [frame_intros]:
  "keeps world_ok world_err (storage_lookup k s) s"
proof -
  have "world_ok s (s\<lparr>storage := hm_insert k v (storage s)\<rparr>)"
    if "hm_get (storage s) k = None" and "backend_get s k = Some v" for v
    using overlay_view_cache [of "storage s" k "backend_get s" v] that
    by (auto simp: world_ok_def world_step_def step_rel_defs within_limit_def call_stack_ok_def
        storage_view_def storage_base_def intro!: undo_view_overlay)
  then show ?thesis
    by (auto simp: storage_lookup_def Let_def backend_get_def world.Q_refl split: option.splits)
qed

lemma world_op_sload [frame_intros]: "keeps world_ok world_err (op_sload C d s) s"
  unfolding op_sload_def Let_def
  by (intro world.bind world.pure world_storage_lookup)
     (intro frame_intros)+

lemma writer_sstore_from_memory [frame_intros]:
  "keeps (writer_ok {k}) (writer_err {k}) (sstore_from_memory d k s) s"
  unfolding sstore_from_memory_def Let_def
  by (intro writer.bind writer_put_storage writer_local) (intro frame_intros)+

lemma writer_slots [frame_intros]:
  "keeps (writer_ok ks) (writer_err ks)
     (smod (\<lambda>s. s\<lparr>accessed_raw_slots := insert slot (accessed_raw_slots s),
                  written_raw_slots := insert slot (written_raw_slots s)\<rparr>) s) s"
  by (intro writer_local frame_intros)

lemma world_op_sstore [frame_intros]: "keeps world_ok world_err (op_sstore C d s) s"
  unfolding op_sstore_def Let_def
proof (intro keeps_nonstatic writer.bind [OF writer.pure(4)] writer.bind [OF writer_slots]
    writer.bind [OF writer_local [OF local_access_list]]
    writer.bind [OF writer_local [OF local_charge_cold]] keeps_journaled)
qed (intro writer.bind frame_intros)+

lemma writer_refund [frame_intros]:
  "keeps (writer_ok ks) (writer_err ks)
     (smod (\<lambda>s. case hm_get (storage s) key of
        Some v \<Rightarrow> if v \<noteq> [] then s\<lparr>gas_refund := gas_refund s + 1500\<rparr> else s | None \<Rightarrow> s) s) s"
  by (auto simp: monad_simps writer_ok_def world_ok_def world_step_def step_rel_defs
      within_limit_def call_stack_ok_def storage_base_def split: option.splits)

lemma world_op_sdelete [frame_intros]: "keeps world_ok world_err (op_sdelete C d s) s"
  unfolding op_sdelete_def Let_def
proof (intro keeps_nonstatic writer.bind [OF writer.pure(4)] writer.bind [OF writer_slots]
    writer.bind [OF writer_local [OF local_charge_cold]] keeps_journaled)
qed (intro writer.bind frame_intros)+

lemma local_log_topic [frame_intros]: "keeps local_ok local_err (log_topic p t s) s"
  unfolding log_topic_def Let_def by (intro frame_intros)

lemma writer_logs [frame_intros]:
  "keeps (writer_ok ks) (writer_err ks) (smod (\<lambda>s. s\<lparr>logs := logs s @ f s\<rparr>) s) s"
  by (auto simp: monad_simps writer_ok_def world_ok_def world_step_def step_rel_defs
      within_limit_def call_stack_ok_def storage_base_def)

lemma world_op_log [frame_intros]: "keeps world_ok world_err (op_log d s) s"
  unfolding op_log_def Let_def
proof (intro keeps_nonstatic)
qed (intro writer.bind frame_intros)+

end
