(* ===== verification/CallFrame.thy ===== *)
theory CallFrame
  imports VmCall VmFrame
begin

unbundle bit_operations_syntax

text \<open>
  What calls and deployments keep of the calling machine, whatever the execution of the child
  does (\<open>machine_step\<close> of theory \<open>VmFrame\<close>), and that the child's execution is consulted only
  on machines one call level deeper, and only below the depth limit.
\<close>

section \<open>The caller's machine\<close>

lemmas machine_defs = step_rel_defs within_limit_def call_stack_ok_def

lemma machine_local [frame_intros]:
  "keeps local_ok local_err r s \<Longrightarrow> keeps machine_ok machine_err r s"
  by (rule local_imp_machine)

lemma machine_world [frame_intros]:
  "keeps world_ok world_err r s \<Longrightarrow> keeps machine_ok machine_err r s"
  by (erule keeps_mono)
     (auto simp: world_ok_def world_step_def world_err_def machine_ok_def machine_err_def
       split: if_splits)

lemma machine_updates [simp]:
  "machine_ok s (s\<lparr>storage := m\<rparr>)" "machine_ok s (s\<lparr>contracts := cs\<rparr>)"
  "machine_ok s (s\<lparr>create_counter := cc\<rparr>)" "machine_ok s (s\<lparr>return_data := rdata\<rparr>)"
  "machine_ok s (s\<lparr>cpu := c\<rparr>)" "machine_ok s (s\<lparr>ctx := (ctx s)\<lparr>balances := bs\<rparr>\<rparr>)"
  "machine_ok s (s\<lparr>logs := logs s @ l, gas_refund := g\<rparr>)"
  "machine_ok s (s\<lparr>storage_journal_keys := ks, storage_journal := j\<rparr>)"
  by (simp_all add: machine_defs)

lemma machine_journals [simp]:
  "machine_ok s (journal_storage_write k s)" "machine_ok s (journal_balance_write a s)"
  by (simp_all add: machine_defs journal_storage_write_def journal_balance_write_def)

text \<open>A loop over the entries of a map, each iteration keeping the machine.\<close>

lemma machine_fold:
  assumes "\<And>x t. machine_ok t (f x t)"
  shows "machine_ok s (fold f xs s)"
  using assms by (induction xs arbitrary: s) (auto intro: machine.Q_trans machine.Q_refl)

lemma machine_merge_balances [simp]: "machine_ok s (merge_balances bs s)"
  unfolding merge_balances_def Let_def
  by (rule machine_fold)
     (auto simp: machine.Q_refl intro: machine.Q_trans [OF machine_journals(2) machine_updates(6)])

lemma machine_merge_storage_journal [simp]: "machine_ok s (merge_storage_journal j s)"
  unfolding merge_storage_journal_def by (rule machine_fold) (auto simp: machine.Q_refl)

lemma machine_merge_constructor_storage [simp]: "machine_ok s (merge_constructor_storage m s)"
  unfolding merge_constructor_storage_def Let_def
  by (rule machine_fold)
     (auto intro: machine.Q_trans [OF machine_journals(1) machine_updates(1)])

lemma machine_merge_accesses [simp]: "machine_ok s (merge_accesses child s)"
  by (simp add: merge_accesses_def machine_defs)

lemma machine_merge_success [simp]: "machine_ok s (merge_success b out child s)"
proof -
  let ?s1 = "merge_storage_journal (storage_journal child) s"
  let ?s2 = "?s1\<lparr>storage := storage child\<rparr>"
  let ?s3 = "if \<not> b then merge_balances (balances (ctx child)) ?s2 else ?s2"
  have "machine_ok s ?s1" "machine_ok ?s1 ?s2" "machine_ok ?s2 ?s3"
    by (simp_all add: machine.Q_refl)
  moreover have "machine_ok ?s3 (merge_success b out child s)"
    unfolding merge_success_def Let_def by (rule machine_updates)
  ultimately show ?thesis by (blast intro: machine.Q_trans)
qed

lemma machine_deliver [simp]: "machine_ok s (deliver_return_data data s)"
proof -
  have "mem_step (memory s) m" if "checked_write_slice p data (memory s) = (r, m)" for p r m
    using mem_step_stores(6) [of p data "memory s"] that by (simp add: keeps_same)
  then show ?thesis
    by (auto simp: deliver_return_data_def Let_def machine_defs split: prod.splits sum.splits)
qed

lemma machine_lookup_code [frame_intros]: "keeps machine_ok machine_err (lookup_code a s) s"
  by (auto simp: lookup_code_def machine.Q_refl split: option.splits)

lemma machine_run_callee [frame_intros]:
  "keeps machine_ok machine_err (run_callee execf b child code s) s"
  unfolding run_callee_def Let_def
  by (auto split: prod.split sum.split intro!: machine.bind machine.pure machine.modify
      machine_local [OF local_charge_gas])

lemma machine_do_ext_call [frame_intros]:
  "keeps machine_ok machine_err (do_ext_call execf d b b' s) s"
  unfolding do_ext_call_def Let_def
  by (intro keeps_if keeps_case_option machine.bind machine_run_callee machine_lookup_code
      machine.modify machine_updates machine.pure) (intro frame_intros)+

lemma machine_finish_call [frame_intros]: "keeps machine_ok machine_err (finish_call d r s) s"
  unfolding finish_call_def Let_def
  by (intro machine.bind machine.modify machine_updates) (auto simp: machine.Q_refl intro!: frame_intros)

lemma machine_calls [frame_intros]:
  "keeps machine_ok machine_err (op_call_ext execf d s) s"
  "keeps machine_ok machine_err (op_delegate execf d s) s"
  unfolding op_call_ext_def op_delegate_def Let_def
  by (intro machine.bind machine.pure machine_do_ext_call machine_finish_call)+

lemma machine_new_address [frame_intros]: "keeps machine_ok machine_err (new_address C b code s) s"
  unfolding new_address_def Let_def
  by (intro keeps_if machine.bind machine.pure machine.modify machine_updates)

lemma keeps_case_outcome:
  assumes "keeps Q E (a t) s" "keeps Q E (b t) s" "keeps Q E (c t) s" "\<And>x. keeps Q E (d x t) s"
  shows "keeps Q E ((case r of Success \<Rightarrow> a | Reverted \<Rightarrow> b | OutcomeOutOfGas \<Rightarrow> c | Trapped x \<Rightarrow> d x) t) s"
  using assms by (cases r) simp_all

lemma machine_run_constructor [frame_intros]:
  "keeps machine_ok machine_err (run_constructor execf child code s) s"
  unfolding run_constructor_def
  by (auto split: prod.split sum.split intro!: machine.bind machine.pure machine.modify
      keeps_case_outcome machine_local [OF local_charge_gas])

lemma machine_do_create [frame_intros]:
  "keeps machine_ok machine_err (do_create C execf d b s) s"
  unfolding do_create_def Let_def
  by (auto split: prod.split intro!: keeps_if keeps_case_option machine.bind machine_run_constructor
      machine_new_address machine.modify machine.pure machine_local [OF local_charge_gas]
      machine_local [OF local_on_memory] mem_step_loads)

lemma machine_op_create [frame_intros]: "keeps machine_ok machine_err (op_create C execf d s) s"
proof -
  have "keeps machine_ok machine_err
      (case do_create C execf d False t of
         (Inr new_addr, s) \<Rightarrow>
           (Inr (), s\<lparr>cpu := write_wide (rd d) (from_le_bytes new_addr) (cpu s)\<rparr>)
       | (Inl e, s) \<Rightarrow>
           if e = OutOfGas then (Inl OutOfGas, s)
           else (Inr (), s\<lparr>cpu := write_wide (rd d) 0 (cpu s)\<rparr>)) t" for t
    using machine_do_create [of C execf d False t]
    by (auto simp: keeps_def machine_err_def intro: machine.Q_trans [OF _ machine_updates(5)]
        split: prod.splits sum.splits)
  then show ?thesis
    unfolding op_create_def by (intro machine.bind machine.pure) (auto intro!: frame_intros)
qed

section \<open>What the merges change\<close>

lemma merge_storage_journal_form:
  "\<exists>ks j'. merge_storage_journal j s = s\<lparr>storage_journal_keys := ks, storage_journal := j'\<rparr>"
proof (induction j arbitrary: s)
  case Nil
  have "merge_storage_journal [] s
      = s\<lparr>storage_journal_keys := storage_journal_keys s, storage_journal := storage_journal s\<rparr>"
    by (simp add: merge_storage_journal_def)
  then show ?case by blast
next
  case (Cons e j)
  obtain k old where e: "e = (k, old)" by (cases e)
  show ?case
  proof (cases "k \<in> storage_journal_keys s")
    case True
    then have "merge_storage_journal (e # j) s = merge_storage_journal j s"
      using e by (simp add: merge_storage_journal_def)
    with Cons.IH show ?thesis by simp
  next
    case False
    then have "merge_storage_journal (e # j) s = merge_storage_journal j
        (s\<lparr>storage_journal_keys := insert k (storage_journal_keys s),
           storage_journal := storage_journal s @ [(k, old)]\<rparr>)"
      using e by (simp add: merge_storage_journal_def)
    with Cons.IH [of "s\<lparr>storage_journal_keys := insert k (storage_journal_keys s),
           storage_journal := storage_journal s @ [(k, old)]\<rparr>"]
    show ?thesis by auto
  qed
qed

lemma merge_constructor_storage_form:
  "\<exists>st ks j. merge_constructor_storage m s
     = s\<lparr>storage := st, storage_journal_keys := ks, storage_journal := j\<rparr>"
proof (induction m arbitrary: s)
  case Nil
  have "merge_constructor_storage [] s = s\<lparr>storage := storage s,
      storage_journal_keys := storage_journal_keys s, storage_journal := storage_journal s\<rparr>"
    by (simp add: merge_constructor_storage_def)
  then show ?case by blast
next
  case (Cons e m)
  obtain k v where e: "e = (k, v)" by (cases e)
  define t where "t = (journal_storage_write k s)\<lparr>storage := hm_insert k v (storage s)\<rparr>"
  have "merge_constructor_storage (e # m) s = merge_constructor_storage m t"
    using e storage_log.record_overlay [of k s]
    by (simp add: merge_constructor_storage_def t_def Let_def)
  moreover obtain st ks j where "merge_constructor_storage m t
      = t\<lparr>storage := st, storage_journal_keys := ks, storage_journal := j\<rparr>" using Cons.IH by blast
  moreover have "t\<lparr>storage := st, storage_journal_keys := ks, storage_journal := j\<rparr>
      = s\<lparr>storage := st, storage_journal_keys := ks, storage_journal := j\<rparr>"
    by (simp add: t_def journal_storage_write_def)
  ultimately show ?case by metis
qed

lemma merge_balances_form:
  "\<exists>bs' bk bj. merge_balances bs s = s\<lparr>ctx := (ctx s)\<lparr>balances := bs'\<rparr>,
     balance_journal_keys := bk, balance_journal := bj\<rparr>"
proof (induction bs arbitrary: s)
  case Nil
  have "merge_balances [] s = s\<lparr>ctx := (ctx s)\<lparr>balances := balances (ctx s)\<rparr>,
     balance_journal_keys := balance_journal_keys s, balance_journal := balance_journal s\<rparr>"
    by (simp add: merge_balances_def)
  then show ?case by blast
next
  case (Cons e bs)
  obtain a b where e: "e = (a, b)" by (cases e)
  define t where "t = (if hm_get (balances (ctx s)) a \<noteq> Some b
             then (let s = journal_balance_write a s
                   in s\<lparr>ctx := (ctx s)\<lparr>balances := hm_insert a b (balances (ctx s))\<rparr>\<rparr>)
             else s)"
  have "merge_balances (e # bs) s = merge_balances bs t"
    using e by (simp add: merge_balances_def t_def)
  moreover obtain bs' bk bj where "merge_balances bs t = t\<lparr>ctx := (ctx t)\<lparr>balances := bs'\<rparr>,
     balance_journal_keys := bk, balance_journal := bj\<rparr>" using Cons.IH by blast
  moreover have "t\<lparr>ctx := (ctx t)\<lparr>balances := bs'\<rparr>, balance_journal_keys := bk, balance_journal := bj\<rparr>
      = s\<lparr>ctx := (ctx s)\<lparr>balances := bs'\<rparr>, balance_journal_keys := bk, balance_journal := bj\<rparr>"
    by (simp add: t_def journal_balance_write_def Let_def)
  ultimately show ?case by metis
qed

section \<open>Where the child's execution is consulted\<close>

definition agree_at :: "nat \<Rightarrow> executor \<Rightarrow> executor \<Rightarrow> bool" where
  "agree_at n f g \<longleftrightarrow> (\<forall>child. ext_call_depth child = n \<longrightarrow> f child = g child)"

lemma sbind_cong_at:
  "m s = m' s \<Longrightarrow> (\<And>x t. m s = (Inr x, t) \<Longrightarrow> f x t = g x t) \<Longrightarrow> sbind m f s = sbind m' g s"
  by (auto simp: sbind_def split: prod.splits sum.splits)

lemma machine_step_depth: "machine_step s t \<Longrightarrow> ext_call_depth t = ext_call_depth s"
  by (simp add: step_rel_defs)

lemma keeps_machine_depth:
  assumes "keeps machine_ok machine_err (m s) s" and "m s = (Inr x, t)"
  shows "ext_call_depth t = ext_call_depth s"
  using assms by (simp add: machine_ok_def machine_step_depth)

lemma load_fields:
  assumes "load code s = (r, t)"
  shows "ext_call_depth t = ext_call_depth s" "gas_limit t = gas_limit s" "storage t = storage s"
    "ctx t = ctx s" "static_mode t = static_mode s" "storage_backend t = storage_backend s"
    "code_backend t = code_backend s" "logs t = logs s" "contracts t = contracts s"
    "gas_used_total t = gas_used_total s" "gas_refund t = gas_refund s"
    "call_stack t = call_stack s"
  using assms
  by (auto simp: load_def map_calldata_def Let_def monad_simps on_memory_def set_gp_def
      split: prod.splits sum.splits if_splits)

lemma run_callee_cong:
  assumes "agree_at (ext_call_depth child) f g"
  shows "run_callee f b child code = run_callee g b child code"
proof (cases "load code child")
  case (Pair r t)
  with assms load_fields(1) [OF Pair] have "f t = g t" by (simp add: agree_at_def)
  with Pair show ?thesis by (simp add: run_callee_def split: sum.split)
qed

lemma run_constructor_cong:
  assumes "agree_at (ext_call_depth child) f g"
  shows "run_constructor f child code = run_constructor g child code"
proof (cases "load code child")
  case (Pair r t)
  with assms load_fields(1) [OF Pair] have "f t = g t" by (simp add: agree_at_def)
  with Pair show ?thesis by (simp add: run_constructor_def split: sum.split)
qed

lemma spawn_depth [simp]:
  "ext_call_depth (spawn_child s g c b cd) = Suc (ext_call_depth s)"
  "ext_call_depth (spawn_constructor s c cd) = Suc (ext_call_depth s)"
  by (simp_all add: spawn_child_def spawn_constructor_def)

lemma do_ext_call_cong:
  assumes "ext_call_depth s < MAX_EXT_CALL_DEPTH \<Longrightarrow> agree_at (Suc (ext_call_depth s)) f g"
  shows "do_ext_call f d b b' s = do_ext_call g d b b' s"
proof (cases "ext_call_depth s \<ge> MAX_EXT_CALL_DEPTH")
  case True
  then show ?thesis by (simp add: do_ext_call_def)
next
  case False
  then have *: "agree_at (Suc (ext_call_depth s)) f g" using assms by simp
  have "ext_call_depth t = ext_call_depth s"
    if "on_memory (checked_read_slice p n) s = (Inr cd, u)" "lookup_code a u = (Inr code, t)" for p n cd u a code t
    using keeps_machine_depth [where m = "on_memory (checked_read_slice p n)", OF _ that(1)]
      keeps_machine_depth [where m = "lookup_code a", OF machine_lookup_code that(2)]
    by (simp add: machine_local local_on_memory mem_step_loads)
  then have "run_callee f b' (spawn_child t x c b'' cd') bytecode
      = run_callee g b' (spawn_child t x c b'' cd') bytecode"
    if "on_memory (checked_read_slice p n) s = (Inr cd, u)" "lookup_code a u = (Inr code, t)"
    for p n cd u a code t x c b'' cd' bytecode
    using * that by (intro run_callee_cong) simp
  with False show ?thesis
    unfolding do_ext_call_def Let_def if_not_P [OF False]
    by (intro sbind_cong_at refl) (auto simp: monad_simps split: option.split)
qed

lemma new_address_depth:
  "new_address C b code s = (Inr a, t) \<Longrightarrow> ext_call_depth t = ext_call_depth s"
  using keeps_machine_depth [where m = "new_address C b code", OF machine_new_address] .

lemma do_create_cong:
  assumes "ext_call_depth s < MAX_EXT_CALL_DEPTH \<Longrightarrow> agree_at (Suc (ext_call_depth s)) f g"
  shows "do_create C f d b s = do_create C g d b s"
proof (cases "ext_call_depth s \<ge> MAX_EXT_CALL_DEPTH")
  case True
  then show ?thesis by (simp add: do_create_def)
next
  case False
  then have *: "agree_at (Suc (ext_call_depth s)) f g" using assms by simp
  have "ext_call_depth t = ext_call_depth s"
    if "on_memory (checked_read_slice p n) s = (Inr cd, u)" "new_address C b cd u = (Inr a, t)"
    for p n cd u a t
    using keeps_machine_depth [where m = "on_memory (checked_read_slice p n)", OF _ that(1)]
      new_address_depth [OF that(2)]
    by (simp add: machine_local local_on_memory mem_step_loads)
  then have "run_constructor f (spawn_constructor t c args) code
      = run_constructor g (spawn_constructor t c args) code"
    if "on_memory (checked_read_slice p n) s = (Inr cd, u)" "new_address C b cd u = (Inr a, t)"
    for p n cd u a t c args code
    using * that by (intro run_constructor_cong) simp
  with False show ?thesis
    unfolding do_create_def Let_def if_not_P [OF False]
    by (intro sbind_cong_at refl) (auto split: option.split prod.split)
qed

lemma op_calls_cong:
  assumes "ext_call_depth s < MAX_EXT_CALL_DEPTH \<Longrightarrow> agree_at (Suc (ext_call_depth s)) f g"
  shows "op_call_ext f d s = op_call_ext g d s" "op_delegate f d s = op_delegate g d s"
    "op_create C f d s = op_create C g d s"
proof -
  note ext = do_ext_call_cong [OF assms]
  show "op_call_ext f d s = op_call_ext g d s"
    unfolding op_call_ext_def Let_def
    by (intro sbind_cong_at refl) (auto simp: monad_simps ext sbind_def split: if_splits)
  show "op_delegate f d s = op_delegate g d s"
    by (simp add: op_delegate_def sbind_def ext)
  show "op_create C f d s = op_create C g d s"
    unfolding op_create_def
    by (intro sbind_cong_at refl)
       (auto simp: monad_simps do_create_cong [OF assms] split: if_splits)
qed

end
