(* ===== verification/Vm.thy ===== *)
theory Vm
  imports CallFrame
begin

unbundle bit_operations_syntax

text \<open>
  The interpreter loop (\<open>Vm::step\<close>, \<open>run\<close>, \<open>execute\<close>, \<open>exec_single\<close> of
  \<open>crates/pvm/src/vm.rs\<close>). \<open>step\<close> and the loop take the execution of child machines as an
  argument; \<open>execute\<close> ties the knot. Both recursions are proved to end: the loop because every
  completed step adds at least three to the 64-bit gas accumulator, which never wraps; nested
  executions because the call depth is bounded by 64.
\<close>

section \<open>One instruction\<close>

definition fall :: "unit vmop \<Rightarrow> flow vmop" where
  "fall m = sbind m (\<lambda>_. sret Fallthrough)"

definition is_alu :: "opcode \<Rightarrow> bool" where
  "is_alu op \<longleftrightarrow>
     op \<in> {Op_Add, Op_Sub, Op_Mul, Op_Div, Op_Mod, Op_Addi, Op_And, Op_Or, Op_Xor, Op_Not, Op_Shl,
           Op_Shr, Op_Sar, Op_Lt, Op_Gt, Op_Eq, Op_Slt, Op_Sgt}"

definition is_wide_alu :: "opcode \<Rightarrow> bool" where
  "is_wide_alu op \<longleftrightarrow>
     op \<in> {Op_Wadd, Op_Wsub, Op_Wmul, Op_Wdiv, Op_Wmod, Op_Wand, Op_Wor, Op_Wxor, Op_Wnot,
           Op_Wshift, Op_Wmov, Op_Narrow, Op_Widen, Op_Weq, Op_Wlt}"

definition dispatch :: "crypto_lib \<Rightarrow> executor \<Rightarrow> decoded_instruction \<Rightarrow> flow vmop" where
  "dispatch C execf d =
     (let op = opcode d
      in if op = Op_Jmp then fall (op_jmp d)
         else if op = Op_Beq then fall (op_branch (\<lambda>a b. a = b) d)
         else if op = Op_Bne then fall (op_branch (\<lambda>a b. a \<noteq> b) d)
         else if op = Op_Blt then fall (op_branch (\<lambda>a b. a < b) d)
         else if op = Op_Bge then fall (op_branch (\<lambda>a b. a \<ge> b) d)
         else if op = Op_Call then fall (op_call d)
         else if op = Op_Ret then fall op_ret
         else if op = Op_Halt then sret (Return (Some ExecHalt))
         else if op = Op_Revert then op_revert d
         else if is_alu op then fall (step_alu d)
         else if is_wide_alu op then fall (step_wide d)
         else if op = Op_Load then fall (op_load d)
         else if op = Op_Store then fall (op_store d)
         else if op = Op_Wload then fall (op_wload d)
         else if op = Op_Wstore then fall (op_wstore d)
         else if op = Op_Push then fall (op_push d)
         else if op = Op_Pop then fall (op_pop d)
         else if op = Op_Caller then fall (op_caller d)
         else if op = Op_Callvalue then fall (op_callvalue d)
         else if op = Op_Blockhash then fall (op_blockhash d)
         else if op = Op_Poseidon then fall (op_poseidon C d)
         else if op = Op_Sload then fall (op_sload C d)
         else if op = Op_Sstore then fall (op_sstore C d)
         else if op = Op_Sdelete then fall (op_sdelete C d)
         else if op = Op_Log then fall (op_log d)
         else if op = Op_VerifySig then op_verify_sig C d
         else if op = Op_CallExt then fall (op_call_ext execf d)
         else if op = Op_Delegate then fall (op_delegate execf d)
         else if op = Op_Create then fall (op_create C execf d)
         else if op = Op_Assert then op_assert d
         else if op = Op_Memcpy then fall (op_memcpy d)
         else if op = Op_Selfdestruct then fall op_selfdestruct
         else if op = Op_MerkleVerify then op_merkle_verify C d
         else serr InvalidOpcode)"

text \<open>The instruction itself and the charge for the pages it touched.\<close>

definition step_body ::
    "crypto_lib \<Rightarrow> executor \<Rightarrow> decoded_instruction \<Rightarrow> exec_result option vmop" where
  "step_body C execf d =
     sbind (dispatch C execf d) (\<lambda>fl.
     case fl of
       Return r \<Rightarrow> sret r
     | Fallthrough \<Rightarrow> sbind drain_page_gas (\<lambda>_. sret None))"

definition step :: "crypto_lib \<Rightarrow> executor \<Rightarrow> exec_result option vmop" where
  "step C execf =
     sbind check_pc_bounds (\<lambda>_ s.
     let d = decoded_cache s ! unat (pc s div 4)
     in sbind (charge_gas (total_gas (to_u8 (opcode d)))) (\<lambda>_. step_body C execf d) s)"

definition exec_single ::
    "crypto_lib \<Rightarrow> executor \<Rightarrow> decoded_instruction \<Rightarrow> exec_result option vmop" where
  "exec_single C execf d = (\<lambda>s.
     case step C execf (s\<lparr>decoded_cache := [d], pc := 0\<rparr>) of
       (result, s') \<Rightarrow> (result, s'\<lparr>decoded_cache := decoded_cache s, pc := pc s\<rparr>))"

section \<open>What a step keeps\<close>

lemmas local_ops = local_control local_op_call local_op_ret local_op_revert local_alu local_wide
  local_memory local_op_pop local_environment local_verify_sig local_merkle_verify
  local_selfdestruct

lemmas world_ops = world_op_sload world_op_sstore world_op_sdelete world_op_log

lemma machine_dispatch: "keeps machine_ok machine_err (dispatch C execf d s) s"
  unfolding dispatch_def Let_def fall_def
  by (intro keeps_if machine.bind machine.pure machine_calls machine_op_create
      machine_local [OF local_control(1)] machine_local [OF local_control(2)]
      machine_local [OF local_control(3)] machine_local [OF local_op_call]
      machine_local [OF local_op_ret] machine_local [OF local_op_revert]
      machine_local [OF local_alu] machine_local [OF local_wide])
     ((rule machine_local, rule local_ops) | (rule machine_world, rule world_ops))+

abbreviation current :: "vm \<Rightarrow> decoded_instruction" where
  "current s \<equiv> decoded_cache s ! unat (pc s div 4)"

lemma step_unfold:
  assumes "check_pc_bounds s = (Inr (), s)"
  shows "step C execf s =
    sbind (charge_gas (total_gas (to_u8 (opcode (current s))))) (\<lambda>_. step_body C execf (current s)) s"
  using assms by (simp add: step_def sbind_def Let_def)

lemma check_pc_bounds_cases:
  "check_pc_bounds s = (Inr (), s) \<or> check_pc_bounds s = (Inl InvalidOpcode, s)"
  by (simp add: check_pc_bounds_def monad_simps)

lemma machine_step_body: "keeps machine_ok machine_err (step_body C execf d s) s"
  unfolding step_body_def
proof (rule machine.bind [OF machine_dispatch])
  fix fl t
  show "keeps machine_ok machine_err
    ((case fl of Return r \<Rightarrow> sret r | Fallthrough \<Rightarrow> sbind drain_page_gas (\<lambda>_. sret None)) t) t"
    by (cases fl) (auto intro!: machine.bind machine.pure machine_local [OF local_drain])
qed

lemma machine_step_step: "keeps machine_ok machine_err (step C execf s) s"
  using check_pc_bounds_cases [of s]
proof
  assume "check_pc_bounds s = (Inr (), s)"
  then show ?thesis
    by (simp only: step_unfold)
       (intro machine.bind [OF machine_local [OF local_charge_gas]] machine_step_body)
qed (simp add: step_def monad_simps machine.E_refl)

text \<open>Every completed step costs at least three gas and ends within the limit.\<close>

lemma step_gas:
  assumes "step C execf s = (Inr r, t)"
  shows "unat (gas_used_total s) + 3 \<le> unat (gas_used_total t)" and "within_limit t"
proof -
  let ?g = "total_gas (to_u8 (opcode (current s)))"
  have "check_pc_bounds s = (Inr (), s)"
    using assms check_pc_bounds_cases [of s] by (auto simp: step_def monad_simps)
  then obtain u where u: "charge_gas ?g s = (Inr (), u)"
    and "step_body C execf (current s) u = (Inr r, t)"
    using assms by (auto simp: step_unfold sbind_Inr_iff)
  then have "machine_ok u t" using machine_step_body [of C execf "current s" u] by simp
  moreover have "unat (gas_used_total u) = unat (gas_used_total s) + unat ?g"
    using u by (auto simp: charge_gas_def monad_simps dest!: checked_add_SomeD(1)
        split: option.splits if_splits)
  moreover have "within_limit u" using u by (rule charge_gas_within)
  ultimately show "unat (gas_used_total s) + 3 \<le> unat (gas_used_total t)" and "within_limit t"
    using total_gas_bounds(1) [of "to_u8 (opcode (current s))"]
    by (auto simp: machine_ok_def machine_step_def word_le_nat_alt)
qed

section \<open>The loop\<close>

text \<open>The gas accumulator grows by three or more per step and stays below \<open>2 ^ 64\<close>.\<close>

lemma step_measure:
  assumes "step C execf s = (Inr None, s')"
  shows "2 ^ 64 - unat (gas_used_total s') < 2 ^ 64 - unat (gas_used_total s)"
  using step_gas(1) [OF assms] unat_lt_length [of "gas_used_total s'"] by simp

function run :: "crypto_lib \<Rightarrow> executor \<Rightarrow> exec_result vmop" where
  "run C execf s =
     (case step C execf s of
        (Inr None, s') \<Rightarrow> run C execf s'
      | (Inr (Some result), s') \<Rightarrow> (Inr result, s')
      | (Inl t, s') \<Rightarrow> (Inl t, s'))"
  by pat_completeness auto

termination
  by (relation "measure (\<lambda>(C, execf, s). 2 ^ 64 - unat (gas_used_total s))")
     (auto dest: step_measure [OF sym] step_measure)

declare run.simps [simp del]

lemma run_step:
  "step C execf s = (Inr None, t) \<Longrightarrow> run C execf s = run C execf t"
  "step C execf s = (Inr (Some r), t) \<Longrightarrow> run C execf s = (Inr r, t)"
  "step C execf s = (Inl e, t) \<Longrightarrow> run C execf s = (Inl e, t)"
  by (simp_all add: run.simps [of C execf s])

lemma run_cases:
  obtains (more) t where "step C execf s = (Inr None, t)" "run C execf s = run C execf t"
  | (result) r t where "step C execf s = (Inr (Some r), t)" "run C execf s = (Inr r, t)"
  | (trap) e t where "step C execf s = (Inl e, t)" "run C execf s = (Inl e, t)"
proof (cases "step C execf s")
  case (Pair r t)
  consider "r = Inr None" | x where "r = Inr (Some x)" | e where "r = Inl e"
    by (cases r) (auto split: option.splits)
  then show ?thesis using Pair more result trap run_step by cases auto
qed

lemma run_induct:
  assumes "\<And>s. (\<And>t. step C execf s = (Inr None, t) \<Longrightarrow> P t) \<Longrightarrow> P s"
  shows "P s"
proof (induction "2 ^ 64 - unat (gas_used_total s)" arbitrary: s rule: less_induct)
  case less
  then show ?case using assms step_measure by metis
qed

section \<open>Execution with rollback\<close>

text \<open>The four journal clears at the start and at the end of \<open>execute\<close>.\<close>

definition clear_journals :: "vm \<Rightarrow> vm" where
  "clear_journals s =
     s\<lparr>storage_journal := [], storage_journal_keys := {}, balance_journal := [],
       balance_journal_keys := {}\<rparr>"

definition undo_changes :: "nat \<Rightarrow> vm \<Rightarrow> vm" where
  "undo_changes logs_snapshot_len s =
     (let s = rollback_balances (rollback_storage s)
      in s\<lparr>logs := take logs_snapshot_len (logs s), gas_refund := 0\<rparr>)"

definition settle :: "nat \<Rightarrow> (trap + exec_result) \<times> vm \<Rightarrow> outcome \<times> vm" where
  "settle logs_snapshot_len r =
     (case r of
        (Inr ExecHalt, s) \<Rightarrow> (Success, s)
      | (Inr ExecRevert, s) \<Rightarrow> (Reverted, undo_changes logs_snapshot_len s)
      | (Inl t, s) \<Rightarrow>
          (if t = OutOfGas then OutcomeOutOfGas else Trapped t, undo_changes logs_snapshot_len s))"

definition execute_with :: "crypto_lib \<Rightarrow> executor \<Rightarrow> executor" where
  "execute_with C execf s =
     (let s = clear_journals s;
          logs_snapshot_len = length (logs s)
      in case settle logs_snapshot_len (run C execf s) of (result, s) \<Rightarrow>
           (let s = clear_journals s
            in (\<lparr>out_outcome = result, out_gas_used = effective_gas_used s,
                 out_gas_used_raw = gas_used_total s, out_gas_refund = gas_refund s,
                 out_logs = drop logs_snapshot_len (logs s)\<rparr>, s)))"

section \<open>Nested executions end\<close>

lemma dispatch_cong:
  assumes "ext_call_depth s < MAX_EXT_CALL_DEPTH \<Longrightarrow> agree_at (Suc (ext_call_depth s)) f g"
  shows "dispatch C f d s = dispatch C g d s"
  unfolding dispatch_def Let_def fall_def
  by (simp add: sbind_def op_calls_cong [OF assms])

lemma step_cong:
  assumes "ext_call_depth s < MAX_EXT_CALL_DEPTH \<Longrightarrow> agree_at (Suc (ext_call_depth s)) f g"
  shows "step C f s = step C g s"
  using check_pc_bounds_cases [of s]
proof
  assume ok: "check_pc_bounds s = (Inr (), s)"
  have "dispatch C f d u = dispatch C g d u" if "charge_gas x s = (Inr (), u)" for x d u
    using assms keeps_machine_depth [where m = "charge_gas x", OF machine_local [OF local_charge_gas] that]
    by (intro dispatch_cong) simp
  with ok show ?thesis
    by (simp add: step_unfold step_body_def) (intro sbind_cong_at refl, auto simp: sbind_def)
qed (simp add: step_def monad_simps)

lemma run_cong:
  assumes "ext_call_depth s < MAX_EXT_CALL_DEPTH \<Longrightarrow> agree_at (Suc (ext_call_depth s)) f g"
  shows "run C f s = run C g s"
  using assms
proof (induction s rule: run_induct [of C f])
  case (1 s)
  have eq: "step C g s = step C f s" using step_cong [OF "1.prems"] by simp
  show ?case
  proof (cases rule: run_cases [of C f s])
    case (more t)
    have "ext_call_depth t = ext_call_depth s"
      using machine_step_step [of C f s] more(1) by (simp add: machine_ok_def machine_step_depth)
    then have "run C f t = run C g t" using "1.IH" [OF more(1)] "1.prems" by simp
    with more eq show ?thesis by (simp add: run_step(1) [of C g s t])
  qed (simp_all add: eq run_step)
qed

lemma execute_with_cong [fundef_cong]:
  assumes "C = C'" and "s = s'"
    and "\<And>child. ext_call_depth s' < MAX_EXT_CALL_DEPTH \<Longrightarrow>
      ext_call_depth child = Suc (ext_call_depth s') \<Longrightarrow> f child = g child"
  shows "execute_with C f s = execute_with C' g s'"
proof -
  have "run C f (clear_journals s) = run C g (clear_journals s)"
    using assms by (intro run_cong) (simp add: agree_at_def clear_journals_def)
  with assms show ?thesis by (simp add: execute_with_def)
qed

function execute :: "crypto_lib \<Rightarrow> vm \<Rightarrow> execution_output \<times> vm" where
  "execute C s = execute_with C (\<lambda>child. execute C child) s"
  by pat_completeness auto

termination
  by (relation "measure (\<lambda>(C, s). 65 - ext_call_depth s)") (auto simp: MAX_EXT_CALL_DEPTH_def)

declare execute.simps [simp del]

section \<open>Gas and termination\<close>

lemma keeps_machine_snd: "keeps machine_ok machine_err r s \<Longrightarrow> machine_step s (snd r)"
  by (auto simp: keeps_def machine_ok_def machine_err_def split: prod.splits sum.splits if_splits)

lemma step_machine: "step C execf s = (r, t) \<Longrightarrow> machine_step s t"
  using keeps_machine_snd [OF machine_step_step] by (metis snd_conv)

text \<open>A relation that every step has and that composes holds over a whole run.\<close>

lemma run_relation:
  assumes step: "\<And>s r t. step C execf s = (r, t) \<Longrightarrow> R s t"
    and trans: "\<And>s t u. R s t \<Longrightarrow> R t u \<Longrightarrow> R s u"
    and "run C execf s = (r, t)"
  shows "R s t"
  using assms(3)
proof (induction s rule: run_induct [of C execf])
  case (1 s)
  show ?case
  proof (cases rule: run_cases [of C execf s])
    case (more u)
    then show ?thesis using 1 step trans by metis
  qed (use 1 step in auto)
qed

lemma run_machine: "run C execf s = (r, t) \<Longrightarrow> machine_step s t"
  by (rule run_relation [of C execf machine_step]) (auto intro: step_machine machine_step_trans)

lemma run_within_limit:
  assumes "run C execf s = (Inr x, t)"
  shows "within_limit t"
  using assms
proof (induction s rule: run_induct [of C execf])
  case (1 s)
  show ?case
    by (cases rule: run_cases [of C execf s]) (use 1 step_gas(2) in auto)
qed

text \<open>
  Gas metering. A step never lowers the gas accumulator; a step that completes adds at
  least three to it and ends within the limit (zero stands for no limit), whatever the program
  and whatever the machines it calls do.
\<close>

theorem step_gas_metered:
  "case step C execf s of
     (Inl e, t) \<Rightarrow> gas_used_total s \<le> gas_used_total t
   | (Inr r, t) \<Rightarrow>
       unat (gas_used_total s) + 3 \<le> unat (gas_used_total t)
       \<and> (gas_limit s = 0 \<or> gas_used_total t \<le> gas_limit s)"
proof (cases "step C execf s")
  case (Pair r t)
  then have "machine_step s t" by (rule step_machine)
  with Pair step_gas [of C execf s] show ?thesis
    by (auto simp: machine_step_def same_setup_def within_limit_def split: sum.split)
qed

text \<open>The loop cut off after a number of steps.\<close>

fun run_fuel ::
    "nat \<Rightarrow> crypto_lib \<Rightarrow> executor \<Rightarrow> vm \<Rightarrow> ((trap + exec_result) \<times> vm) option" where
  "run_fuel 0 C execf s = None"
| "run_fuel (Suc n) C execf s =
     (case step C execf s of
        (Inr None, s') \<Rightarrow> run_fuel n C execf s'
      | (Inr (Some result), s') \<Rightarrow> Some (Inr result, s')
      | (Inl t, s') \<Rightarrow> Some (Inl t, s'))"

definition gas_bound :: "vm \<Rightarrow> nat" where
  "gas_bound s = unat (if gas_limit s = 0 then - 1 else gas_limit s)"

lemma run_fuel_enough:
  assumes "gas_bound s < unat (gas_used_total s) + 3 * n"
  shows "run_fuel n C execf s = Some (run C execf s) \<or> n = 0"
  using assms
proof (induction n arbitrary: s)
  case (Suc n)
  show ?case
  proof (cases rule: run_cases [of C execf s])
    case (more t)
    note gas = step_gas [OF more(1)]
    have "gas_bound t = gas_bound s"
      using step_machine [OF more(1)] by (simp add: gas_bound_def machine_step_def same_setup_def)
    moreover have "unat (gas_used_total t) \<le> gas_bound t"
      using gas(2) unat_lt_length [of "gas_used_total t"]
      by (auto simp: within_limit_def gas_bound_def unat_max_word word_le_nat_alt)
    ultimately have "n \<noteq> 0" and "gas_bound t < unat (gas_used_total t) + 3 * n"
      using Suc.prems gas(1) by auto
    then show ?thesis using Suc.IH more by simp
  qed simp_all
qed simp

text \<open>
  C18: every program stops. The interpreter loop returns after at most a third of the gas limit
  (plus one) steps, or of \<open>2 ^ 64\<close> when there is no limit: cut off after that many steps, it
  has already produced the result of the full run.
\<close>

theorem run_terminates:
  "run_fuel (unat (if gas_limit s = 0 then - 1 else gas_limit s) div 3 + 1) C execf s
     = Some (run C execf s)"
  using run_fuel_enough [of s "gas_bound s div 3 + 1" C execf]
  by (simp add: gas_bound_def [symmetric])

lemma effective_gas_bounds:
  "unat (gas_used_total s) \<le> 2 * unat (effective_gas_used s)"
  "effective_gas_used s \<le> gas_used_total s"
proof -
  let ?g = "gas_used_total s" and ?r = "min (gas_refund s) (gas_used_total s div 2)"
  have "unat ?r \<le> unat (?g div 2)" by (simp add: min_def word_le_nat_alt)
  then have r: "unat ?r \<le> unat ?g div 2" by (simp add: unat_div_distrib)
  then have "?r \<le> ?g" by (simp add: word_le_nat_alt)
  then have "unat (effective_gas_used s) = unat ?g - unat ?r"
    by (simp add: effective_gas_used_def Let_def unat_sub)
  with r show "unat ?g \<le> 2 * unat (effective_gas_used s)" "effective_gas_used s \<le> ?g"
    by (auto simp: word_le_nat_alt)
qed

lemma execute_unfold: "execute C s = execute_with C (execute C) s"
  by (simp add: execute.simps [of C s])

text \<open>An execution in terms of the run it wraps.\<close>

lemma execute_with_run:
  assumes "run C execf (clear_journals s) = (r, t)"
  obtains u where "execute_with C execf s =
      (\<lparr>out_outcome = fst (settle (length (logs s)) (r, t)), out_gas_used = effective_gas_used u,
        out_gas_used_raw = gas_used_total u, out_gas_refund = gas_refund u,
        out_logs = drop (length (logs s)) (logs u)\<rparr>, u)"
    and "u = clear_journals (snd (settle (length (logs s)) (r, t)))"
proof -
  have "logs (clear_journals s) = logs s" by (simp add: clear_journals_def)
  with assms that show ?thesis
    by (simp add: execute_with_def Let_def split: prod.splits)
qed

lemma clear_journals_fields [simp]:
  "gas_used_total (clear_journals s) = gas_used_total s" "gas_limit (clear_journals s) = gas_limit s"
  "gas_refund (clear_journals s) = gas_refund s" "logs (clear_journals s) = logs s"
  "storage (clear_journals s) = storage s" "ctx (clear_journals s) = ctx s"
  "storage_backend (clear_journals s) = storage_backend s"
  "static_mode (clear_journals s) = static_mode s" "memory (clear_journals s) = memory s"
  "contracts (clear_journals s) = contracts s" "ext_call_depth (clear_journals s) = ext_call_depth s"
  "decoded_cache (clear_journals s) = decoded_cache s" "call_stack (clear_journals s) = call_stack s"
  "code_backend (clear_journals s) = code_backend s"
  "storage_journal (clear_journals s) = []" "storage_journal_keys (clear_journals s) = {}"
  "balance_journal (clear_journals s) = []" "balance_journal_keys (clear_journals s) = {}"
  by (simp_all add: clear_journals_def)

lemma undo_changes_fields [simp]:
  "gas_used_total (undo_changes n s) = gas_used_total s" "gas_refund (undo_changes n s) = 0"
  "logs (undo_changes n s) = take n (logs s)" "storage_backend (undo_changes n s) = storage_backend s"
  "storage (undo_changes n s) = storage (rollback_storage s)"
  "ctx (undo_changes n s) = ctx (rollback_balances s)"
  "contracts (undo_changes n s) = contracts s"
  by (simp_all add: undo_changes_def rollback_balances_def rollback_storage_def Let_def)

lemma settle_cases:
  obtains (halted) "r = Inr ExecHalt" "settle n (r, s) = (Success, s)"
  | (undone) x where "r \<noteq> Inr ExecHalt" "x \<noteq> Success" "settle n (r, s) = (x, undo_changes n s)"
proof (cases r)
  case (Inl e)
  then show ?thesis using undone by (cases "e = OutOfGas") (auto simp: settle_def)
next
  case (Inr x)
  then show ?thesis using halted undone by (cases x) (auto simp: settle_def)
qed

text \<open>
  The gas an execution reports. It is what was used before plus what the run added; the
  refund takes off at most half; a successful execution stays within its limit; one that
  reverts, traps or runs out of gas gets no refund and reports no logs.
\<close>

theorem execute_gas_report:
  "case execute C s of (out, t) \<Rightarrow>
     gas_used_total s \<le> out_gas_used_raw out
     \<and> out_gas_used out \<le> out_gas_used_raw out
     \<and> unat (out_gas_used_raw out) \<le> 2 * unat (out_gas_used out)
     \<and> (out_outcome out = Success \<longrightarrow> gas_limit s = 0 \<or> out_gas_used_raw out \<le> gas_limit s)
     \<and> (out_outcome out \<noteq> Success \<longrightarrow>
          out_gas_used out = out_gas_used_raw out \<and> out_gas_refund out = 0 \<and> out_logs out = [])"
proof -
  obtain r t where run: "run C (execute C) (clear_journals s) = (r, t)"
    by (cases "run C (execute C) (clear_journals s)")
  obtain u where u: "execute_with C (execute C) s =
      (\<lparr>out_outcome = fst (settle (length (logs s)) (r, t)), out_gas_used = effective_gas_used u,
        out_gas_used_raw = gas_used_total u, out_gas_refund = gas_refund u,
        out_logs = drop (length (logs s)) (logs u)\<rparr>, u)"
    "u = clear_journals (snd (settle (length (logs s)) (r, t)))"
    by (rule execute_with_run [OF run])
  have m: "machine_step (clear_journals s) t" using run by (rule run_machine)
  show ?thesis
  proof (cases rule: settle_cases [of r "length (logs s)" t])
    case halted
    then have "within_limit t" using run run_within_limit by blast
    with halted m u effective_gas_bounds [of u] show ?thesis
      by (auto simp: execute_unfold machine_step_def same_setup_def within_limit_def)
  next
    case (undone x)
    with m u effective_gas_bounds [of u] show ?thesis
      by (auto simp: execute_unfold machine_step_def effective_gas_used_def Let_def)
  qed
qed

text \<open>A one-instruction program, for the examples.\<close>

definition halt_vm :: vm where
  "halt_vm = vm_new\<lparr>gas_limit := 100,
     decoded_cache := [\<lparr>opcode = Op_Halt, rd = 0, rs1 = 0, rs2_or_imm = 0\<rparr>]\<rparr>"

lemma halt_vm_limit: "gas_limit halt_vm = 100"
  by (simp add: halt_vm_def)

lemmas step_eval = step_def step_body_def check_pc_bounds_def dispatch_def Let_def charge_gas_def
  checked_add_def is_alu_def is_wide_alu_def fall_def total_gas_entry gas_table_entry_def
  monad_simps

lemma halt_step: "step C execf halt_vm = (Inr (Some ExecHalt), halt_vm\<lparr>gas_used_total := 3\<rparr>)"
  by (simp add: step_eval halt_vm_def vm_new_def)

lemma halt_execute:
  "execute C halt_vm =
     (\<lparr>out_outcome = Success, out_gas_used = 3, out_gas_used_raw = 3, out_gas_refund = 0,
       out_logs = []\<rparr>, halt_vm\<lparr>gas_used_total := 3\<rparr>)"
proof -
  have "clear_journals halt_vm = halt_vm" by (simp add: halt_vm_def vm_new_def clear_journals_def)
  then show ?thesis
    by (simp add: execute_unfold execute_with_def run_step(2) [OF halt_step] settle_def Let_def)
       (simp add: halt_vm_def vm_new_def clear_journals_def effective_gas_used_def)
qed

theorem execute_gas_report_witness:
  "out_outcome (fst (execute example_crypto halt_vm)) = Success
   \<and> out_gas_used_raw (fst (execute example_crypto halt_vm)) \<le> 100"
  using execute_gas_report [where C = example_crypto and s = halt_vm]
  by (simp add: halt_execute halt_vm_limit)

end
