(* ===== verification/Integrity.thy ===== *)
theory Integrity
  imports Vm
begin

unbundle bit_operations_syntax

text \<open>
  Integrity of a running machine, as invariants over all states a loaded program can reach:
  the instructions decoded at load time stay equal to the bytes in memory, the call stack and
  the heap-stack boundary stay within their limits.
\<close>

section \<open>Reachable states\<close>

text \<open>The states a machine passes through, one step after the other; a failed step counts.\<close>

inductive reaches :: "crypto_lib \<Rightarrow> executor \<Rightarrow> vm \<Rightarrow> vm \<Rightarrow> bool" for C execf where
  start: "reaches C execf s s"
| next_step: "reaches C execf s t \<Longrightarrow> step C execf t = (r, u) \<Longrightarrow> reaches C execf s u"

lemma reaches_machine: "reaches C execf s t \<Longrightarrow> machine_step s t"
  by (induction rule: reaches.induct) (auto intro: machine_step_trans dest: step_machine)

lemma run_reaches:
  assumes "run C execf s = (r, t)"
  shows "reaches C execf s t"
proof (rule run_relation [of C execf "reaches C execf"])
  show "reaches C execf s t" if "step C execf s = (r, t)" for s r t
    using reaches.next_step [OF reaches.start that] .
  show "reaches C execf s u" if "reaches C execf s t" "reaches C execf t u" for s t u
    using that(2,1) by (induction rule: reaches.induct) (auto intro: reaches.next_step)
qed (rule assms)

section \<open>A loaded program\<close>

lemma load_code_ok:
  assumes "load_code code m = (Inr u, m')"
  shows "length code \<le> 0xF000" "stack_pointer m' = stack_pointer m" "heap_top m' = heap_top m"
    and "i < length code \<Longrightarrow> read_byte m' (CODE_START + of_nat i) = code ! i"
proof -
  have le: "unat CODE_START + length code \<le> unat CODE_END"
    and m': "m' = (write_bytes CODE_START code m)\<lparr>code_end := of_nat (unat CODE_START + length code)\<rparr>"
    using assms by (auto simp: load_code_def Let_def monad_simps split: if_splits)
  then show "length code \<le> 0xF000" "stack_pointer m' = stack_pointer m" "heap_top m' = heap_top m"
    by (simp_all add: CODE_START_def CODE_END_def)
  assume i: "i < length code"
  have "unat (CODE_START + of_nat i) = unat CODE_START + i"
    using i le by (simp add: unat_word_ariths unat_of_nat CODE_START_def CODE_END_def)
  with i le m' show "read_byte m' (CODE_START + of_nat i) = code ! i"
    by (simp add: read_byte_write_bytes CODE_START_def CODE_END_def)
qed

lemma code_address:
  assumes "i < 0xF000"
  shows "CODE_START \<le> CODE_START + of_nat i" "CODE_START + of_nat i < CODE_END"
  using assms
  by (simp_all add: word_le_nat_alt word_less_nat_alt unat_word_ariths unat_of_nat CODE_START_def
      CODE_END_def)

lemma checked_write_slice_fields:
  "checked_write_slice a data m = (r, m') \<Longrightarrow>
   stack_pointer m' = stack_pointer m \<and> heap_top m' = heap_top m"
  by (rule check_access_cases [of a "of_nat (length data)" m])
     (auto simp: checked_write_slice_def check_writable_def monad_simps split: if_splits)

lemma map_calldata_ok:
  assumes "map_calldata s = (Inr u, t)" and "calldata s \<noteq> []"
  shows "CODE_START \<le> x \<Longrightarrow> x < CODE_END \<Longrightarrow> read_byte (memory t) x = read_byte (memory s) x"
    and "stack_pointer (memory t) = stack_pointer (memory s)"
    and "heap_top (memory t) = HEAP_START + of_nat ((length (calldata s) + 7) div 8 * 8)"
    and "length (calldata s) \<le> MEMORY_SIZE - unat HEAP_START"
    and "decoded_cache t = decoded_cache s"
proof -
  obtain m where m: "checked_write_slice HEAP_START (calldata s) (memory s) = (Inr (), m)"
    using assms by (auto simp: map_calldata_def Let_def monad_simps on_memory_def
        split: prod.splits sum.splits if_splits)
  have "mem_step (memory s) m"
    using mem_step_stores(6) [of HEAP_START "calldata s" "memory s"] m by (simp add: keeps_same)
  moreover have t: "memory t = m\<lparr>heap_top := HEAP_START + of_nat ((length (calldata s) + 7) div 8 * 8)\<rparr>"
    and "decoded_cache t = decoded_cache s"
    and "length (calldata s) \<le> MEMORY_SIZE - unat HEAP_START"
    using assms m by (auto simp: map_calldata_def Let_def monad_simps on_memory_def set_gp_def
        split: if_splits)
  ultimately show "CODE_START \<le> x \<Longrightarrow> x < CODE_END \<Longrightarrow> read_byte (memory t) x = read_byte (memory s) x"
    and "stack_pointer (memory t) = stack_pointer (memory s)"
    and "heap_top (memory t) = HEAP_START + of_nat ((length (calldata s) + 7) div 8 * 8)"
    and "length (calldata s) \<le> MEMORY_SIZE - unat HEAP_START"
    and "decoded_cache t = decoded_cache s"
    using checked_write_slice_fields [OF m] by (auto simp: mem_step_def)
qed

lemma load_ok:
  assumes "load code s = (Inr u, t)"
  shows "length code \<le> 0xF000" "decoded_cache t = decode_program code"
    and "i < length code \<Longrightarrow> read_byte (memory t) (CODE_START + of_nat i) = code ! i"
    and "stack_pointer (memory t) = stack_pointer (memory s)"
    and "heap_top (memory t) = (if calldata s = [] then heap_top (memory s)
           else HEAP_START + of_nat ((length (calldata s) + 7) div 8 * 8))"
    and "calldata s \<noteq> [] \<Longrightarrow> length (calldata s) \<le> MEMORY_SIZE - unat HEAP_START"
proof -
  obtain m where m: "load_code code (memory s) = (Inr (), m)"
    and t: "(if calldata s \<noteq> [] then map_calldata else sret ())
      (s\<lparr>memory := m, pc := 0, decoded_cache := decode_program code\<rparr>) = (Inr u, t)"
    using assms by (auto simp: load_def monad_simps on_memory_def split: prod.splits sum.splits if_splits)
  note lc = load_code_ok [OF m]
  let ?s = "s\<lparr>memory := m, pc := 0, decoded_cache := decode_program code\<rparr>"
  have "decoded_cache t = decode_program code \<and> stack_pointer (memory t) = stack_pointer (memory s)
    \<and> heap_top (memory t) = (if calldata s = [] then heap_top (memory s)
           else HEAP_START + of_nat ((length (calldata s) + 7) div 8 * 8))
    \<and> (calldata s \<noteq> [] \<longrightarrow> length (calldata s) \<le> MEMORY_SIZE - unat HEAP_START)
    \<and> (\<forall>x. CODE_START \<le> x \<and> x < CODE_END \<longrightarrow> read_byte (memory t) x = read_byte m x)"
  proof (cases "calldata s = []")
    case True
    then have "t = ?s" using t by (simp add: sret_def)
    with True lc show ?thesis by simp
  next
    case False
    then have "map_calldata ?s = (Inr u, t)" and "calldata ?s \<noteq> []" using t by simp_all
    from map_calldata_ok [OF this] False lc(2) show ?thesis by simp
  qed
  note * = this
  show "length code \<le> 0xF000" by (fact lc)
  show "decoded_cache t = decode_program code" using * by blast
  show "stack_pointer (memory t) = stack_pointer (memory s)" using * by blast
  show "heap_top (memory t) = (if calldata s = [] then heap_top (memory s)
           else HEAP_START + of_nat ((length (calldata s) + 7) div 8 * 8))" using * by blast
  show "calldata s \<noteq> [] \<Longrightarrow> length (calldata s) \<le> MEMORY_SIZE - unat HEAP_START" using * by blast
  assume i: "i < length code"
  then have "i < 0xF000" using lc(1) by simp
  then show "read_byte (memory t) (CODE_START + of_nat i) = code ! i"
    using * lc(4) [OF i] code_address [of i] by simp
qed

section \<open>Decoded instructions and code bytes\<close>

lemma reaches_code:
  assumes "load code s0 = (Inr u, s)" and "reaches C execf s t" and "i < length code"
  shows "read_byte (memory t) (CODE_START + of_nat i) = code ! i"
proof -
  have "i < 0xF000" using load_ok(1) [OF assms(1)] assms(3) by simp
  then show ?thesis
    using load_ok(3) [OF assms(1,3)] reaches_machine [OF assms(2)] code_address [of i]
    by (simp add: machine_step_def mem_step_def)
qed

lemma pc_aligned:
  fixes p :: u32
  assumes "p AND 3 = 0"
  shows "p = of_nat (unat (p div 4) * 4)"
proof -
  have "take_bit 2 p = 0" using assms by (simp add: take_bit_eq_mask mask_eq_exp_minus_1)
  then have "take_bit 2 (unat p) = 0" by (metis unsigned_take_bit_eq unsigned_0)
  then have "unat p mod 4 = 0" by (simp add: take_bit_eq_mod)
  then have "unat p = unat p div 4 * 4" by presburger
  then have "unat p = unat (p div 4) * 4" by (simp add: unat_div_distrib)
  then show ?thesis by (metis of_nat_unat_word)
qed

text \<open>
  C20: the instruction cache is coherent. In every state a loaded program reaches, the
  instruction decoded at load time for the current program counter is the decoding of the word
  that \<open>fetch\<close> reads from memory there: no instruction, call or memory write can make the
  interpreter execute something else than the bytes of the code section.
\<close>

theorem decoded_cache_coherent:
  assumes "load code s0 = (Inr u, s)" and "reaches C execf s t"
    and "check_pc_bounds t = (Inr (), t)"
  shows "\<exists>w. fetch t = (Inr w, t) \<and> decode w = decoded_cache t ! unat (pc t div 4)"
proof -
  let ?i = "unat (pc t div 4)"
  have cache: "decoded_cache t = decode_program code"
    using load_ok(2) [OF assms(1)] reaches_machine [OF assms(2)]
    by (simp add: machine_step_def same_setup_def)
  have "pc t AND 3 = 0" and i: "?i < length code div 4"
    using assms(3) cache
    by (auto simp: check_pc_bounds_def monad_simps decode_program_def not_le split: if_splits)
  then have pc: "pc t = of_nat (?i * 4)" using pc_aligned by blast
  have "read_byte (memory t) (CODE_START + pc t + of_nat k) = code ! (?i * 4 + k)" if "k < 4" for k
    using reaches_code [OF assms(1,2), of "?i * 4 + k"] that i
    by (subst pc) (simp add: add.assoc)
  note this [of 0] this [of 1] this [of 2] this [of 3]
  then have "fetch_code_u32 (memory t) (CODE_START + pc t) = from_le_bytes
      [code ! (?i * 4), code ! (?i * 4 + 1), code ! (?i * 4 + 2), code ! (?i * 4 + 3)]"
    by (simp add: fetch_code_u32_def)
  moreover have "fetch t = (Inr (Instruction (fetch_code_u32 (memory t) (CODE_START + pc t))), t)"
    using assms(3) by (simp add: fetch_def monad_simps)
  ultimately show ?thesis using cache i by (simp add: decode_program_def)
qed

definition halt_code :: bytes where
  "halt_code = to_le_bytes 4 (instr_word (encode Op_Halt 0 0 0))"

lemma load_halt_code: "load halt_code vm_new = (Inr (), snd (load halt_code vm_new))"
  by (simp add: load_def halt_code_def load_code_def on_memory_def monad_simps vm_new_def Let_def
      CODE_START_def CODE_END_def)

theorem decoded_cache_coherent_witness:
  defines "s \<equiv> snd (load halt_code vm_new)"
  shows "\<exists>w. fetch s = (Inr w, s) \<and> decode w = decoded_cache s ! 0"
proof -
  have "check_pc_bounds s = (Inr (), s)" and "pc s = 0"
    by (simp_all add: s_def load_def halt_code_def load_code_def on_memory_def monad_simps vm_new_def
        Let_def CODE_START_def CODE_END_def check_pc_bounds_def decode_program_def)
  then show ?thesis
    using decoded_cache_coherent [OF load_halt_code [folded s_def] reaches.start
        [of example_crypto "execute example_crypto"]]
    by simp
qed

section \<open>Bounds\<close>

lemma load_bounds:
  assumes "load code s0 = (Inr u, s)" and "memory s0 = memory_new" and "call_stack s0 = []"
  shows "heap_stack_ok (memory s)" and "call_stack_ok s"
proof -
  note ld = load_ok [OF assms(1)]
  have "(length (calldata s0) + 7) div 8 * 8 \<le> 0x3F0000" if "calldata s0 \<noteq> []"
    using ld(6) [OF that] by (simp add: MEMORY_SIZE_def HEAP_START_def)
  then show "heap_stack_ok (memory s)"
    using ld(4,5) assms(2)
    by (auto simp: heap_stack_ok_def memory_new_def HEAP_START_def STACK_TOP_def MEMORY_SIZE_def
        word_le_nat_alt unat_word_ariths unat_of_nat)
  show "call_stack_ok s"
    using load_fields(12) [OF assms(1)] assms(3) by (simp add: call_stack_ok_def)
qed

text \<open>
  C21: stacks and heap stay in bounds. In every state a freshly loaded program reaches, the
  internal call stack has at most 1024 frames, the heap starts where it should and ends at or
  below the stack pointer, and the stack pointer does not leave the address space.
\<close>

theorem machine_bounds:
  assumes "load code s0 = (Inr u, s)" and "memory s0 = memory_new" and "call_stack s0 = []"
    and "reaches C execf s t"
  shows "length (call_stack t) \<le> MAX_CALL_DEPTH
    \<and> HEAP_START \<le> heap_top (memory t) \<and> heap_top (memory t) \<le> stack_pointer (memory t)
    \<and> stack_pointer (memory t) \<le> STACK_TOP"
  using load_bounds [OF assms(1-3)] reaches_machine [OF assms(4)]
  by (simp add: machine_step_def mem_step_def heap_stack_ok_def call_stack_ok_def)

theorem machine_bounds_witness:
  "heap_top (memory (snd (load halt_code vm_new))) \<le> stack_pointer (memory (snd (load halt_code vm_new)))"
  using machine_bounds [OF load_halt_code _ _ reaches.start [of example_crypto "execute example_crypto"]]
  by (simp add: vm_new_def)

end
