(* ===== verification/Balances.thy ===== *)
theory Balances
  imports Vm
begin

unbundle bit_operations_syntax

text \<open>
  Balances across whole executions, including nested calls and deployments: value is only moved,
  never made or lost, and an execution that fails leaves every balance as it was.
\<close>

section \<open>The total of a balance map\<close>

definition total_balance :: "(address, u256) hashmap \<Rightarrow> nat" where
  "total_balance bals = sum_list (map (\<lambda>(a, b). unat b) bals)"

lemma total_balance_insert:
  "total_balance (hm_insert k v m) + unat (balance_of m k) = total_balance m + unat v"
  by (induction m)
     (auto simp: total_balance_def hm_insert_def balance_of_def hm_get_def split: option.splits)

lemma balance_le_total: "unat (balance_of m k) \<le> total_balance m"
  by (induction m) (auto simp: total_balance_def balance_of_def hm_get_def split: option.splits)

lemma total_balance_lookup:
  "hm_wf m \<Longrightarrow> total_balance m = (\<Sum>k\<in>dom (hm_get m). unat (balance_of m k))"
proof (induction m)
  case Nil
  then show ?case by (simp add: total_balance_def hm_get_def)
next
  case (Cons e m)
  obtain a b where e: "e = (a, b)" by (cases e)
  have wf: "hm_wf m" and a: "a \<notin> dom (hm_get m)"
    using Cons.prems e by (force simp: hm_wf_def hm_get_def dom_map_of_conv_image_fst)+
  have dom: "dom (hm_get (e # m)) = insert a (dom (hm_get m))"
    using e by (auto simp: hm_get_Cons split: if_splits)
  have fin: "finite (dom (hm_get m))" by (simp add: hm_get_def [abs_def] finite_dom_map_of)
  have "(\<Sum>k\<in>dom (hm_get m). unat (balance_of (e # m) k))
      = (\<Sum>k\<in>dom (hm_get m). unat (balance_of m k))"
    using a e by (intro sum.cong refl) (auto simp: balance_of_def hm_get_Cons)
  then have "(\<Sum>k\<in>dom (hm_get (e # m)). unat (balance_of (e # m) k))
      = unat (balance_of (e # m) a) + total_balance m"
    unfolding dom using fin a Cons.IH [OF wf] by simp
  moreover have "total_balance (e # m) = unat (balance_of (e # m) a) + total_balance m"
    using e by (simp add: total_balance_def balance_of_def hm_get_Cons)
  ultimately show ?case by simp
qed

lemma total_balance_cong:
  assumes "hm_wf m" "hm_wf m'" "hm_get m = hm_get m'"
  shows "total_balance m = total_balance m'"
proof -
  have "balance_of m = balance_of m'" using assms(3) by (simp add: balance_of_def fun_eq_iff)
  then show ?thesis using assms by (simp add: total_balance_lookup)
qed

section \<open>Transfers\<close>

text \<open>
  What a balance map may turn into: a well-formed map on at least the same accounts, with the
  same total if that is below \<open>2 ^ 256\<close>.
\<close>

definition moves :: "(address, u256) hashmap \<Rightarrow> (address, u256) hashmap \<Rightarrow> bool" where
  "moves m m' \<longleftrightarrow>
     (hm_wf m \<longrightarrow> hm_wf m' \<and> dom (hm_get m) \<subseteq> dom (hm_get m')
        \<and> (total_balance m < 2 ^ 256 \<longrightarrow> total_balance m' = total_balance m))"

lemma moves_refl [simp]: "moves m m"
  by (simp add: moves_def)

lemma moves_trans: "moves m m' \<Longrightarrow> moves m' m'' \<Longrightarrow> moves m m''"
  by (auto simp: moves_def)

lemma transfer_value_moves:
  assumes "transfer_value a b cv m = Some m'"
  shows "moves m m'"
proof (cases "cv > 0")
  case False
  with assms show ?thesis by (simp add: transfer_value_def)
next
  case True
  let ?m1 = "hm_insert a (balance_of m a - cv) m"
  let ?tb = "balance_of ?m1 b"
  have le: "cv \<le> balance_of m a" and m': "m' = hm_insert b (?tb + cv) ?m1"
    using assms True by (auto simp: transfer_value_def Let_def split: if_splits)
  have total: "total_balance m' = total_balance m" if "total_balance m < 2 ^ 256"
  proof -
    have "total_balance ?m1 + unat cv = total_balance m"
      using total_balance_insert [of a "balance_of m a - cv" m] le
      by (simp add: unat_sub word_le_nat_alt)
    moreover have "unat ?tb \<le> total_balance ?m1" by (rule balance_le_total)
    moreover from calculation have "unat (?tb + cv) = unat ?tb + unat cv"
      using that by (simp add: unat_add_lem [symmetric])
    ultimately show ?thesis
      using total_balance_insert [of b "?tb + cv" ?m1] m' by simp
  qed
  then show ?thesis
    using m' by (auto simp: moves_def dom_def split: if_splits)
qed

section \<open>One machine\<close>

text \<open>
  What a step does to the balances: they move, and every change is journaled, so that a
  rollback would show the same balances before and after.
\<close>

definition bal_step :: "vm \<Rightarrow> vm \<Rightarrow> bool" where
  "bal_step s t \<longleftrightarrow>
     (hm_wf (balances (ctx s)) \<and> journal_wf (balance_journal s) (balance_journal_keys s) \<longrightarrow>
        moves (balances (ctx s)) (balances (ctx t))
        \<and> journal_wf (balance_journal t) (balance_journal_keys t)
        \<and> balance_base t = balance_base s)"

lemma bal_step_refl [simp]: "bal_step s s"
  by (simp add: bal_step_def)

lemma bal_step_trans: "bal_step s t \<Longrightarrow> bal_step t u \<Longrightarrow> bal_step s u"
  by (auto simp: bal_step_def moves_def)

interpretation bal: result_frame bal_step "\<lambda>_. bal_step"
  by unfold_locales (auto intro: bal_step_trans)

lemma same_balances_bal_step:
  "balances (ctx t) = balances (ctx s) \<Longrightarrow> balance_journal t = balance_journal s \<Longrightarrow>
   balance_journal_keys t = balance_journal_keys s \<Longrightarrow> bal_step s t"
  by (simp add: bal_step_def balance_base_def)

lemma bal_world: "keeps world_ok world_err r s \<Longrightarrow> keeps bal_step (\<lambda>_. bal_step) r s"
  by (erule keeps_mono)
     (auto simp: world_ok_def world_step_def world_err_def intro!: same_balances_bal_step
       split: if_splits)

lemmas bal_local = bal_world [OF keeps_local_world]

text \<open>One iteration of the merge loop, and the whole loop.\<close>

definition put_balance :: "address \<Rightarrow> u256 \<Rightarrow> vm \<Rightarrow> vm" where
  "put_balance a b s =
     (if hm_get (balances (ctx s)) a \<noteq> Some b
      then (journal_balance_write a s)\<lparr>ctx :=
             (ctx s)\<lparr>balances := hm_insert a b (balances (ctx s))\<rparr>\<rparr>
      else s)"

lemma merge_balances_fold:
  "merge_balances bs s = fold (\<lambda>(a, b). put_balance a b) bs s"
proof -
  have "ctx (journal_balance_write a t) = ctx t" for a t
    by (simp add: journal_balance_write_def)
  then have "(\<lambda>(addr, child_bal) s.
             if hm_get (balances (ctx s)) addr \<noteq> Some child_bal
             then (let s = journal_balance_write addr s
                   in s\<lparr>ctx := (ctx s)\<lparr>balances := hm_insert addr child_bal (balances (ctx s))\<rparr>\<rparr>)
             else s) = (\<lambda>(a, b). put_balance a b)"
    by (auto simp: fun_eq_iff put_balance_def Let_def)
  then show ?thesis by (simp add: merge_balances_def)
qed

lemma put_balance_get:
  "hm_get (balances (ctx (put_balance a b s))) k
     = (if k = a then Some b else hm_get (balances (ctx s)) k)"
  by (simp add: put_balance_def journal_balance_write_def)

lemma put_balance_wf: "hm_wf (balances (ctx s)) \<Longrightarrow> hm_wf (balances (ctx (put_balance a b s)))"
  by (simp add: put_balance_def)

lemma put_balance_journal:
  assumes "journal_wf (balance_journal s) (balance_journal_keys s)"
  shows "journal_wf (balance_journal (put_balance a b s)) (balance_journal_keys (put_balance a b s))
    \<and> balance_base (put_balance a b s) = balance_base s"
proof (cases "hm_get (balances (ctx s)) a \<noteq> Some b")
  case True
  let ?t = "journal_balance_write a s"
  have t: "journal_wf (balance_journal ?t) (balance_journal_keys ?t)"
    "balance_base ?t = balance_base s" "a \<in> balance_journal_keys ?t"
    using balance_log.record_wf [OF assms, of a] balance_log.record_undo [OF assms, of a]
    by (simp_all add: balance_base_def balance_log.record_jkeys)
  moreover have "ctx ?t = ctx s" by (simp add: journal_balance_write_def)
  ultimately show ?thesis
    using True balance_log.write_undo [OF t(1,3), of "put_balance a b s" b]
    by (simp add: put_balance_def balance_base_def)
qed (use assms in \<open>simp add: put_balance_def\<close>)

lemma merge_balances_effect:
  assumes "hm_wf bs" and "hm_wf (balances (ctx s))"
    and "journal_wf (balance_journal s) (balance_journal_keys s)"
  shows "hm_wf (balances (ctx (merge_balances bs s)))
    \<and> (\<forall>k. hm_get (balances (ctx (merge_balances bs s))) k
          = (case hm_get bs k of Some b \<Rightarrow> Some b | None \<Rightarrow> hm_get (balances (ctx s)) k))
    \<and> journal_wf (balance_journal (merge_balances bs s)) (balance_journal_keys (merge_balances bs s))
    \<and> balance_base (merge_balances bs s) = balance_base s"
  using assms
proof (induction bs arbitrary: s)
  case Nil
  then show ?case by (simp add: merge_balances_fold)
next
  case (Cons e bs)
  obtain a b where e: "e = (a, b)" by (cases e)
  let ?t = "put_balance a b s"
  have fold: "merge_balances (e # bs) s = merge_balances bs ?t"
    using e by (simp add: merge_balances_fold)
  have wf: "hm_wf bs" and a: "hm_get bs a = None"
    using Cons.prems(1) e by (auto simp: hm_wf_def hm_get_def map_of_eq_None_iff)
  have t: "hm_wf (balances (ctx ?t))"
    "journal_wf (balance_journal ?t) (balance_journal_keys ?t)" "balance_base ?t = balance_base s"
    using put_balance_wf [OF Cons.prems(2)] put_balance_journal [OF Cons.prems(3)] by simp_all
  have "(case hm_get bs k of Some b \<Rightarrow> Some b | None \<Rightarrow> hm_get (balances (ctx ?t)) k)
      = (case hm_get (e # bs) k of Some b \<Rightarrow> Some b | None \<Rightarrow> hm_get (balances (ctx s)) k)" for k
    using a e by (auto simp: put_balance_get hm_get_Cons split: option.splits)
  then show ?case
    using Cons.IH [OF wf t(1,2)] t(3) by (simp add: fold)
qed

lemma merge_balances_bal_step:
  assumes "moves (balances (ctx s)) bs"
  shows "bal_step s (merge_balances bs s)"
  unfolding bal_step_def
proof (intro impI conjI; elim conjE)
  assume *: "hm_wf (balances (ctx s))" "journal_wf (balance_journal s) (balance_journal_keys s)"
  then have wf: "hm_wf bs" and dom: "dom (hm_get (balances (ctx s))) \<subseteq> dom (hm_get bs)"
    using assms by (simp_all add: moves_def)
  have eff: "hm_wf (balances (ctx (merge_balances bs s)))"
    "journal_wf (balance_journal (merge_balances bs s)) (balance_journal_keys (merge_balances bs s))"
    "balance_base (merge_balances bs s) = balance_base s"
    and get: "hm_get (balances (ctx (merge_balances bs s))) k
      = (case hm_get bs k of Some b \<Rightarrow> Some b | None \<Rightarrow> hm_get (balances (ctx s)) k)" for k
    using merge_balances_effect [OF wf *] by simp_all
  have "hm_get (balances (ctx (merge_balances bs s))) k = hm_get bs k" for k
    using get [of k] dom by (cases "hm_get bs k") auto
  then have "hm_get (balances (ctx (merge_balances bs s))) = hm_get bs" by (rule ext)
  then show "moves (balances (ctx s)) (balances (ctx (merge_balances bs s)))"
    using assms eff(1) wf total_balance_cong [OF eff(1) wf] by (simp add: moves_def)
  show "journal_wf (balance_journal (merge_balances bs s)) (balance_journal_keys (merge_balances bs s))"
    "balance_base (merge_balances bs s) = balance_base s"
    by (fact eff)+
qed

section \<open>Calls and deployments\<close>

text \<open>An executor that only moves the balances of the machines at a call depth.\<close>

definition conserving :: "executor \<Rightarrow> nat \<Rightarrow> bool" where
  "conserving execf n \<longleftrightarrow>
     (\<forall>c. ext_call_depth c = n \<longrightarrow> moves (balances (ctx c)) (balances (ctx (snd (execf c)))))"

lemma bal_merge_storage_journal:
  "bal_step s (merge_storage_journal j s)" "ctx (merge_storage_journal j s) = ctx s"
  using merge_storage_journal_form [of j s] by (auto intro: same_balances_bal_step)

lemma bal_merge_success:
  assumes "\<not> b \<Longrightarrow> moves (balances (ctx s)) (balances (ctx child))"
  shows "bal_step s (merge_success b out child s)"
proof -
  let ?s1 = "merge_storage_journal (storage_journal child) s"
  note ctx = bal_merge_storage_journal(2) [of "storage_journal child" s]
  let ?s2 = "?s1\<lparr>storage := storage child\<rparr>"
  let ?s3 = "if \<not> b then merge_balances (balances (ctx child)) ?s2 else ?s2"
  have "bal_step s ?s1" by (rule bal_merge_storage_journal(1))
  moreover have "bal_step ?s1 ?s2" by (rule same_balances_bal_step) simp_all
  moreover have "bal_step ?s2 ?s3"
    using assms ctx merge_balances_bal_step [of ?s2 "balances (ctx child)"] by simp
  moreover have "bal_step ?s3 (merge_success b out child s)"
    unfolding merge_success_def Let_def by (rule same_balances_bal_step) simp_all
  ultimately show ?thesis by (blast intro: bal_step_trans)
qed

lemma bal_merge_accesses: "bal_step s (merge_accesses child s)"
  by (rule same_balances_bal_step) (simp_all add: merge_accesses_def)

lemma charge_gas_ctx: "charge_gas g s = (r, t) \<Longrightarrow> ctx t = ctx s"
  using local_charge_gas [of g s]
  by (auto simp: keeps_def local_ok_def local_err_def local_step_def same_world_def
      split: sum.splits if_splits)

lemma bal_run_callee:
  assumes "conserving execf (ext_call_depth child)"
    and "\<not> b \<Longrightarrow> moves (balances (ctx s)) (balances (ctx child))"
  shows "keeps bal_step (\<lambda>_. bal_step) (run_callee execf b child code s) s"
proof (cases "load code child")
  case (Pair r c)
  obtain out c' where c': "execf c = (out, c')" by (cases "execf c")
  have "moves (balances (ctx child)) (balances (ctx c'))"
    using assms(1) load_fields(1,4) [OF Pair] c' by (auto simp: conserving_def)
  then have m: "moves (balances (ctx s)) (balances (ctx c'))" if "\<not> b"
    using assms(2) that moves_trans by blast
  show ?thesis
  proof (cases r)
    case (Inr x)
    have "keeps bal_step (\<lambda>_. bal_step)
      (sbind (charge_gas (out_gas_used out)) (\<lambda>_.
       sbind (smod (\<lambda>s. if out_outcome out = Success then merge_success b out c' s
                           else s\<lparr>storage := storage c'\<rparr>)) (\<lambda>_.
       sbind (smod (merge_accesses c')) (\<lambda>_.
       sret \<lparr>cr_success = (out_outcome out = Success),
             cr_return_data = call_return_data (out_outcome out = Success) c',
             cr_gas_used = out_gas_used out\<rparr>))) s) s"
      using m
      by (intro bal.bind_eq bal_local [OF local_charge_gas] bal.bind bal.modify bal.pure bal_merge_accesses)
         (auto dest!: charge_gas_ctx intro: bal_merge_success same_balances_bal_step)
    with Pair Inr c' show ?thesis by (simp add: run_callee_def Let_def)
  qed (simp add: run_callee_def Pair monad_simps)
qed

lemma bal_lookup_code: "keeps bal_step (\<lambda>_. bal_step) (lookup_code a s) s"
  by (auto simp: lookup_code_def intro!: same_balances_bal_step split: option.splits)

lemma call_context_moves:
  "call_context s d a False = Some c \<Longrightarrow> moves (balances (ctx s)) (balances c)"
  by (auto simp: call_context_def callee_context_def Let_def intro: transfer_value_moves)

lemma bal_spawned_call:
  assumes "conserving execf (Suc (ext_call_depth t))"
  shows "keeps bal_step (\<lambda>_. bal_step)
    ((case code of
        None \<Rightarrow> sret failed_call
      | Some bytecode \<Rightarrow> (\<lambda>s.
          case call_context s d a b of
            None \<Rightarrow> sret failed_call s
          | Some child_ctx \<Rightarrow>
              sbind (smod (\<lambda>s. s\<lparr>storage := []\<rparr>)) (\<lambda>_.
              run_callee execf b (spawn_child s (forwarded_gas s g) child_ctx st cd) bytecode) s)) t) t"
proof (intro keeps_case_option bal.pure)
  fix bytecode c
  assume c: "call_context t d a b = Some c"
  let ?child = "spawn_child t (forwarded_gas t g) c st cd"
  have child: "balances (ctx ?child) = balances c"
    by (simp add: spawn_child_def with_gas_limit_and_context_def)
  have "keeps bal_step (\<lambda>_. bal_step)
      (run_callee execf b ?child bytecode (t\<lparr>storage := []\<rparr>)) (t\<lparr>storage := []\<rparr>)"
    using assms c child call_context_moves [of t d a c] by (intro bal_run_callee) auto
  then show "keeps bal_step (\<lambda>_. bal_step)
      (sbind (smod (\<lambda>s. s\<lparr>storage := []\<rparr>)) (\<lambda>_. run_callee execf b ?child bytecode) t) t"
    by (intro bal.bind_eq bal.modify) (auto simp: monad_simps intro: same_balances_bal_step)
qed

lemma bal_do_ext_call:
  assumes "ext_call_depth s < MAX_EXT_CALL_DEPTH \<Longrightarrow> conserving execf (Suc (ext_call_depth s))"
  shows "keeps bal_step (\<lambda>_. bal_step) (do_ext_call execf d st b s) s"
proof (cases "ext_call_depth s \<ge> MAX_EXT_CALL_DEPTH")
  case True
  then show ?thesis by (simp add: do_ext_call_def monad_simps)
next
  case False
  have depth: "ext_call_depth t = ext_call_depth s"
    if "on_memory (checked_read_slice p n) s = (Inr cd, u)" "lookup_code a u = (Inr code, t)" for p n cd u a code t
    using keeps_machine_depth [where m = "on_memory (checked_read_slice p n)", OF _ that(1)]
      keeps_machine_depth [where m = "lookup_code a", OF machine_lookup_code that(2)]
    by (simp add: machine_local local_on_memory mem_step_loads)
  show ?thesis
    unfolding do_ext_call_def Let_def if_not_P [OF False]
    by (intro bal.bind_eq bal.pure bal_local [OF local_on_memory] mem_step_loads bal_lookup_code
        bal_spawned_call)
       (use False assms depth in \<open>auto simp: monad_simps\<close>)
qed

lemma bal_finish_call: "keeps bal_step (\<lambda>_. bal_step) (finish_call d r s) s"
proof -
  have "bal_step t (deliver_return_data data t)" for data t
    by (rule same_balances_bal_step)
       (auto simp: deliver_return_data_def Let_def split: prod.splits sum.splits)
  then show ?thesis
    unfolding finish_call_def Let_def
    by (intro bal.bind bal.modify bal_local [OF local_set_gp] bal_local [OF local_next_pc])
       (auto intro: same_balances_bal_step)
qed

lemma bal_calls:
  assumes "ext_call_depth s < MAX_EXT_CALL_DEPTH \<Longrightarrow> conserving execf (Suc (ext_call_depth s))"
  shows "keeps bal_step (\<lambda>_. bal_step) (op_call_ext execf d s) s"
    "keeps bal_step (\<lambda>_. bal_step) (op_delegate execf d s) s"
  unfolding op_call_ext_def op_delegate_def Let_def
  using bal_do_ext_call [OF assms] by (auto intro!: bal.guard bal.bind bal_finish_call)

lemma bal_new_address: "keeps bal_step (\<lambda>_. bal_step) (new_address C b code s) s"
  unfolding new_address_def Let_def
  by (intro keeps_if bal.bind bal.pure bal.modify) (auto intro: same_balances_bal_step)

lemma bal_merge_constructor_storage:
  "bal_step s (merge_constructor_storage m s)" "ctx (merge_constructor_storage m s) = ctx s"
  using merge_constructor_storage_form [of m s] by (auto intro: same_balances_bal_step)

text \<open>The constructor's balance map moves the one the constructor was started with.\<close>

lemma run_constructor_moves:
  assumes "conserving execf (ext_call_depth child)"
    and "run_constructor execf child code s = (Inr bs, t)"
  shows "moves (balances (ctx child)) bs" and "ctx t = ctx s"
proof -
  obtain u c where c: "load code child = (Inr u, c)"
    using assms(2) by (auto simp: run_constructor_def monad_simps split: prod.splits sum.splits)
  obtain out c' where c': "execf c = (out, c')" by (cases "execf c")
  have "moves (balances (ctx child)) (balances (ctx c'))"
    using assms(1) load_fields(1,4) [OF c] c' by (auto simp: conserving_def)
  moreover have "ctx (merge_accesses c' (merge_constructor_storage m t)) = ctx t" for m t
    using bal_merge_constructor_storage(2) by (simp add: merge_accesses_def)
  ultimately show "moves (balances (ctx child)) bs" "ctx t = ctx s"
    using assms(2) c c'
    by (auto simp: run_constructor_def monad_simps dest!: charge_gas_ctx
        split: prod.splits sum.splits outcome.splits)
qed

lemma bal_run_constructor: "keeps bal_step (\<lambda>_. bal_step) (run_constructor execf child code s) s"
  unfolding run_constructor_def
  by (auto split: prod.split sum.split intro!: bal.bind bal.pure bal.modify keeps_case_outcome
      bal_local [OF local_charge_gas] bal_merge_constructor_storage(1) bal_merge_accesses)

lemma bal_do_create:
  assumes "ext_call_depth s < MAX_EXT_CALL_DEPTH \<Longrightarrow> conserving execf (Suc (ext_call_depth s))"
  shows "keeps bal_step (\<lambda>_. bal_step) (do_create C execf d b s) s"
proof (cases "ext_call_depth s \<ge> MAX_EXT_CALL_DEPTH")
  case True
  then show ?thesis by (simp add: do_create_def monad_simps)
next
  case False
  have rest: "keeps bal_step (\<lambda>_. bal_step)
      (sbind (case constructor of
                Some code \<Rightarrow> run_constructor execf (spawn_constructor t (callee_context t a cv bals) args) code
              | None \<Rightarrow> sret (balances (callee_context t a cv bals))) (\<lambda>final_balances.
       sbind (smod (merge_balances final_balances)) (\<lambda>_.
       sbind (charge_gas g) (\<lambda>_.
       sbind (smod (\<lambda>s. s\<lparr>contracts := hm_insert a runtime (contracts s)\<rparr>)) (\<lambda>_.
       sret a)))) t) t"
    if "ext_call_depth t = ext_call_depth s"
      and "transfer_value (self_address (ctx t)) a cv (balances (ctx t)) = Some bals"
    for t a cv bals constructor args g runtime
  proof (rule bal.bind_eq)
    let ?c = "callee_context t a cv bals"
    have bals: "moves (balances (ctx t)) (balances ?c)"
      using transfer_value_moves [OF that(2)] by (simp add: callee_context_def)
    let ?m = "case constructor of
                Some code \<Rightarrow> run_constructor execf (spawn_constructor t ?c args) code
              | None \<Rightarrow> sret (balances ?c)"
    show "keeps bal_step (\<lambda>_. bal_step) (?m t) t"
      by (intro keeps_case_option bal.pure bal_run_constructor)
    fix bs u
    assume u: "?m t = (Inr bs, u)"
    have "moves (balances (ctx t)) bs \<and> ctx u = ctx t"
    proof (cases constructor)
      case None
      with u bals show ?thesis by (auto simp: monad_simps)
    next
      case (Some code)
      have "conserving execf (ext_call_depth (spawn_constructor t ?c args))"
        using False assms that(1) by simp
      moreover have "balances (ctx (spawn_constructor t ?c args)) = balances ?c"
        by (simp add: spawn_constructor_def with_gas_limit_and_context_def)
      ultimately show ?thesis
        using u Some bals run_constructor_moves [of execf "spawn_constructor t ?c args" code t bs u]
        by (auto intro: moves_trans)
    qed
    then show "keeps bal_step (\<lambda>_. bal_step)
       (sbind (smod (merge_balances bs)) (\<lambda>_. sbind (charge_gas g) (\<lambda>_.
        sbind (smod (\<lambda>s. s\<lparr>contracts := hm_insert a runtime (contracts s)\<rparr>)) (\<lambda>_. sret a))) u) u"
      by (intro bal.bind bal.modify bal.pure bal_local [OF local_charge_gas])
         (auto intro: merge_balances_bal_step same_balances_bal_step)
  qed
  have depth: "ext_call_depth t = ext_call_depth s"
    if "on_memory (checked_read_slice p n) s = (Inr cd, u)" "new_address C b cd u = (Inr a, t)"
    for p n cd u a t
    using keeps_machine_depth [where m = "on_memory (checked_read_slice p n)", OF _ that(1)]
      new_address_depth [OF that(2)]
    by (simp add: machine_local local_on_memory mem_step_loads)
  show ?thesis
    unfolding do_create_def Let_def if_not_P [OF False]
    by (intro bal.bind_eq bal_local [OF local_on_memory] mem_step_loads bal_new_address)
       (auto split: prod.split intro!: keeps_if keeps_case_option bal.pure rest dest: depth)
qed

lemma bal_op_create:
  assumes "ext_call_depth s < MAX_EXT_CALL_DEPTH \<Longrightarrow> conserving execf (Suc (ext_call_depth s))"
  shows "keeps bal_step (\<lambda>_. bal_step) (op_create C execf d s) s"
proof -
  have "bal_step s (snd (do_create C execf d False s))"
    using bal_do_create [OF assms, of C d False] by (simp add: keeps_same)
  then have "keeps bal_step (\<lambda>_. bal_step)
      (case do_create C execf d False s of
         (Inr new_addr, s) \<Rightarrow>
           (Inr (), s\<lparr>cpu := write_wide (rd d) (from_le_bytes new_addr) (cpu s)\<rparr>)
       | (Inl e, s) \<Rightarrow>
           if e = OutOfGas then (Inl OutOfGas, s)
           else (Inr (), s\<lparr>cpu := write_wide (rd d) 0 (cpu s)\<rparr>)) s"
    by (auto simp: keeps_def intro: bal_step_trans [OF _ same_balances_bal_step]
        split: prod.splits sum.splits)
  then show ?thesis
    unfolding op_create_def by (intro bal.guard bal.bind bal_local [OF local_next_pc])
qed

section \<open>Whole executions\<close>

lemma bal_dispatch:
  assumes "ext_call_depth s < MAX_EXT_CALL_DEPTH \<Longrightarrow> conserving execf (Suc (ext_call_depth s))"
  shows "keeps bal_step (\<lambda>_. bal_step) (dispatch C execf d s) s"
  unfolding dispatch_def Let_def fall_def
  by (intro keeps_if bal.bind bal.pure bal_calls bal_op_create assms)
     (assumption | (rule bal_local, rule local_ops) | (rule bal_world, rule world_ops))+

lemma bal_step_step:
  assumes "ext_call_depth s < MAX_EXT_CALL_DEPTH \<Longrightarrow> conserving execf (Suc (ext_call_depth s))"
    and "step C execf s = (r, t)"
  shows "bal_step s t"
proof -
  have "keeps bal_step (\<lambda>_. bal_step) (step C execf s) s"
    using check_pc_bounds_cases [of s]
  proof
    assume ok: "check_pc_bounds s = (Inr (), s)"
    have "keeps bal_step (\<lambda>_. bal_step) (step_body C execf d u) u" if "charge_gas g s = (Inr (), u)" for g d u
    proof -
      have "ext_call_depth u = ext_call_depth s"
        using keeps_machine_depth [where m = "charge_gas g", OF machine_local [OF local_charge_gas] that] .
      then have "keeps bal_step (\<lambda>_. bal_step) (dispatch C execf d u) u"
        using assms(1) by (intro bal_dispatch) simp
      then show ?thesis
        unfolding step_body_def
        by (rule bal.bind)
           (auto split: flow.split intro!: bal.bind bal.pure bal_local [OF local_drain])
    qed
    then show ?thesis
      unfolding step_unfold [OF ok]
      by (intro bal.bind_eq bal_local [OF local_charge_gas]) auto
  qed (simp add: step_def monad_simps)
  then show ?thesis using assms(2) by (simp add: keeps_same)
qed

lemma run_bal_step:
  assumes "ext_call_depth s < MAX_EXT_CALL_DEPTH \<Longrightarrow> conserving execf (Suc (ext_call_depth s))"
    and "run C execf s = (r, t)"
  shows "bal_step s t"
  using assms
proof (induction s rule: run_induct [of C execf])
  case (1 s)
  show ?case
  proof (cases rule: run_cases [of C execf s])
    case (more u)
    have "ext_call_depth u = ext_call_depth s"
      using step_machine [OF more(1)] by (rule machine_step_depth)
    then have "bal_step u t" using 1 more by simp
    with bal_step_step [OF "1.prems"(1) more(1)] show ?thesis by (rule bal_step_trans)
  next
    case (result x u)
    then show ?thesis using bal_step_step [OF "1.prems"(1) result(1)] "1.prems"(2) by simp
  next
    case (trap e u)
    then show ?thesis using bal_step_step [OF "1.prems"(1) trap(1)] "1.prems"(2) by simp
  qed
qed

text \<open>
  The balances after an execution: moved when it succeeds, as before when it fails.
\<close>

lemma execute_with_balances:
  assumes "ext_call_depth s < MAX_EXT_CALL_DEPTH \<Longrightarrow> conserving execf (Suc (ext_call_depth s))"
    and wf: "hm_wf (balances (ctx s))" and out: "execute_with C execf s = (out, t)"
  shows "moves (balances (ctx s)) (balances (ctx t))"
    and "out_outcome out \<noteq> Success \<Longrightarrow> hm_get (balances (ctx t)) = hm_get (balances (ctx s))"
proof -
  obtain r u where run: "run C execf (clear_journals s) = (r, u)"
    by (cases "run C execf (clear_journals s)")
  obtain v where v: "execute_with C execf s =
      (\<lparr>out_outcome = fst (settle (length (logs s)) (r, u)), out_gas_used = effective_gas_used v,
        out_gas_used_raw = gas_used_total v, out_gas_refund = gas_refund v,
        out_logs = drop (length (logs s)) (logs v)\<rparr>, v)"
    "v = clear_journals (snd (settle (length (logs s)) (r, u)))"
    by (rule execute_with_run [OF run])
  have "bal_step (clear_journals s) u"
    using assms(1) run by (intro run_bal_step) auto
  then have m: "moves (balances (ctx s)) (balances (ctx u))"
    and jwf: "journal_wf (balance_journal u) (balance_journal_keys u)"
    and base: "balance_base u = hm_get (balances (ctx s))"
    using wf by (simp_all add: bal_step_def balance_base_def)
  have "hm_get (balances (ctx (rollback_balances u))) = hm_get (balances (ctx s))"
    using balance_log.rollback_restores [OF jwf] base by (simp add: balance_base_def)
  moreover have "hm_wf (balances (ctx (rollback_balances u)))"
    using m wf by (simp add: rollback_balances_def moves_def hm_wf_restore_entries)
  ultimately have undone: "hm_get (balances (ctx (rollback_balances u))) = hm_get (balances (ctx s))"
    "moves (balances (ctx s)) (balances (ctx (rollback_balances u)))"
    using wf total_balance_cong [of "balances (ctx (rollback_balances u))" "balances (ctx s)"]
    by (simp_all add: moves_def)
  have "moves (balances (ctx s)) (balances (ctx t)) \<and>
      (out_outcome out \<noteq> Success \<longrightarrow> hm_get (balances (ctx t)) = hm_get (balances (ctx s)))"
    by (cases rule: settle_cases [of r "length (logs s)" u]) (use v out m undone in simp_all)
  then show "moves (balances (ctx s)) (balances (ctx t))"
    and "out_outcome out \<noteq> Success \<Longrightarrow> hm_get (balances (ctx t)) = hm_get (balances (ctx s))"
    by simp_all
qed

lemma execute_conserving: "moves (balances (ctx s)) (balances (ctx (snd (execute C s))))"
proof (induction C s rule: execute.induct)
  case (1 C s)
  have "conserving (execute C) (Suc (ext_call_depth s))" if "ext_call_depth s < MAX_EXT_CALL_DEPTH"
    using 1 that by (simp add: conserving_def)
  then have "hm_wf (balances (ctx s)) \<Longrightarrow>
      moves (balances (ctx s)) (balances (ctx (snd (execute_with C (execute C) s))))"
    using execute_with_balances(1) [of s "execute C" C] by (metis prod.collapse)
  then show ?case by (auto simp: execute_unfold [of C s] moves_def)
qed

text \<open>
  C1: value conservation. Whatever a program does, with all the calls, delegate calls and
  creations it makes, the sum of all native balances is the same after \<open>execute\<close> as
  before it, as long as the supply fits in 256 bits.
\<close>

theorem execute_conserves_value:
  assumes "hm_wf (balances (ctx s))" and "total_balance (balances (ctx s)) < 2 ^ 256"
  shows "total_balance (balances (ctx (snd (execute C s)))) = total_balance (balances (ctx s))"
  using execute_conserving [of s C] assms by (simp add: moves_def)

text \<open>
  C19: a failed execution leaves no trace in balances and logs. When the outcome is a revert, a
  trap or out of gas, every account has the balance it had, the log list is the one before, and
  the refund is zero.
\<close>

theorem execute_failure_restores:
  assumes "hm_wf (balances (ctx s))" and "execute C s = (out, t)" and "out_outcome out \<noteq> Success"
  shows "balance_of (balances (ctx t)) = balance_of (balances (ctx s)) \<and> logs t = logs s
    \<and> gas_refund t = 0"
proof -
  have out: "execute_with C (execute C) s = (out, t)" using assms(2) by (simp add: execute_unfold)
  have "conserving (execute C) (Suc (ext_call_depth s))"
    by (simp add: conserving_def execute_conserving)
  then have "hm_get (balances (ctx t)) = hm_get (balances (ctx s))"
    using execute_with_balances(2) [OF _ assms(1) out assms(3)] by blast
  then have bal: "balance_of (balances (ctx t)) = balance_of (balances (ctx s))"
    by (simp add: balance_of_def fun_eq_iff)
  obtain r u where run: "run C (execute C) (clear_journals s) = (r, u)"
    by (cases "run C (execute C) (clear_journals s)")
  have "machine_step (clear_journals s) u" using run by (rule run_machine)
  then have "take (length (logs s)) (logs u) = logs s" by (auto simp: machine_step_def)
  moreover have "t = clear_journals (undo_changes (length (logs s)) u)"
    by (rule execute_with_run [OF run], cases rule: settle_cases [of r "length (logs s)" u])
       (use out assms(3) in simp_all)
  ultimately show ?thesis
    using bal by (simp add: undo_changes_def Let_def rollback_balances_def rollback_storage_def)
qed

text \<open>Two accounts, and programs that stop at once, one successfully and one by a revert.\<close>

definition funded_ctx :: execution_context where
  "funded_ctx = (ctx vm_new)\<lparr>balances := [([1], 40), ([2], 60)]\<rparr>"

definition revert_vm :: vm where
  "revert_vm = vm_new\<lparr>ctx := funded_ctx, gas_limit := 100,
     decoded_cache := [\<lparr>opcode = Op_Revert, rd = 0, rs1 = 0, rs2_or_imm = 0\<rparr>]\<rparr>"

lemma funded_wf: "hm_wf (balances funded_ctx)" "total_balance (balances funded_ctx) = 100"
  by (simp_all add: funded_ctx_def hm_wf_def total_balance_def balance_of_def hm_get_def)

theorem execute_conserves_value_witness:
  "total_balance (balances (ctx (snd (execute example_crypto revert_vm)))) = 100"
  using execute_conserves_value [where C = example_crypto and s = revert_vm]
  by (simp add: revert_vm_def funded_wf)

lemma revert_execute:
  "\<exists>t. execute C revert_vm =
     (\<lparr>out_outcome = Reverted, out_gas_used = 3, out_gas_used_raw = 3, out_gas_refund = 0,
       out_logs = []\<rparr>, t)"
proof -
  have "step C (execute C) revert_vm = (Inr (Some ExecRevert), revert_vm\<lparr>gas_used_total := 3\<rparr>)"
    by (simp add: step_eval op_revert_def revert_vm_def vm_new_def)
  moreover have "clear_journals revert_vm = revert_vm"
    by (simp add: revert_vm_def vm_new_def clear_journals_def)
  ultimately show ?thesis
    by (simp add: execute_unfold execute_with_def run_step(2) settle_def Let_def undo_changes_def)
       (simp add: revert_vm_def vm_new_def clear_journals_def effective_gas_used_def
         rollback_balances_def rollback_storage_def)
qed

theorem execute_failure_restores_witness:
  "balance_of (balances (ctx (snd (execute example_crypto revert_vm)))) [2] = 60"
proof -
  have "balance_of (balances (ctx revert_vm)) [2] = 60"
    by (simp add: revert_vm_def funded_ctx_def balance_of_def hm_get_def)
  then show ?thesis
    using execute_failure_restores [where C = example_crypto and s = revert_vm]
      revert_execute [of example_crypto] funded_wf(1)
    by (auto simp: revert_vm_def)
qed

end
