(* ===== verification/Keys.thy ===== *)
theory Keys
  imports Crypto
begin

unbundle bit_operations_syntax

text \<open>
  Derivation of the keys of the state tree (\<open>crates/state/src/keys.rs\<close>): every kind of entry is
  stored under the Poseidon2 hash of an address, a discriminator byte and a suffix. The theory
  shows the domain separation: two different entries share a key only if the hash function has
  a collision on the very inputs hashed for them.
\<close>

section \<open>Discriminators\<close>

definition disc_BALANCE :: u8 where "disc_BALANCE = 0x00"
definition disc_NONCE :: u8 where "disc_NONCE = 0x01"
definition disc_CODE :: u8 where "disc_CODE = 0x02"
definition disc_CODE_HASH :: u8 where "disc_CODE_HASH = 0x03"
definition disc_STORAGE_SLOT :: u8 where "disc_STORAGE_SLOT = 0x04"
definition disc_MAP_ENTRY :: u8 where "disc_MAP_ENTRY = 0x05"
definition disc_AOT_CODE :: u8 where "disc_AOT_CODE = 0x06"
definition disc_VALIDATOR :: u8 where "disc_VALIDATOR = 0x10"
definition disc_VALIDATOR_COUNT :: u8 where "disc_VALIDATOR_COUNT = 0x11"
definition disc_SUPPLY :: u8 where "disc_SUPPLY = 0x12"
definition disc_TOTAL_BURNED :: u8 where "disc_TOTAL_BURNED = 0x13"
definition disc_REWARDS_PER_VALIDATOR :: u8 where "disc_REWARDS_PER_VALIDATOR = 0x14"
definition disc_ACTIVE_VALIDATOR_COUNT :: u8 where "disc_ACTIVE_VALIDATOR_COUNT = 0x15"
definition disc_VESTING :: u8 where "disc_VESTING = 0x16"
definition disc_VALIDATOR_SUBSIDY :: u8 where "disc_VALIDATOR_SUBSIDY = 0x17"
definition disc_AIRDROP_ROOT :: u8 where "disc_AIRDROP_ROOT = 0x18"
definition disc_AIRDROP_DEADLINE :: u8 where "disc_AIRDROP_DEADLINE = 0x19"
definition disc_AIRDROP_CLAIMED :: u8 where "disc_AIRDROP_CLAIMED = 0x1A"
definition disc_AIRDROP_EXPECTED_SUM :: u8 where "disc_AIRDROP_EXPECTED_SUM = 0x1B"
definition disc_MULTISIG_SIGNERS :: u8 where "disc_MULTISIG_SIGNERS = 0x1C"
definition disc_MULTISIG_THRESHOLD :: u8 where "disc_MULTISIG_THRESHOLD = 0x1D"
definition disc_MULTISIG_NONCE :: u8 where "disc_MULTISIG_NONCE = 0x1E"
definition disc_EMERGENCY_PAUSE_END_SLOT :: u8 where "disc_EMERGENCY_PAUSE_END_SLOT = 0x1F"

lemmas disc_defs = disc_BALANCE_def disc_NONCE_def disc_CODE_def disc_CODE_HASH_def disc_STORAGE_SLOT_def
  disc_MAP_ENTRY_def disc_AOT_CODE_def disc_VALIDATOR_def disc_VALIDATOR_COUNT_def
  disc_SUPPLY_def disc_TOTAL_BURNED_def disc_REWARDS_PER_VALIDATOR_def
  disc_ACTIVE_VALIDATOR_COUNT_def disc_VESTING_def disc_VALIDATOR_SUBSIDY_def
  disc_AIRDROP_ROOT_def disc_AIRDROP_DEADLINE_def disc_AIRDROP_CLAIMED_def
  disc_AIRDROP_EXPECTED_SUM_def disc_MULTISIG_SIGNERS_def disc_MULTISIG_THRESHOLD_def
  disc_MULTISIG_NONCE_def disc_EMERGENCY_PAUSE_END_SLOT_def

section \<open>Keys\<close>

type_synonym h256 = bytes

definition derive_address :: "crypto_lib \<Rightarrow> bytes \<Rightarrow> bytes" where
  "derive_address C falcon_public_key = poseidon2_hash C falcon_public_key"

definition balance_key :: "crypto_lib \<Rightarrow> bytes \<Rightarrow> h256" where
  "balance_key C addr = poseidon2_hash C (addr @ [disc_BALANCE])"

definition nonce_key :: "crypto_lib \<Rightarrow> bytes \<Rightarrow> h256" where
  "nonce_key C addr = poseidon2_hash C (addr @ [disc_NONCE])"

definition code_key :: "crypto_lib \<Rightarrow> bytes \<Rightarrow> h256" where
  "code_key C addr = poseidon2_hash C (addr @ [disc_CODE])"

definition code_hash_key :: "crypto_lib \<Rightarrow> bytes \<Rightarrow> h256" where
  "code_hash_key C addr = poseidon2_hash C (addr @ [disc_CODE_HASH])"

definition aot_code_key :: "crypto_lib \<Rightarrow> bytes \<Rightarrow> h256" where
  "aot_code_key C addr = poseidon2_hash C (addr @ [disc_AOT_CODE])"

definition validator_key :: "crypto_lib \<Rightarrow> bytes \<Rightarrow> h256" where
  "validator_key C addr = poseidon2_hash C (addr @ [disc_VALIDATOR])"

definition vesting_key :: "crypto_lib \<Rightarrow> bytes \<Rightarrow> h256" where
  "vesting_key C addr = poseidon2_hash C (addr @ [disc_VESTING])"

definition storage_slot_key :: "crypto_lib \<Rightarrow> bytes \<Rightarrow> u64 \<Rightarrow> h256" where
  "storage_slot_key C contract slot =
     poseidon2_hash C (contract @ [disc_STORAGE_SLOT] @ to_le_bytes 8 slot)"

definition map_entry_key :: "crypto_lib \<Rightarrow> bytes \<Rightarrow> u64 \<Rightarrow> bytes \<Rightarrow> h256" where
  "map_entry_key C contract slot map_key =
     poseidon2_hash C (storage_slot_key C contract slot @ [disc_MAP_ENTRY] @ map_key)"

definition nested_map_key :: "crypto_lib \<Rightarrow> bytes \<Rightarrow> u64 \<Rightarrow> bytes \<Rightarrow> bytes \<Rightarrow> h256" where
  "nested_map_key C contract slot key1 key2 =
     poseidon2_hash C (map_entry_key C contract slot key1 @ [disc_MAP_ENTRY] @ key2)"

definition validator_count_key :: "crypto_lib \<Rightarrow> h256" where
  "validator_count_key C = poseidon2_hash C [disc_VALIDATOR_COUNT]"

definition supply_key :: "crypto_lib \<Rightarrow> h256" where
  "supply_key C = poseidon2_hash C [disc_SUPPLY]"

definition total_burned_key :: "crypto_lib \<Rightarrow> h256" where
  "total_burned_key C = poseidon2_hash C [disc_TOTAL_BURNED]"

definition rewards_per_validator_key :: "crypto_lib \<Rightarrow> h256" where
  "rewards_per_validator_key C = poseidon2_hash C [disc_REWARDS_PER_VALIDATOR]"

definition active_validator_count_key :: "crypto_lib \<Rightarrow> h256" where
  "active_validator_count_key C = poseidon2_hash C [disc_ACTIVE_VALIDATOR_COUNT]"

definition validator_subsidy_key :: "crypto_lib \<Rightarrow> h256" where
  "validator_subsidy_key C = poseidon2_hash C [disc_VALIDATOR_SUBSIDY]"

definition airdrop_root_key :: "crypto_lib \<Rightarrow> h256" where
  "airdrop_root_key C = poseidon2_hash C [disc_AIRDROP_ROOT]"

definition airdrop_deadline_key :: "crypto_lib \<Rightarrow> h256" where
  "airdrop_deadline_key C = poseidon2_hash C [disc_AIRDROP_DEADLINE]"

definition airdrop_expected_sum_key :: "crypto_lib \<Rightarrow> h256" where
  "airdrop_expected_sum_key C = poseidon2_hash C [disc_AIRDROP_EXPECTED_SUM]"

definition multisig_signers_key :: "crypto_lib \<Rightarrow> h256" where
  "multisig_signers_key C = poseidon2_hash C [disc_MULTISIG_SIGNERS]"

definition multisig_threshold_key :: "crypto_lib \<Rightarrow> h256" where
  "multisig_threshold_key C = poseidon2_hash C [disc_MULTISIG_THRESHOLD]"

definition multisig_nonce_key :: "crypto_lib \<Rightarrow> h256" where
  "multisig_nonce_key C = poseidon2_hash C [disc_MULTISIG_NONCE]"

definition emergency_pause_end_slot_key :: "crypto_lib \<Rightarrow> h256" where
  "emergency_pause_end_slot_key C = poseidon2_hash C [disc_EMERGENCY_PAUSE_END_SLOT]"

definition validator_index_key :: "crypto_lib \<Rightarrow> u64 \<Rightarrow> h256" where
  "validator_index_key C index = poseidon2_hash C ([disc_VALIDATOR_COUNT] @ to_le_bytes 8 index)"

definition airdrop_claimed_key :: "crypto_lib \<Rightarrow> u64 \<Rightarrow> h256" where
  "airdrop_claimed_key C leaf_index = poseidon2_hash C ([disc_AIRDROP_CLAIMED] @ to_le_bytes 8 leaf_index)"

section \<open>Domain separation\<close>

text \<open>The entries of the state tree, one constructor per derivation function.\<close>

datatype state_key =
    K_Balance bytes
  | K_Nonce bytes
  | K_Code bytes
  | K_CodeHash bytes
  | K_AotCode bytes
  | K_Validator bytes
  | K_Vesting bytes
  | K_StorageSlot bytes u64
  | K_MapEntry bytes u64 bytes
  | K_NestedMap bytes u64 bytes bytes
  | K_ValidatorCount
  | K_Supply
  | K_TotalBurned
  | K_RewardsPerValidator
  | K_ActiveValidatorCount
  | K_ValidatorSubsidy
  | K_AirdropRoot
  | K_AirdropDeadline
  | K_AirdropExpectedSum
  | K_MultisigSigners
  | K_MultisigThreshold
  | K_MultisigNonce
  | K_EmergencyPauseEndSlot
  | K_ValidatorIndex u64
  | K_AirdropClaimed u64

fun key_of :: "crypto_lib \<Rightarrow> state_key \<Rightarrow> h256" where
  "key_of C (K_Balance a) = balance_key C a"
| "key_of C (K_Nonce a) = nonce_key C a"
| "key_of C (K_Code a) = code_key C a"
| "key_of C (K_CodeHash a) = code_hash_key C a"
| "key_of C (K_AotCode a) = aot_code_key C a"
| "key_of C (K_Validator a) = validator_key C a"
| "key_of C (K_Vesting a) = vesting_key C a"
| "key_of C (K_StorageSlot a s) = storage_slot_key C a s"
| "key_of C (K_MapEntry a s k) = map_entry_key C a s k"
| "key_of C (K_NestedMap a s k1 k2) = nested_map_key C a s k1 k2"
| "key_of C K_ValidatorCount = validator_count_key C"
| "key_of C K_Supply = supply_key C"
| "key_of C K_TotalBurned = total_burned_key C"
| "key_of C K_RewardsPerValidator = rewards_per_validator_key C"
| "key_of C K_ActiveValidatorCount = active_validator_count_key C"
| "key_of C K_ValidatorSubsidy = validator_subsidy_key C"
| "key_of C K_AirdropRoot = airdrop_root_key C"
| "key_of C K_AirdropDeadline = airdrop_deadline_key C"
| "key_of C K_AirdropExpectedSum = airdrop_expected_sum_key C"
| "key_of C K_MultisigSigners = multisig_signers_key C"
| "key_of C K_MultisigThreshold = multisig_threshold_key C"
| "key_of C K_MultisigNonce = multisig_nonce_key C"
| "key_of C K_EmergencyPauseEndSlot = emergency_pause_end_slot_key C"
| "key_of C (K_ValidatorIndex i) = validator_index_key C i"
| "key_of C (K_AirdropClaimed i) = airdrop_claimed_key C i"

text \<open>The bytes hashed last, and all byte strings hashed, to derive a key.\<close>

fun hash_input :: "crypto_lib \<Rightarrow> state_key \<Rightarrow> bytes" where
  "hash_input C (K_Balance a) = a @ [disc_BALANCE]"
| "hash_input C (K_Nonce a) = a @ [disc_NONCE]"
| "hash_input C (K_Code a) = a @ [disc_CODE]"
| "hash_input C (K_CodeHash a) = a @ [disc_CODE_HASH]"
| "hash_input C (K_AotCode a) = a @ [disc_AOT_CODE]"
| "hash_input C (K_Validator a) = a @ [disc_VALIDATOR]"
| "hash_input C (K_Vesting a) = a @ [disc_VESTING]"
| "hash_input C (K_StorageSlot a s) = a @ [disc_STORAGE_SLOT] @ to_le_bytes 8 s"
| "hash_input C (K_MapEntry a s k) = storage_slot_key C a s @ [disc_MAP_ENTRY] @ k"
| "hash_input C (K_NestedMap a s k1 k2) = map_entry_key C a s k1 @ [disc_MAP_ENTRY] @ k2"
| "hash_input C K_ValidatorCount = [disc_VALIDATOR_COUNT]"
| "hash_input C K_Supply = [disc_SUPPLY]"
| "hash_input C K_TotalBurned = [disc_TOTAL_BURNED]"
| "hash_input C K_RewardsPerValidator = [disc_REWARDS_PER_VALIDATOR]"
| "hash_input C K_ActiveValidatorCount = [disc_ACTIVE_VALIDATOR_COUNT]"
| "hash_input C K_ValidatorSubsidy = [disc_VALIDATOR_SUBSIDY]"
| "hash_input C K_AirdropRoot = [disc_AIRDROP_ROOT]"
| "hash_input C K_AirdropDeadline = [disc_AIRDROP_DEADLINE]"
| "hash_input C K_AirdropExpectedSum = [disc_AIRDROP_EXPECTED_SUM]"
| "hash_input C K_MultisigSigners = [disc_MULTISIG_SIGNERS]"
| "hash_input C K_MultisigThreshold = [disc_MULTISIG_THRESHOLD]"
| "hash_input C K_MultisigNonce = [disc_MULTISIG_NONCE]"
| "hash_input C K_EmergencyPauseEndSlot = [disc_EMERGENCY_PAUSE_END_SLOT]"
| "hash_input C (K_ValidatorIndex i) = [disc_VALIDATOR_COUNT] @ to_le_bytes 8 i"
| "hash_input C (K_AirdropClaimed i) = [disc_AIRDROP_CLAIMED] @ to_le_bytes 8 i"

fun hash_inputs :: "crypto_lib \<Rightarrow> state_key \<Rightarrow> bytes set" where
  "hash_inputs C (K_MapEntry a s k) =
     {hash_input C (K_StorageSlot a s), hash_input C (K_MapEntry a s k)}"
| "hash_inputs C (K_NestedMap a s k1 k2) =
     {hash_input C (K_StorageSlot a s), hash_input C (K_MapEntry a s k1),
      hash_input C (K_NestedMap a s k1 k2)}"
| "hash_inputs C k = {hash_input C k}"

text \<open>Addresses are 32 bytes.\<close>

fun key_wf :: "state_key \<Rightarrow> bool" where
  "key_wf (K_Balance a) \<longleftrightarrow> length a = 32"
| "key_wf (K_Nonce a) \<longleftrightarrow> length a = 32"
| "key_wf (K_Code a) \<longleftrightarrow> length a = 32"
| "key_wf (K_CodeHash a) \<longleftrightarrow> length a = 32"
| "key_wf (K_AotCode a) \<longleftrightarrow> length a = 32"
| "key_wf (K_Validator a) \<longleftrightarrow> length a = 32"
| "key_wf (K_Vesting a) \<longleftrightarrow> length a = 32"
| "key_wf (K_StorageSlot a s) \<longleftrightarrow> length a = 32"
| "key_wf (K_MapEntry a s k) \<longleftrightarrow> length a = 32"
| "key_wf (K_NestedMap a s k1 k2) \<longleftrightarrow> length a = 32"
| "key_wf k \<longleftrightarrow> True"

lemmas key_defs = balance_key_def nonce_key_def code_key_def code_hash_key_def aot_code_key_def
  validator_key_def vesting_key_def storage_slot_key_def map_entry_key_def
  nested_map_key_def validator_count_key_def supply_key_def total_burned_key_def
  rewards_per_validator_key_def active_validator_count_key_def validator_subsidy_key_def
  airdrop_root_key_def airdrop_deadline_key_def airdrop_expected_sum_key_def
  multisig_signers_key_def multisig_threshold_key_def multisig_nonce_key_def
  emergency_pause_end_slot_key_def validator_index_key_def airdrop_claimed_key_def

lemma key_of_hash: "key_of C k = poseidon2_hash C (hash_input C k)"
  by (cases k) (simp_all add: key_defs)

lemma hash_input_mem: "hash_input C k \<in> hash_inputs C k"
  by (cases k) simp_all

text \<open>
  The shape of what is hashed: one byte, a byte and an index, or 32 bytes, a discriminator and
  a suffix. Together with the discriminator it tells all kinds of entry apart except the two
  levels of a map.
\<close>

fun key_prefix :: "crypto_lib \<Rightarrow> state_key \<Rightarrow> bytes" where
  "key_prefix C (K_Balance a) = a"
| "key_prefix C (K_Nonce a) = a"
| "key_prefix C (K_Code a) = a"
| "key_prefix C (K_CodeHash a) = a"
| "key_prefix C (K_AotCode a) = a"
| "key_prefix C (K_Validator a) = a"
| "key_prefix C (K_Vesting a) = a"
| "key_prefix C (K_StorageSlot a s) = a"
| "key_prefix C (K_MapEntry a s k) = storage_slot_key C a s"
| "key_prefix C (K_NestedMap a s k1 k2) = map_entry_key C a s k1"
| "key_prefix C k = []"

fun key_suffix :: "state_key \<Rightarrow> bytes" where
  "key_suffix (K_StorageSlot a s) = to_le_bytes 8 s"
| "key_suffix (K_MapEntry a s k) = k"
| "key_suffix (K_NestedMap a s k1 k2) = k2"
| "key_suffix (K_ValidatorIndex i) = to_le_bytes 8 i"
| "key_suffix (K_AirdropClaimed i) = to_le_bytes 8 i"
| "key_suffix k = []"

fun key_disc :: "state_key \<Rightarrow> u8" where
  "key_disc (K_Balance a) = disc_BALANCE"
| "key_disc (K_Nonce a) = disc_NONCE"
| "key_disc (K_Code a) = disc_CODE"
| "key_disc (K_CodeHash a) = disc_CODE_HASH"
| "key_disc (K_AotCode a) = disc_AOT_CODE"
| "key_disc (K_Validator a) = disc_VALIDATOR"
| "key_disc (K_Vesting a) = disc_VESTING"
| "key_disc (K_StorageSlot a s) = disc_STORAGE_SLOT"
| "key_disc (K_MapEntry a s k) = disc_MAP_ENTRY"
| "key_disc (K_NestedMap a s k1 k2) = disc_MAP_ENTRY"
| "key_disc K_ValidatorCount = disc_VALIDATOR_COUNT"
| "key_disc K_Supply = disc_SUPPLY"
| "key_disc K_TotalBurned = disc_TOTAL_BURNED"
| "key_disc K_RewardsPerValidator = disc_REWARDS_PER_VALIDATOR"
| "key_disc K_ActiveValidatorCount = disc_ACTIVE_VALIDATOR_COUNT"
| "key_disc K_ValidatorSubsidy = disc_VALIDATOR_SUBSIDY"
| "key_disc K_AirdropRoot = disc_AIRDROP_ROOT"
| "key_disc K_AirdropDeadline = disc_AIRDROP_DEADLINE"
| "key_disc K_AirdropExpectedSum = disc_AIRDROP_EXPECTED_SUM"
| "key_disc K_MultisigSigners = disc_MULTISIG_SIGNERS"
| "key_disc K_MultisigThreshold = disc_MULTISIG_THRESHOLD"
| "key_disc K_MultisigNonce = disc_MULTISIG_NONCE"
| "key_disc K_EmergencyPauseEndSlot = disc_EMERGENCY_PAUSE_END_SLOT"
| "key_disc (K_ValidatorIndex i) = disc_VALIDATOR_COUNT"
| "key_disc (K_AirdropClaimed i) = disc_AIRDROP_CLAIMED"

lemma hash_input_shape: "hash_input C k = key_prefix C k @ [key_disc k] @ key_suffix k"
  by (cases k) simp_all

lemma key_prefix_length: "key_wf k \<Longrightarrow> length (key_prefix C k) = 32 \<or> key_prefix C k = []"
  by (cases k) (simp_all add: storage_slot_key_def map_entry_key_def)

lemma global_key_length:
  "key_wf k \<Longrightarrow> key_prefix C k = [] \<longleftrightarrow> length (hash_input C k) < 33"
  by (cases k) (simp_all add: storage_slot_key_def map_entry_key_def flip: length_0_conv)

lemma hash_input_parts:
  assumes "key_wf k1" "key_wf k2" "hash_input C k1 = hash_input C k2"
  shows "key_prefix C k1 = key_prefix C k2" "key_disc k1 = key_disc k2"
    "key_suffix k1 = key_suffix k2"
proof -
  have "length (key_prefix C k1) = length (key_prefix C k2)"
    using assms key_prefix_length global_key_length by metis
  with assms(3) show "key_prefix C k1 = key_prefix C k2" "key_disc k1 = key_disc k2"
    "key_suffix k1 = key_suffix k2"
    unfolding hash_input_shape by simp_all
qed

definition hash_collision :: "crypto_lib \<Rightarrow> bytes set \<Rightarrow> bytes set \<Rightarrow> bool" where
  "hash_collision C X Y \<longleftrightarrow> (\<exists>x\<in>X. \<exists>y\<in>Y. x \<noteq> y \<and> poseidon2_hash C x = poseidon2_hash C y)"

lemma key_eq_cases:
  assumes "key_of C k1 = key_of C k2"
  obtains "hash_collision C (hash_inputs C k1) (hash_inputs C k2)"
  | "hash_input C k1 = hash_input C k2"
  using assms hash_input_mem [of C k1] hash_input_mem [of C k2]
  by (auto simp: key_of_hash hash_collision_def)

lemma hash_collision_mono:
  "hash_collision C X Y \<Longrightarrow> X \<subseteq> X' \<Longrightarrow> Y \<subseteq> Y' \<Longrightarrow> hash_collision C X' Y'"
  by (auto simp: hash_collision_def)

text \<open>Entries that do not belong to a map are told apart by the bytes hashed.\<close>

fun is_map_key :: "state_key \<Rightarrow> bool" where
  "is_map_key (K_MapEntry a s k) = True"
| "is_map_key (K_NestedMap a s k1 k2) = True"
| "is_map_key k = False"

lemma is_map_key_disc: "is_map_key k \<longleftrightarrow> key_disc k = disc_MAP_ENTRY"
  by (cases k) (simp_all add: disc_defs)

lemma plain_key_inject:
  assumes "\<not> is_map_key k1" "\<not> is_map_key k2" "key_prefix C k1 = key_prefix C k2"
    "key_disc k1 = key_disc k2" "key_suffix k1 = key_suffix k2"
  shows "k1 = k2"
  using assms by (cases k1; cases k2; simp add: disc_defs)

lemma plain_key_separation:
  assumes "key_wf k1" "key_wf k2" "\<not> is_map_key k1" "key_of C k1 = key_of C k2" "k1 \<noteq> k2"
  shows "hash_collision C (hash_inputs C k1) (hash_inputs C k2)"
  using assms(4)
proof (cases rule: key_eq_cases)
  case 2
  note parts = hash_input_parts [OF assms(1,2) 2]
  then have "\<not> is_map_key k2" using assms(3) by (simp add: is_map_key_disc)
  then have "k1 = k2" using assms(3) parts by (intro plain_key_inject)
  with assms(5) show ?thesis by simp
qed

lemma map_key_separation:
  assumes "length a = 32" "length a' = 32" "map_entry_key C a s k = map_entry_key C a' s' k'"
    "(a, s, k) \<noteq> (a', s', k')"
  shows "hash_collision C (hash_inputs C (K_MapEntry a s k)) (hash_inputs C (K_MapEntry a' s' k'))"
proof -
  have "key_of C (K_MapEntry a s k) = key_of C (K_MapEntry a' s' k')" using assms(3) by simp
  then show ?thesis
  proof (cases rule: key_eq_cases)
    case 2
    have "key_of C (K_StorageSlot a s) = key_of C (K_StorageSlot a' s')" and "k = k'"
      using 2 by (simp_all add: storage_slot_key_def)
    then have "hash_collision C (hash_inputs C (K_StorageSlot a s)) (hash_inputs C (K_StorageSlot a' s'))"
      using assms by (intro plain_key_separation) auto
    then show ?thesis by (rule hash_collision_mono) auto
  qed
qed

lemma hash_collision_sym: "hash_collision C X Y \<Longrightarrow> hash_collision C Y X"
  unfolding hash_collision_def by metis

lemma slot_map_separation:
  assumes "length a = 32" "length a' = 32" "storage_slot_key C a s = map_entry_key C a' s' k"
  shows "hash_collision C (hash_inputs C (K_StorageSlot a s)) (hash_inputs C (K_MapEntry a' s' k))"
proof -
  have "key_of C (K_StorageSlot a s) = key_of C (K_MapEntry a' s' k)" using assms(3) by simp
  then show ?thesis using assms(1,2) by (intro plain_key_separation) simp_all
qed

lemma is_map_key_cases:
  assumes "is_map_key k"
  obtains a s m where "k = K_MapEntry a s m" | a s m l where "k = K_NestedMap a s m l"
  using assms by (cases k) auto

lemma map_keys_separation:
  assumes "key_wf k1" "key_wf k2" "is_map_key k1" "is_map_key k2" "k1 \<noteq> k2"
    and eq: "hash_input C k1 = hash_input C k2"
  shows "hash_collision C (hash_inputs C k1) (hash_inputs C k2)"
proof -
  note parts = hash_input_parts [OF assms(1,2) eq]
  from assms(3) show ?thesis
  proof (cases rule: is_map_key_cases)
    case one: (1 a s m)
    from assms(4) show ?thesis
    proof (cases rule: is_map_key_cases)
      case (1 a' s' m')
      then show ?thesis
        unfolding one 1 using one 1 assms eq
        by (intro map_key_separation) (auto simp: map_entry_key_def)
    next
      case (2 a' s' m' l')
      then have "hash_collision C (hash_inputs C (K_StorageSlot a s)) (hash_inputs C (K_MapEntry a' s' m'))"
        using one assms parts by (intro slot_map_separation) simp_all
      then show ?thesis unfolding one 2 by (rule hash_collision_mono) auto
    qed
  next
    case two: (2 a s m l)
    from assms(4) show ?thesis
    proof (cases rule: is_map_key_cases)
      case (1 a' s' m')
      then have "hash_collision C (hash_inputs C (K_StorageSlot a' s')) (hash_inputs C (K_MapEntry a s m))"
        using two assms parts by (intro slot_map_separation) simp_all
      then show ?thesis
        unfolding two 1 by (rule hash_collision_mono [OF hash_collision_sym]) auto
    next
      case (2 a' s' m' l')
      then have "hash_collision C (hash_inputs C (K_MapEntry a s m)) (hash_inputs C (K_MapEntry a' s' m'))"
        using two assms parts by (intro map_key_separation) auto
      then show ?thesis unfolding two 2 by (rule hash_collision_mono) auto
    qed
  qed
qed

text \<open>
  Domain separation of the state tree. Two different entries, of whatever kinds, have the
  same key only if the Poseidon2 hash collides on two different byte strings that are hashed in
  deriving these two keys.
\<close>

theorem state_key_separation:
  assumes "key_wf k1" and "key_wf k2" and "key_of C k1 = key_of C k2"
  shows "k1 = k2 \<or> hash_collision C (hash_inputs C k1) (hash_inputs C k2)"
  using assms(3)
proof (cases rule: key_eq_cases)
  case 2
  show ?thesis
  proof (cases "is_map_key k1 \<and> is_map_key k2")
    case True
    then show ?thesis using map_keys_separation [OF assms(1,2) _ _ _ 2] by blast
  next
    case False
    then show ?thesis
      using assms plain_key_separation [of k1 k2 C] plain_key_separation [of k2 k1 C]
        hash_collision_sym by metis
  qed
qed simp

theorem state_key_separation_witness:
  "hash_collision example_crypto {replicate 32 1 @ [disc_BALANCE]} {replicate 32 1 @ [disc_NONCE]}"
  using state_key_separation [of "K_Balance (replicate 32 1)" "K_Nonce (replicate 32 1)" example_crypto]
  by (simp add: key_of_hash poseidon2_hash_def example_crypto_def del: key_of.simps)

end
