(* ===== verification/Account.thy ===== *)
theory Account
  imports Keys "HOL-Library.List_Lexorder"
begin

unbundle bit_operations_syntax

text \<open>
  Accounts (\<open>crates/account\<close>): address derivation and formatting (\<open>address.rs\<close>), the account
  record and its byte format (\<open>types.rs\<close>), and authentication (\<open>auth.rs\<close>).
\<close>

section \<open>Addresses\<close>

definition derive_eoa_address :: "crypto_lib \<Rightarrow> bytes \<Rightarrow> bytes" where
  "derive_eoa_address C falcon_public_key = poseidon2_hash C falcon_public_key"

definition derive_create_address :: "crypto_lib \<Rightarrow> bytes \<Rightarrow> u64 \<Rightarrow> bytes" where
  "derive_create_address C deployer nonce = poseidon2_hash C (deployer @ to_le_bytes 8 nonce)"

definition derive_create2_address :: "crypto_lib \<Rightarrow> bytes \<Rightarrow> bytes \<Rightarrow> bytes \<Rightarrow> bytes" where
  "derive_create2_address C deployer salt code =
     poseidon2_hash C ([0xFF] @ deployer @ salt @ poseidon2_hash C code)"

text \<open>The bytes of an ASCII string literal.\<close>

definition ascii :: "string \<Rightarrow> bytes" where
  "ascii s = map of_char s"

definition treasury_address :: "crypto_lib \<Rightarrow> bytes" where
  "treasury_address C = poseidon2_hash C (ascii ''pyde-treasury'')"

definition airdrop_pool_address :: "crypto_lib \<Rightarrow> bytes" where
  "airdrop_pool_address C = poseidon2_hash C (ascii ''pyde-airdrop-pool'')"

text \<open>
  Strings are their UTF-8 bytes. \<open>format!("{:02x}")\<close> writes two lower-case digits;
  \<open>u8::from_str_radix\<close> on two bytes accepts digits of either case and a leading plus sign.
\<close>

definition hex_digit :: "u8 \<Rightarrow> u8" where
  "hex_digit d = (if d < 10 then 48 + d else 87 + d)"

definition format_address :: "bytes \<Rightarrow> bytes" where
  "format_address addr =
     ascii ''0x'' @ concat (map (\<lambda>b. [hex_digit (drop_bit 4 b), hex_digit (b AND 0xF)]) addr)"

definition to_digit_16 :: "u8 \<Rightarrow> u8 option" where
  "to_digit_16 c =
     (if 48 \<le> c \<and> c \<le> 57 then Some (c - 48)
      else if 97 \<le> c \<and> c \<le> 102 then Some (c - 87)
      else if 65 \<le> c \<and> c \<le> 70 then Some (c - 55)
      else None)"

definition from_str_radix_2 :: "u8 \<Rightarrow> u8 \<Rightarrow> u8 option" where
  "from_str_radix_2 c1 c2 =
     (if c1 = 43 then to_digit_16 c2
      else (case (to_digit_16 c1, to_digit_16 c2) of
              (Some h, Some l) \<Rightarrow> Some (h * 16 + l) | _ \<Rightarrow> None))"

text \<open>Slicing a \<open>str\<close> inside a character panics: a continuation byte starts with bits 10.\<close>

definition is_char_boundary :: "bytes \<Rightarrow> nat \<Rightarrow> bool" where
  "is_char_boundary s i \<longleftrightarrow>
     i = 0 \<or> i = length s \<or> (i < length s \<and> drop_bit 6 (s ! i) \<noteq> 2)"

datatype parsed_address = Panicked | Parsed "bytes option"

text \<open>The loop over \<open>i\<close> in \<open>0..32\<close>, with the bytes parsed so far.\<close>

fun parse_pairs :: "bytes \<Rightarrow> nat list \<Rightarrow> bytes \<Rightarrow> parsed_address" where
  "parse_pairs hex [] addr = Parsed (Some addr)"
| "parse_pairs hex (i # is) addr =
     (if \<not> (is_char_boundary hex (i * 2) \<and> is_char_boundary hex (i * 2 + 2)) then Panicked
      else case from_str_radix_2 (hex ! (i * 2)) (hex ! (i * 2 + 1)) of
             None \<Rightarrow> Parsed None
           | Some b \<Rightarrow> parse_pairs hex is (addr @ [b]))"

definition parse_address :: "bytes \<Rightarrow> parsed_address" where
  "parse_address s =
     (let hex = (if take 2 s = ascii ''0x'' then drop 2 s else s)
      in if length hex \<noteq> 64 then Parsed None else parse_pairs hex [0..<32] [])"

section \<open>Account records\<close>

datatype account_type = EOA | Contract | System

fun account_type_to_u8 :: "account_type \<Rightarrow> u8" where
  "account_type_to_u8 EOA = 0"
| "account_type_to_u8 Contract = 1"
| "account_type_to_u8 System = 2"

definition account_type_from_u8 :: "u8 \<Rightarrow> account_type option" where
  "account_type_from_u8 v =
     (if v = 0 then Some EOA else if v = 1 then Some Contract
      else if v = 2 then Some System else None)"

datatype auth_keys = AuthNone | AuthSingle bytes | AuthMultiSig "bytes list" u32

fun auth_keys_to_bytes :: "auth_keys \<Rightarrow> bytes" where
  "auth_keys_to_bytes AuthNone = [0x00]"
| "auth_keys_to_bytes (AuthSingle pk) = [0x01] @ to_le_bytes 4 (of_nat (length pk) :: u32) @ pk"
| "auth_keys_to_bytes (AuthMultiSig keys threshold) =
     [0x02] @ to_le_bytes 4 threshold @ to_le_bytes 4 (of_nat (length keys) :: u32)
     @ concat (map (\<lambda>k. to_le_bytes 4 (of_nat (length k) :: u32) @ k) keys)"

text \<open>The loop that reads \<open>num_keys\<close> length-prefixed keys from offset 9 on.\<close>

fun read_keys :: "nat \<Rightarrow> bytes \<Rightarrow> bytes list option" where
  "read_keys 0 data = Some []"
| "read_keys (Suc n) data =
     (if length data < 4 then None
      else
        (let klen = unat (from_le_bytes (take 4 data) :: u32);
             rest = drop 4 data
         in if length rest < klen then None
            else map_option (\<lambda>ks. take klen rest # ks) (read_keys n (drop klen rest))))"

text \<open>\<open>sorted.windows(2).any(|w| w[0] == w[1])\<close>\<close>

fun adjacent_equal :: "'a list \<Rightarrow> bool" where
  "adjacent_equal (x # y # zs) \<longleftrightarrow> x = y \<or> adjacent_equal (y # zs)"
| "adjacent_equal _ \<longleftrightarrow> False"

definition auth_keys_from_bytes :: "bytes \<Rightarrow> auth_keys option" where
  "auth_keys_from_bytes data =
     (if data = [] then None
      else if hd data = 0x00 then Some AuthNone
      else if hd data = 0x01 then
        (if length data < 5 then None
         else
           (let len = unat (from_le_bytes (take 4 (drop 1 data)) :: u32)
            in if length data < 5 + len then None
               else Some (AuthSingle (take len (drop 5 data)))))
      else if hd data = 0x02 then
        (if length data < 9 then None
         else
           (let threshold = from_le_bytes (take 4 (drop 1 data));
                num_keys = unat (from_le_bytes (take 4 (drop 5 data)) :: u32)
            in case read_keys num_keys (drop 9 data) of
                 None \<Rightarrow> None
               | Some keys \<Rightarrow>
                   if adjacent_equal (sort keys) then None else Some (AuthMultiSig keys threshold)))
      else None)"

record account =
  acc_address :: bytes
  acc_nonce :: u64
  acc_balance :: u128
  acc_code_hash :: h256
  acc_storage_root :: h256
  acc_type :: account_type
  acc_auth_keys :: auth_keys
  acc_gas_tank :: u128
  acc_key_nonce :: u32

definition h256_zero :: h256 where "h256_zero = replicate 32 0"

definition new_eoa :: "crypto_lib \<Rightarrow> bytes \<Rightarrow> account" where
  "new_eoa C falcon_public_key =
     \<lparr>acc_address = derive_address C falcon_public_key, acc_nonce = 0, acc_balance = 0,
      acc_code_hash = h256_zero, acc_storage_root = h256_zero, acc_type = EOA,
      acc_auth_keys = AuthSingle falcon_public_key, acc_gas_tank = 0, acc_key_nonce = 0\<rparr>"

definition new_contract :: "crypto_lib \<Rightarrow> bytes \<Rightarrow> bytes \<Rightarrow> account" where
  "new_contract C addr code =
     \<lparr>acc_address = addr, acc_nonce = 0, acc_balance = 0,
      acc_code_hash = poseidon2_hash C code, acc_storage_root = h256_zero, acc_type = Contract,
      acc_auth_keys = AuthNone, acc_gas_tank = 0, acc_key_nonce = 0\<rparr>"

definition new_system :: "bytes \<Rightarrow> account" where
  "new_system addr =
     \<lparr>acc_address = addr, acc_nonce = 0, acc_balance = 0,
      acc_code_hash = h256_zero, acc_storage_root = h256_zero, acc_type = System,
      acc_auth_keys = AuthNone, acc_gas_tank = 0, acc_key_nonce = 0\<rparr>"

definition account_to_bytes :: "account \<Rightarrow> bytes" where
  "account_to_bytes a =
     (let auth_bytes = auth_keys_to_bytes (acc_auth_keys a)
      in acc_address a @ to_le_bytes 8 (acc_nonce a) @ to_le_bytes 16 (acc_balance a)
         @ acc_code_hash a @ acc_storage_root a @ [account_type_to_u8 (acc_type a)]
         @ to_le_bytes 16 (acc_gas_tank a) @ to_le_bytes 4 (acc_key_nonce a)
         @ to_le_bytes 4 (of_nat (length auth_bytes) :: u32) @ auth_bytes)"

text \<open>\<open>data[i..j]\<close>\<close>

definition byte_range :: "nat \<Rightarrow> nat \<Rightarrow> 'a list \<Rightarrow> 'a list" where
  "byte_range i j xs = take (j - i) (drop i xs)"

definition account_from_bytes :: "bytes \<Rightarrow> account option" where
  "account_from_bytes data =
     (if length data < 145 then None
      else case account_type_from_u8 (data ! 120) of
        None \<Rightarrow> None
      | Some typ \<Rightarrow>
          (let auth_len = unat (from_le_bytes (byte_range 141 145 data) :: u32)
           in if length data < 145 + auth_len then None
              else case auth_keys_from_bytes (byte_range 145 (145 + auth_len) data) of
                None \<Rightarrow> None
              | Some ak \<Rightarrow>
                  Some \<lparr>acc_address = byte_range 0 32 data,
                        acc_nonce = from_le_bytes (byte_range 32 40 data),
                        acc_balance = from_le_bytes (byte_range 40 56 data),
                        acc_code_hash = byte_range 56 88 data,
                        acc_storage_root = byte_range 88 120 data,
                        acc_type = typ,
                        acc_auth_keys = ak,
                        acc_gas_tank = from_le_bytes (byte_range 121 137 data),
                        acc_key_nonce = from_le_bytes (byte_range 137 141 data)\<rparr>))"

definition is_eoa :: "account \<Rightarrow> bool" where "is_eoa a \<longleftrightarrow> acc_type a = EOA"
definition is_contract :: "account \<Rightarrow> bool" where "is_contract a \<longleftrightarrow> acc_type a = Contract"
definition is_system :: "account \<Rightarrow> bool" where "is_system a \<longleftrightarrow> acc_type a = System"

section \<open>Authentication\<close>

datatype auth_result = Valid | Invalid | NoKeys | CustomValidation

definition signature_ok :: "crypto_lib \<Rightarrow> bytes \<Rightarrow> bytes \<Rightarrow> bytes \<Rightarrow> bool" where
  "signature_ok C message pk_bytes sig_bytes =
     (case falcon_pk_from_bytes pk_bytes of
        None \<Rightarrow> False
      | Some pk \<Rightarrow>
          (case falcon_sig_from_bytes sig_bytes of
             None \<Rightarrow> False
           | Some sig \<Rightarrow> falcon_verify C pk message sig))"

text \<open>
  The quorum loop: positional matching of keys and signatures, the keys already counted and the
  number of valid signatures so far.
\<close>

fun count_valid ::
    "crypto_lib \<Rightarrow> bytes \<Rightarrow> bytes list \<Rightarrow> bytes list \<Rightarrow> bytes set \<Rightarrow> u32 \<Rightarrow> u32" where
  "count_valid C message [] signatures counted n = n"
| "count_valid C message (pk_bytes # keys) [] counted n = n"
| "count_valid C message (pk_bytes # keys) (sg # signatures) counted n =
     (if sg = [] then count_valid C message keys signatures counted n
      else if pk_bytes \<in> counted then count_valid C message keys signatures counted n
      else count_valid C message keys signatures (insert pk_bytes counted)
             (if signature_ok C message pk_bytes sg then n + 1 else n))"

definition validate_signature :: "crypto_lib \<Rightarrow> account \<Rightarrow> bytes \<Rightarrow> bytes list \<Rightarrow> auth_result" where
  "validate_signature C a message signatures =
     (if acc_code_hash a \<noteq> h256_zero \<and> is_contract a then CustomValidation
      else case acc_auth_keys a of
        AuthNone \<Rightarrow> NoKeys
      | AuthSingle pk_bytes \<Rightarrow>
          if signatures = [] then Invalid
          else if signature_ok C message pk_bytes (hd signatures) then Valid else Invalid
      | AuthMultiSig keys threshold \<Rightarrow>
          if length signatures < unat threshold then Invalid
          else if count_valid C message keys signatures {} 0 \<ge> threshold then Valid else Invalid)"

definition rotate_keys ::
    "crypto_lib \<Rightarrow> account \<Rightarrow> auth_keys \<Rightarrow> bytes list \<Rightarrow> bytes \<Rightarrow> account option" where
  "rotate_keys C a new_keys current_sig rotation_message =
     (if validate_signature C a rotation_message current_sig \<noteq> Valid then None
      else Some (a\<lparr>acc_auth_keys := new_keys, acc_key_nonce := acc_key_nonce a + 1\<rparr>))"

definition build_rotation_message :: "crypto_lib \<Rightarrow> account \<Rightarrow> auth_keys \<Rightarrow> bytes" where
  "build_rotation_message C a new_keys =
     poseidon2_hash C
       (ascii ''key_rotation'' @ acc_address a @ to_le_bytes 4 (acc_key_nonce a)
        @ auth_keys_to_bytes new_keys)"

section \<open>Addresses as text\<close>

lemma nibbles: "drop_bit 4 b < (16 :: u8)" "b AND 0xF < (16 :: u8)"
proof -
  show "drop_bit 4 b < (16 :: u8)"
    using unat_lt_length [of b] by (simp add: word_less_nat_alt unat_drop_bit)
  show "b AND 0xF < (16 :: u8)"
    using and_mask_lt [of b 4] by (simp add: word_less_nat_alt mask_eq_exp_minus_1)
qed

lemma hex_digit_ok:
  assumes "d < (16 :: u8)"
  shows "to_digit_16 (hex_digit d) = Some d" "hex_digit d \<noteq> 43" "drop_bit 6 (hex_digit d) \<noteq> 2"
proof -
  have "unat d < 16" using assms by (simp add: word_less_nat_alt)
  then have "d \<in> {0, 1, 2, 3, 4, 5, 6, 7, 8, 9, 10, 11, 12, 13, 14, 15}"
    by (simp add: word_unat_eq_iff) presburger
  then show "to_digit_16 (hex_digit d) = Some d" "hex_digit d \<noteq> 43"
    "drop_bit 6 (hex_digit d) \<noteq> 2"
    by (elim insertE emptyE; simp add: hex_digit_def to_digit_16_def)+
qed

lemma nibble_join: "drop_bit 4 b * 16 + (b AND 0xF) = (b :: u8)"
proof -
  have "unat (drop_bit 4 b * 16 + (b AND 0xF)) = unat b div 16 * 16 + unat b mod 16"
    using unat_lt_length [of b] unat_and_mask [of b 4]
    by (simp add: unat_word_ariths unat_drop_bit mask_eq_exp_minus_1)
  then show ?thesis by (simp add: word_unat_eq_iff)
qed

abbreviation hex_pairs :: "bytes \<Rightarrow> bytes" where
  "hex_pairs addr \<equiv> concat (map (\<lambda>b. [hex_digit (drop_bit 4 b), hex_digit (b AND 0xF)]) addr)"

lemma length_hex_pairs [simp]: "length (hex_pairs addr) = 2 * length addr"
  by (induction addr) simp_all

lemma nth_hex_pairs:
  "i < length addr \<Longrightarrow>
     hex_pairs addr ! (i * 2) = hex_digit (drop_bit 4 (addr ! i))
     \<and> hex_pairs addr ! (i * 2 + 1) = hex_digit (addr ! i AND 0xF)"
proof (induction addr arbitrary: i)
  case (Cons b addr)
  then show ?case by (cases i) simp_all
qed simp

lemma hex_pairs_boundary: "i \<le> length addr \<Longrightarrow> is_char_boundary (hex_pairs addr) (i * 2)"
  using nth_hex_pairs [of i addr] hex_digit_ok(3) [OF nibbles(1)]
  by (cases "i < length addr") (simp_all add: is_char_boundary_def)

lemma from_str_radix_hex:
  "from_str_radix_2 (hex_digit (drop_bit 4 b)) (hex_digit (b AND 0xF)) = Some b"
  using nibbles [of b] nibble_join [of b] by (simp add: from_str_radix_2_def hex_digit_ok)

lemma parse_pairs_hex:
  assumes "n \<le> length addr"
  shows "parse_pairs (hex_pairs addr) [n..<length addr] (take n addr) = Parsed (Some addr)"
  using assms
proof (induction rule: inc_induct)
  case (step n)
  have "take n addr @ [addr ! n] = take (Suc n) addr"
    using step.hyps by (simp add: take_Suc_conv_app_nth)
  then show ?case
    using step nth_hex_pairs [of n addr] from_str_radix_hex [of "addr ! n"]
      hex_pairs_boundary [of n addr] hex_pairs_boundary [of "Suc n" addr]
    by (simp add: upt_conv_Cons)
qed simp

declare parse_pairs.simps [simp del]

lemma ascii_0x: "ascii ''0x'' = [48, 120]"
  by (simp add: ascii_def)

text \<open>
  Formatting an address and parsing it gives the address back, with or without the
  \<open>0x\<close> prefix.
\<close>

theorem address_text_roundtrip:
  assumes "length addr = 32"
  shows "parse_address (format_address addr) = Parsed (Some addr)
    \<and> parse_address (drop 2 (format_address addr)) = Parsed (Some addr)"
proof -
  have pairs: "parse_pairs (hex_pairs addr) [0..<32] [] = Parsed (Some addr)"
    using parse_pairs_hex [of 0 addr] assms by simp
  have "hex_pairs addr ! 1 \<noteq> 120"
  proof -
    have "hex_digit d \<noteq> 120" if "d < 16" for d
      using hex_digit_ok(1) [OF that] by (auto simp: to_digit_16_def)
    then show ?thesis using nth_hex_pairs [of 0 addr] assms nibbles(2) [of "addr ! 0"] by auto
  qed
  moreover have "take 2 (hex_pairs addr) = [hex_pairs addr ! 0, hex_pairs addr ! 1]"
    using assms by (intro nth_equalityI) (auto simp: less_2_cases_iff)
  ultimately show ?thesis
    using assms pairs by (simp add: parse_address_def format_address_def ascii_0x)
qed

theorem address_text_roundtrip_witness:
  "parse_address (format_address (replicate 32 0xAB)) = Parsed (Some (replicate 32 0xAB))"
  using address_text_roundtrip [of "replicate 32 0xAB"] by simp

section \<open>The byte format\<close>

lemma adjacent_equal_sorted: "sorted xs \<Longrightarrow> adjacent_equal xs \<longleftrightarrow> \<not> distinct xs"
proof (induction xs rule: adjacent_equal.induct)
  case (1 x y zs)
  have "x = y" if "x \<in> set zs" using 1(2) that by (auto intro: antisym)
  with 1 show ?case by auto
qed auto

lemma duplicate_keys: "adjacent_equal (sort keys) \<longleftrightarrow> \<not> distinct (keys :: bytes list)"
  by (simp add: adjacent_equal_sorted)

lemma unat_of_nat_u32: "n < 2 ^ 32 \<Longrightarrow> unat (of_nat n :: u32) = n"
  by (rule unat_of_nat_small) simp

lemma read_keys_concat:
  "\<forall>k\<in>set keys. length k < 2 ^ 32 \<Longrightarrow>
     read_keys (length keys)
       (concat (map (\<lambda>k. to_le_bytes 4 (of_nat (length k) :: u32) @ k) keys) @ rest) = Some keys"
  by (induction keys) (simp_all add: from_to_le_bytes unat_of_nat_u32)

fun auth_keys_wf :: "auth_keys \<Rightarrow> bool" where
  "auth_keys_wf AuthNone \<longleftrightarrow> True"
| "auth_keys_wf (AuthSingle pk) \<longleftrightarrow> length pk < 2 ^ 32"
| "auth_keys_wf (AuthMultiSig keys threshold) \<longleftrightarrow>
     distinct keys \<and> length keys < 2 ^ 32 \<and> list_all (\<lambda>k. length k < 2 ^ 32) keys"

lemma auth_keys_roundtrip:
  assumes "auth_keys_wf ak"
  shows "auth_keys_from_bytes (auth_keys_to_bytes ak) = Some ak"
proof (cases ak)
  case (AuthMultiSig keys threshold)
  then have "read_keys (length keys)
      (concat (map (\<lambda>k. to_le_bytes 4 (of_nat (length k) :: u32) @ k) keys)) = Some keys"
    using assms read_keys_concat [of keys "[]"] by (simp add: list_all_iff)
  then show ?thesis
    using AuthMultiSig assms
    by (simp add: auth_keys_from_bytes_def from_to_le_bytes unat_of_nat_u32 duplicate_keys)
qed (use assms in \<open>simp_all add: auth_keys_from_bytes_def from_to_le_bytes unat_of_nat_u32\<close>)

definition account_wf :: "account \<Rightarrow> bool" where
  "account_wf a \<longleftrightarrow>
     length (acc_address a) = 32 \<and> length (acc_code_hash a) = 32 \<and> length (acc_storage_root a) = 32
     \<and> auth_keys_wf (acc_auth_keys a)
     \<and> length (auth_keys_to_bytes (acc_auth_keys a)) < 2 ^ 32"

text \<open>
  The state record of an account survives serialisation. Any account with 32-byte address and
  roots and distinct keys whose encoding fits the 32-bit length field is read back as it was
  written; what a reader accepts never has a key twice.
\<close>

theorem account_bytes_roundtrip:
  "(account_wf a \<longrightarrow> account_from_bytes (account_to_bytes a) = Some a)
   \<and> (account_from_bytes data = Some b \<longrightarrow> acc_auth_keys b = AuthMultiSig keys threshold \<longrightarrow>
        distinct keys)"
proof (intro conjI impI)
  assume wf: "account_wf a"
  have "account_type_from_u8 (account_type_to_u8 t) = Some t" for t
    by (cases t) (simp_all add: account_type_from_u8_def)
  then show "account_from_bytes (account_to_bytes a) = Some a"
    using wf auth_keys_roundtrip [of "acc_auth_keys a"]
    by (simp add: account_from_bytes_def account_to_bytes_def Let_def byte_range_def account_wf_def
        from_to_le_bytes unat_of_nat_u32 nth_append)
next
  assume "account_from_bytes data = Some b" and "acc_auth_keys b = AuthMultiSig keys threshold"
  then have "\<exists>xs. auth_keys_from_bytes xs = Some (AuthMultiSig keys threshold)"
    by (auto simp: account_from_bytes_def Let_def split: option.splits if_splits)
  then show "distinct keys"
    by (auto simp: auth_keys_from_bytes_def Let_def duplicate_keys split: option.splits if_splits)
qed

definition sample_account :: account where
  "sample_account = (new_system (replicate 32 7))\<lparr>acc_auth_keys := AuthMultiSig [[1], [2]] 1\<rparr>"

theorem account_bytes_roundtrip_witness:
  "account_from_bytes (account_to_bytes sample_account) = Some sample_account"
  using account_bytes_roundtrip [of sample_account]
  by (simp add: sample_account_def account_wf_def new_system_def h256_zero_def)

section \<open>Who can sign\<close>

lemma count_valid_bound:
  "\<exists>K. K \<subseteq> set keys - counted
     \<and> unat (count_valid C message keys signatures counted n) \<le> unat n + card K
     \<and> (\<forall>k\<in>K. \<exists>sg\<in>set signatures. signature_ok C message k sg)"
proof (induction C message keys signatures counted n rule: count_valid.induct)
  case (3 C message pk keys sg signatures counted n)
  let ?ok = "signature_ok C message pk sg"
  show ?case
  proof (cases "sg = [] \<or> pk \<in> counted")
    case True
    then obtain K where "K \<subseteq> set keys - counted"
      "unat (count_valid C message keys signatures counted n) \<le> unat n + card K"
      "\<forall>k\<in>K. \<exists>sg\<in>set signatures. signature_ok C message k sg"
      using 3(1,2) by blast
    with True show ?thesis by (intro exI [of _ K]) auto
  next
    case False
    then obtain K where K: "K \<subseteq> set keys - insert pk counted"
      "unat (count_valid C message keys signatures (insert pk counted) (if ?ok then n + 1 else n))
         \<le> unat (if ?ok then n + 1 else n) + card K"
      "\<forall>k\<in>K. \<exists>sg\<in>set signatures. signature_ok C message k sg"
      using 3(3) by blast
    have "card (insert pk K) = Suc (card K)"
      using K(1) finite_subset [OF K(1)] by (intro card_insert_disjoint) auto
    moreover have "unat (n + 1) \<le> unat n + 1" by (simp add: unat_word_ariths)
    ultimately show ?thesis
      using False K by (intro exI [of _ "if ?ok then insert pk K else K"]) auto
  qed
qed (auto intro!: exI [of _ "{}"])

lemma count_valid_distinct:
  assumes "distinct keys" "set keys \<inter> counted = {}" "unat n + length keys < 2 ^ 32"
  shows "unat (count_valid C message keys signatures counted n)
    = unat n + length (filter (\<lambda>(k, sg). signature_ok C message k sg) (zip keys signatures))"
  using assms
proof (induction C message keys signatures counted n rule: count_valid.induct)
  case (3 C message pk keys sg signatures counted n)
  have "unat (n + 1) = unat n + 1" using "3.prems"(3) by (simp add: unat_word_ariths)
  moreover have "sg = [] \<Longrightarrow> \<not> signature_ok C message pk sg"
    by (simp add: signature_ok_def falcon_sig_from_bytes_def split: option.splits)
  ultimately show ?case using 3 by auto
qed simp_all

text \<open>
  A multisig account is only opened by its quorum. A message is accepted for it only if a set of
  at least \<open>threshold\<close> different keys of the account each have a valid signature among those
  given, even if the account holds a key twice; for distinct keys it is accepted exactly when at
  least \<open>threshold\<close> positions hold a valid signature of the key at that position.
\<close>

theorem multisig_quorum:
  assumes "acc_auth_keys a = AuthMultiSig keys threshold"
  shows "(validate_signature C a message signatures = Valid \<longrightarrow>
      (\<exists>K. K \<subseteq> set keys \<and> unat threshold \<le> card K
         \<and> (\<forall>k\<in>K. \<exists>sg\<in>set signatures. signature_ok C message k sg)))
    \<and> (distinct keys \<and> length keys < 2 ^ 32 \<and> \<not> is_contract a \<longrightarrow>
        (validate_signature C a message signatures = Valid \<longleftrightarrow>
           unat threshold \<le>
             length (filter (\<lambda>(k, sg). signature_ok C message k sg) (zip keys signatures))))"
proof (intro conjI impI)
  assume "validate_signature C a message signatures = Valid"
  then have "unat threshold \<le> unat (count_valid C message keys signatures {} 0)"
    using assms by (auto simp: validate_signature_def word_le_nat_alt split: if_splits)
  then show "\<exists>K. K \<subseteq> set keys \<and> unat threshold \<le> card K
      \<and> (\<forall>k\<in>K. \<exists>sg\<in>set signatures. signature_ok C message k sg)"
    using count_valid_bound [of keys "{}" C message signatures 0] by force
next
  assume *: "distinct keys \<and> length keys < 2 ^ 32 \<and> \<not> is_contract a"
  let ?n = "length (filter (\<lambda>(k, sg). signature_ok C message k sg) (zip keys signatures))"
  have "?n \<le> length signatures"
    by (rule order_trans [OF length_filter_le]) simp
  moreover have "unat (count_valid C message keys signatures {} 0) = ?n"
    using * by (subst count_valid_distinct) simp_all
  ultimately show "validate_signature C a message signatures = Valid \<longleftrightarrow> unat threshold \<le> ?n"
    using * assms by (auto simp: validate_signature_def word_le_nat_alt)
qed

text \<open>A verifier that accepts everything, and a two-of-two account.\<close>

definition accepting_crypto :: crypto_lib where
  "accepting_crypto = \<lparr>sponge = (\<lambda>_. (0, 0, 0, 0)), fn_dsa_verify = (\<lambda>_ _ _ _. True)\<rparr>"

definition two_of_two :: account where
  "two_of_two = (new_system (replicate 32 7))
     \<lparr>acc_auth_keys := AuthMultiSig [replicate 897 1, replicate 897 2] 2\<rparr>"

lemma accepting_signature_ok:
  "length pk = 897 \<Longrightarrow> 500 \<le> length sg \<Longrightarrow> length sg \<le> 1000 \<Longrightarrow>
     signature_ok accepting_crypto message pk sg"
  by (simp add: signature_ok_def falcon_pk_from_bytes_def FALCON_PK_SIZE_def
      falcon_sig_from_bytes_def falcon_verify_def accepting_crypto_def)

theorem multisig_quorum_witness:
  "validate_signature accepting_crypto two_of_two [] [replicate 500 0, replicate 500 0] = Valid"
proof -
  have "replicate 897 1 \<noteq> (replicate 897 2 :: bytes)"
    using replicate_eq_replicate [of 897 "1 :: u8" 897 2] by simp
  then show ?thesis
    using multisig_quorum [where a = two_of_two and keys = "[replicate 897 1, replicate 897 2]"
        and threshold = 2 and C = accepting_crypto and message = "[]"
        and signatures = "[replicate 500 0, replicate 500 0]"]
    by (simp add: two_of_two_def new_system_def is_contract_def accepting_signature_ok)
qed

end
