(* ===== verification/Tx.thy ===== *)
theory Tx
  imports Account "HOL-Library.Monad_Syntax"
begin

unbundle bit_operations_syntax

text \<open>
  Transactions (\<open>crates/tx/src/types.rs\<close>): types, fee payers, access lists, the signed hash and
  the wire format. The theory shows that a transaction survives its encoding and that the signed
  hash commits to every field but the signature.
\<close>

section \<open>Types\<close>

datatype transaction_type =
  Standard | Deploy | StakeDeposit | StakeWithdraw | Slash | ClaimReward | ClaimAirdrop | SweepAirdrop
| MultisigTx | RotateMultisig | EmergencyPause | EmergencyResume | RegisterPubkey

fun transaction_type_to_u8 :: "transaction_type \<Rightarrow> u8" where
  "transaction_type_to_u8 Standard = 0"
| "transaction_type_to_u8 Deploy = 1"
| "transaction_type_to_u8 StakeDeposit = 3"
| "transaction_type_to_u8 StakeWithdraw = 4"
| "transaction_type_to_u8 Slash = 5"
| "transaction_type_to_u8 ClaimReward = 6"
| "transaction_type_to_u8 ClaimAirdrop = 7"
| "transaction_type_to_u8 SweepAirdrop = 8"
| "transaction_type_to_u8 MultisigTx = 9"
| "transaction_type_to_u8 RotateMultisig = 10"
| "transaction_type_to_u8 EmergencyPause = 11"
| "transaction_type_to_u8 EmergencyResume = 12"
| "transaction_type_to_u8 RegisterPubkey = 13"

definition transaction_type_from_u8 :: "u8 \<Rightarrow> transaction_type option" where
  "transaction_type_from_u8 v =
     (if v = 0 then Some Standard else if v = 1 then Some Deploy
      else if v = 3 then Some StakeDeposit else if v = 4 then Some StakeWithdraw
      else if v = 5 then Some Slash else if v = 6 then Some ClaimReward
      else if v = 7 then Some ClaimAirdrop else if v = 8 then Some SweepAirdrop
      else if v = 9 then Some MultisigTx else if v = 10 then Some RotateMultisig
      else if v = 11 then Some EmergencyPause else if v = 12 then Some EmergencyResume
      else if v = 13 then Some RegisterPubkey else None)"

datatype fee_payer = Sender | GasTank bytes | Paymaster bytes

fun fee_payer_tag :: "fee_payer \<Rightarrow> u8" where
  "fee_payer_tag Sender = 0"
| "fee_payer_tag (GasTank addr) = 1"
| "fee_payer_tag (Paymaster addr) = 2"

fun fee_payer_to_bytes :: "fee_payer \<Rightarrow> bytes" where
  "fee_payer_to_bytes Sender = [0]"
| "fee_payer_to_bytes (GasTank addr) = 1 # addr"
| "fee_payer_to_bytes (Paymaster addr) = 2 # addr"

definition fee_payer_from_bytes :: "bytes \<Rightarrow> fee_payer option" where
  "fee_payer_from_bytes data =
     (case data of
        [] \<Rightarrow> None
      | b # rest \<Rightarrow>
          if b = 0 then Some Sender
          else if b = 1 \<and> 33 \<le> length data then Some (GasTank (take 32 rest))
          else if b = 2 \<and> 33 \<le> length data then Some (Paymaster (take 32 rest))
          else None)"

record access_entry =
  ae_address :: bytes
  ae_reads :: "bytes list"
  ae_writes :: "bytes list"

record transaction =
  tx_from :: bytes
  tx_to :: bytes
  tx_value :: u128
  tx_data :: bytes
  tx_gas_limit :: u64
  tx_nonce :: u64
  tx_signature :: bytes
  tx_fee_payer :: fee_payer
  tx_access_list :: "access_entry list"
  tx_deadline :: "u64 option"
  tx_chain_id :: u64
  tx_type :: transaction_type

section \<open>The signed hash\<close>

definition encode_access_entry :: "access_entry \<Rightarrow> bytes" where
  "encode_access_entry e =
     ae_address e @ to_le_bytes 4 (of_nat (length (ae_reads e)) :: u32) @ concat (ae_reads e)
     @ to_le_bytes 4 (of_nat (length (ae_writes e)) :: u32) @ concat (ae_writes e)"

definition hash_access_list :: "crypto_lib \<Rightarrow> access_entry list \<Rightarrow> bytes" where
  "hash_access_list C al = poseidon2_hash C (concat (map encode_access_entry al))"

fun encode_deadline :: "u64 option \<Rightarrow> bytes" where
  "encode_deadline (Some d) = 1 # to_le_bytes 8 d"
| "encode_deadline None = [0]"

definition tx_preimage :: "crypto_lib \<Rightarrow> transaction \<Rightarrow> bytes" where
  "tx_preimage C tx =
     to_le_bytes 8 (tx_chain_id tx) @ tx_from tx @ tx_to tx @ to_le_bytes 16 (tx_value tx)
     @ poseidon2_hash C (tx_data tx) @ to_le_bytes 8 (tx_gas_limit tx) @ to_le_bytes 8 (tx_nonce tx)
     @ fee_payer_to_bytes (tx_fee_payer tx) @ hash_access_list C (tx_access_list tx)
     @ encode_deadline (tx_deadline tx) @ [transaction_type_to_u8 (tx_type tx)]"

definition tx_hash :: "crypto_lib \<Rightarrow> transaction \<Rightarrow> bytes" where
  "tx_hash C tx = poseidon2_hash C (tx_preimage C tx)"

definition tx_verify_signature :: "crypto_lib \<Rightarrow> transaction \<Rightarrow> bytes \<Rightarrow> bool" where
  "tx_verify_signature C tx public_key =
     (case falcon_pk_from_bytes public_key of
        None \<Rightarrow> False
      | Some pk \<Rightarrow>
          (case falcon_sig_from_bytes (tx_signature tx) of
             None \<Rightarrow> False
           | Some sig \<Rightarrow> falcon_verify C pk (tx_hash C tx) sig))"

section \<open>Wire format\<close>

definition serialize_access_list :: "access_entry list \<Rightarrow> bytes" where
  "serialize_access_list al =
     to_le_bytes 4 (of_nat (length al) :: u32) @ concat (map encode_access_entry al)"

text \<open>
  A reader takes the next \<open>n\<close> bytes off the input: the slice \<open>data.get(offset..offset + n)\<close>
  followed by the advance of \<open>offset\<close>.
\<close>

definition rd :: "nat \<Rightarrow> bytes \<Rightarrow> (bytes \<times> bytes) option" where
  "rd n bs = (if length bs < n then None else Some (take n bs, drop n bs))"

fun read_hashes :: "nat \<Rightarrow> bytes \<Rightarrow> (bytes list \<times> bytes) option" where
  "read_hashes 0 bs = Some ([], bs)"
| "read_hashes (Suc n) bs =
     do { (key, bs) \<leftarrow> rd 32 bs;
          (keys, bs) \<leftarrow> read_hashes n bs;
          Some (key # keys, bs) }"

fun read_access_entries :: "nat \<Rightarrow> bytes \<Rightarrow> access_entry list option" where
  "read_access_entries 0 bs = Some []"
| "read_access_entries (Suc n) bs =
     do { (header, _) \<leftarrow> rd 36 bs;
          let address = take 32 header;
          let num_reads = unat (from_le_bytes (drop 32 header) :: u32);
          (reads, bs) \<leftarrow> read_hashes num_reads (drop 36 bs);
          (count, bs) \<leftarrow> rd 4 bs;
          let num_writes = unat (from_le_bytes count :: u32);
          (writes, bs) \<leftarrow> read_hashes num_writes bs;
          entries \<leftarrow> read_access_entries n bs;
          Some (\<lparr>ae_address = address, ae_reads = reads, ae_writes = writes\<rparr> # entries) }"

definition deserialize_access_list :: "bytes \<Rightarrow> access_entry list option" where
  "deserialize_access_list data =
     do { (count, bs) \<leftarrow> rd 4 data;
          read_access_entries (unat (from_le_bytes count :: u32)) bs }"

definition tx_to_bytes :: "transaction \<Rightarrow> bytes" where
  "tx_to_bytes tx =
     (let fee_bytes = fee_payer_to_bytes (tx_fee_payer tx);
          access_bytes = serialize_access_list (tx_access_list tx)
      in tx_from tx @ tx_to tx @ to_le_bytes 16 (tx_value tx)
         @ to_le_bytes 4 (of_nat (length (tx_data tx)) :: u32) @ tx_data tx
         @ to_le_bytes 8 (tx_gas_limit tx) @ to_le_bytes 8 (tx_nonce tx)
         @ to_le_bytes 2 (of_nat (length (tx_signature tx)) :: u16) @ tx_signature tx
         @ [of_nat (length fee_bytes)] @ fee_bytes
         @ to_le_bytes 4 (of_nat (length access_bytes) :: u32) @ access_bytes
         @ encode_deadline (tx_deadline tx)
         @ to_le_bytes 8 (tx_chain_id tx) @ [transaction_type_to_u8 (tx_type tx)])"

definition read_deadline :: "bytes \<Rightarrow> (u64 option \<times> bytes) option" where
  "read_deadline bs =
     do { (flag, bs) \<leftarrow> rd 1 bs;
          if flag = [1] then do { (d, bs) \<leftarrow> rd 8 bs; Some (Some (from_le_bytes d), bs) }
          else Some (None, bs) }"

definition tx_from_bytes :: "bytes \<Rightarrow> transaction option" where
  "tx_from_bytes bs =
     do { (from, bs) \<leftarrow> rd 32 bs;
          (to, bs) \<leftarrow> rd 32 bs;
          (value, bs) \<leftarrow> rd 16 bs;
          (data_len, bs) \<leftarrow> rd 4 bs;
          (data, bs) \<leftarrow> rd (unat (from_le_bytes data_len :: u32)) bs;
          (gas_limit, bs) \<leftarrow> rd 8 bs;
          (nonce, bs) \<leftarrow> rd 8 bs;
          (sig_len, bs) \<leftarrow> rd 2 bs;
          (signature, bs) \<leftarrow> rd (unat (from_le_bytes sig_len :: u16)) bs;
          (fee_len, bs) \<leftarrow> rd 1 bs;
          (fee_bytes, bs) \<leftarrow> rd (unat (fee_len ! 0)) bs;
          fee_payer \<leftarrow> fee_payer_from_bytes fee_bytes;
          (access_len, bs) \<leftarrow> rd 4 bs;
          (access_bytes, bs) \<leftarrow> rd (unat (from_le_bytes access_len :: u32)) bs;
          access_list \<leftarrow> deserialize_access_list access_bytes;
          (deadline, bs) \<leftarrow> read_deadline bs;
          (chain_id, bs) \<leftarrow> rd 8 bs;
          (ty, bs) \<leftarrow> rd 1 bs;
          ty \<leftarrow> transaction_type_from_u8 (ty ! 0);
          Some \<lparr>tx_from = from, tx_to = to, tx_value = from_le_bytes value, tx_data = data,
            tx_gas_limit = from_le_bytes gas_limit, tx_nonce = from_le_bytes nonce,
            tx_signature = signature, tx_fee_payer = fee_payer, tx_access_list = access_list,
            tx_deadline = deadline, tx_chain_id = from_le_bytes chain_id, tx_type = ty\<rparr> }"

section \<open>Reading back what was written\<close>

fun fee_payer_wf :: "fee_payer \<Rightarrow> bool" where
  "fee_payer_wf Sender \<longleftrightarrow> True"
| "fee_payer_wf (GasTank addr) \<longleftrightarrow> length addr = 32"
| "fee_payer_wf (Paymaster addr) \<longleftrightarrow> length addr = 32"

definition access_entry_wf :: "access_entry \<Rightarrow> bool" where
  "access_entry_wf e \<longleftrightarrow>
     length (ae_address e) = 32 \<and> list_all (\<lambda>k. length k = 32) (ae_reads e)
     \<and> list_all (\<lambda>k. length k = 32) (ae_writes e)
     \<and> length (ae_reads e) < 2 ^ 32 \<and> length (ae_writes e) < 2 ^ 32"

definition tx_wf :: "transaction \<Rightarrow> bool" where
  "tx_wf tx \<longleftrightarrow>
     length (tx_from tx) = 32 \<and> length (tx_to tx) = 32 \<and> length (tx_data tx) < 2 ^ 32
     \<and> length (tx_signature tx) < 2 ^ 16 \<and> fee_payer_wf (tx_fee_payer tx)
     \<and> list_all access_entry_wf (tx_access_list tx)
     \<and> length (serialize_access_list (tx_access_list tx)) < 2 ^ 32"

lemma rd_append [simp]: "length a = n \<Longrightarrow> rd n (a @ b) = Some (a, b)"
  by (simp add: rd_def)

lemma rd_1_Cons [simp]: "rd 1 (b # bs) = Some ([b], bs)" "rd (Suc 0) (b # bs) = Some ([b], bs)"
  by (simp_all add: rd_def)

lemma read_hashes_concat:
  "list_all (\<lambda>k. length k = 32) ks \<Longrightarrow> read_hashes (length ks) (concat ks @ rest) = Some (ks, rest)"
  by (induction ks) simp_all

lemma unat_length_u32: "n < 2 ^ 32 \<Longrightarrow> unat (of_nat n :: u32) = n"
  by (rule unat_of_nat_small) simp

lemma unat_length_u16: "n < 2 ^ 16 \<Longrightarrow> unat (of_nat n :: u16) = n"
  by (rule unat_of_nat_small) simp

lemma read_access_entries_concat:
  "list_all access_entry_wf al \<Longrightarrow>
     read_access_entries (length al) (concat (map encode_access_entry al) @ rest) = Some al"
proof (induction al)
  case (Cons e al)
  let ?r = "to_le_bytes 4 (of_nat (length (ae_reads e)) :: u32)"
  have wf: "access_entry_wf e" using Cons.prems by simp
  define more where "more = concat (map encode_access_entry al) @ rest"
  have "read_access_entries (length al) more = Some al" using Cons by (simp add: more_def)
  moreover have "rd 36 (ae_address e @ ?r @ x) = Some (ae_address e @ ?r, x)" for x
    using wf rd_append [of "ae_address e @ ?r" 36 x] by (simp add: access_entry_wf_def)
  moreover have "drop 36 (ae_address e @ ?r @ x) = x" for x
    using wf by (simp add: access_entry_wf_def)
  ultimately show ?case
    using wf read_hashes_concat [of "ae_reads e"] read_hashes_concat [of "ae_writes e"]
    by (simp add: more_def [symmetric] encode_access_entry_def [of e] access_entry_wf_def from_to_le_bytes
        unat_length_u32 Let_def)
qed simp

lemma transaction_type_roundtrip: "transaction_type_from_u8 (transaction_type_to_u8 t) = Some t"
  by (cases t) (simp_all add: transaction_type_from_u8_def)

lemma fee_payer_roundtrip: "fee_payer_wf f \<Longrightarrow> fee_payer_from_bytes (fee_payer_to_bytes f) = Some f"
  by (cases f) (simp_all add: fee_payer_from_bytes_def)

lemma read_deadline_encode: "read_deadline (encode_deadline d @ rest) = Some (d, rest)"
  by (cases d) (simp_all add: read_deadline_def from_to_le_bytes)

lemma length_al_le: "length al \<le> length (serialize_access_list al)"
proof -
  have "length al \<le> length (concat (map encode_access_entry al))"
  proof (induction al)
    case (Cons e al)
    have "1 \<le> length (encode_access_entry e)" by (simp add: encode_access_entry_def)
    with Cons show ?case by simp
  qed simp
  then show ?thesis by (simp add: serialize_access_list_def)
qed

lemma deserialize_serialize:
  assumes "list_all access_entry_wf al" "length (serialize_access_list al) < 2 ^ 32"
  shows "deserialize_access_list (serialize_access_list al) = Some al"
  using read_access_entries_concat [OF assms(1), of "[]"] assms(2) length_al_le [of al]
  by (simp add: deserialize_access_list_def serialize_access_list_def from_to_le_bytes unat_length_u32)

text \<open>
  A transaction is read back from its wire format as it was written, whatever follows it: every
  field and the access list survive, for any transaction whose addresses and keys have 32 bytes
  and whose variable parts fit their length fields.
\<close>

theorem tx_bytes_roundtrip:
  assumes "tx_wf tx"
  shows "tx_from_bytes (tx_to_bytes tx @ rest) = Some tx"
proof -
  have fee: "length (fee_payer_to_bytes (tx_fee_payer tx)) < 2 ^ 8" "fee_payer_wf (tx_fee_payer tx)"
    using assms by (cases "tx_fee_payer tx"; simp add: tx_wf_def)+
  then have "unat (of_nat (length (fee_payer_to_bytes (tx_fee_payer tx))) :: u8)
      = length (fee_payer_to_bytes (tx_fee_payer tx))"
    by (intro unat_of_nat_small) simp
  then show ?thesis
    using assms deserialize_serialize [of "tx_access_list tx"] fee(2)
    by (simp add: tx_from_bytes_def tx_to_bytes_def Let_def tx_wf_def from_to_le_bytes unat_length_u32
        unat_length_u16 fee_payer_roundtrip read_deadline_encode transaction_type_roundtrip)
qed

definition sample_tx :: transaction where
  "sample_tx = \<lparr>tx_from = replicate 32 1, tx_to = replicate 32 2, tx_value = 5, tx_data = [9],
     tx_gas_limit = 21000, tx_nonce = 0, tx_signature = [], tx_fee_payer = GasTank (replicate 32 3),
     tx_access_list = [\<lparr>ae_address = replicate 32 2, ae_reads = [replicate 32 7], ae_writes = []\<rparr>],
     tx_deadline = Some 100, tx_chain_id = 1, tx_type = Standard\<rparr>"

lemma sample_tx_wf: "tx_wf sample_tx"
  by (simp add: tx_wf_def sample_tx_def access_entry_wf_def serialize_access_list_def
      encode_access_entry_def)

theorem tx_bytes_roundtrip_witness: "tx_from_bytes (tx_to_bytes sample_tx @ [0, 1]) = Some sample_tx"
  using tx_bytes_roundtrip [OF sample_tx_wf] by simp

section \<open>What a signature covers\<close>

lemma encode_access_entry_inject:
  assumes "access_entry_wf e" "access_entry_wf e'"
    and "encode_access_entry e @ r = encode_access_entry e' @ r'"
  shows "e = e' \<and> r = r'"
proof -
  let ?w = "\<lambda>xs. to_le_bytes 4 (of_nat (length xs) :: u32)"
  have counts: "length xs = length ys" if "?w xs = ?w ys" "length xs < 2 ^ 32" "length ys < 2 ^ 32"
    for xs ys :: "bytes list"
  proof -
    have "(of_nat (length xs) :: u32) = of_nat (length ys)" using that(1) by (rule to_le_bytes_inject) simp
    then have "unat (of_nat (length xs) :: u32) = unat (of_nat (length ys) :: u32)" by (rule arg_cong)
    then show ?thesis using that(2,3) by (simp only: unat_length_u32)
  qed
  have blocks: "xs = ys \<and> s = t" if "concat xs @ s = concat ys @ t" "length xs = length ys"
    "list_all (\<lambda>k. length k = 32) xs" "list_all (\<lambda>k. length k = 32) ys" for xs ys :: "bytes list" and s t
  proof -
    have "read_hashes (length ys) (concat ys @ t) = Some (xs, s)"
      using read_hashes_concat [OF that(3), of s] that(1,2) by (simp only:)
    with read_hashes_concat [OF that(4), of t] show ?thesis by simp
  qed
  from assms have "ae_address e = ae_address e'" "?w (ae_reads e) = ?w (ae_reads e')"
    and rest: "concat (ae_reads e) @ ?w (ae_writes e) @ concat (ae_writes e) @ r
      = concat (ae_reads e') @ ?w (ae_writes e') @ concat (ae_writes e') @ r'"
    by (simp_all add: encode_access_entry_def access_entry_wf_def)
  moreover from this counts [of "ae_reads e" "ae_reads e'"] assms(1,2)
  have "ae_reads e = ae_reads e'" "?w (ae_writes e) = ?w (ae_writes e')"
    "concat (ae_writes e) @ r = concat (ae_writes e') @ r'"
    using blocks [OF rest] by (auto simp: access_entry_wf_def)
  moreover from this counts [of "ae_writes e" "ae_writes e'"] assms(1,2)
  have "ae_writes e = ae_writes e'" "r = r'"
    using blocks [of "ae_writes e" r "ae_writes e'" r'] by (auto simp: access_entry_wf_def)
  ultimately show ?thesis by (cases e; cases e') simp
qed

lemma encode_access_entry_nonempty [simp]: "encode_access_entry e \<noteq> []"
  by (simp add: encode_access_entry_def)

lemma access_list_inject:
  "list_all access_entry_wf al \<Longrightarrow> list_all access_entry_wf al' \<Longrightarrow>
     concat (map encode_access_entry al) = concat (map encode_access_entry al') \<Longrightarrow> al = al'"
proof (induction al arbitrary: al')
  case Nil
  then show ?case by (cases al') simp_all
next
  case (Cons e al)
  obtain e' al'' where al': "al' = e' # al''" using Cons.prems(3) by (cases al') auto
  have "e = e' \<and> concat (map encode_access_entry al) = concat (map encode_access_entry al'')"
    by (rule encode_access_entry_inject) (use Cons.prems al' in simp_all)
  then show ?case using Cons.IH [of al''] Cons.prems(1,2) al' by simp
qed

definition tx_hash_inputs :: "crypto_lib \<Rightarrow> transaction \<Rightarrow> bytes set" where
  "tx_hash_inputs C tx =
     {tx_data tx, concat (map encode_access_entry (tx_access_list tx)), tx_preimage C tx}"

lemma fee_payer_prefix_free:
  "fee_payer_wf f \<Longrightarrow> fee_payer_wf f' \<Longrightarrow>
     fee_payer_to_bytes f @ r = fee_payer_to_bytes f' @ r' \<Longrightarrow> f = f' \<and> r = r'"
  by (cases f; cases f') simp_all

lemma le_bytes_eq [simp]:
  "LENGTH('a) \<le> 8 * n \<Longrightarrow> to_le_bytes n v = to_le_bytes n (w :: 'a::len word) \<longleftrightarrow> v = w"
  using to_le_bytes_inject by blast

lemma deadline_prefix_free: "encode_deadline d @ r = encode_deadline d' @ r' \<Longrightarrow> d = d' \<and> r = r'"
  by (cases d; cases d') simp_all

lemma transaction_type_inject [simp]: "transaction_type_to_u8 t = transaction_type_to_u8 t' \<longleftrightarrow> t = t'"
  by (metis option.inject transaction_type_roundtrip)

lemma tx_preimage_inject:
  assumes "tx_wf tx" "tx_wf tx'" "tx_preimage C tx = tx_preimage C tx'"
  shows "tx_chain_id tx = tx_chain_id tx' \<and> tx_from tx = tx_from tx' \<and> tx_to tx = tx_to tx'
    \<and> tx_value tx = tx_value tx' \<and> tx_gas_limit tx = tx_gas_limit tx' \<and> tx_nonce tx = tx_nonce tx'
    \<and> tx_fee_payer tx = tx_fee_payer tx' \<and> tx_deadline tx = tx_deadline tx' \<and> tx_type tx = tx_type tx'
    \<and> poseidon2_hash C (tx_data tx) = poseidon2_hash C (tx_data tx')
    \<and> hash_access_list C (tx_access_list tx) = hash_access_list C (tx_access_list tx')"
proof -
  have al: "length (hash_access_list C x) = 32" for x by (simp add: hash_access_list_def)
  from assms have "fee_payer_to_bytes (tx_fee_payer tx) @ hash_access_list C (tx_access_list tx)
      @ encode_deadline (tx_deadline tx) @ [transaction_type_to_u8 (tx_type tx)]
    = fee_payer_to_bytes (tx_fee_payer tx') @ hash_access_list C (tx_access_list tx')
      @ encode_deadline (tx_deadline tx') @ [transaction_type_to_u8 (tx_type tx')]"
    by (simp add: tx_preimage_def tx_wf_def)
  with assms(1,2) have "tx_fee_payer tx = tx_fee_payer tx'"
    and rest: "hash_access_list C (tx_access_list tx) @ encode_deadline (tx_deadline tx)
        @ [transaction_type_to_u8 (tx_type tx)]
      = hash_access_list C (tx_access_list tx') @ encode_deadline (tx_deadline tx')
        @ [transaction_type_to_u8 (tx_type tx')]"
    using fee_payer_prefix_free by (auto simp: tx_wf_def)
  moreover from rest have "hash_access_list C (tx_access_list tx) = hash_access_list C (tx_access_list tx')"
    and "encode_deadline (tx_deadline tx) @ [transaction_type_to_u8 (tx_type tx)]
      = encode_deadline (tx_deadline tx') @ [transaction_type_to_u8 (tx_type tx')]"
    by (simp_all add: append_eq_append_conv al)
  moreover from deadline_prefix_free [OF this(2)]
  have "tx_deadline tx = tx_deadline tx'" "tx_type tx = tx_type tx'" by simp_all
  moreover from assms have "tx_chain_id tx = tx_chain_id tx'" "tx_from tx = tx_from tx'" "tx_to tx = tx_to tx'"
    "tx_value tx = tx_value tx'" "tx_gas_limit tx = tx_gas_limit tx'" "tx_nonce tx = tx_nonce tx'"
    "poseidon2_hash C (tx_data tx) = poseidon2_hash C (tx_data tx')"
    by (simp_all add: tx_preimage_def tx_wf_def)
  ultimately show ?thesis by simp
qed

text \<open>
  C31: the signed hash of a transaction commits to all of it. Two well-formed transactions with the
  same hash agree in every field but the signature, unless Poseidon2 collides on the bytes hashed
  for them (the calldata, the access list and the outer message): a signature cannot be moved to
  another chain, nonce, recipient, fee payer, access list or deadline.
\<close>

theorem tx_hash_binding:
  assumes "tx_wf tx" and "tx_wf tx'" and "tx_hash C tx = tx_hash C tx'"
  shows "tx\<lparr>tx_signature := []\<rparr> = tx'\<lparr>tx_signature := []\<rparr>
    \<or> hash_collision C (tx_hash_inputs C tx) (tx_hash_inputs C tx')"
proof (cases "hash_collision C (tx_hash_inputs C tx) (tx_hash_inputs C tx')")
  case False
  have eq: "x = y" if "poseidon2_hash C x = poseidon2_hash C y" "x \<in> tx_hash_inputs C tx" "y \<in> tx_hash_inputs C tx'"
    for x y
    using False that by (auto simp: hash_collision_def)
  have "tx_preimage C tx = tx_preimage C tx'"
    by (rule eq) (use assms(3) in \<open>simp_all add: tx_hash_def tx_hash_inputs_def\<close>)
  note fields = tx_preimage_inject [OF assms(1,2) this]
  have "tx_data tx = tx_data tx'"
    by (rule eq) (use fields in \<open>simp_all add: tx_hash_inputs_def\<close>)
  moreover have "concat (map encode_access_entry (tx_access_list tx))
      = concat (map encode_access_entry (tx_access_list tx'))"
    by (rule eq) (use fields in \<open>simp_all add: tx_hash_inputs_def hash_access_list_def\<close>)
  moreover from this have "tx_access_list tx = tx_access_list tx'"
    using assms(1,2) by (intro access_list_inject) (simp_all add: tx_wf_def)
  ultimately show ?thesis using fields by simp
qed simp

theorem tx_hash_binding_witness:
  "sample_tx\<lparr>tx_signature := []\<rparr> = (sample_tx\<lparr>tx_signature := [1, 2]\<rparr>)\<lparr>tx_signature := []\<rparr>
   \<or> hash_collision example_crypto (tx_hash_inputs example_crypto sample_tx)
        (tx_hash_inputs example_crypto (sample_tx\<lparr>tx_signature := [1, 2]\<rparr>))"
proof (rule tx_hash_binding [OF sample_tx_wf])
  show "tx_wf (sample_tx\<lparr>tx_signature := [1, 2]\<rparr>)" using sample_tx_wf by (simp add: tx_wf_def)
  show "tx_hash example_crypto sample_tx = tx_hash example_crypto (sample_tx\<lparr>tx_signature := [1, 2]\<rparr>)"
    by (simp add: tx_hash_def tx_preimage_def)
qed

end
