(* ===== verification/Parallel.thy ===== *)
theory Parallel
  imports Tx
begin

text \<open>
  The conflict scheduler (\<open>crates/tx/src/parallel.rs\<close>): transactions that touch a common key are put
  into one group by a union-find structure; groups are meant to be independent. \<open>None\<close> stands
  for an index panic or for a search that does not return, and the theory proves that neither
  happens. It shows that the union-find computes the connected components, what the schedule
  guarantees, and the conflicts it leaves between groups.
\<close>

section \<open>Data\<close>

type_synonym access_key = "bytes \<times> bytes"

record execution_group =
  tx_indices :: "nat list"

record execution_schedule =
  sched_groups :: "execution_group list"
  total_txs :: nat

definition group_count :: "execution_schedule \<Rightarrow> nat" where
  "group_count s = length (sched_groups s)"

definition max_group_size :: "execution_schedule \<Rightarrow> nat" where
  "max_group_size s = fold max (map (\<lambda>g. length (tx_indices g)) (sched_groups s)) 0"

definition implicit_writes :: "crypto_lib \<Rightarrow> transaction \<Rightarrow> access_key list option" where
  "implicit_writes C tx =
     (if tx_type tx \<in> {Standard, Deploy, RegisterPubkey} then
        Some ([(tx_from tx, balance_key C (tx_from tx)), (tx_from tx, nonce_key C (tx_from tx))]
              @ (if tx_type tx = Standard \<and> tx_to tx \<noteq> replicate 32 0
                 then [(tx_to tx, balance_key C (tx_to tx))] else []))
      else None)"

definition access_list_is_uninformative :: "access_entry list \<Rightarrow> bool" where
  "access_list_is_uninformative al = list_all (\<lambda>e. ae_reads e = [] \<and> ae_writes e = []) al"

definition access_writes :: "access_entry list \<Rightarrow> access_key list" where
  "access_writes al = concat (map (\<lambda>e. map (Pair (ae_address e)) (ae_writes e)) al)"

definition access_reads :: "access_entry list \<Rightarrow> access_key list" where
  "access_reads al = concat (map (\<lambda>e. map (Pair (ae_address e)) (ae_reads e)) al)"

definition access_all :: "access_entry list \<Rightarrow> access_key list" where
  "access_all al = concat (map (\<lambda>e. map (Pair (ae_address e)) (ae_reads e @ ae_writes e)) al)"

definition access_lists_conflict :: "access_entry list \<Rightarrow> access_entry list \<Rightarrow> bool" where
  "access_lists_conflict a b =
     (if access_list_is_uninformative a \<or> access_list_is_uninformative b then True
      else list_ex (\<lambda>k. k \<in> set (access_all b)) (access_writes a)
           \<or> list_ex (\<lambda>k. k \<in> set (access_all a)) (access_writes b))"

definition conflicts :: "transaction \<Rightarrow> transaction \<Rightarrow> bool" where
  "conflicts tx_a tx_b =
     (if access_list_is_uninformative (tx_access_list tx_a) \<or> access_list_is_uninformative (tx_access_list tx_b)
      then True
      else list_ex (\<lambda>k. k \<in> set (access_all (tx_access_list tx_b))) (access_writes (tx_access_list tx_a))
           \<or> list_ex (\<lambda>k. k \<in> set (access_all (tx_access_list tx_a))) (access_writes (tx_access_list tx_b)))"

section \<open>Union-find\<close>

record union_find =
  uf_parent :: "nat list"
  uf_rank :: "nat list"

definition uf_new :: "nat \<Rightarrow> union_find" where
  "uf_new n = \<lparr>uf_parent = [0..<n], uf_rank = replicate n 0\<rparr>"

partial_function (option) uf_find :: "nat \<Rightarrow> union_find \<Rightarrow> (nat \<times> union_find) option" where
  "uf_find x uf =
     (if length (uf_parent uf) \<le> x then None
      else if uf_parent uf ! x \<noteq> x then
        Option.bind (uf_find (uf_parent uf ! x) uf)
          (\<lambda>(r, uf'). Some (r, uf'\<lparr>uf_parent := (uf_parent uf')[x := r]\<rparr>))
      else Some (x, uf))"

definition uf_union :: "nat \<Rightarrow> nat \<Rightarrow> union_find \<Rightarrow> union_find option" where
  "uf_union a b uf =
     do { (ra, uf) \<leftarrow> uf_find a uf;
          (rb, uf) \<leftarrow> uf_find b uf;
          if ra = rb then Some uf
          else if uf_rank uf ! ra < uf_rank uf ! rb then
            Some (uf\<lparr>uf_parent := (uf_parent uf)[ra := rb]\<rparr>)
          else if uf_rank uf ! rb < uf_rank uf ! ra then
            Some (uf\<lparr>uf_parent := (uf_parent uf)[rb := ra]\<rparr>)
          else
            Some (uf\<lparr>uf_parent := (uf_parent uf)[rb := ra],
                     uf_rank := (uf_rank uf)[ra := uf_rank uf ! ra + 1]\<rparr>) }"

section \<open>The schedule\<close>

fun foldM :: "('a \<Rightarrow> 's \<Rightarrow> 's option) \<Rightarrow> 'a list \<Rightarrow> 's \<Rightarrow> 's option" where
  "foldM f [] s = Some s"
| "foldM f (x # xs) s = Option.bind (f x s) (foldM f xs)"

record scheduler =
  sch_uf :: union_find
  write_owners :: "(access_key, nat) hashmap"
  unknown_rep :: "nat option"

definition sch_union :: "nat \<Rightarrow> nat \<Rightarrow> scheduler \<Rightarrow> scheduler option" where
  "sch_union a b st = map_option (\<lambda>uf. st\<lparr>sch_uf := uf\<rparr>) (uf_union a b (sch_uf st))"

definition claim_write :: "nat \<Rightarrow> access_key \<Rightarrow> scheduler \<Rightarrow> scheduler option" where
  "claim_write i ak st =
     (case hm_get (write_owners st) ak of
        Some other \<Rightarrow> sch_union i other st
      | None \<Rightarrow> Some (st\<lparr>write_owners := hm_insert ak i (write_owners st)\<rparr>))"

definition check_read :: "nat \<Rightarrow> access_key \<Rightarrow> scheduler \<Rightarrow> scheduler option" where
  "check_read i ak st =
     (case hm_get (write_owners st) ak of
        Some writer \<Rightarrow> if writer \<noteq> i then sch_union i writer st else Some st
      | None \<Rightarrow> Some st)"

definition join_unknown :: "nat \<Rightarrow> scheduler \<Rightarrow> scheduler option" where
  "join_unknown i st =
     (case unknown_rep st of
        Some rep \<Rightarrow> sch_union i rep st
      | None \<Rightarrow> Some (st\<lparr>unknown_rep := Some i\<rparr>))"

definition schedule_tx :: "crypto_lib \<Rightarrow> nat \<times> transaction \<Rightarrow> scheduler \<Rightarrow> scheduler option" where
  "schedule_tx C itx st =
     (let i = fst itx; tx = snd itx; implicit = implicit_writes C tx;
          explicit_informative = \<not> access_list_is_uninformative (tx_access_list tx)
      in if implicit = None \<and> \<not> explicit_informative then join_unknown i st
         else
           do { st \<leftarrow> (case implicit of Some ws \<Rightarrow> foldM (claim_write i) ws st | None \<Rightarrow> Some st);
                if explicit_informative then
                  do { st \<leftarrow> foldM (claim_write i) (access_writes (tx_access_list tx)) st;
                       foldM (check_read i) (access_reads (tx_access_list tx)) st }
                else Some st })"

definition sweep_unknown :: "nat \<Rightarrow> scheduler \<Rightarrow> scheduler option" where
  "sweep_unknown n st =
     (case unknown_rep st of
        Some rep \<Rightarrow> foldM (\<lambda>i st. if i \<noteq> rep then sch_union i rep st else Some st) [0..<n] st
      | None \<Rightarrow> Some st)"

text \<open>
  The components by root. The order of a hash map is immaterial: the groups are sorted by their
  first index afterwards.
\<close>

fun collect_components :: "nat list \<Rightarrow> union_find \<Rightarrow> (nat, nat list) hashmap \<Rightarrow> (nat, nat list) hashmap option" where
  "collect_components [] uf comps = Some comps"
| "collect_components (i # is) uf comps =
     Option.bind (uf_find i uf)
       (\<lambda>(r, uf). collect_components is uf
          (hm_insert r ((case hm_get comps r of Some g \<Rightarrow> g | None \<Rightarrow> []) @ [i]) comps))"

definition to_schedule :: "nat \<Rightarrow> scheduler \<Rightarrow> execution_schedule option" where
  "to_schedule n st =
     do { comps \<leftarrow> collect_components [0..<n] (sch_uf st) [];
          Some \<lparr>sched_groups = map (\<lambda>g. \<lparr>tx_indices = g\<rparr>) (sort_key hd (map snd comps)), total_txs = n\<rparr> }"

definition schedule :: "crypto_lib \<Rightarrow> transaction list \<Rightarrow> execution_schedule option" where
  "schedule C txs =
     (let n = length txs
      in if n = 0 then Some \<lparr>sched_groups = [], total_txs = 0\<rparr>
         else
           do { st \<leftarrow> foldM (schedule_tx C) (enumerate 0 txs)
                       \<lparr>sch_uf = uf_new n, write_owners = [], unknown_rep = None\<rparr>;
                st \<leftarrow> sweep_unknown n st;
                to_schedule n st })"

definition schedule_entry :: "nat \<Rightarrow> access_entry \<Rightarrow> scheduler \<Rightarrow> scheduler option" where
  "schedule_entry i e st =
     do { st \<leftarrow> foldM (claim_write i) (map (Pair (ae_address e)) (ae_writes e)) st;
          foldM (check_read i) (map (Pair (ae_address e)) (ae_reads e)) st }"

definition schedule_access_list :: "nat \<times> access_entry list \<Rightarrow> scheduler \<Rightarrow> scheduler option" where
  "schedule_access_list ial st =
     (if access_list_is_uninformative (snd ial) then join_unknown (fst ial) st
      else foldM (schedule_entry (fst ial)) (snd ial) st)"

definition schedule_from_access_lists :: "access_entry list list \<Rightarrow> execution_schedule option" where
  "schedule_from_access_lists als =
     (let n = length als
      in if n = 0 then Some \<lparr>sched_groups = [], total_txs = 0\<rparr>
         else
           do { st \<leftarrow> foldM schedule_access_list (enumerate 0 als)
                       \<lparr>sch_uf = uf_new n, write_owners = [], unknown_rep = None\<rparr>;
                st \<leftarrow> sweep_unknown n st;
                to_schedule n st })"

section \<open>Union-find keeps an equivalence\<close>

text \<open>The interface the scheduler relies on: joining two elements merges their classes.\<close>

locale dynamic_partition =
  fixes inv :: "nat \<Rightarrow> 'u \<Rightarrow> bool"
    and conn :: "'u \<Rightarrow> nat \<Rightarrow> nat \<Rightarrow> bool"
    and join :: "nat \<Rightarrow> nat \<Rightarrow> 'u \<Rightarrow> 'u option"
  assumes conn_refl: "inv n u \<Longrightarrow> x < n \<Longrightarrow> conn u x x"
    and conn_sym: "conn u x y \<Longrightarrow> conn u y x"
    and conn_trans: "conn u x y \<Longrightarrow> conn u y z \<Longrightarrow> conn u x z"
    and join_spec: "inv n u \<Longrightarrow> a < n \<Longrightarrow> b < n \<Longrightarrow>
      \<exists>u'. join a b u = Some u' \<and> inv n u' \<and>
        (\<forall>x y. conn u' x y \<longleftrightarrow> conn u x y \<or> conn u x a \<and> conn u b y \<or> conn u x b \<and> conn u a y)"
begin

lemma join_total: "inv n u \<Longrightarrow> a < n \<Longrightarrow> b < n \<Longrightarrow> \<exists>u'. join a b u = Some u' \<and> inv n u'"
  using join_spec by blast

lemma join_conn:
  assumes "inv n u" "a < n" "b < n" "join a b u = Some u'"
  shows "conn u x y \<Longrightarrow> conn u' x y" "conn u' a b"
  using join_spec [OF assms(1-3)] assms(4) conn_refl [OF assms(1)] assms(2,3) by auto

end

definition uf_wf :: "nat \<Rightarrow> union_find \<Rightarrow> bool" where
  "uf_wf n uf \<longleftrightarrow>
     length (uf_parent uf) = n \<and> length (uf_rank uf) = n
     \<and> (\<forall>x<n. uf_parent uf ! x < n
          \<and> (uf_parent uf ! x \<noteq> x \<longrightarrow> uf_rank uf ! x < uf_rank uf ! (uf_parent uf ! x)))"

inductive uf_root :: "union_find \<Rightarrow> nat \<Rightarrow> nat \<Rightarrow> bool" for uf where
  root: "x < length (uf_parent uf) \<Longrightarrow> uf_parent uf ! x = x \<Longrightarrow> uf_root uf x x"
| step: "x < length (uf_parent uf) \<Longrightarrow> uf_parent uf ! x \<noteq> x \<Longrightarrow> uf_root uf (uf_parent uf ! x) r \<Longrightarrow>
    uf_root uf x r"

inductive_cases uf_rootE: "uf_root uf x r"

definition uf_conn :: "union_find \<Rightarrow> nat \<Rightarrow> nat \<Rightarrow> bool" where
  "uf_conn uf x y \<longleftrightarrow> (\<exists>r. uf_root uf x r \<and> uf_root uf y r)"

lemma uf_root_det: "uf_root uf x r \<Longrightarrow> uf_root uf x r' \<Longrightarrow> r' = r"
  by (induction rule: uf_root.induct) (auto elim: uf_rootE)

lemma uf_root_bound: "uf_root uf x r \<Longrightarrow> x < length (uf_parent uf)"
  by (auto elim: uf_rootE)

lemma uf_root_total:
  assumes "uf_wf n uf" "x < n"
  shows "\<exists>r. uf_root uf x r"
  using assms(2)
proof (induction "Max (set (uf_rank uf)) - uf_rank uf ! x" arbitrary: x rule: less_induct)
  case less
  show ?case
  proof (cases "uf_parent uf ! x = x")
    case True
    then show ?thesis using less.prems assms(1) uf_root.root by (auto simp: uf_wf_def)
  next
    case False
    let ?p = "uf_parent uf ! x"
    have p: "?p < n" "uf_rank uf ! x < uf_rank uf ! ?p" using False assms(1) less.prems by (auto simp: uf_wf_def)
    have "uf_rank uf ! ?p \<le> Max (set (uf_rank uf))" using assms(1) p(1) by (intro Max_ge) (auto simp: uf_wf_def)
    then have "Max (set (uf_rank uf)) - uf_rank uf ! ?p < Max (set (uf_rank uf)) - uf_rank uf ! x"
      using p(2) by simp
    from less.hyps [OF this p(1)] show ?thesis
      using False assms(1) less.prems uf_root.step by (auto simp: uf_wf_def)
  qed
qed

lemma uf_root_props:
  assumes "uf_wf n uf" "uf_root uf x r"
  shows "r < n \<and> uf_parent uf ! r = r \<and> (x = r \<or> uf_rank uf ! x < uf_rank uf ! r)"
  using assms(2)
proof (induction rule: uf_root.induct)
  case (root x)
  then show ?case using assms(1) by (simp add: uf_wf_def)
next
  case (step x r)
  then have "uf_rank uf ! x < uf_rank uf ! (uf_parent uf ! x)" using assms(1) by (simp add: uf_wf_def)
  then show ?case using step by auto
qed

text \<open>Two structures with one root relation below the other have the same roots.\<close>

lemma uf_root_eqI:
  assumes "uf_wf n uf" "uf_wf n uf'" "\<And>y s. uf_root uf' y s \<Longrightarrow> R y s"
    and "\<And>y s t. R y s \<Longrightarrow> R y t \<Longrightarrow> s = t" "\<And>y s. R y s \<Longrightarrow> y < n"
  shows "uf_root uf' y s \<longleftrightarrow> R y s"
  using assms(3-5) uf_root_total [OF assms(2), of y] by metis

lemma compress_wf:
  assumes "uf_wf n uf" "uf_root uf x r" "x \<noteq> r"
  shows "uf_wf n (uf\<lparr>uf_parent := (uf_parent uf)[x := r]\<rparr>)"
  using assms(1,3) uf_root_props [OF assms(1,2)] uf_root_bound [OF assms(2)]
  by (auto simp: uf_wf_def nth_list_update)

lemma compress_root:
  assumes wf: "uf_wf n uf" and r: "uf_root uf x r" "x \<noteq> r"
  shows "uf_root (uf\<lparr>uf_parent := (uf_parent uf)[x := r]\<rparr>) y s \<longleftrightarrow> uf_root uf y s"
proof (rule uf_root_eqI [OF wf compress_wf [OF wf r]])
  fix y s assume "uf_root (uf\<lparr>uf_parent := (uf_parent uf)[x := r]\<rparr>) y s"
  then show "uf_root uf y s"
  proof (induction rule: uf_root.induct)
    case (root y)
    then show ?case using r(2) uf_root_bound [OF r(1)] by (cases "y = x") (auto intro: uf_root.root)
  next
    case (step y s)
    show ?case
    proof (cases "y = x")
      case True
      then have "uf_root uf r s" using step uf_root_bound [OF r(1)] by simp
      then have "s = r" using uf_root_props [OF wf r(1)] wf uf_root_det uf_root.root by (metis uf_wf_def)
      then show ?thesis using True r(1) by simp
    next
      case False
      then show ?thesis using step by (auto intro: uf_root.step)
    qed
  qed
next
  show "\<And>y s t. uf_root uf y s \<Longrightarrow> uf_root uf y t \<Longrightarrow> s = t" using uf_root_det by blast
  show "\<And>y s. uf_root uf y s \<Longrightarrow> y < n" using uf_root_bound wf by (auto simp: uf_wf_def)
qed

text \<open>\<open>find\<close> always returns the root, and path compression keeps every root.\<close>

lemma uf_find_spec:
  assumes "uf_root uf x r" "uf_wf n uf"
  shows "\<exists>uf'. uf_find x uf = Some (r, uf') \<and> uf_wf n uf' \<and> uf_rank uf' = uf_rank uf
    \<and> (\<forall>y s. uf_root uf' y s \<longleftrightarrow> uf_root uf y s)"
  using assms(1)
proof (induction rule: uf_root.induct)
  case (root x)
  then show ?case using assms(2) by (subst uf_find.simps) auto
next
  case (step x r)
  then obtain uf' where uf': "uf_find (uf_parent uf ! x) uf = Some (r, uf')" "uf_wf n uf'"
    "uf_rank uf' = uf_rank uf" "\<forall>y s. uf_root uf' y s \<longleftrightarrow> uf_root uf y s" by blast
  have x: "uf_root uf x r" using step uf_root.step by blast
  then have "x \<noteq> r" using uf_root_props [OF assms(2) x] step.hyps(2) by auto
  moreover have "uf_root uf' x r" using uf'(4) x by simp
  ultimately show ?case
    using step.hyps uf' compress_wf [OF uf'(2)] compress_root [OF uf'(2)]
    by (subst uf_find.simps) auto
qed

lemma link_root:
  assumes wf: "uf_wf n uf" "uf_wf n uf'" and p: "uf_parent uf' = (uf_parent uf)[a := b]"
    and a: "uf_root uf a a" and b: "uf_root uf b b" and "a \<noteq> b"
  shows "uf_root uf' y s \<longleftrightarrow> (if uf_root uf y a then s = b else uf_root uf y s)"
proof (rule uf_root_eqI [OF wf])
  have ab: "uf_parent uf ! a = a" "uf_parent uf ! b = b" "a < n" "b < n" "length (uf_parent uf) = n"
    using uf_root_props [OF wf(1) a] uf_root_props [OF wf(1) b] wf(1) by (auto simp: uf_wf_def)
  fix y s assume "uf_root uf' y s"
  then show "if uf_root uf y a then s = b else uf_root uf y s"
  proof (induction rule: uf_root.induct)
    case (root y)
    have "y \<noteq> a" using root(2) ab assms(6) by (auto simp: p)
    then have "uf_root uf y y" using root by (auto simp: p intro: uf_root.root)
    then show ?case using \<open>y \<noteq> a\<close> uf_root_det by (auto dest: uf_root_det)
  next
    case (step y s)
    show ?case
    proof (cases "y = a")
      case True
      then have "uf_parent uf' ! y = b" using ab by (simp add: p)
      from step(4) [unfolded this] have "if uf_root uf b a then s = b else uf_root uf b s" .
      then have "s = b" using b assms(6) uf_root_det by metis
      then show ?thesis using True a by simp
    next
      case False
      then have par: "uf_parent uf' ! y = uf_parent uf ! y" by (simp add: p)
      then have "uf_root uf y t \<longleftrightarrow> uf_root uf (uf_parent uf ! y) t" for t
        using step(1,2) by (auto simp: p intro: uf_root.step elim: uf_rootE)
      then show ?thesis using step(4) [unfolded par] by simp
    qed
  qed
next
  show "s = t" if "if uf_root uf y a then s = b else uf_root uf y s"
    "if uf_root uf y a then t = b else uf_root uf y t" for y s t
    using that uf_root_det by (auto split: if_splits)
  show "y < n" if "if uf_root uf y a then s = b else uf_root uf y s" for y s
    using that uf_root_bound wf(1) by (auto simp: uf_wf_def split: if_splits)
qed

lemma link_conn:
  assumes "uf_wf n uf" "uf_wf n uf'" "uf_parent uf' = (uf_parent uf)[a := b]"
    and "uf_root uf a a" "uf_root uf b b" "a \<noteq> b"
  shows "uf_conn uf' x y \<longleftrightarrow> uf_conn uf x y \<or> uf_conn uf x a \<and> uf_conn uf b y \<or> uf_conn uf x b \<and> uf_conn uf a y"
proof -
  have cls: "uf_conn uf z c \<longleftrightarrow> uf_root uf z c" "uf_conn uf c z \<longleftrightarrow> uf_root uf z c" if "uf_root uf c c" for z c
    using that uf_root_det by (auto simp: uf_conn_def)
  have "uf_conn uf' x y \<longleftrightarrow>
      (\<exists>r. (if uf_root uf x a then r = b else uf_root uf x r) \<and> (if uf_root uf y a then r = b else uf_root uf y r))"
    by (simp add: uf_conn_def link_root [OF assms])
  also have "\<dots> \<longleftrightarrow> uf_conn uf x y \<or> uf_root uf x a \<and> uf_root uf y b \<or> uf_root uf x b \<and> uf_root uf y a"
    using assms(6)
    by (cases "uf_root uf x a"; cases "uf_root uf y a") (auto simp: uf_conn_def dest: uf_root_det)
  finally show ?thesis using cls [OF assms(4)] cls [OF assms(5)] by simp
qed

lemma uf_conn_equiv:
  "uf_wf n uf \<Longrightarrow> x < n \<Longrightarrow> uf_conn uf x x" "uf_conn uf x y \<Longrightarrow> uf_conn uf y x"
  "uf_conn uf x y \<Longrightarrow> uf_conn uf y z \<Longrightarrow> uf_conn uf x z"
  using uf_root_total uf_root_det by (auto simp: uf_conn_def) metis

lemma root_self: "uf_wf n uf \<Longrightarrow> uf_root uf x r \<Longrightarrow> uf_root uf r r"
  using uf_root_props [of n uf x r] by (auto simp: uf_wf_def intro: uf_root.root)

lemma uf_union_spec:
  assumes wf: "uf_wf n uf" and "a < n" "b < n"
  shows "\<exists>uf'. uf_union a b uf = Some uf' \<and> uf_wf n uf' \<and>
    (\<forall>x y. uf_conn uf' x y \<longleftrightarrow>
       uf_conn uf x y \<or> uf_conn uf x a \<and> uf_conn uf b y \<or> uf_conn uf x b \<and> uf_conn uf a y)"
proof -
  obtain ra rb where r: "uf_root uf a ra" "uf_root uf b rb" using uf_root_total [OF wf] assms(2,3) by blast
  obtain u1 where u1: "uf_find a uf = Some (ra, u1)" "uf_wf n u1" "\<forall>y s. uf_root u1 y s \<longleftrightarrow> uf_root uf y s"
    using uf_find_spec [OF r(1) wf] by blast
  then have "uf_root u1 b rb" using r by simp
  from uf_find_spec [OF this u1(2)] obtain u2 where u2: "uf_find b u1 = Some (rb, u2)" "uf_wf n u2"
    "\<forall>y s. uf_root u2 y s \<longleftrightarrow> uf_root uf y s" using u1(3) by auto
  have conn2: "uf_conn u2 x y \<longleftrightarrow> uf_conn uf x y" for x y using u2(3) by (simp add: uf_conn_def)
  have roots: "uf_root u2 ra ra" "uf_root u2 rb rb" using r root_self [OF wf] u2(3) by auto
  have same: "uf_conn uf x a \<longleftrightarrow> uf_conn uf x ra" "uf_conn uf b x \<longleftrightarrow> uf_conn uf rb x"
    "uf_conn uf x b \<longleftrightarrow> uf_conn uf x rb" "uf_conn uf a x \<longleftrightarrow> uf_conn uf ra x" for x
    using r roots u2(3) uf_root_det unfolding uf_conn_def by metis+
  have result: "uf_union a b uf = Some u \<Longrightarrow> uf_wf n u \<Longrightarrow> ra \<noteq> rb \<Longrightarrow>
      uf_parent u = (uf_parent u2)[ra := rb] \<or> uf_parent u = (uf_parent u2)[rb := ra] \<Longrightarrow> ?thesis" for u
    using link_conn [OF u2(2), of u ra rb] link_conn [OF u2(2), of u rb ra] roots conn2 same by auto
  have props: "ra < n" "rb < n" "uf_parent u2 ! ra = ra" "uf_parent u2 ! rb = rb"
    using uf_root_props [OF u2(2) roots(1)] uf_root_props [OF u2(2) roots(2)] by auto
  consider "ra = rb" | "ra \<noteq> rb" "uf_rank u2 ! ra < uf_rank u2 ! rb" | "ra \<noteq> rb" "uf_rank u2 ! rb < uf_rank u2 ! ra"
    | "ra \<noteq> rb" "uf_rank u2 ! ra = uf_rank u2 ! rb" by linarith
  then show ?thesis
  proof cases
    case 1
    then have "uf_conn uf a b" using r by (auto simp: uf_conn_def)
    then have "uf_conn uf x a \<and> uf_conn uf b y \<or> uf_conn uf x b \<and> uf_conn uf a y \<Longrightarrow> uf_conn uf x y" for x y
      using uf_conn_equiv(2,3) by meson
    moreover have "uf_union a b uf = Some u2" using 1 u1 u2 by (simp add: uf_union_def)
    ultimately show ?thesis using u2(2) conn2 by blast
  next
    case 2
    let ?u = "u2\<lparr>uf_parent := (uf_parent u2)[ra := rb]\<rparr>"
    have "uf_union a b uf = Some ?u" using 2 u1 u2 by (simp add: uf_union_def)
    moreover have "uf_wf n ?u" using 2 u2(2) props by (auto simp: uf_wf_def nth_list_update)
    ultimately show ?thesis using 2(1) by (rule result) simp
  next
    case 3
    let ?u = "u2\<lparr>uf_parent := (uf_parent u2)[rb := ra]\<rparr>"
    have "uf_union a b uf = Some ?u" using 3 u1 u2 by (simp add: uf_union_def)
    moreover have "uf_wf n ?u" using 3 u2(2) props by (auto simp: uf_wf_def nth_list_update)
    ultimately show ?thesis using 3(1) by (rule result) simp
  next
    case 4
    let ?u = "u2\<lparr>uf_parent := (uf_parent u2)[rb := ra], uf_rank := (uf_rank u2)[ra := uf_rank u2 ! ra + 1]\<rparr>"
    have "uf_union a b uf = Some ?u" using 4 u1 u2 by (simp add: uf_union_def)
    moreover have "uf_parent ?u ! x < n \<and> (uf_parent ?u ! x \<noteq> x \<longrightarrow> uf_rank ?u ! x < uf_rank ?u ! (uf_parent ?u ! x))"
      if "x < n" for x
    proof (cases "x = rb")
      case True
      then show ?thesis using 4 u2(2) props by (simp add: uf_wf_def)
    next
      case False
      let ?p = "uf_parent u2 ! x"
      have "?p < n" "?p \<noteq> x \<Longrightarrow> uf_rank u2 ! x < uf_rank u2 ! ?p \<and> x \<noteq> ra"
        using u2(2) that props(3) by (auto simp: uf_wf_def)
      moreover have "length (uf_parent u2) = n" "length (uf_rank u2) = n" using u2(2) by (simp_all add: uf_wf_def)
      ultimately show ?thesis using False by (cases "?p = x"; cases "?p = ra") auto
    qed
    then have "uf_wf n ?u" using u2(2) by (simp add: uf_wf_def)
    ultimately show ?thesis using 4(1) by (rule result) simp
  qed
qed

interpretation uf: dynamic_partition uf_wf uf_conn uf_union
  using uf_conn_equiv uf_union_spec by unfold_locales blast+

lemma uf_new_wf: "uf_wf n (uf_new n)"
  by (simp add: uf_wf_def uf_new_def)

section \<open>What the scheduling loop establishes\<close>

text \<open>
  A loop whose every step succeeds, keeps \<open>P\<close>, moves along \<open>R\<close> and establishes a \<open>Q\<close> that \<open>R\<close>
  preserves does so as a whole.
\<close>

lemma foldM_rule:
  assumes step: "\<And>x s. x \<in> set xs \<Longrightarrow> P s \<Longrightarrow> \<exists>s'. f x s = Some s' \<and> P s' \<and> R s s' \<and> Q x s'"
    and refl: "\<And>s. R s s" and trans: "\<And>s t u. R s t \<Longrightarrow> R t u \<Longrightarrow> R s u"
    and keep: "\<And>x s t. Q x s \<Longrightarrow> R s t \<Longrightarrow> Q x t"
    and "P s"
  shows "\<exists>s'. foldM f xs s = Some s' \<and> P s' \<and> R s s' \<and> (\<forall>x\<in>set xs. Q x s')"
  using step assms(5)
proof (induction xs arbitrary: s)
  case Nil
  then show ?case using refl by simp
next
  case (Cons x xs)
  obtain t where t: "f x s = Some t" "P t" "R s t" "Q x t" using Cons.prems(1) [of x s] Cons.prems(2) by auto
  have "\<exists>u. foldM f xs t = Some u \<and> P u \<and> R t u \<and> (\<forall>x\<in>set xs. Q x u)"
    by (rule Cons.IH) (use Cons.prems(1) t(2) in simp_all)
  then obtain u where "foldM f xs t = Some u" "P u" "R t u" "\<forall>x\<in>set xs. Q x u" by blast
  then show ?case using t(1) trans [OF t(3)] keep [OF t(4)] by simp
qed

lemma foldM_append: "foldM f (xs @ ys) s = Option.bind (foldM f xs s) (foldM f ys)"
  by (induction xs arbitrary: s) (simp_all split: bind_splits)

definition sch_ok :: "nat \<Rightarrow> scheduler \<Rightarrow> bool" where
  "sch_ok n st \<longleftrightarrow>
     uf_wf n (sch_uf st) \<and> (\<forall>ak w. hm_get (write_owners st) ak = Some w \<longrightarrow> w < n)
     \<and> (\<forall>rep. unknown_rep st = Some rep \<longrightarrow> rep < n)"

definition sch_grows :: "scheduler \<Rightarrow> scheduler \<Rightarrow> bool" where
  "sch_grows st st' \<longleftrightarrow>
     (\<forall>x y. uf_conn (sch_uf st) x y \<longrightarrow> uf_conn (sch_uf st') x y)
     \<and> (\<forall>ak w. hm_get (write_owners st) ak = Some w \<longrightarrow> hm_get (write_owners st') ak = Some w)
     \<and> (\<forall>rep. unknown_rep st = Some rep \<longrightarrow> unknown_rep st' = Some rep)"

definition owned :: "nat \<Rightarrow> access_key \<Rightarrow> scheduler \<Rightarrow> bool" where
  "owned i ak st \<longleftrightarrow> (\<exists>w. hm_get (write_owners st) ak = Some w \<and> uf_conn (sch_uf st) i w)"

lemma sch_owner_bound: "sch_ok n st \<Longrightarrow> hm_get (write_owners st) ak = Some w \<Longrightarrow> w < n"
  unfolding sch_ok_def by blast

lemma sch_conn_refl: "sch_ok n st \<Longrightarrow> i < n \<Longrightarrow> uf_conn (sch_uf st) i i"
  using uf.conn_refl by (auto simp: sch_ok_def)

lemma sch_grows_refl: "sch_grows st st"
  by (simp add: sch_grows_def)

lemma sch_grows_trans: "sch_grows st st' \<Longrightarrow> sch_grows st' st'' \<Longrightarrow> sch_grows st st''"
  unfolding sch_grows_def by blast

lemma sch_grows_conn: "sch_grows st st' \<Longrightarrow> uf_conn (sch_uf st) x y \<Longrightarrow> uf_conn (sch_uf st') x y"
  by (simp add: sch_grows_def)

lemma owned_grows: "owned i ak st \<Longrightarrow> sch_grows st st' \<Longrightarrow> owned i ak st'"
  unfolding owned_def sch_grows_def by blast

lemma sch_union_spec:
  assumes "sch_ok n st" "a < n" "b < n"
  shows "\<exists>st'. sch_union a b st = Some st' \<and> sch_ok n st' \<and> sch_grows st st'
    \<and> uf_conn (sch_uf st') a b \<and> write_owners st' = write_owners st \<and> unknown_rep st' = unknown_rep st"
proof -
  have wf: "uf_wf n (sch_uf st)" using assms(1) by (simp add: sch_ok_def)
  obtain u where u: "uf_union a b (sch_uf st) = Some u" "uf_wf n u"
    using uf.join_total [OF wf assms(2,3)] by blast
  then show ?thesis
    using assms(1) uf.join_conn [OF wf assms(2,3) u(1)] by (auto simp: sch_union_def sch_ok_def sch_grows_def)
qed

lemma claim_write_spec:
  assumes ok: "sch_ok n st" and i: "i < n"
  shows "\<exists>st'. claim_write i ak st = Some st' \<and> sch_ok n st' \<and> sch_grows st st' \<and> owned i ak st'"
proof (cases "hm_get (write_owners st) ak")
  case None
  let ?st = "st\<lparr>write_owners := hm_insert ak i (write_owners st)\<rparr>"
  have "sch_ok n ?st" "sch_grows st ?st" using ok i None by (auto simp: sch_ok_def sch_grows_def)
  moreover have "owned i ak ?st" using sch_conn_refl [OF ok i] by (simp add: owned_def)
  ultimately show ?thesis using None by (simp add: claim_write_def)
next
  case (Some w)
  then have "w < n" by (rule sch_owner_bound [OF ok])
  from sch_union_spec [OF ok i this] Some show ?thesis by (auto simp: claim_write_def owned_def)
qed

lemma check_read_spec:
  assumes ok: "sch_ok n st" and i: "i < n"
  shows "\<exists>st'. check_read i ak st = Some st' \<and> sch_ok n st' \<and> sch_grows st st'
    \<and> (hm_get (write_owners st') ak \<noteq> None \<longrightarrow> owned i ak st') \<and> write_owners st' = write_owners st"
proof (cases "hm_get (write_owners st) ak")
  case None
  then show ?thesis using ok sch_grows_refl by (simp add: check_read_def)
next
  case (Some w)
  then have w: "w < n" by (rule sch_owner_bound [OF ok])
  show ?thesis
  proof (cases "w = i")
    case True
    then show ?thesis using ok Some sch_conn_refl [OF ok i] sch_grows_refl by (simp add: check_read_def owned_def)
  next
    case False
    from sch_union_spec [OF ok i w] Some False show ?thesis by (auto simp: check_read_def owned_def)
  qed
qed

lemma join_unknown_spec:
  assumes ok: "sch_ok n st" and i: "i < n"
  shows "\<exists>st'. join_unknown i st = Some st' \<and> sch_ok n st' \<and> sch_grows st st'
    \<and> (\<exists>rep. unknown_rep st' = Some rep)"
proof (cases "unknown_rep st")
  case None
  then show ?thesis using ok i by (auto simp: join_unknown_def sch_ok_def sch_grows_def)
next
  case (Some rep)
  then have "rep < n" using ok by (simp add: sch_ok_def)
  from sch_union_spec [OF ok i this] Some show ?thesis by (auto simp: join_unknown_def)
qed

lemma claim_writes_spec:
  assumes "sch_ok n st" "i < n"
  shows "\<exists>st'. foldM (claim_write i) aks st = Some st' \<and> sch_ok n st' \<and> sch_grows st st'
    \<and> (\<forall>ak\<in>set aks. owned i ak st')"
  by (rule foldM_rule)
    (use assms claim_write_spec sch_grows_refl sch_grows_trans owned_grows in \<open>blast+\<close>)

text \<open>A read is joined to the owner its key has when the reading transaction is scheduled.\<close>

lemma check_reads_spec:
  assumes "sch_ok n st" "i < n"
  shows "\<exists>st'. foldM (check_read i) aks st = Some st' \<and> sch_ok n st' \<and> sch_grows st st'
    \<and> (\<forall>ak\<in>set aks. hm_get (write_owners st) ak \<noteq> None \<longrightarrow> owned i ak st')"
proof -
  let ?P = "\<lambda>s. sch_ok n s \<and> write_owners s = write_owners st"
  let ?Q = "\<lambda>ak s. hm_get (write_owners st) ak \<noteq> None \<longrightarrow> owned i ak s"
  have "\<exists>st'. foldM (check_read i) aks st = Some st' \<and> ?P st' \<and> sch_grows st st' \<and> (\<forall>ak\<in>set aks. ?Q ak st')"
  proof (rule foldM_rule)
    fix ak s assume "?P s"
    with check_read_spec [of n s i ak] assms(2)
    show "\<exists>s'. check_read i ak s = Some s' \<and> ?P s' \<and> sch_grows s s' \<and> ?Q ak s'" by auto
  qed (use assms sch_grows_refl sch_grows_trans owned_grows in \<open>blast+\<close>)
  then show ?thesis by blast
qed

definition tx_known :: "crypto_lib \<Rightarrow> transaction \<Rightarrow> bool" where
  "tx_known C tx \<longleftrightarrow> implicit_writes C tx \<noteq> None \<or> \<not> access_list_is_uninformative (tx_access_list tx)"

definition tx_writes :: "crypto_lib \<Rightarrow> transaction \<Rightarrow> access_key set" where
  "tx_writes C tx =
     (case implicit_writes C tx of Some ws \<Rightarrow> set ws | None \<Rightarrow> {}) \<union> set (access_writes (tx_access_list tx))"

definition tx_reads :: "transaction \<Rightarrow> access_key set" where
  "tx_reads tx = set (access_reads (tx_access_list tx))"

lemma uninformative_empty:
  "access_list_is_uninformative al \<Longrightarrow> access_writes al = [] \<and> access_reads al = []"
  by (auto simp: access_list_is_uninformative_def access_writes_def access_reads_def list_all_iff
      concat_eq_Nil_conv)

lemma schedule_tx_spec:
  assumes ok: "sch_ok n st" and i: "i < n"
  shows "\<exists>st'. schedule_tx C (i, tx) st = Some st' \<and> sch_ok n st' \<and> sch_grows st st'
    \<and> (tx_known C tx \<longrightarrow> (\<forall>ak\<in>tx_writes C tx. owned i ak st')
        \<and> (\<forall>ak\<in>tx_reads tx. hm_get (write_owners st) ak \<noteq> None \<longrightarrow> owned i ak st'))
    \<and> (\<not> tx_known C tx \<longrightarrow> unknown_rep st' \<noteq> None)"
proof (cases "tx_known C tx")
  case False
  from join_unknown_spec [OF ok i] False show ?thesis by (auto simp: schedule_tx_def tx_known_def Let_def)
next
  case True
  let ?al = "tx_access_list tx" and ?imp = "implicit_writes C tx"
  obtain s1 where s1: "(case ?imp of Some ws \<Rightarrow> foldM (claim_write i) ws st | None \<Rightarrow> Some st) = Some s1"
    "sch_ok n s1" "sch_grows st s1" "\<forall>ak\<in>(case ?imp of Some ws \<Rightarrow> set ws | None \<Rightarrow> {}). owned i ak s1"
  proof (cases ?imp)
    case None
    then show ?thesis using that ok sch_grows_refl by simp
  next
    case (Some ws)
    then show ?thesis using that claim_writes_spec [OF ok i, of ws] by auto
  qed
  show ?thesis
  proof (cases "access_list_is_uninformative ?al")
    case un: True
    then have "schedule_tx C (i, tx) st = Some s1"
      using True s1(1) by (auto simp: schedule_tx_def tx_known_def Let_def split: option.splits)
    then show ?thesis using True s1 uninformative_empty [OF un] by (simp add: tx_writes_def tx_reads_def)
  next
    case False
    obtain s2 where s2: "foldM (claim_write i) (access_writes ?al) s1 = Some s2" "sch_ok n s2" "sch_grows s1 s2"
      "\<forall>ak\<in>set (access_writes ?al). owned i ak s2" using claim_writes_spec [OF s1(2) i] by blast
    obtain s3 where s3: "foldM (check_read i) (access_reads ?al) s2 = Some s3" "sch_ok n s3" "sch_grows s2 s3"
      "\<forall>ak\<in>set (access_reads ?al). hm_get (write_owners s2) ak \<noteq> None \<longrightarrow> owned i ak s3"
      using check_reads_spec [OF s2(2) i] by blast
    have "schedule_tx C (i, tx) st = Some s3" using False s1(1) s2(1) s3(1) by (simp add: schedule_tx_def Let_def)
    moreover have grows: "sch_grows st s3" using s1(3) s2(3) s3(3) sch_grows_trans by blast
    moreover have "\<forall>ak\<in>tx_writes C tx. owned i ak s3"
      unfolding tx_writes_def using s1(4) s2(3,4) s3(3) owned_grows by blast
    moreover have "hm_get (write_owners st) ak \<noteq> None \<Longrightarrow> hm_get (write_owners s2) ak \<noteq> None" for ak
      using s1(3) s2(3) unfolding sch_grows_def by blast
    then have "\<forall>ak\<in>tx_reads tx. hm_get (write_owners st) ak \<noteq> None \<longrightarrow> owned i ak s3"
      unfolding tx_reads_def using s3(4) by blast
    ultimately show ?thesis using True s3(2) by blast
  qed
qed

definition sch_done :: "crypto_lib \<Rightarrow> transaction list \<Rightarrow> scheduler \<Rightarrow> bool" where
  "sch_done C txs st \<longleftrightarrow>
     (\<forall>i<length txs. tx_known C (txs ! i) \<longrightarrow> (\<forall>ak\<in>tx_writes C (txs ! i). owned i ak st))
     \<and> (\<forall>i<length txs. \<forall>j<i. tx_known C (txs ! j) \<and> tx_known C (txs ! i) \<longrightarrow>
          (\<forall>ak\<in>tx_writes C (txs ! j) \<inter> tx_reads (txs ! i). owned i ak st))
     \<and> (\<forall>i<length txs. \<not> tx_known C (txs ! i) \<longrightarrow> unknown_rep st \<noteq> None)"

lemma schedule_loop_spec:
  assumes "sch_ok n st0" "length txs \<le> n"
  shows "\<exists>st. foldM (schedule_tx C) (enumerate 0 txs) st0 = Some st \<and> sch_ok n st \<and> sch_done C txs st"
  using assms(2)
proof (induction txs rule: rev_induct)
  case Nil
  then show ?case using assms(1) by (simp add: sch_done_def)
next
  case (snoc tx txs)
  then obtain s1 where s1: "foldM (schedule_tx C) (enumerate 0 txs) st0 = Some s1" "sch_ok n s1" "sch_done C txs s1"
    by auto
  have i: "length txs < n" using snoc.prems by simp
  obtain s2 where s2: "schedule_tx C (length txs, tx) s1 = Some s2" "sch_ok n s2" "sch_grows s1 s2"
    "tx_known C tx \<Longrightarrow> \<forall>ak\<in>tx_writes C tx. owned (length txs) ak s2"
    "tx_known C tx \<Longrightarrow> \<forall>ak\<in>tx_reads tx. hm_get (write_owners s1) ak \<noteq> None \<longrightarrow> owned (length txs) ak s2"
    "\<not> tx_known C tx \<Longrightarrow> unknown_rep s2 \<noteq> None"
    using schedule_tx_spec [OF s1(2) i, of C tx] by blast
  have "foldM (schedule_tx C) (enumerate 0 (txs @ [tx])) st0 = Some s2"
    using s1(1) s2(1) by (simp add: enumerate_append_eq foldM_append)
  moreover have "sch_done C (txs @ [tx]) s2"
    unfolding sch_done_def length_append_singleton All_less_Suc
  proof (intro conjI allI impI ballI)
    have old: "owned i ak s2" if "owned i ak s1" for i ak using that s2(3) owned_grows by blast
    have rep: "unknown_rep s2 \<noteq> None" if "unknown_rep s1 \<noteq> None" using that s2(3) unfolding sch_grows_def by blast
    fix i ak assume "i < length txs" "tx_known C ((txs @ [tx]) ! i)" "ak \<in> tx_writes C ((txs @ [tx]) ! i)"
    then show "owned i ak s2" using s1(3) old by (simp add: sch_done_def nth_append)
  next
    fix ak assume "tx_known C ((txs @ [tx]) ! length txs)" "ak \<in> tx_writes C ((txs @ [tx]) ! length txs)"
    then show "owned (length txs) ak s2" using s2(4) by simp
  next
    fix j ak assume j: "j < length txs" "tx_known C ((txs @ [tx]) ! j) \<and> tx_known C ((txs @ [tx]) ! length txs)"
      "ak \<in> tx_writes C ((txs @ [tx]) ! j) \<inter> tx_reads ((txs @ [tx]) ! length txs)"
    then have "owned j ak s1" using s1(3) by (simp add: sch_done_def nth_append)
    then show "owned (length txs) ak s2" using s2(5) j by (auto simp: owned_def)
  next
    fix i j ak assume "i < length txs" "j < i" "tx_known C ((txs @ [tx]) ! j) \<and> tx_known C ((txs @ [tx]) ! i)"
      "ak \<in> tx_writes C ((txs @ [tx]) ! j) \<inter> tx_reads ((txs @ [tx]) ! i)"
    then have "owned i ak s1" using s1(3) by (simp add: sch_done_def nth_append)
    then show "owned i ak s2" using s2(3) owned_grows by blast
  next
    assume "\<not> tx_known C ((txs @ [tx]) ! length txs)"
    then show "unknown_rep s2 \<noteq> None" using s2(6) by simp
  next
    fix i assume "i < length txs" "\<not> tx_known C ((txs @ [tx]) ! i)"
    then have "unknown_rep s1 \<noteq> None" using s1(3) by (simp add: sch_done_def nth_append)
    then show "unknown_rep s2 \<noteq> None" using s2(3) unfolding sch_grows_def by blast
  qed
  ultimately show ?case using s2(2) by blast
qed

lemma sweep_unknown_spec:
  assumes "sch_ok n st"
  shows "\<exists>st'. sweep_unknown n st = Some st' \<and> sch_ok n st' \<and> sch_grows st st'
    \<and> (unknown_rep st \<noteq> None \<longrightarrow> (\<forall>i<n. \<forall>j<n. uf_conn (sch_uf st') i j))"
proof (cases "unknown_rep st")
  case None
  then show ?thesis using assms sch_grows_refl by (simp add: sweep_unknown_def)
next
  case (Some rep)
  then have rep: "rep < n" using assms by (simp add: sch_ok_def)
  let ?f = "\<lambda>i st. if i \<noteq> rep then sch_union i rep st else Some st"
  have "\<exists>st'. foldM ?f [0..<n] st = Some st' \<and> sch_ok n st' \<and> sch_grows st st'
      \<and> (\<forall>i\<in>set [0..<n]. uf_conn (sch_uf st') i rep)"
  proof (rule foldM_rule)
    fix i s assume "i \<in> set [0..<n]" "sch_ok n s"
    then show "\<exists>s'. ?f i s = Some s' \<and> sch_ok n s' \<and> sch_grows s s' \<and> uf_conn (sch_uf s') i rep"
      using sch_union_spec [of n s i rep] rep sch_conn_refl sch_grows_refl by auto
  qed (use assms sch_grows_refl sch_grows_trans sch_grows_conn in \<open>blast+\<close>)
  then obtain st' where st': "foldM ?f [0..<n] st = Some st'" "sch_ok n st'" "sch_grows st st'"
    "\<forall>i\<in>set [0..<n]. uf_conn (sch_uf st') i rep" by blast
  have "uf_conn (sch_uf st') i j" if "i < n" "j < n" for i j
    using st'(4) that uf.conn_sym uf.conn_trans by (metis atLeastLessThan_iff le0 set_upt)
  then show ?thesis using st'(1-3) Some by (auto simp: sweep_unknown_def)
qed

section \<open>From components to groups\<close>

definition same_group :: "execution_schedule \<Rightarrow> nat \<Rightarrow> nat \<Rightarrow> bool" where
  "same_group s i j \<longleftrightarrow> (\<exists>g\<in>set (sched_groups s). i \<in> set (tx_indices g) \<and> j \<in> set (tx_indices g))"

definition valid_schedule :: "nat \<Rightarrow> execution_schedule \<Rightarrow> bool" where
  "valid_schedule n s \<longleftrightarrow>
     total_txs s = n \<and> distinct (concat (map tx_indices (sched_groups s)))
     \<and> set (concat (map tx_indices (sched_groups s))) = {..<n}
     \<and> list_all (\<lambda>g. tx_indices g \<noteq> [] \<and> sorted (tx_indices g)) (sched_groups s)
     \<and> sorted (map (hd \<circ> tx_indices) (sched_groups s))"

lemma collect_components_spec:
  assumes "uf_wf n uf" "set is \<subseteq> {..<n}" "hm_wf comps"
  shows "\<exists>comps'. collect_components is uf comps = Some comps' \<and> hm_wf comps' \<and>
    (\<forall>r. hm_get comps' r =
       (let g = filter (\<lambda>i. uf_root uf i r) is
        in case hm_get comps r of None \<Rightarrow> if g = [] then None else Some g | Some g0 \<Rightarrow> Some (g0 @ g)))"
  using assms
proof (induction "is" arbitrary: uf comps)
  case Nil
  then show ?case by (simp split: option.splits)
next
  case (Cons i "is")
  obtain r where r: "uf_root uf i r" using uf_root_total [OF Cons.prems(1)] Cons.prems(2) by auto
  from uf_find_spec [OF r Cons.prems(1)] obtain uf' where uf': "uf_find i uf = Some (r, uf')" "uf_wf n uf'"
    "\<And>y s. uf_root uf' y s \<longleftrightarrow> uf_root uf y s" by blast
  define comps1 where
    "comps1 = hm_insert r ((case hm_get comps r of Some g \<Rightarrow> g | None \<Rightarrow> []) @ [i]) comps"
  have "hm_wf comps1" using Cons.prems(3) by (simp add: comps1_def)
  from Cons.IH [OF uf'(2) _ this] Cons.prems(2) obtain comps' where
    c: "collect_components is uf' comps1 = Some comps'" "hm_wf comps'"
    "\<forall>q. hm_get comps' q =
       (let g = filter (\<lambda>i. uf_root uf i q) is
        in case hm_get comps1 q of None \<Rightarrow> if g = [] then None else Some g | Some g0 \<Rightarrow> Some (g0 @ g))"
    by (auto simp: uf'(3))
  have "uf_root uf i q \<longleftrightarrow> q = r" for q using r uf_root_det by blast
  then show ?case
    using c uf'(1) by (auto simp: comps1_def [symmetric] Let_def) (auto simp: comps1_def split: option.splits)
qed

lemma to_schedule_spec:
  assumes wf: "uf_wf n (sch_uf st)"
  shows "\<exists>s. to_schedule n st = Some s \<and> valid_schedule n s
    \<and> (\<forall>i<n. \<forall>j<n. same_group s i j \<longleftrightarrow> uf_conn (sch_uf st) i j)"
proof -
  let ?g = "\<lambda>r. filter (\<lambda>i. uf_root (sch_uf st) i r) [0..<n]"
  have "set [0..<n] \<subseteq> {..<n}" by auto
  from collect_components_spec [OF wf this hm_wf_Nil]
  obtain comps where c: "collect_components [0..<n] (sch_uf st) [] = Some comps" "hm_wf comps"
    "\<And>r. hm_get comps r = (if ?g r = [] then None else Some (?g r))"
    by (simp add: Let_def) blast
  define gs where "gs = sort_key hd (map snd comps)"
  let ?s = "\<lparr>sched_groups = map (\<lambda>g. \<lparr>tx_indices = g\<rparr>) gs, total_txs = n\<rparr>"
  have mem: "(r, g) \<in> set comps \<longleftrightarrow> g = ?g r \<and> g \<noteq> []" for r g
    using hm_get_mem [OF c(2), of r g] c(3) [of r] by auto
  have gs: "g \<in> set gs \<longleftrightarrow> (\<exists>r. g = ?g r \<and> g \<noteq> [])" for g
    by (auto simp: gs_def image_iff mem Bex_def)
  have "inj_on snd (set comps)"
  proof (rule inj_onI)
    fix x y assume xy: "x \<in> set comps" "y \<in> set comps" "snd x = snd y"
    obtain r q where x: "x = (r, ?g r)" "y = (q, ?g q)" "?g r \<noteq> []" using xy(1,2) mem by (metis prod.exhaust_sel)
    then obtain i where i: "i \<in> set (?g r)" by (meson last_in_set)
    moreover have "?g r = ?g q" using xy(3) x by simp
    ultimately have "i \<in> set (?g q)" by simp
    with i have "uf_root (sch_uf st) i r" "uf_root (sch_uf st) i q" by simp_all
    then show "x = y" using x uf_root_det by blast
  qed
  then have "distinct gs"
    using c(2) by (simp add: gs_def hm_wf_def distinct_map)
  moreover have "set g \<inter> set h = {}" if "g \<in> set gs" "h \<in> set gs" "g \<noteq> h" for g h
    using that uf_root_det unfolding gs by force
  ultimately have conc: "distinct (concat gs)" by (intro distinct_concat) (auto simp: gs)
  have pair: "(\<exists>g\<in>set gs. i \<in> set g \<and> j \<in> set g) \<longleftrightarrow> i < n \<and> j < n \<and> uf_conn (sch_uf st) i j" for i j
  proof
    assume "\<exists>g\<in>set gs. i \<in> set g \<and> j \<in> set g"
    then obtain r where "i \<in> set (?g r)" "j \<in> set (?g r)" unfolding gs Bex_def by blast
    then show "i < n \<and> j < n \<and> uf_conn (sch_uf st) i j" by (auto simp: uf_conn_def)
  next
    assume ij: "i < n \<and> j < n \<and> uf_conn (sch_uf st) i j"
    then obtain r where "uf_root (sch_uf st) i r" "uf_root (sch_uf st) j r" by (auto simp: uf_conn_def)
    then have r: "i \<in> set (?g r)" "j \<in> set (?g r)" using ij by simp_all
    then have "?g r \<in> set gs" unfolding gs by (metis empty_iff empty_set)
    then show "\<exists>g\<in>set gs. i \<in> set g \<and> j \<in> set g" using r by blast
  qed
  have "i \<in> set (concat gs) \<longleftrightarrow> i < n" for i using pair [of i i] uf.conn_refl [OF wf, of i] by auto
  then have "set (concat gs) = {..<n}" by blast
  note conc this
  moreover have "list_all (\<lambda>g. g \<noteq> [] \<and> sorted g) gs" by (auto simp: list_all_iff gs sorted_wrt_filter)
  moreover have "sorted (map hd gs)" by (simp add: gs_def)
  ultimately have "valid_schedule n ?s" by (simp add: valid_schedule_def comp_def list_all_iff)
  moreover have "same_group ?s i j \<longleftrightarrow> uf_conn (sch_uf st) i j" if "i < n" "j < n" for i j
    using that pair [of i j] by (simp add: same_group_def)
  moreover have "to_schedule n st = Some ?s" by (simp add: to_schedule_def c(1) gs_def)
  ultimately show ?thesis by blast
qed

section \<open>Groups are connected components\<close>

text \<open>
  The relation the schedule is built from: a transaction and a later one that writes or reads a
  key the first writes, or any pair with a transaction whose keys are unknown.
\<close>

definition touches_after :: "crypto_lib \<Rightarrow> transaction list \<Rightarrow> nat \<Rightarrow> nat \<Rightarrow> bool" where
  "touches_after C txs i j \<longleftrightarrow>
     i < j \<and> j < length txs
     \<and> (\<not> tx_known C (txs ! i) \<or> \<not> tx_known C (txs ! j)
        \<or> tx_writes C (txs ! i) \<inter> (tx_writes C (txs ! j) \<union> tx_reads (txs ! j)) \<noteq> {})"

abbreviation linked :: "crypto_lib \<Rightarrow> transaction list \<Rightarrow> nat \<Rightarrow> nat \<Rightarrow> bool" where
  "linked C txs \<equiv> equivclp (touches_after C txs)"

text \<open>Every join is justified: the other half of the invariant of the loop.\<close>

definition sch_just :: "crypto_lib \<Rightarrow> transaction list \<Rightarrow> nat \<Rightarrow> scheduler \<Rightarrow> bool" where
  "sch_just C txs k st \<longleftrightarrow>
     sch_ok (length txs) st
     \<and> (\<forall>x y. uf_conn (sch_uf st) x y \<longrightarrow> linked C txs x y)
     \<and> (\<forall>ak w. hm_get (write_owners st) ak = Some w \<longrightarrow>
          w \<le> k \<and> tx_known C (txs ! w) \<and> ak \<in> tx_writes C (txs ! w))
     \<and> (\<forall>rep. unknown_rep st = Some rep \<longrightarrow> \<not> tx_known C (txs ! rep))"

lemma sch_union_just:
  assumes "sch_just C txs k st" "a < length txs" "b < length txs" "linked C txs a b"
    and "sch_union a b st = Some st'"
  shows "sch_just C txs k st'"
proof -
  have ok: "sch_ok (length txs) st" using assms(1) by (simp add: sch_just_def)
  then have wf: "uf_wf (length txs) (sch_uf st)" by (simp add: sch_ok_def)
  obtain u where u: "uf_union a b (sch_uf st) = Some u" "st' = st\<lparr>sch_uf := u\<rparr>"
    using assms(5) by (auto simp: sch_union_def)
  have "uf_conn u x y \<longleftrightarrow> uf_conn (sch_uf st) x y \<or> uf_conn (sch_uf st) x a \<and> uf_conn (sch_uf st) b y
      \<or> uf_conn (sch_uf st) x b \<and> uf_conn (sch_uf st) a y" for x y
    using uf.join_spec [OF wf assms(2,3)] u(1) by auto
  moreover have "linked C txs x y" if "uf_conn (sch_uf st) x y" for x y using assms(1) that by (simp add: sch_just_def)
  ultimately have "linked C txs x y" if "uf_conn u x y" for x y
    using that assms(4) equivclp_sym [OF assms(4)] by (meson equivclp_trans)
  moreover have "sch_ok (length txs) st'" using sch_union_spec [OF ok assms(2,3)] assms(5) by auto
  ultimately show ?thesis using assms(1) u(2) by (simp add: sch_just_def)
qed

lemma foldM_inv:
  "(\<And>x s s'. x \<in> set xs \<Longrightarrow> P s \<Longrightarrow> f x s = Some s' \<Longrightarrow> P s') \<Longrightarrow> P s \<Longrightarrow> foldM f xs s = Some s' \<Longrightarrow> P s'"
  by (induction xs arbitrary: s) (auto simp: bind_eq_Some_conv)

lemma claim_write_just:
  assumes just: "sch_just C txs i st" and i: "i < length txs" "tx_known C (txs ! i)" "ak \<in> tx_writes C (txs ! i)"
    and "claim_write i ak st = Some st'"
  shows "sch_just C txs i st'"
proof (cases "hm_get (write_owners st) ak")
  case None
  have "sch_ok (length txs) st'"
    using just claim_write_spec [of "length txs" st i ak] i(1) assms(5) by (auto simp: sch_just_def)
  moreover have "st' = st\<lparr>write_owners := hm_insert ak i (write_owners st)\<rparr>"
    using None assms(5) by (simp add: claim_write_def)
  ultimately show ?thesis using just i by (auto simp: sch_just_def)
next
  case (Some w)
  then have w: "w \<le> i" "tx_known C (txs ! w)" "ak \<in> tx_writes C (txs ! w)" using just unfolding sch_just_def by blast+
  have "touches_after C txs w i" if "w \<noteq> i" using that w i by (auto simp: touches_after_def)
  then have "linked C txs i w" by (cases "w = i") (auto intro: converse_r_into_equivclp)
  then show ?thesis
    using sch_union_just [OF just i(1), of w st'] w(1) i(1) Some assms(5) by (simp add: claim_write_def)
qed

lemma check_read_just:
  assumes just: "sch_just C txs i st" and i: "i < length txs" "tx_known C (txs ! i)" "ak \<in> tx_reads (txs ! i)"
    and "check_read i ak st = Some st'"
  shows "sch_just C txs i st'"
proof (cases "hm_get (write_owners st) ak")
  case None
  then show ?thesis using just assms(5) by (simp add: check_read_def)
next
  case (Some w)
  then have w: "w \<le> i" "tx_known C (txs ! w)" "ak \<in> tx_writes C (txs ! w)" using just unfolding sch_just_def by blast+
  show ?thesis
  proof (cases "w = i")
    case True
    then show ?thesis using just Some assms(5) by (simp add: check_read_def)
  next
    case False
    then have "touches_after C txs w i" using w i by (auto simp: touches_after_def)
    then have "linked C txs i w" by (rule converse_r_into_equivclp)
    then show ?thesis
      using sch_union_just [OF just i(1), of w st'] w(1) i(1) Some False assms(5) by (simp add: check_read_def)
  qed
qed

lemma join_unknown_just:
  assumes just: "sch_just C txs k st" and i: "i < length txs" "\<not> tx_known C (txs ! i)"
    and "join_unknown i st = Some st'"
  shows "sch_just C txs k st'"
proof (cases "unknown_rep st")
  case None
  have "sch_ok (length txs) st'"
    using just join_unknown_spec [of "length txs" st i] i(1) assms(4) by (auto simp: sch_just_def)
  moreover have "st' = st\<lparr>unknown_rep := Some i\<rparr>" using None assms(4) by (simp add: join_unknown_def)
  ultimately show ?thesis using just i by (auto simp: sch_just_def)
next
  case (Some rep)
  then have rep: "rep < length txs" using just by (auto simp: sch_just_def sch_ok_def)
  have "i = rep \<or> touches_after C txs i rep \<or> touches_after C txs rep i"
    using i rep by (auto simp: touches_after_def)
  then have "linked C txs i rep" by (auto intro: r_into_equivclp converse_r_into_equivclp)
  then show ?thesis
    using sch_union_just [OF just i(1) rep] Some assms(4) by (simp add: join_unknown_def)
qed

lemma schedule_tx_just:
  assumes just: "sch_just C txs i st" and i: "i < length txs" and "schedule_tx C (i, txs ! i) st = Some st'"
  shows "sch_just C txs i st'"
proof (cases "tx_known C (txs ! i)")
  case False
  then have "join_unknown i st = Some st'" using assms(3) by (auto simp: schedule_tx_def tx_known_def Let_def)
  then show ?thesis by (rule join_unknown_just [OF just i False])
next
  case True
  let ?al = "tx_access_list (txs ! i)" and ?imp = "implicit_writes C (txs ! i)"
  have claim: "sch_just C txs i s'" if "sch_just C txs i s" "foldM (claim_write i) aks s = Some s'"
    "set aks \<subseteq> tx_writes C (txs ! i)" for aks s s'
  proof (rule foldM_inv [where P = "sch_just C txs i", OF _ that(1,2)])
    fix ak u u' assume "ak \<in> set aks" "sch_just C txs i u" "claim_write i ak u = Some u'"
    then show "sch_just C txs i u'" using that(3) claim_write_just [OF _ i True] by blast
  qed
  have read: "sch_just C txs i s'" if "sch_just C txs i s" "foldM (check_read i) (access_reads ?al) s = Some s'" for s s'
  proof (rule foldM_inv [where P = "sch_just C txs i", OF _ that])
    fix ak u u' assume "ak \<in> set (access_reads ?al)" "sch_just C txs i u" "check_read i ak u = Some u'"
    then show "sch_just C txs i u'" using check_read_just [OF _ i True] unfolding tx_reads_def by blast
  qed
  obtain s1 where s1: "(case ?imp of Some ws \<Rightarrow> foldM (claim_write i) ws st | None \<Rightarrow> Some st) = Some s1"
    "(if \<not> access_list_is_uninformative ?al
      then Option.bind (foldM (claim_write i) (access_writes ?al) s1) (foldM (check_read i) (access_reads ?al))
      else Some s1) = Some st'"
    using True assms(3) by (auto simp: schedule_tx_def tx_known_def Let_def bind_eq_Some_conv split: if_splits)
  have "sch_just C txs i s1"
  proof (cases ?imp)
    case None
    then show ?thesis using s1(1) just by simp
  next
    case (Some ws)
    then show ?thesis using s1(1) by (intro claim [OF just, of ws]) (simp_all add: tx_writes_def)
  qed
  then show ?thesis
  proof (cases "access_list_is_uninformative ?al")
    case False
    then obtain s2 where s2: "foldM (claim_write i) (access_writes ?al) s1 = Some s2"
      "foldM (check_read i) (access_reads ?al) s2 = Some st'"
      using s1(2) by (auto simp: bind_eq_Some_conv)
    have "sch_just C txs i s2" by (rule claim [OF \<open>sch_just C txs i s1\<close> s2(1)]) (simp add: tx_writes_def)
    then show ?thesis using s2(2) by (rule read)
  qed (use s1(2) in simp)
qed

lemma sch_just_mono: "sch_just C txs k st \<Longrightarrow> k \<le> k' \<Longrightarrow> sch_just C txs k' st"
  unfolding sch_just_def by (meson order_trans)

lemma uf_new_root: "uf_root (uf_new n) x r \<Longrightarrow> r = x"
  by (erule uf_rootE) (simp_all add: uf_new_def)

lemma schedule_start:
  "sch_just C txs 0 \<lparr>sch_uf = uf_new (length txs), write_owners = [], unknown_rep = None\<rparr>"
  using uf_new_wf by (auto simp: sch_just_def sch_ok_def uf_conn_def dest!: uf_new_root)

lemma schedule_loop_just:
  assumes "m \<le> length txs" "sch_just C txs 0 st0" "foldM (schedule_tx C) (enumerate 0 (take m txs)) st0 = Some st"
  shows "sch_just C txs m st"
  using assms(1,3)
proof (induction m arbitrary: st)
  case 0
  then show ?case using assms(2) by simp
next
  case (Suc m)
  have "enumerate 0 (take (Suc m) txs) = enumerate 0 (take m txs) @ [(m, txs ! m)]"
    using Suc.prems(1) by (simp add: take_Suc_conv_app_nth enumerate_append_eq)
  then obtain s where s: "foldM (schedule_tx C) (enumerate 0 (take m txs)) st0 = Some s"
    "schedule_tx C (m, txs ! m) s = Some st"
    using Suc.prems(2) by (auto simp: foldM_append bind_eq_Some_conv)
  have m: "m < length txs" using Suc.prems(1) by simp
  have "sch_just C txs m s" by (rule Suc.IH [OF less_imp_le [OF m] s(1)])
  then have "sch_just C txs m st" by (rule schedule_tx_just [OF _ m s(2)])
  then show ?case by (rule sch_just_mono) simp
qed

lemma sweep_unknown_just:
  assumes just: "sch_just C txs k st" and "sweep_unknown (length txs) st = Some st'"
  shows "sch_just C txs k st'"
proof (cases "unknown_rep st")
  case None
  then show ?thesis using assms by (simp add: sweep_unknown_def)
next
  case (Some rep)
  then have rep: "rep < length txs" "\<not> tx_known C (txs ! rep)" using just by (auto simp: sch_just_def sch_ok_def)
  let ?f = "\<lambda>i st. if i \<noteq> rep then sch_union i rep st else Some st"
  have "foldM ?f [0..<length txs] st = Some st'" using Some assms(2) by (simp add: sweep_unknown_def)
  with _ just show ?thesis
  proof (rule foldM_inv [where P = "sch_just C txs k"])
    fix i s s' assume i: "i \<in> set [0..<length txs]" "sch_just C txs k s" "?f i s = Some s'"
    have "i = rep \<or> touches_after C txs i rep \<or> touches_after C txs rep i"
      using i(1) rep by (auto simp: touches_after_def)
    then have "linked C txs i rep" by (auto intro: r_into_equivclp converse_r_into_equivclp)
    then show "sch_just C txs k s'"
      using sch_union_just [OF i(2) _ rep(1)] i(1,2,3) by (cases "i = rep") auto
  qed
qed

lemma touches_after_conn:
  assumes ok: "sch_ok n st" "n = length txs" and fin: "sch_done C txs st" and grows: "sch_grows st st'"
    and sweep: "unknown_rep st \<noteq> None \<longrightarrow> (\<forall>i<n. \<forall>j<n. uf_conn (sch_uf st') i j)"
    and t: "touches_after C txs i j"
  shows "uf_conn (sch_uf st') i j"
proof (cases "tx_known C (txs ! i) \<and> tx_known C (txs ! j)")
  case False
  moreover have "i < length txs" "j < length txs" using t by (auto simp: touches_after_def)
  ultimately have "unknown_rep st \<noteq> None" using fin unfolding sch_done_def by blast
  then show ?thesis using sweep t ok(2) by (auto simp: touches_after_def)
next
  case True
  then obtain ak where ak: "ak \<in> tx_writes C (txs ! i)" "ak \<in> tx_writes C (txs ! j) \<or> ak \<in> tx_reads (txs ! j)"
    using t unfolding touches_after_def by blast
  have ij: "i < j" "j < length txs" using t by (simp_all add: touches_after_def)
  note writes = fin [unfolded sch_done_def, THEN conjunct1, rule_format]
  note reads = fin [unfolded sch_done_def, THEN conjunct2, THEN conjunct1, rule_format]
  have "owned i ak st" using True ak(1) ij by (intro writes) simp_all
  moreover have "owned j ak st" using ak(2) writes [of j ak] reads [of j i ak] True ak(1) ij by blast
  ultimately obtain w where "uf_conn (sch_uf st) i w" "uf_conn (sch_uf st) j w" by (auto simp: owned_def)
  then have "uf_conn (sch_uf st) i j" by (rule uf.conn_trans [OF _ uf.conn_sym])
  then show ?thesis by (rule sch_grows_conn [OF grows])
qed

text \<open>
  C32: the schedule is the partition into connected components. Scheduling always returns; its groups
  list every transaction of the block exactly once, each group in block order and the groups by
  their first transaction; and two transactions share a group exactly when they are linked by a
  chain of pairs in which the later transaction writes or reads a key the earlier one writes, or
  in which one has unknown keys.
\<close>

theorem schedule_components:
  "\<exists>s. schedule C txs = Some s \<and> valid_schedule (length txs) s
     \<and> {(i, j). same_group s i j}
         = {(i, j). i < length txs \<and> j < length txs \<and> equivclp (touches_after C txs) i j}"
proof (cases "txs = []")
  case True
  then show ?thesis by (simp add: schedule_def valid_schedule_def same_group_def)
next
  case False
  let ?n = "length txs" and ?st = "\<lparr>sch_uf = uf_new (length txs), write_owners = [], unknown_rep = None\<rparr>"
  have "sch_ok ?n ?st" using schedule_start by (auto simp: sch_just_def)
  from schedule_loop_spec [OF this order_refl] obtain s1 where s1:
    "foldM (schedule_tx C) (enumerate 0 txs) ?st = Some s1" "sch_ok ?n s1" "sch_done C txs s1" by blast
  obtain s2 where s2: "sweep_unknown ?n s1 = Some s2" "sch_ok ?n s2" "sch_grows s1 s2"
    "unknown_rep s1 \<noteq> None \<longrightarrow> (\<forall>i<?n. \<forall>j<?n. uf_conn (sch_uf s2) i j)"
    using sweep_unknown_spec [OF s1(2)] by blast
  have wf: "uf_wf ?n (sch_uf s2)" using s2(2) by (simp add: sch_ok_def)
  obtain s where s: "to_schedule ?n s2 = Some s" "valid_schedule ?n s"
    "\<forall>i<?n. \<forall>j<?n. same_group s i j \<longleftrightarrow> uf_conn (sch_uf s2) i j" using to_schedule_spec [OF wf] by blast
  have "sch_just C txs ?n s1" using schedule_loop_just [OF order_refl schedule_start] s1(1) by simp
  then have "sch_just C txs ?n s2" using s2(1) by (rule sweep_unknown_just)
  then have "linked C txs i j" if "uf_conn (sch_uf s2) i j" for i j using that by (simp add: sch_just_def)
  moreover have "uf_conn (sch_uf s2) i j" if "linked C txs i j" "i < ?n" for i j
    using that(1)
  proof (induction rule: equivclp_induct)
    case base
    then show ?case using sch_conn_refl [OF s2(2) that(2)] .
  next
    case (step y z)
    then have "uf_conn (sch_uf s2) y z"
      using touches_after_conn [OF s1(2) refl s1(3) s2(3,4)] uf.conn_sym by blast
    then show ?case using step(3) uf.conn_trans by blast
  qed
  moreover have "i < ?n \<and> j < ?n" if "same_group s i j" for i j
    using that s(2) by (force simp: same_group_def valid_schedule_def)
  ultimately have "{(i, j). same_group s i j} = {(i, j). i < ?n \<and> j < ?n \<and> linked C txs i j}"
    using s(3) by blast
  moreover have "schedule C txs = Some s" using False s1(1) s2(1) s(1) by (simp add: schedule_def)
  ultimately show ?thesis using s(2) by blast
qed

section \<open>A conflict between groups\<close>

text \<open>
  Three transfers of different senders: the first and the third write a key \<open>X\<close>, the third also
  writes \<open>K\<close>, which the second reads.
\<close>

definition transfer_with :: "u8 \<Rightarrow> bytes list \<Rightarrow> bytes list \<Rightarrow> transaction" where
  "transfer_with sender rs ws =
     sample_tx\<lparr>tx_from := replicate 32 sender, tx_to := replicate 32 0,
       tx_access_list := [\<lparr>ae_address = replicate 32 9, ae_reads = rs, ae_writes = ws\<rparr>]\<rparr>"

definition read_then_write :: "transaction list" where
  "read_then_write =
     [transfer_with 1 [] [replicate 32 0x58],
      transfer_with 2 [replicate 32 0x4B] [],
      transfer_with 3 [] [replicate 32 0x58, replicate 32 0x4B]]"

declare uf_find.simps [code]

text \<open>
  A read before a write is not a conflict for the scheduler. In the block \<open>read_then_write\<close> the
  second transaction reads a key the third one writes, and \<open>conflicts\<close> says so, yet the two are in
  different groups; and the group of the writer comes first, so running the groups in the order of
  the schedule executes the write before the read that precedes it in the block.
\<close>

theorem schedule_misses_read_before_write:
  "conflicts (read_then_write ! 1) (read_then_write ! 2)
   \<and> map_option (map tx_indices \<circ> sched_groups) (schedule example_crypto read_then_write)
       = Some [[0, 2], [1]]"
  by code_simp

end
