(* ===== verification/Block.thy ===== *)
theory Block
  imports Parallel
begin

unbundle bit_operations_syntax

text \<open>
  Blocks and quorum certificates (\<open>crates/consensus/src/block.rs\<close>). The theory gives the hashes, the
  transaction root and the quorum arithmetic, with the interface that two-thirds quorums overlap.
\<close>

section \<open>Quorums\<close>

definition COMMITTEE_SIZE :: nat where "COMMITTEE_SIZE = 128"
definition QUORUM_THRESHOLD :: nat where "QUORUM_THRESHOLD = 86"
definition EPOCH_LENGTH :: u64 where "EPOCH_LENGTH = 1000"
definition BLOCK_TIME_MS :: u64 where "BLOCK_TIME_MS = 400"

definition div_ceil_usize :: "nat \<Rightarrow> nat \<Rightarrow> nat" where
  "div_ceil_usize a b = (if a mod b = 0 then a div b else a div b + 1)"

definition quorum_for_committee :: "nat \<Rightarrow> nat" where
  "quorum_for_committee committee_size = (if committee_size = 0 then 0 else div_ceil_usize (2 * committee_size) 3)"

definition count_ones :: "u128 \<Rightarrow> u32" where
  "count_ones w = of_nat (length (filter (bit w) [0..<128]))"

text \<open>\<open>1u128 << voter_index\<close>, with the shift distance taken modulo the width as the release profile does.\<close>

definition voter_bit :: "u8 \<Rightarrow> u128" where
  "voter_bit voter_index = push_bit (unat voter_index mod 128) 1"

record quorum_cert =
  qc_slot :: u64
  qc_block_hash :: bytes
  qc_voter_bitmap :: u128
  qc_signatures :: "bytes list"

definition qc_vote_count :: "quorum_cert \<Rightarrow> u32" where
  "qc_vote_count qc = count_ones (qc_voter_bitmap qc)"

definition qc_has_quorum :: "quorum_cert \<Rightarrow> bool" where
  "qc_has_quorum qc \<longleftrightarrow> of_nat QUORUM_THRESHOLD \<le> qc_vote_count qc"

definition qc_has_quorum_for :: "quorum_cert \<Rightarrow> nat \<Rightarrow> bool" where
  "qc_has_quorum_for qc committee_size \<longleftrightarrow> of_nat (quorum_for_committee committee_size) \<le> qc_vote_count qc"

definition qc_preimage :: "quorum_cert \<Rightarrow> bytes" where
  "qc_preimage qc = to_le_bytes 8 (qc_slot qc) @ qc_block_hash qc @ to_le_bytes 16 (qc_voter_bitmap qc)"

definition qc_hash :: "crypto_lib \<Rightarrow> quorum_cert \<Rightarrow> bytes" where
  "qc_hash C qc = poseidon2_hash C (qc_preimage qc)"

definition qc_empty :: quorum_cert where
  "qc_empty = \<lparr>qc_slot = 0, qc_block_hash = replicate 32 0, qc_voter_bitmap = 0, qc_signatures = []\<rparr>"

section \<open>Blocks\<close>

record block_header =
  hdr_slot :: u64
  hdr_epoch :: u64
  hdr_parent_hash :: bytes
  hdr_proposer :: bytes
  hdr_vrf_proof :: bytes
  hdr_qc_previous :: quorum_cert
  hdr_tx_root :: bytes
  hdr_state_root :: bytes
  hdr_timestamp :: u64

definition header_preimage :: "crypto_lib \<Rightarrow> block_header \<Rightarrow> bytes" where
  "header_preimage C h =
     to_le_bytes 8 (hdr_slot h) @ to_le_bytes 8 (hdr_epoch h) @ hdr_parent_hash h @ hdr_proposer h
     @ poseidon2_hash C (hdr_vrf_proof h) @ hdr_tx_root h @ to_le_bytes 8 (hdr_timestamp h)
     @ qc_hash C (hdr_qc_previous h)"

definition header_hash :: "crypto_lib \<Rightarrow> block_header \<Rightarrow> bytes" where
  "header_hash C h = poseidon2_hash C (header_preimage C h)"

record block_body =
  body_transactions :: "transaction list"
  body_encrypted_txs :: "bytes list"
  body_execution_schedule :: execution_schedule

record block =
  blk_header :: block_header
  blk_body :: block_body
  blk_proposer_signature :: bytes

definition block_hash :: "crypto_lib \<Rightarrow> block \<Rightarrow> bytes" where
  "block_hash C b = header_hash C (blk_header b)"

definition block_tx_count :: "block \<Rightarrow> nat" where
  "block_tx_count b = length (body_transactions (blk_body b))"

definition is_genesis :: "block \<Rightarrow> bool" where
  "is_genesis b \<longleftrightarrow> hdr_slot (blk_header b) = 0 \<and> hdr_parent_hash (blk_header b) = replicate 32 0"

definition compute_tx_root :: "crypto_lib \<Rightarrow> transaction list \<Rightarrow> bytes list \<Rightarrow> bytes" where
  "compute_tx_root C txs encrypted_tx_hashes =
     (if txs = [] \<and> encrypted_tx_hashes = [] then replicate 32 0
      else poseidon2_hash C (concat (map (tx_hash C) txs) @ concat encrypted_tx_hashes))"

definition verify_tx_root :: "crypto_lib \<Rightarrow> bytes \<Rightarrow> transaction list \<Rightarrow> bytes list \<Rightarrow> bool" where
  "verify_tx_root C committed_tx_root txs encrypted_tx_hashes \<longleftrightarrow>
     compute_tx_root C txs encrypted_tx_hashes = committed_tx_root"

definition genesis_block :: "bytes \<Rightarrow> u64 \<Rightarrow> block" where
  "genesis_block genesis_state_root timestamp =
     \<lparr>blk_header = \<lparr>hdr_slot = 0, hdr_epoch = 0, hdr_parent_hash = replicate 32 0,
        hdr_proposer = replicate 32 0, hdr_vrf_proof = [], hdr_qc_previous = qc_empty,
        hdr_tx_root = replicate 32 0, hdr_state_root = genesis_state_root, hdr_timestamp = timestamp\<rparr>,
      blk_body = \<lparr>body_transactions = [], body_encrypted_txs = [],
        body_execution_schedule = \<lparr>sched_groups = [], total_txs = 0\<rparr>\<rparr>,
      blk_proposer_signature = []\<rparr>"

section \<open>Overlap of quorums\<close>

text \<open>What certificates rely on: any two quorums of a committee share a third of it.\<close>

locale quorum_size =
  fixes quorum :: "nat \<Rightarrow> nat"
  assumes two_thirds: "2 * n \<le> 3 * quorum n"
begin

lemma overlap:
  assumes "A \<subseteq> {..<n}" "B \<subseteq> {..<n}" "quorum n \<le> card A" "quorum n \<le> card B"
  shows "n \<le> 3 * card (A \<inter> B)"
proof -
  have fin: "finite A" "finite B" using assms(1,2) finite_subset by blast+
  have "card (A \<union> B) \<le> n" using card_mono [of "{..<n}" "A \<union> B"] assms(1,2) by simp
  then have "card A + card B \<le> n + card (A \<inter> B)" using card_Un_Int [OF fin] by simp
  then show ?thesis using two_thirds [of n] assms(3,4) by simp
qed

lemma overlap_nonempty:
  assumes "A \<subseteq> {..<n}" "B \<subseteq> {..<n}" "quorum n \<le> card A" "quorum n \<le> card B" "0 < n"
  shows "A \<inter> B \<noteq> {}"
  using overlap [OF assms(1-4)] assms(5) by (auto simp: card_eq_0_iff)

end

lemma quorum_for_committee_bounds: "2 * n \<le> 3 * quorum_for_committee n" "quorum_for_committee n \<le> n"
proof -
  have "div_ceil_usize (2 * n) 3 = (2 * n + 2) div 3" by (simp add: div_ceil_usize_def) presburger
  then show "2 * n \<le> 3 * quorum_for_committee n" "quorum_for_committee n \<le> n"
    by (auto simp: quorum_for_committee_def)
qed

interpretation committee: quorum_size quorum_for_committee
  by unfold_locales (rule quorum_for_committee_bounds)

lemma production_quorum: "quorum_for_committee COMMITTEE_SIZE = QUORUM_THRESHOLD"
  by (simp add: quorum_for_committee_def COMMITTEE_SIZE_def QUORUM_THRESHOLD_def div_ceil_usize_def)

section \<open>Bitmaps as sets of voters\<close>

definition voters :: "u128 \<Rightarrow> nat set" where
  "voters w = {i. i < 128 \<and> bit w i}"

lemma finite_voters [simp]: "finite (voters w)"
  by (simp add: voters_def)

lemma card_voters_le: "card (voters w) \<le> 128"
  using card_mono [of "{..<128}" "voters w"] by (auto simp: voters_def)

lemma voters_0 [simp]: "voters 0 = {}"
  by (simp add: voters_def)

lemma voters_set_bit: "i < 128 \<Longrightarrow> voters (w OR push_bit i 1) = insert i (voters w)"
  by (auto simp: voters_def bit_or_iff bit_exp_iff)

lemma unat_count_ones: "unat (count_ones w) = card (voters w)"
proof -
  have "voters w = set (filter (bit w) [0..<128])" by (auto simp: voters_def)
  then have "card (voters w) = length (filter (bit w) [0..<128])"
    by (metis distinct_card distinct_filter distinct_upt)
  then show ?thesis unfolding count_ones_def
    using card_voters_le [of w] by (simp add: unat_of_nat_small)
qed

lemma voters_voter_bit [simp]: "voters (w OR voter_bit i) = insert (unat i mod 128) (voters w)"
  unfolding voter_bit_def by (rule voters_set_bit) simp

lemma voter_bit_and: "w AND voter_bit i \<noteq> 0 \<longleftrightarrow> unat i mod 128 \<in> voters w"
proof -
  have "w AND voter_bit i = (if bit w (unat i mod 128) then voter_bit i else 0)"
    by (rule bit_word_eqI) (auto simp: voter_bit_def bit_simps)
  moreover have "voter_bit i \<noteq> 0" by (simp add: voter_bit_def)
  ultimately show ?thesis by (simp add: voters_def)
qed

lemma quorum_le_u32:
  "n \<le> 2 ^ 31 \<Longrightarrow> (of_nat (quorum_for_committee n) :: u32) \<le> w \<longleftrightarrow> quorum_for_committee n \<le> unat w"
  using quorum_for_committee_bounds(2) [of n] by (simp add: word_le_nat_alt unat_of_nat_small)

lemma qc_has_quorum_for_iff:
  "n \<le> 2 ^ 31 \<Longrightarrow> qc_has_quorum_for qc n \<longleftrightarrow> quorum_for_committee n \<le> card (voters (qc_voter_bitmap qc))"
  by (simp add: qc_has_quorum_for_def qc_vote_count_def quorum_le_u32 unat_count_ones)

section \<open>Collecting votes into a bitmap\<close>

text \<open>
  The three certificates (votes, view changes, finality votes) are collected by the same loop: a
  message is skipped, or its sender's bit is set for the first time and the count goes up. What
  the loop counts is therefore the number of distinct senders of valid messages.
\<close>

locale vote_collector =
  fixes collect :: "'m \<Rightarrow> 'c \<Rightarrow> 'c"
    and bitmap :: "'c \<Rightarrow> u128"
    and valid_count :: "'c \<Rightarrow> u32"
    and sender :: "'m \<Rightarrow> nat option"
  assumes sender_bound: "sender m = Some i \<Longrightarrow> i < 128"
    and skip_invalid: "sender m = None \<Longrightarrow> collect m c = c"
    and skip_duplicate: "sender m = Some i \<Longrightarrow> i \<in> voters (bitmap c) \<Longrightarrow> collect m c = c"
    and set_bit: "sender m = Some i \<Longrightarrow> i \<notin> voters (bitmap c) \<Longrightarrow>
      voters (bitmap (collect m c)) = insert i (voters (bitmap c)) \<and>
      valid_count (collect m c) = valid_count c + 1"
begin

lemma collect_voters:
  "voters (bitmap (collect m c)) = voters (bitmap c) \<union> set_option (sender m)"
proof (cases "sender m")
  case (Some i)
  then show ?thesis
    using set_bit [of m i c] skip_duplicate [of m i c] by (cases "i \<in> voters (bitmap c)") auto
qed (simp add: skip_invalid)

lemma fold_voters:
  "voters (bitmap (fold collect ms c)) = voters (bitmap c) \<union> {i. \<exists>m\<in>set ms. sender m = Some i}"
  by (induction ms arbitrary: c) (auto simp: collect_voters)

lemma collect_count:
  assumes "unat (valid_count c) = card (voters (bitmap c))"
  shows "unat (valid_count (collect m c)) = card (voters (bitmap (collect m c)))"
proof -
  have bound: "unat (valid_count c) \<le> 128" using assms card_voters_le [of "bitmap c"] by simp
  consider "collect m c = c" | i where "sender m = Some i" "i \<notin> voters (bitmap c)"
    using skip_invalid [of m c] skip_duplicate [of m _ c] by (cases "sender m") auto
  then show ?thesis
  proof cases
    case 2
    have "unat (valid_count c + 1) = unat (valid_count c) + 1"
      using bound by (simp add: unat_add_lem [THEN iffD1])
    then show ?thesis using set_bit [OF 2] assms 2(2) by simp
  qed (simp add: assms)
qed

lemma fold_count:
  "unat (valid_count c) = card (voters (bitmap c)) \<Longrightarrow>
   unat (valid_count (fold collect ms c)) = card (voters (bitmap (fold collect ms c)))"
  by (induction ms arbitrary: c) (auto intro: collect_count)

lemma count_senders:
  assumes "bitmap c = 0" "valid_count c = 0"
  shows "unat (valid_count (fold collect ms c)) = card {i. \<exists>m\<in>set ms. sender m = Some i}"
  using fold_count [of c ms] fold_voters [of ms c] assms by simp

end

end
