(* ===== verification/ViewChange.thy ===== *)
theory ViewChange
  imports Block
begin

unbundle bit_operations_syntax

text \<open>
  Recovery from a failed proposer (\<open>crates/consensus/src/view_change.rs\<close>): the process-wide timeouts
  and their overrides, the per-slot timeout tracker, view-change messages and their certificate, and
  the fallback leader of a recovery view. Signing is the parameter \<open>sign\<close>, the FALCON library called
  with the validator's secret key; it may fail.
\<close>

section \<open>Timeouts\<close>

definition MIN_PROPOSAL_TIMEOUT_MS :: u64 where "MIN_PROPOSAL_TIMEOUT_MS = 50"
definition MAX_PROPOSAL_TIMEOUT_MS :: u64 where "MAX_PROPOSAL_TIMEOUT_MS = 5000"
definition MIN_PROGRESS_TIMEOUT_MS :: u64 where "MIN_PROGRESS_TIMEOUT_MS = 500"
definition MAX_PROGRESS_TIMEOUT_MS :: u64 where "MAX_PROGRESS_TIMEOUT_MS = 60000"
definition SLOT_DURATION_MS :: u64 where "SLOT_DURATION_MS = 400"
definition MIN_SLOT_DURATION_MS :: u64 where "MIN_SLOT_DURATION_MS = 100"
definition MAX_SLOT_DURATION_MS :: u64 where "MAX_SLOT_DURATION_MS = 10000"

text \<open>The three environment variables, as \<open>parse::<u64>\<close> reads them.\<close>

record timing_env =
  env_slot_duration :: "u64 option"
  env_proposal_timeout :: "u64 option"
  env_progress_timeout :: "u64 option"

text \<open>The three atomics; 0 is "unset".\<close>

record timing =
  slot_duration_override :: u64
  proposal_timeout_override :: u64
  progress_timeout_override :: u64

definition timing_initial :: timing where
  "timing_initial = \<lparr>slot_duration_override = 0, proposal_timeout_override = 0, progress_timeout_override = 0\<rparr>"

definition clamp :: "u64 \<Rightarrow> u64 \<Rightarrow> u64 \<Rightarrow> u64" where
  "clamp v lo hi = (if v < lo then lo else if hi < v then hi else v)"

definition env_in_range :: "u64 \<Rightarrow> u64 \<Rightarrow> u64 option \<Rightarrow> u64 option" where
  "env_in_range lo hi v = (case v of Some x \<Rightarrow> if lo \<le> x \<and> x \<le> hi then Some x else None | None \<Rightarrow> None)"

definition pin :: "u64 \<Rightarrow> u64 \<Rightarrow> u64" where
  "pin value cell = (if cell = 0 then value else cell)"

definition slot_duration_ms :: "timing_env \<Rightarrow> timing \<Rightarrow> u64 \<times> timing" where
  "slot_duration_ms env t =
     (if slot_duration_override t \<noteq> 0 then (slot_duration_override t, t)
      else case env_in_range MIN_SLOT_DURATION_MS MAX_SLOT_DURATION_MS (env_slot_duration env) of
        Some env_ms \<Rightarrow> (env_ms, slot_duration_override_update (pin env_ms) t)
      | None \<Rightarrow> (SLOT_DURATION_MS, t))"

definition set_slot_duration_ms :: "timing_env \<Rightarrow> u64 \<Rightarrow> timing \<Rightarrow> u64 \<times> timing" where
  "set_slot_duration_ms env ms t =
     (let clamped = clamp ms MIN_SLOT_DURATION_MS MAX_SLOT_DURATION_MS
      in slot_duration_ms env (slot_duration_override_update (pin clamped) t))"

definition proposal_timeout_ms :: "timing_env \<Rightarrow> timing \<Rightarrow> u64 \<times> timing" where
  "proposal_timeout_ms env t =
     (if proposal_timeout_override t \<noteq> 0 then (proposal_timeout_override t, t)
      else case env_in_range MIN_PROPOSAL_TIMEOUT_MS MAX_PROPOSAL_TIMEOUT_MS (env_proposal_timeout env) of
        Some env_ms \<Rightarrow> (env_ms, proposal_timeout_override_update (pin env_ms) t)
      | None \<Rightarrow> (case slot_duration_ms env t of (d, t) \<Rightarrow> (d div 2, t)))"

definition set_proposal_timeout_ms :: "timing_env \<Rightarrow> u64 \<Rightarrow> timing \<Rightarrow> u64 \<times> timing" where
  "set_proposal_timeout_ms env ms t =
     (let clamped = clamp ms MIN_PROPOSAL_TIMEOUT_MS MAX_PROPOSAL_TIMEOUT_MS
      in proposal_timeout_ms env (proposal_timeout_override_update (pin clamped) t))"

definition progress_timeout_ms :: "timing_env \<Rightarrow> timing \<Rightarrow> u64 \<times> timing" where
  "progress_timeout_ms env t =
     (if progress_timeout_override t \<noteq> 0 then (progress_timeout_override t, t)
      else case env_in_range MIN_PROGRESS_TIMEOUT_MS MAX_PROGRESS_TIMEOUT_MS (env_progress_timeout env) of
        Some env_ms \<Rightarrow> (env_ms, progress_timeout_override_update (pin env_ms) t)
      | None \<Rightarrow> (case slot_duration_ms env t of (d, t) \<Rightarrow> (saturating_mul d 5, t)))"

definition set_progress_timeout_ms :: "timing_env \<Rightarrow> u64 \<Rightarrow> timing \<Rightarrow> u64 \<times> timing" where
  "set_progress_timeout_ms env ms t =
     (let clamped = clamp ms MIN_PROGRESS_TIMEOUT_MS MAX_PROGRESS_TIMEOUT_MS
      in progress_timeout_ms env (progress_timeout_override_update (pin clamped) t))"

section \<open>Messages and trackers\<close>

record view_change_message =
  vcm_slot :: u64
  vcm_highest_qc :: quorum_cert
  vcm_voter_index :: u8
  vcm_voter_address :: bytes
  vcm_signature :: bytes

record view_change_qc =
  vcqc_slot :: u64
  vcqc_highest_qc :: quorum_cert
  vcqc_voter_bitmap :: u128
  vcqc_vote_count :: u32

definition vcqc_has_quorum :: "view_change_qc \<Rightarrow> bool" where
  "vcqc_has_quorum q \<longleftrightarrow> of_nat QUORUM_THRESHOLD \<le> vcqc_vote_count q"

record timeout_tracker =
  tt_slot :: u64
  tt_slot_start_ms :: u64
  tt_messages :: "view_change_message list"
  tt_proposal_received :: bool
  tt_view_change_qc :: "view_change_qc option"

definition timeout_tracker_new :: "u64 \<Rightarrow> u64 \<Rightarrow> timeout_tracker" where
  "timeout_tracker_new slot slot_start_ms =
     \<lparr>tt_slot = slot, tt_slot_start_ms = slot_start_ms, tt_messages = [], tt_proposal_received = False,
      tt_view_change_qc = None\<rparr>"

definition receive_proposal :: "timeout_tracker \<Rightarrow> timeout_tracker" where
  "receive_proposal tt = tt\<lparr>tt_proposal_received := True\<rparr>"

definition is_expired :: "timing_env \<Rightarrow> timeout_tracker \<Rightarrow> u64 \<Rightarrow> timing \<Rightarrow> bool \<times> timing" where
  "is_expired env tt now_ms t =
     (if tt_proposal_received tt \<or> tt_view_change_qc tt \<noteq> None then (False, t)
      else case proposal_timeout_ms env t of
        (timeout, t) \<Rightarrow> (timeout \<le> saturating_sub now_ms (tt_slot_start_ms tt), t))"

definition slot_elapsed :: "timing_env \<Rightarrow> timeout_tracker \<Rightarrow> u64 \<Rightarrow> timing \<Rightarrow> bool \<times> timing" where
  "slot_elapsed env tt now_ms t =
     (case slot_duration_ms env t of
        (duration, t) \<Rightarrow> (duration \<le> saturating_sub now_ms (tt_slot_start_ms tt), t))"

definition ms_until_timeout :: "timing_env \<Rightarrow> timeout_tracker \<Rightarrow> u64 \<Rightarrow> timing \<Rightarrow> u64 \<times> timing" where
  "ms_until_timeout env tt now_ms t =
     (let elapsed = saturating_sub now_ms (tt_slot_start_ms tt)
      in case proposal_timeout_ms env t of (timeout, t) \<Rightarrow> (saturating_sub timeout elapsed, t))"

definition view_change_sign_message_from_hash :: "u64 \<Rightarrow> u64 \<Rightarrow> bytes \<Rightarrow> bytes" where
  "view_change_sign_message_from_hash chain_id slot highest_qc_hash =
     ascii ''view_change'' @ to_le_bytes 8 chain_id @ to_le_bytes 8 slot @ highest_qc_hash"

definition view_change_sign_message :: "crypto_lib \<Rightarrow> u64 \<Rightarrow> u64 \<Rightarrow> quorum_cert \<Rightarrow> bytes" where
  "view_change_sign_message C chain_id slot highest_qc =
     view_change_sign_message_from_hash chain_id slot (qc_hash C highest_qc)"

datatype consensus_error = VoteSigningFailed | InvalidQcPrevious | TimeoutSigningFailed | ViewChangeSigningFailed

definition create_view_change ::
  "crypto_lib \<Rightarrow> u64 \<Rightarrow> u64 \<Rightarrow> quorum_cert \<Rightarrow> u8 \<Rightarrow> bytes \<Rightarrow> (bytes \<Rightarrow> bytes option)
   \<Rightarrow> consensus_error + view_change_message" where
  "create_view_change C chain_id slot highest_qc voter_index voter_address sign =
     (case sign (view_change_sign_message C chain_id slot highest_qc) of
        None \<Rightarrow> Inl ViewChangeSigningFailed
      | Some sig \<Rightarrow> Inr \<lparr>vcm_slot = slot, vcm_highest_qc = highest_qc, vcm_voter_index = voter_index,
          vcm_voter_address = voter_address, vcm_signature = sig\<rparr>)"

definition verify_view_change :: "crypto_lib \<Rightarrow> u64 \<Rightarrow> view_change_message \<Rightarrow> bytes \<Rightarrow> bool" where
  "verify_view_change C chain_id msg public_key \<longleftrightarrow>
     signature_ok C (view_change_sign_message C chain_id (vcm_slot msg) (vcm_highest_qc msg)) public_key
       (vcm_signature msg)"

section \<open>The view-change certificate\<close>

record vc_collection =
  vcc_voter_bitmap :: u128
  vcc_valid_count :: u32
  vcc_highest_qc :: quorum_cert

definition collect_view_change ::
  "crypto_lib \<Rightarrow> u64 \<Rightarrow> u64 \<Rightarrow> bytes list \<Rightarrow> view_change_message \<Rightarrow> vc_collection \<Rightarrow> vc_collection" where
  "collect_view_change C chain_id slot committee_keys msg c =
     (let idx = unat (vcm_voter_index msg)
      in if vcm_slot msg \<noteq> slot then c
         else if length committee_keys \<le> idx then c
         else if vcc_voter_bitmap c AND voter_bit (vcm_voter_index msg) \<noteq> 0 then c
         else if verify_view_change C chain_id msg (committee_keys ! idx) then
           c\<lparr>vcc_voter_bitmap := vcc_voter_bitmap c OR voter_bit (vcm_voter_index msg),
             vcc_valid_count := vcc_valid_count c + 1,
             vcc_highest_qc :=
               (if qc_slot (vcc_highest_qc c) < qc_slot (vcm_highest_qc msg)
                   \<and> qc_has_quorum_for (vcm_highest_qc msg) (length committee_keys)
                then vcm_highest_qc msg else vcc_highest_qc c)\<rparr>
         else c)"

definition vc_collection_initial :: vc_collection where
  "vc_collection_initial = \<lparr>vcc_voter_bitmap = 0, vcc_valid_count = 0, vcc_highest_qc = qc_empty\<rparr>"

definition try_form_view_change_qc ::
  "crypto_lib \<Rightarrow> u64 \<Rightarrow> u64 \<Rightarrow> view_change_message list \<Rightarrow> bytes list \<Rightarrow> view_change_qc option" where
  "try_form_view_change_qc C chain_id slot messages committee_keys =
     (let c = fold (collect_view_change C chain_id slot committee_keys) messages vc_collection_initial;
          threshold = quorum_for_committee (length committee_keys)
      in if of_nat threshold \<le> vcc_valid_count c then
           Some \<lparr>vcqc_slot = slot, vcqc_highest_qc = vcc_highest_qc c,
             vcqc_voter_bitmap = vcc_voter_bitmap c, vcqc_vote_count = vcc_valid_count c\<rparr>
         else None)"

section \<open>Fallback leaders\<close>

definition fallback_proposer :: "(bytes \<times> u64) list \<Rightarrow> bytes option" where
  "fallback_proposer sorted_scores = (if 1 < length sorted_scores then Some (fst (sorted_scores ! 1)) else None)"

definition FALLBACK_PROPOSAL_MARKER :: bytes where
  "FALLBACK_PROPOSAL_MARKER = ascii ''FALLBACK''"

definition fallback_leader_index :: "u64 \<Rightarrow> u64 \<Rightarrow> nat \<Rightarrow> nat" where
  "fallback_leader_index height view committee_size =
     (if committee_size = 0 then 0 else unat (height + view) mod committee_size)"

definition trailing_zeros :: "u128 \<Rightarrow> u32" where
  "trailing_zeros w = of_nat (length (takeWhile (\<lambda>i. \<not> bit w i) [0..<128]))"

definition deterministic_fallback_index :: "u128 \<Rightarrow> u8 option" where
  "deterministic_fallback_index voter_bitmap =
     (if voter_bitmap = 0 then None else Some (ucast (trailing_zeros voter_bitmap)))"

definition encode_fallback_proof :: "u64 \<Rightarrow> u64 \<Rightarrow> bytes" where
  "encode_fallback_proof vc_qc_slot view =
     FALLBACK_PROPOSAL_MARKER @ to_le_bytes 8 vc_qc_slot @ to_le_bytes 8 view"

definition is_fallback_proof :: "bytes \<Rightarrow> bool" where
  "is_fallback_proof vrf_proof \<longleftrightarrow>
     length FALLBACK_PROPOSAL_MARKER \<le> length vrf_proof
     \<and> take (length FALLBACK_PROPOSAL_MARKER) vrf_proof = FALLBACK_PROPOSAL_MARKER"

definition decode_fallback_proof :: "bytes \<Rightarrow> (u64 \<times> u64) option" where
  "decode_fallback_proof vrf_proof =
     (if \<not> is_fallback_proof vrf_proof then None
      else let after_marker = drop (length FALLBACK_PROPOSAL_MARKER) vrf_proof
           in if length after_marker < 16 then None
              else Some (from_le_bytes (take 8 after_marker), from_le_bytes (take 8 (drop 8 after_marker))))"

definition empty_block_header :: "u64 \<Rightarrow> u64 \<Rightarrow> bytes \<Rightarrow> quorum_cert \<Rightarrow> bytes \<Rightarrow> u64 \<Rightarrow> block_header" where
  "empty_block_header slot epoch parent_hash qc_previous state_root timestamp =
     \<lparr>hdr_slot = slot, hdr_epoch = epoch, hdr_parent_hash = parent_hash, hdr_proposer = replicate 32 0,
      hdr_vrf_proof = [], hdr_qc_previous = qc_previous, hdr_tx_root = replicate 32 0,
      hdr_state_root = state_root, hdr_timestamp = timestamp\<rparr>"


section \<open>Timeouts stay in range and stay pinned\<close>

datatype timing_op = GetSlot | SetSlot u64 | GetProposal | SetProposal u64 | GetProgress | SetProgress u64

fun timing_step :: "timing_env \<Rightarrow> timing_op \<Rightarrow> timing \<Rightarrow> u64 \<times> timing" where
  "timing_step env GetSlot t = slot_duration_ms env t"
| "timing_step env (SetSlot ms) t = set_slot_duration_ms env ms t"
| "timing_step env GetProposal t = proposal_timeout_ms env t"
| "timing_step env (SetProposal ms) t = set_proposal_timeout_ms env ms t"
| "timing_step env GetProgress t = progress_timeout_ms env t"
| "timing_step env (SetProgress ms) t = set_progress_timeout_ms env ms t"

fun op_range :: "timing_op \<Rightarrow> u64 set" where
  "op_range GetSlot = {MIN_SLOT_DURATION_MS..MAX_SLOT_DURATION_MS}"
| "op_range (SetSlot ms) = {MIN_SLOT_DURATION_MS..MAX_SLOT_DURATION_MS}"
| "op_range GetProposal = {MIN_PROPOSAL_TIMEOUT_MS..MAX_PROPOSAL_TIMEOUT_MS}"
| "op_range (SetProposal ms) = {MIN_PROPOSAL_TIMEOUT_MS..MAX_PROPOSAL_TIMEOUT_MS}"
| "op_range GetProgress = {MIN_PROGRESS_TIMEOUT_MS..MAX_PROGRESS_TIMEOUT_MS}"
| "op_range (SetProgress ms) = {MIN_PROGRESS_TIMEOUT_MS..MAX_PROGRESS_TIMEOUT_MS}"

definition timing_run :: "timing_env \<Rightarrow> timing_op list \<Rightarrow> timing \<Rightarrow> timing" where
  "timing_run env ops t = fold (\<lambda>op t. snd (timing_step env op t)) ops t"

definition timing_wf :: "timing \<Rightarrow> bool" where
  "timing_wf t \<longleftrightarrow>
     slot_duration_override t \<in> insert 0 {MIN_SLOT_DURATION_MS..MAX_SLOT_DURATION_MS}
     \<and> proposal_timeout_override t \<in> insert 0 {MIN_PROPOSAL_TIMEOUT_MS..MAX_PROPOSAL_TIMEOUT_MS}
     \<and> progress_timeout_override t \<in> insert 0 {MIN_PROGRESS_TIMEOUT_MS..MAX_PROGRESS_TIMEOUT_MS}"

lemmas timing_consts = MIN_PROPOSAL_TIMEOUT_MS_def MAX_PROPOSAL_TIMEOUT_MS_def MIN_PROGRESS_TIMEOUT_MS_def
  MAX_PROGRESS_TIMEOUT_MS_def SLOT_DURATION_MS_def MIN_SLOT_DURATION_MS_def MAX_SLOT_DURATION_MS_def

lemma timing_initial_wf: "timing_wf timing_initial"
  by (simp add: timing_wf_def timing_initial_def)

lemma env_in_range_Some: "env_in_range lo hi v = Some x \<Longrightarrow> lo \<le> x \<and> x \<le> hi"
  by (auto simp: env_in_range_def split: option.splits if_splits)

lemma clamp_range: "lo \<le> hi \<Longrightarrow> lo \<le> clamp v lo hi \<and> clamp v lo hi \<le> hi"
  by (auto simp: clamp_def not_less)

lemma slot_duration_spec:
  assumes "timing_wf t" "slot_duration_ms env t = (d, t')"
  shows "timing_wf t' \<and> MIN_SLOT_DURATION_MS \<le> d \<and> d \<le> MAX_SLOT_DURATION_MS
    \<and> proposal_timeout_override t' = proposal_timeout_override t
    \<and> progress_timeout_override t' = progress_timeout_override t"
  using assms env_in_range_Some [of MIN_SLOT_DURATION_MS MAX_SLOT_DURATION_MS "env_slot_duration env"]
  by (auto simp: slot_duration_ms_def timing_wf_def pin_def split: if_splits option.splits)
    (auto simp: timing_consts)

lemma half_range:
  assumes "MIN_SLOT_DURATION_MS \<le> d" "d \<le> MAX_SLOT_DURATION_MS"
  shows "MIN_PROPOSAL_TIMEOUT_MS \<le> d div 2 \<and> d div 2 \<le> MAX_PROPOSAL_TIMEOUT_MS"
  using assms by (auto simp: timing_consts word_le_nat_alt unat_div)

lemma five_range:
  assumes "MIN_SLOT_DURATION_MS \<le> d" "d \<le> MAX_SLOT_DURATION_MS"
  shows "MIN_PROGRESS_TIMEOUT_MS \<le> saturating_mul d 5 \<and> saturating_mul d 5 \<le> MAX_PROGRESS_TIMEOUT_MS"
  using assms by (auto simp: timing_consts saturating_mul_def word_le_nat_alt unat_mult_lem [THEN iffD1])

lemma proposal_timeout_spec:
  assumes "timing_wf t" "proposal_timeout_ms env t = (d, t')"
  shows "timing_wf t' \<and> MIN_PROPOSAL_TIMEOUT_MS \<le> d \<and> d \<le> MAX_PROPOSAL_TIMEOUT_MS"
proof (cases "proposal_timeout_override t \<noteq> 0
    \<or> env_in_range MIN_PROPOSAL_TIMEOUT_MS MAX_PROPOSAL_TIMEOUT_MS (env_proposal_timeout env) \<noteq> None")
  case True
  then show ?thesis
    using assms env_in_range_Some [of MIN_PROPOSAL_TIMEOUT_MS MAX_PROPOSAL_TIMEOUT_MS "env_proposal_timeout env"]
    by (auto simp: proposal_timeout_ms_def timing_wf_def pin_def split: if_splits option.splits)
next
  case False
  then obtain s where "slot_duration_ms env t = (s, t')" "d = s div 2"
    using assms(2) by (auto simp: proposal_timeout_ms_def split: prod.splits)
  then show ?thesis using slot_duration_spec [OF assms(1)] half_range by blast
qed

lemma progress_timeout_spec:
  assumes "timing_wf t" "progress_timeout_ms env t = (d, t')"
  shows "timing_wf t' \<and> MIN_PROGRESS_TIMEOUT_MS \<le> d \<and> d \<le> MAX_PROGRESS_TIMEOUT_MS"
proof (cases "progress_timeout_override t \<noteq> 0
    \<or> env_in_range MIN_PROGRESS_TIMEOUT_MS MAX_PROGRESS_TIMEOUT_MS (env_progress_timeout env) \<noteq> None")
  case True
  then show ?thesis
    using assms env_in_range_Some [of MIN_PROGRESS_TIMEOUT_MS MAX_PROGRESS_TIMEOUT_MS "env_progress_timeout env"]
    by (auto simp: progress_timeout_ms_def timing_wf_def pin_def split: if_splits option.splits)
next
  case False
  then obtain s where "slot_duration_ms env t = (s, t')" "d = saturating_mul s 5"
    using assms(2) by (auto simp: progress_timeout_ms_def split: prod.splits)
  then show ?thesis using slot_duration_spec [OF assms(1)] five_range by blast
qed

lemma pin_wf:
  assumes "timing_wf t"
  shows "timing_wf (slot_duration_override_update (pin (clamp ms MIN_SLOT_DURATION_MS MAX_SLOT_DURATION_MS)) t)"
    and "timing_wf (proposal_timeout_override_update (pin (clamp ms MIN_PROPOSAL_TIMEOUT_MS MAX_PROPOSAL_TIMEOUT_MS)) t)"
    and "timing_wf (progress_timeout_override_update (pin (clamp ms MIN_PROGRESS_TIMEOUT_MS MAX_PROGRESS_TIMEOUT_MS)) t)"
  using assms clamp_range [of MIN_SLOT_DURATION_MS MAX_SLOT_DURATION_MS ms]
    clamp_range [of MIN_PROPOSAL_TIMEOUT_MS MAX_PROPOSAL_TIMEOUT_MS ms]
    clamp_range [of MIN_PROGRESS_TIMEOUT_MS MAX_PROGRESS_TIMEOUT_MS ms]
  by (auto simp: timing_wf_def pin_def) (simp_all add: timing_consts)

lemma timing_step_wf:
  assumes "timing_wf t"
  shows "timing_wf (snd (timing_step env op t))" "fst (timing_step env op t) \<in> op_range op"
proof -
  obtain d t' where eq: "timing_step env op t = (d, t')" by fastforce
  have "timing_wf t' \<and> d \<in> op_range op"
    using eq slot_duration_spec [OF assms] proposal_timeout_spec [OF assms] progress_timeout_spec [OF assms]
      slot_duration_spec [OF pin_wf(1) [OF assms]] proposal_timeout_spec [OF pin_wf(2) [OF assms]]
      progress_timeout_spec [OF pin_wf(3) [OF assms]]
    by (cases op) (auto simp only: timing_step.simps op_range.simps set_slot_duration_ms_def
        set_proposal_timeout_ms_def set_progress_timeout_ms_def Let_def atLeastAtMost_iff)
  then show "timing_wf (snd (timing_step env op t))" "fst (timing_step env op t) \<in> op_range op"
    by (simp_all add: eq)
qed

lemma timing_run_wf: "timing_wf t \<Longrightarrow> timing_wf (timing_run env ops t)"
  by (induction ops arbitrary: t) (simp_all add: timing_run_def timing_step_wf)

lemma slot_pinned_step:
  "slot_duration_override t \<noteq> 0 \<Longrightarrow>
   slot_duration_override (snd (timing_step env op t)) = slot_duration_override t"
  by (cases op)
    (auto simp: slot_duration_ms_def set_slot_duration_ms_def proposal_timeout_ms_def
      set_proposal_timeout_ms_def progress_timeout_ms_def set_progress_timeout_ms_def pin_def Let_def
      split: option.splits)

lemma slot_pinned_run:
  "slot_duration_override t \<noteq> 0 \<Longrightarrow>
   slot_duration_override (timing_run env ops t) = slot_duration_override t"
  by (induction ops arbitrary: t) (simp_all add: timing_run_def slot_pinned_step)

lemma set_slot_pins:
  assumes "set_slot_duration_ms env ms t = (d, t')"
  shows "d = slot_duration_override t' \<and> d \<noteq> 0"
proof -
  let ?c = "clamp ms MIN_SLOT_DURATION_MS MAX_SLOT_DURATION_MS"
  have "?c \<noteq> 0" by (auto simp: clamp_def timing_consts)
  then have "pin ?c (slot_duration_override t) \<noteq> 0" by (simp add: pin_def)
  then show ?thesis using assms by (auto simp: set_slot_duration_ms_def slot_duration_ms_def Let_def)
qed

text \<open>
  Whatever the environment and the order of calls, every timeout the process ever reads or sets is
  inside its documented bounds, also the derived ones; and the slot duration that the first
  \<open>set_slot_duration_ms\<close> returns is what every later read returns, however often the overrides are
  set again.
\<close>

theorem timeouts_bounded_and_pinned:
  "fst (timing_step env op (timing_run env ops timing_initial)) \<in> op_range op
   \<and> fst (slot_duration_ms env (timing_run env later
        (snd (set_slot_duration_ms env ms (timing_run env ops timing_initial)))))
     = fst (set_slot_duration_ms env ms (timing_run env ops timing_initial))"
proof
  show "fst (timing_step env op (timing_run env ops timing_initial)) \<in> op_range op"
    by (rule timing_step_wf(2) [OF timing_run_wf [OF timing_initial_wf]])
next
  obtain d t where set_slot: "set_slot_duration_ms env ms (timing_run env ops timing_initial) = (d, t)"
    by fastforce
  have "d = slot_duration_override t" "slot_duration_override t \<noteq> 0"
    using set_slot_pins [OF set_slot] by auto
  then show "fst (slot_duration_ms env (timing_run env later
        (snd (set_slot_duration_ms env ms (timing_run env ops timing_initial)))))
     = fst (set_slot_duration_ms env ms (timing_run env ops timing_initial))"
    by (simp add: set_slot slot_duration_ms_def slot_pinned_run)
qed

section \<open>Counting view changes\<close>

definition vc_sender :: "crypto_lib \<Rightarrow> u64 \<Rightarrow> u64 \<Rightarrow> bytes list \<Rightarrow> view_change_message \<Rightarrow> nat option" where
  "vc_sender C chain_id slot committee_keys msg =
     (let idx = unat (vcm_voter_index msg)
      in if vcm_slot msg = slot \<and> idx < length committee_keys
           \<and> verify_view_change C chain_id msg (committee_keys ! idx)
         then Some (idx mod 128) else None)"

interpretation vc: vote_collector "collect_view_change C chain_id slot keys" vcc_voter_bitmap vcc_valid_count
    "vc_sender C chain_id slot keys" for C chain_id slot keys
  by unfold_locales
    (auto simp: vc_sender_def collect_view_change_def Let_def voter_bit_and not_le split: if_splits)

definition vc_reporters :: "crypto_lib \<Rightarrow> u64 \<Rightarrow> u64 \<Rightarrow> bytes list \<Rightarrow> view_change_message list \<Rightarrow> nat set" where
  "vc_reporters C chain_id slot committee_keys messages =
     {i. i < length committee_keys \<and> (\<exists>m\<in>set messages. vcm_slot m = slot \<and> unat (vcm_voter_index m) = i
          \<and> verify_view_change C chain_id m (committee_keys ! i))}"

lemma vc_senders:
  "length keys \<le> 128 \<Longrightarrow>
   {i. \<exists>m\<in>set messages. vc_sender C chain_id slot keys m = Some i} = vc_reporters C chain_id slot keys messages"
  by (auto simp: vc_sender_def vc_reporters_def Let_def split: if_splits)

lemma collect_view_change_qc_mono:
  "qc_slot (vcc_highest_qc c) \<le> qc_slot (vcc_highest_qc (collect_view_change C chain_id slot keys m c))"
  by (auto simp: collect_view_change_def Let_def)

lemma fold_view_change_qc_mono:
  "qc_slot (vcc_highest_qc c)
     \<le> qc_slot (vcc_highest_qc (fold (collect_view_change C chain_id slot keys) ms c))"
  by (induction ms arbitrary: c) (auto intro: order_trans [OF collect_view_change_qc_mono])

lemma fold_view_change_qc_cases:
  "vcc_highest_qc (fold (collect_view_change C chain_id slot keys) ms c) = vcc_highest_qc c
   \<or> (\<exists>m\<in>set ms. vc_sender C chain_id slot keys m \<noteq> None
        \<and> vcc_highest_qc (fold (collect_view_change C chain_id slot keys) ms c) = vcm_highest_qc m
        \<and> qc_has_quorum_for (vcm_highest_qc m) (length keys))"
proof (induction ms arbitrary: c)
  case (Cons m ms)
  have "vcc_highest_qc (collect_view_change C chain_id slot keys m c) = vcc_highest_qc c
    \<or> vc_sender C chain_id slot keys m \<noteq> None \<and> qc_has_quorum_for (vcm_highest_qc m) (length keys)
      \<and> vcc_highest_qc (collect_view_change C chain_id slot keys m c) = vcm_highest_qc m"
    by (auto simp: collect_view_change_def vc_sender_def Let_def)
  then show ?case using Cons.IH [of "collect_view_change C chain_id slot keys m c"] by force
qed simp

text \<open>
  For a committee of at most 128, a view-change certificate forms exactly when two thirds of the
  members sent a valid timeout for the slot: repeated messages, other slots, unknown indices and bad
  signatures count for nothing. Its bitmap is the set of those members, its count their number, and
  its highest certificate is the empty one or was reported by one of them.
\<close>

theorem view_change_qc_forms:
  assumes "length keys \<le> 128"
  shows "case try_form_view_change_qc C chain_id slot messages keys of
      None \<Rightarrow> card (vc_reporters C chain_id slot keys messages) < quorum_for_committee (length keys)
    | Some q \<Rightarrow> quorum_for_committee (length keys) \<le> card (vc_reporters C chain_id slot keys messages)
        \<and> vcqc_slot q = slot
        \<and> voters (vcqc_voter_bitmap q) = vc_reporters C chain_id slot keys messages
        \<and> unat (vcqc_vote_count q) = card (vc_reporters C chain_id slot keys messages)
        \<and> (vcqc_highest_qc q = qc_empty
            \<or> (\<exists>m\<in>set messages. vcqc_highest_qc q = vcm_highest_qc m))"
proof -
  let ?c = "fold (collect_view_change C chain_id slot keys) messages vc_collection_initial"
  have count: "unat (vcc_valid_count ?c) = card (vc_reporters C chain_id slot keys messages)"
    using vc.count_senders [of vc_collection_initial C chain_id slot keys messages] vc_senders [OF assms]
    by (simp add: vc_collection_initial_def)
  have voters: "voters (vcc_voter_bitmap ?c) = vc_reporters C chain_id slot keys messages"
    using vc.fold_voters [of C chain_id slot keys messages vc_collection_initial] vc_senders [OF assms]
    by (simp add: vc_collection_initial_def)
  have "vcc_highest_qc ?c = qc_empty \<or> (\<exists>m\<in>set messages. vcc_highest_qc ?c = vcm_highest_qc m)"
    using fold_view_change_qc_cases [of C chain_id slot keys messages vc_collection_initial]
    by (auto simp: vc_collection_initial_def)
  then show ?thesis
    using assms by (simp add: try_form_view_change_qc_def Let_def quorum_le_u32 count voters)
qed

theorem view_change_qc_forms_witness:
  "length [replicate 897 (0 :: u8)] \<le> 128
   \<and> (case try_form_view_change_qc accepting_crypto 1 7
        [\<lparr>vcm_slot = 7, vcm_highest_qc = qc_empty, vcm_voter_index = 0, vcm_voter_address = replicate 32 0,
          vcm_signature = replicate 600 0\<rparr>] [replicate 897 (0 :: u8)] of
      None \<Rightarrow> False | Some q \<Rightarrow> voters (vcqc_voter_bitmap q) = {0})"
proof -
  let ?m = "\<lparr>vcm_slot = 7, vcm_highest_qc = qc_empty, vcm_voter_index = 0, vcm_voter_address = replicate 32 0,
    vcm_signature = replicate 600 0\<rparr> :: view_change_message"
  have "vc_reporters accepting_crypto 1 7 [replicate 897 0] [?m] = {0}"
    by (auto simp: vc_reporters_def verify_view_change_def accepting_signature_ok)
  then show ?thesis
    using view_change_qc_forms [of "[replicate 897 0]" accepting_crypto 1 7 "[?m]"]
    by (simp add: quorum_for_committee_def div_ceil_usize_def split: option.splits)
qed

section \<open>Rotation of fallback leaders\<close>

lemma mod_window_bij:
  assumes "0 < (n :: nat)"
  shows "bij_betw (\<lambda>k. (a + k) mod n) {..<n} {..<n}"
proof -
  have "inj_on (\<lambda>k. (a + k) mod n) {..<n}"
  proof (rule inj_onI)
    have le: "x = y" if "x \<le> y" "y < n" "(a + x) mod n = (a + y) mod n" for x y
    proof -
      have "n dvd (a + y) - (a + x)" 
        by (rule mod_eq_dvd_iff_nat [THEN iffD1]) (use that in simp_all)
      then show ?thesis using that(1,2) dvd_imp_le [of n "y - x"] by fastforce
    qed
    fix x y assume "x \<in> {..<n}" "y \<in> {..<n}" "(a + x) mod n = (a + y) mod n"
    then show "x = y" using le [of x y] le [of y x] by (cases "x \<le> y") auto
  qed
  moreover have "(\<lambda>k. (a + k) mod n) ` {..<n} \<subseteq> {..<n}" using assms by auto
  ultimately show ?thesis by (simp add: bij_betw_def endo_inj_surj)
qed

text \<open>
  C25: within one height every committee member is the fallback leader of exactly one of any
  \<open>n\<close> consecutive views (as long as height plus view stays in 64 bits), so a crashed leader is passed
  over after at most \<open>n - 1\<close> further views and an honest online member is reached.
\<close>

theorem fallback_rotation:
  assumes "0 < n" "unat height + unat view + n \<le> 2 ^ 64"
  shows "bij_betw (\<lambda>k. fallback_leader_index height (view + of_nat k) n) {..<n} {..<n}"
proof -
  have "fallback_leader_index height (view + of_nat k) n = (unat height + unat view + k) mod n" if "k < n" for k
  proof -
    have k: "unat (of_nat k :: u64) = k" using assms(2) that by (simp add: unat_of_nat_small)
    have "unat (view + of_nat k) = unat view + k" "unat (height + (view + of_nat k)) = unat height + unat view + k"
      using assms(2) that k by (simp_all add: unat_add_lem [THEN iffD1])
    then show ?thesis using assms(1) by (simp add: fallback_leader_index_def)
  qed
  then have "bij_betw (\<lambda>k. fallback_leader_index height (view + of_nat k) n) {..<n} {..<n}
    \<longleftrightarrow> bij_betw (\<lambda>k. (unat height + unat view + k) mod n) {..<n} {..<n}"
    by (intro bij_betw_cong) simp
  then show ?thesis using mod_window_bij [OF assms(1)] by simp
qed

theorem fallback_rotation_witness:
  "0 < (4 :: nat) \<and> bij_betw (\<lambda>k. fallback_leader_index 10 (1 + of_nat k) 4) {..<4} {..<4}"
  using fallback_rotation [of 4 10 1] by simp

lemma decode_encode_fallback_proof: "decode_fallback_proof (encode_fallback_proof slot view) = Some (slot, view)"
  by (simp add: decode_fallback_proof_def encode_fallback_proof_def is_fallback_proof_def
      FALLBACK_PROPOSAL_MARKER_def Let_def from_to_le_bytes)

end
