(* ===== verification/HotStuff.thy ===== *)
theory HotStuff
  imports ViewChange
begin

unbundle bit_operations_syntax

text \<open>
  The voting protocol of one validator (\<open>crates/consensus/src/hotstuff.rs\<close>): its state, the vote
  rule, and forming and verifying quorum certificates.
\<close>

section \<open>State and messages\<close>

definition proposer_sign_message :: "u64 \<Rightarrow> u64 \<Rightarrow> bytes \<Rightarrow> bytes" where
  "proposer_sign_message chain_id slot bhash = to_le_bytes 8 chain_id @ to_le_bytes 8 slot @ bhash"

datatype consensus_message =
    Proposal block_header bytes
  | Vote (vote_slot: u64) (vote_block_hash: bytes) (vote_index: u8) (vote_address: bytes) (vote_signature: bytes)
  | TimeoutMsg u64 u8 bytes quorum_cert bytes
  | NewView u64 quorum_cert bytes bytes
  | QcAnnounce quorum_cert

record consensus_state =
  current_slot :: u64
  current_epoch :: u64
  highest_qc :: quorum_cert
  last_voted_slot :: u64
  last_voted_view :: u64
  last_committed_hash :: bytes
  last_committed_slot :: u64
  target_height :: u64
  current_view :: u64
  pending_votes :: "consensus_message list"
  pending_timeouts :: "consensus_message list"

definition consensus_new :: consensus_state where
  "consensus_new = \<lparr>current_slot = 0, current_epoch = 0, highest_qc = qc_empty, last_voted_slot = 0,
     last_voted_view = 0, last_committed_hash = replicate 32 0, last_committed_slot = 0,
     target_height = 1, current_view = 0, pending_votes = [], pending_timeouts = []\<rparr>"

definition advance_slot :: "consensus_state \<Rightarrow> consensus_state" where
  "advance_slot st = st\<lparr>current_slot := current_slot st + 1, pending_votes := [], pending_timeouts := []\<rparr>"

definition advance_target_height :: "u64 \<Rightarrow> consensus_state \<Rightarrow> bool \<times> consensus_state" where
  "advance_target_height new_height st =
     (if target_height st < new_height then (True, st\<lparr>target_height := new_height, current_view := 0\<rparr>)
      else (False, st))"

definition bump_view :: "consensus_state \<Rightarrow> consensus_state" where
  "bump_view st = st\<lparr>current_view := current_view st + 1\<rparr>"

section \<open>Certificates\<close>

fun verify_vote :: "crypto_lib \<Rightarrow> u64 \<Rightarrow> consensus_message \<Rightarrow> bytes \<Rightarrow> bool" where
  "verify_vote C chain_id (Vote slot bhash _ _ sig) public_key =
     signature_ok C (proposer_sign_message chain_id slot bhash) public_key sig"
| "verify_vote C chain_id _ public_key = False"

record vote_collection =
  vote_bitmap :: u128
  vote_indexed_sigs :: "(u8 \<times> bytes) list"
  vote_valid_count :: u32

fun collect_vote ::
  "crypto_lib \<Rightarrow> u64 \<Rightarrow> u64 \<Rightarrow> bytes \<Rightarrow> bytes list \<Rightarrow> consensus_message \<Rightarrow> vote_collection \<Rightarrow> vote_collection" where
  "collect_vote C chain_id slot bhash committee_keys (Vote v_slot v_hash voter_index addr sig) c =
     (let idx = unat voter_index
      in if v_slot \<noteq> slot \<or> v_hash \<noteq> bhash then c
         else if length committee_keys \<le> idx then c
         else if vote_bitmap c AND voter_bit voter_index \<noteq> 0 then c
         else if verify_vote C chain_id (Vote v_slot v_hash voter_index addr sig) (committee_keys ! idx) then
           c\<lparr>vote_bitmap := vote_bitmap c OR voter_bit voter_index,
             vote_indexed_sigs := vote_indexed_sigs c @ [(voter_index, sig)],
             vote_valid_count := vote_valid_count c + 1\<rparr>
         else c)"
| "collect_vote C chain_id slot bhash committee_keys _ c = c"

definition vote_collection_initial :: vote_collection where
  "vote_collection_initial = \<lparr>vote_bitmap = 0, vote_indexed_sigs = [], vote_valid_count = 0\<rparr>"

definition try_form_qc ::
  "crypto_lib \<Rightarrow> u64 \<Rightarrow> u64 \<Rightarrow> bytes \<Rightarrow> consensus_message list \<Rightarrow> bytes list \<Rightarrow> quorum_cert option" where
  "try_form_qc C chain_id slot bhash votes committee_keys =
     (let c = fold (collect_vote C chain_id slot bhash committee_keys) votes vote_collection_initial;
          threshold = quorum_for_committee (length committee_keys)
      in if of_nat threshold \<le> vote_valid_count c then
           Some \<lparr>qc_slot = slot, qc_block_hash = bhash, qc_voter_bitmap = vote_bitmap c,
             qc_signatures = map snd (sort_key fst (vote_indexed_sigs c))\<rparr>
         else None)"

text \<open>The loop over bit positions; \<open>sig_idx\<close> counts the signatures used so far.\<close>

fun verify_qc_bits :: "crypto_lib \<Rightarrow> quorum_cert \<Rightarrow> bytes list \<Rightarrow> bytes \<Rightarrow> nat list \<Rightarrow> nat \<Rightarrow> bool" where
  "verify_qc_bits C qc committee_keys preimage [] sig_idx = True"
| "verify_qc_bits C qc committee_keys preimage (bit_pos # positions) sig_idx =
     (if qc_voter_bitmap qc AND push_bit bit_pos 1 = 0
      then verify_qc_bits C qc committee_keys preimage positions sig_idx
      else if length committee_keys \<le> bit_pos then False
      else if \<not> signature_ok C preimage (committee_keys ! bit_pos) (qc_signatures qc ! sig_idx) then False
      else verify_qc_bits C qc committee_keys preimage positions (sig_idx + 1))"

definition verify_qc :: "crypto_lib \<Rightarrow> quorum_cert \<Rightarrow> bytes list \<Rightarrow> u64 \<Rightarrow> bool" where
  "verify_qc C qc committee_keys chain_id =
     (if qc_voter_bitmap qc = 0 \<and> qc_signatures qc = [] then True
      else let n = length committee_keys; pop = unat (count_ones (qc_voter_bitmap qc))
        in if n = 0 then False
           else if pop \<noteq> length (qc_signatures qc) then False
           else if pop < quorum_for_committee n then False
           else verify_qc_bits C qc committee_keys
                  (proposer_sign_message chain_id (qc_slot qc) (qc_block_hash qc)) [0..<128] 0)"

section \<open>Voting\<close>

definition create_vote ::
  "crypto_lib \<Rightarrow> u64 \<Rightarrow> block_header \<Rightarrow> u8 \<Rightarrow> bytes \<Rightarrow> (bytes \<Rightarrow> bytes option) \<Rightarrow> bytes list
   \<Rightarrow> consensus_state \<Rightarrow> (consensus_error + consensus_message option) \<times> consensus_state" where
  "create_vote C chain_id header voter_index voter_address sign committee_keys st =
     (let proposal_view = (case decode_fallback_proof (hdr_vrf_proof header) of Some (_, v) \<Rightarrow> v | None \<Rightarrow> 0)
      in if hdr_slot header < last_voted_slot st
            \<or> hdr_slot header = last_voted_slot st \<and> proposal_view \<le> last_voted_view st
         then (Inr None, st)
         else if qc_slot (hdr_qc_previous header) < qc_slot (highest_qc st) then (Inr None, st)
         else if \<not> verify_qc C (hdr_qc_previous header) committee_keys chain_id then (Inl InvalidQcPrevious, st)
         else let st = (if qc_slot (highest_qc st) < qc_slot (hdr_qc_previous header)
                        then st\<lparr>highest_qc := hdr_qc_previous header\<rparr> else st);
                  bhash = header_hash C header
           in case sign (proposer_sign_message chain_id (hdr_slot header) bhash) of
                None \<Rightarrow> (Inl VoteSigningFailed, st)
              | Some sig \<Rightarrow>
                  (Inr (Some (Vote (hdr_slot header) bhash voter_index voter_address sig)),
                   st\<lparr>last_voted_slot := hdr_slot header, last_voted_view := proposal_view\<rparr>))"

definition create_timeout ::
  "u64 \<Rightarrow> consensus_state \<Rightarrow> u64 \<Rightarrow> u8 \<Rightarrow> bytes \<Rightarrow> (bytes \<Rightarrow> bytes option) \<Rightarrow> consensus_error + consensus_message" where
  "create_timeout chain_id st slot voter_index voter_address sign =
     (case sign (ascii ''timeout'' @ to_le_bytes 8 chain_id @ to_le_bytes 8 slot) of
        None \<Rightarrow> Inl TimeoutSigningFailed
      | Some sig \<Rightarrow> Inr (TimeoutMsg slot voter_index voter_address (highest_qc st) sig))"

section \<open>What a certificate proves\<close>

definition vote_sender ::
  "crypto_lib \<Rightarrow> u64 \<Rightarrow> u64 \<Rightarrow> bytes \<Rightarrow> bytes list \<Rightarrow> consensus_message \<Rightarrow> nat option" where
  "vote_sender C chain_id slot bhash committee_keys m =
     (case m of
        Vote v_slot v_hash voter_index _ _ \<Rightarrow>
          (if v_slot = slot \<and> v_hash = bhash \<and> unat voter_index < length committee_keys
             \<and> verify_vote C chain_id m (committee_keys ! unat voter_index)
           then Some (unat voter_index mod 128) else None)
      | _ \<Rightarrow> None)"

interpretation qc: vote_collector "collect_vote C chain_id slot bhash keys" vote_bitmap vote_valid_count
    "vote_sender C chain_id slot bhash keys" for C chain_id slot bhash keys
proof
  fix C chain_id slot bhash keys m i and c :: vote_collection
  show "vote_sender C chain_id slot bhash keys m = Some i \<Longrightarrow> i < 128"
    by (auto simp: vote_sender_def split: consensus_message.splits if_splits)
  show "vote_sender C chain_id slot bhash keys m = None \<Longrightarrow> collect_vote C chain_id slot bhash keys m c = c"
    by (cases m) (auto simp: vote_sender_def Let_def)
  show "vote_sender C chain_id slot bhash keys m = Some i \<Longrightarrow> i \<in> voters (vote_bitmap c) \<Longrightarrow>
      collect_vote C chain_id slot bhash keys m c = c"
    by (cases m) (auto simp: vote_sender_def Let_def voter_bit_and split: if_splits)
  show "vote_sender C chain_id slot bhash keys m = Some i \<Longrightarrow> i \<notin> voters (vote_bitmap c) \<Longrightarrow>
      voters (vote_bitmap (collect_vote C chain_id slot bhash keys m c)) = insert i (voters (vote_bitmap c)) \<and>
      vote_valid_count (collect_vote C chain_id slot bhash keys m c) = vote_valid_count c + 1"
    by (cases m) (auto simp: vote_sender_def Let_def voter_bit_and split: if_splits)
qed

lemma bit_test: "i < 128 \<Longrightarrow> (w :: u128) AND push_bit i 1 = 0 \<longleftrightarrow> i \<notin> voters w"
  using voter_bit_and [of w "of_nat i"] by (auto simp: voter_bit_def unat_of_nat_small)

lemma verify_qc_bits_iff:
  assumes "sorted ps" "distinct ps" "set ps \<subseteq> {..<128}"
  shows "verify_qc_bits C qc keys msg ps k \<longleftrightarrow>
    (let vs = filter (\<lambda>i. i \<in> voters (qc_voter_bitmap qc)) ps
     in \<forall>j<length vs. vs ! j < length keys
          \<and> signature_ok C msg (keys ! (vs ! j)) (qc_signatures qc ! (k + j)))"
  using assms
proof (induction ps arbitrary: k)
  case (Cons p ps)
  show ?case
  proof (cases "p \<in> voters (qc_voter_bitmap qc)")
    case True
    then show ?thesis
      using Cons.IH [of "k + 1"] Cons.prems bit_test [of p "qc_voter_bitmap qc"]
      by (auto simp: Let_def All_less_Suc2)
  next
    case False
    then show ?thesis using Cons.IH [of k] Cons.prems bit_test [of p "qc_voter_bitmap qc"] by (simp add: Let_def)
  qed
qed (simp add: Let_def)

text \<open>The members that signed a vote for the certificate's block, as the certificate shows it.\<close>

definition qc_signed :: "crypto_lib \<Rightarrow> quorum_cert \<Rightarrow> bytes list \<Rightarrow> u64 \<Rightarrow> nat set" where
  "qc_signed C qc committee_keys chain_id =
     {i. i < length committee_keys \<and> (\<exists>sig\<in>set (qc_signatures qc).
        signature_ok C (proposer_sign_message chain_id (qc_slot qc) (qc_block_hash qc)) (committee_keys ! i) sig)}"

lemma verify_qc_sound:
  assumes "verify_qc C qc keys chain_id" "qc_voter_bitmap qc \<noteq> 0"
  shows "voters (qc_voter_bitmap qc) \<subseteq> qc_signed C qc keys chain_id"
    and "quorum_for_committee (length keys) \<le> card (voters (qc_voter_bitmap qc))"
proof -
  let ?vs = "filter (\<lambda>i. i \<in> voters (qc_voter_bitmap qc)) [0..<128]"
  let ?msg = "proposer_sign_message chain_id (qc_slot qc) (qc_block_hash qc)"
  have set_vs: "set ?vs = voters (qc_voter_bitmap qc)" by (auto simp: voters_def)
  then have len: "length ?vs = card (voters (qc_voter_bitmap qc))"
    by (metis distinct_card distinct_filter distinct_upt)
  have *: "card (voters (qc_voter_bitmap qc)) = length (qc_signatures qc)"
    "quorum_for_committee (length keys) \<le> card (voters (qc_voter_bitmap qc))"
    "verify_qc_bits C qc keys ?msg [0..<128] 0"
    using assms by (auto simp: verify_qc_def Let_def unat_count_ones not_less split: if_splits)
  show "quorum_for_committee (length keys) \<le> card (voters (qc_voter_bitmap qc))" by (rule *(2))
  have ok: "?vs ! j < length keys \<and> signature_ok C ?msg (keys ! (?vs ! j)) (qc_signatures qc ! j)"
    if "j < length ?vs" for j
    using *(3) that verify_qc_bits_iff [of "[0..<128]" C qc keys ?msg 0] by (simp add: Let_def atLeast0LessThan)
  show "voters (qc_voter_bitmap qc) \<subseteq> qc_signed C qc keys chain_id"
  proof
    fix i assume "i \<in> voters (qc_voter_bitmap qc)"
    then obtain j where j: "j < length ?vs" "?vs ! j = i" using set_vs in_set_conv_nth by metis
    then have "qc_signatures qc ! j \<in> set (qc_signatures qc)" using len *(1) by simp
    then show "i \<in> qc_signed C qc keys chain_id" using ok [OF j(1)] j(2) by (auto simp: qc_signed_def)
  qed
qed

section \<open>Certificates form and verify\<close>

definition voted_for :: "crypto_lib \<Rightarrow> u64 \<Rightarrow> u64 \<Rightarrow> bytes \<Rightarrow> bytes list \<Rightarrow> consensus_message list \<Rightarrow> nat set" where
  "voted_for C chain_id slot bhash committee_keys votes =
     {i. i < length committee_keys \<and> (\<exists>addr sig idx. Vote slot bhash idx addr sig \<in> set votes \<and> unat idx = i
        \<and> signature_ok C (proposer_sign_message chain_id slot bhash) (committee_keys ! i) sig)}"

lemma vote_sender_Some:
  "vote_sender C chain_id slot bhash keys m = Some i \<longleftrightarrow>
     (\<exists>idx addr sig. m = Vote slot bhash idx addr sig \<and> unat idx < length keys \<and> i = unat idx mod 128
        \<and> signature_ok C (proposer_sign_message chain_id slot bhash) (keys ! unat idx) sig)"
  by (cases m) (auto simp: vote_sender_def)

lemma vote_senders:
  assumes "length keys \<le> 128"
  shows "{i. \<exists>m\<in>set votes. vote_sender C chain_id slot bhash keys m = Some i}
    = voted_for C chain_id slot bhash keys votes"
proof -
  have "i mod 128 = i" if "i < length keys" for i using that assms by simp
  then show ?thesis unfolding voted_for_def vote_sender_Some by (fastforce simp: Bex_def)
qed

text \<open>The collected signatures belong to the set bits, one each.\<close>

definition sigs_match :: "crypto_lib \<Rightarrow> bytes \<Rightarrow> bytes list \<Rightarrow> vote_collection \<Rightarrow> bool" where
  "sigs_match C msg keys c \<longleftrightarrow>
     distinct (map fst (vote_indexed_sigs c))
     \<and> voters (vote_bitmap c) = (\<lambda>e. unat (fst e)) ` set (vote_indexed_sigs c)
     \<and> (\<forall>(i, sig)\<in>set (vote_indexed_sigs c). unat i < length keys \<and> signature_ok C msg (keys ! unat i) sig)"

lemma sigs_matchD:
  "sigs_match C msg keys c \<Longrightarrow> e \<in> set (vote_indexed_sigs c) \<Longrightarrow>
   unat (fst e) < length keys \<and> signature_ok C msg (keys ! unat (fst e)) (snd e)"
  by (cases e) (auto simp: sigs_match_def)

lemma collect_vote_sigs:
  assumes "length keys \<le> 128" "sigs_match C (proposer_sign_message chain_id slot bhash) keys c"
  shows "sigs_match C (proposer_sign_message chain_id slot bhash) keys (collect_vote C chain_id slot bhash keys m c)"
proof (cases m)
  case (Vote s h idx addr sig)
  show ?thesis
  proof (cases "collect_vote C chain_id slot bhash keys m c = c")
    case False
    then have new: "s = slot" "h = bhash" "unat idx < length keys" "unat idx \<notin> voters (vote_bitmap c)"
      "signature_ok C (proposer_sign_message chain_id slot bhash) (keys ! unat idx) sig"
      using assms(1) by (auto simp: Vote Let_def voter_bit_and split: if_splits)
    then have step: "collect_vote C chain_id slot bhash keys m c =
        c\<lparr>vote_bitmap := vote_bitmap c OR voter_bit idx, vote_indexed_sigs := vote_indexed_sigs c @ [(idx, sig)],
          vote_valid_count := vote_valid_count c + 1\<rparr>"
      using assms(1) by (simp add: Vote Let_def voter_bit_and)
    have "idx \<notin> fst ` set (vote_indexed_sigs c)" using new(4) assms(2) by (force simp: sigs_match_def)
    then show ?thesis using new assms unfolding step by (auto simp: sigs_match_def)
  qed (simp add: assms)
qed (simp_all add: assms)

lemma fold_vote_sigs:
  "length keys \<le> 128 \<Longrightarrow> sigs_match C (proposer_sign_message chain_id slot bhash) keys c \<Longrightarrow>
   sigs_match C (proposer_sign_message chain_id slot bhash) keys
     (fold (collect_vote C chain_id slot bhash keys) votes c)"
  by (induction votes arbitrary: c) (simp_all add: collect_vote_sigs)

lemma sorted_by_index:
  assumes "sigs_match C msg keys c"
  shows "map (\<lambda>e. unat (fst e)) (sort_key fst (vote_indexed_sigs c))
    = filter (\<lambda>i. i \<in> voters (vote_bitmap c)) [0..<128]" (is "?xs = ?ys")
proof (rule sorted_distinct_set_unique)
  have "sorted (map fst (sort_key fst (vote_indexed_sigs c)))" by simp
  then show "sorted ?xs" by (simp add: sorted_map word_le_nat_alt)
  have "distinct (map fst (sort_key fst (vote_indexed_sigs c)))"
    using assms by (simp add: sigs_match_def distinct_map)
  then show "distinct ?xs" unfolding distinct_map inj_on_def word_unat_eq_iff by simp
  show "set ?xs = set ?ys" using assms by (auto simp: sigs_match_def voters_def)
qed (simp_all add: sorted_wrt_filter)

lemma formed_qc_verifies:
  assumes "sigs_match C (proposer_sign_message chain_id slot bhash) keys c" "keys \<noteq> []"
    and "quorum_for_committee (length keys) \<le> card (voters (vote_bitmap c))"
  shows "verify_qc C \<lparr>qc_slot = slot, qc_block_hash = bhash, qc_voter_bitmap = vote_bitmap c,
    qc_signatures = map snd (sort_key fst (vote_indexed_sigs c))\<rparr> keys chain_id"
proof -
  let ?es = "sort_key fst (vote_indexed_sigs c)"
  let ?vs = "filter (\<lambda>i. i \<in> voters (vote_bitmap c)) [0..<128]"
  have vs: "?vs = map (\<lambda>e. unat (fst e)) ?es" by (rule sorted_by_index [OF assms(1), symmetric])
  have ok: "unat (fst (?es ! j)) < length keys
      \<and> signature_ok C (proposer_sign_message chain_id slot bhash) (keys ! unat (fst (?es ! j))) (snd (?es ! j))"
    if "j < length ?es" for j
    using sigs_matchD [OF assms(1), of "?es ! j"] nth_mem [OF that] by simp
  have "set ?vs = voters (vote_bitmap c)" by (auto simp: voters_def)
  then have "card (voters (vote_bitmap c)) = length ?vs" by (metis distinct_card distinct_filter distinct_upt)
  then have len: "card (voters (vote_bitmap c)) = length (vote_indexed_sigs c)" unfolding vs by simp
  show ?thesis using assms(2,3) ok
    by (simp add: verify_qc_def Let_def unat_count_ones len verify_qc_bits_iff atLeast0LessThan vs)
qed

text \<open>
  C13: for a committee of 1 to 128 members, votes become a certificate exactly when two thirds of the
  members voted validly for that slot and block, whatever else is in the list; and the certificate
  that forms is one that every verifier of the same committee accepts, naming exactly those members.
\<close>

theorem qc_forms_and_verifies:
  assumes "keys \<noteq> []" "length keys \<le> 128"
  shows "case try_form_qc C chain_id slot bhash votes keys of
      None \<Rightarrow> card (voted_for C chain_id slot bhash keys votes) < quorum_for_committee (length keys)
    | Some q \<Rightarrow> quorum_for_committee (length keys) \<le> card (voted_for C chain_id slot bhash keys votes)
        \<and> qc_slot q = slot \<and> qc_block_hash q = bhash
        \<and> voters (qc_voter_bitmap q) = voted_for C chain_id slot bhash keys votes
        \<and> verify_qc C q keys chain_id"
proof -
  let ?c = "fold (collect_vote C chain_id slot bhash keys) votes vote_collection_initial"
  have voters: "voters (vote_bitmap ?c) = voted_for C chain_id slot bhash keys votes"
    using qc.fold_voters [of C chain_id slot bhash keys votes vote_collection_initial] vote_senders [OF assms(2)]
    by (simp add: vote_collection_initial_def)
  have count: "unat (vote_valid_count ?c) = card (voted_for C chain_id slot bhash keys votes)"
    using qc.count_senders [of vote_collection_initial C chain_id slot bhash keys votes] vote_senders [OF assms(2)]
    by (simp add: vote_collection_initial_def)
  have "sigs_match C (proposer_sign_message chain_id slot bhash) keys ?c"
    by (rule fold_vote_sigs [OF assms(2)]) (simp add: sigs_match_def vote_collection_initial_def)
  then show ?thesis
    using assms formed_qc_verifies [of C chain_id slot bhash keys ?c]
    by (simp add: try_form_qc_def Let_def quorum_le_u32 count voters)
qed

theorem qc_forms_and_verifies_witness:
  "[replicate 897 (0 :: u8)] \<noteq> [] \<and> length [replicate 897 (0 :: u8)] \<le> 128
   \<and> (case try_form_qc accepting_crypto 1 7 (replicate 32 9)
        [Vote 7 (replicate 32 9) 0 (replicate 32 0) (replicate 600 0)] [replicate 897 0] of
      None \<Rightarrow> False | Some q \<Rightarrow> voters (qc_voter_bitmap q) = {0} \<and> verify_qc accepting_crypto q [replicate 897 0] 1)"
proof -
  let ?v = "Vote 7 (replicate 32 9) 0 (replicate 32 0) (replicate 600 0)"
  have "voted_for accepting_crypto 1 7 (replicate 32 9) [replicate 897 0] [?v] = {0}"
    by (auto simp: voted_for_def accepting_signature_ok)
  then show ?thesis
    using qc_forms_and_verifies [of "[replicate 897 0]" accepting_crypto 1 7 "replicate 32 9" "[?v]"]
    by (simp add: quorum_for_committee_def div_ceil_usize_def split: option.splits)
qed

section \<open>Voting is monotone\<close>

text \<open>
  The life of one validator: the states it reaches from start-up and, newest first, the votes it has
  cast, each with its slot, its view and the block it names. \<open>sign\<close> is its signer, and proposals
  arrive in any order.
\<close>

definition proposal_view :: "block_header \<Rightarrow> u64" where
  "proposal_view header = (case decode_fallback_proof (hdr_vrf_proof header) of Some (_, v) \<Rightarrow> v | None \<Rightarrow> 0)"

inductive voter_run ::
  "crypto_lib \<Rightarrow> u64 \<Rightarrow> (bytes \<Rightarrow> bytes option) \<Rightarrow> bytes list \<Rightarrow> consensus_state
   \<Rightarrow> (u64 \<times> u64 \<times> bytes) list \<Rightarrow> bool"
  for C chain_id sign keys where
  start: "voter_run C chain_id sign keys consensus_new []"
| voted: "voter_run C chain_id sign keys st vs \<Longrightarrow>
    create_vote C chain_id header idx addr sign keys st = (Inr (Some vote), st') \<Longrightarrow>
    voter_run C chain_id sign keys st' ((vote_slot vote, proposal_view header, vote_block_hash vote) # vs)"
| declined: "voter_run C chain_id sign keys st vs \<Longrightarrow>
    create_vote C chain_id header idx addr sign keys st = (Inr None, st') \<Longrightarrow> voter_run C chain_id sign keys st' vs"
| failed: "voter_run C chain_id sign keys st vs \<Longrightarrow>
    create_vote C chain_id header idx addr sign keys st = (Inl err, st') \<Longrightarrow> voter_run C chain_id sign keys st' vs"
| slot: "voter_run C chain_id sign keys st vs \<Longrightarrow> voter_run C chain_id sign keys (advance_slot st) vs"
| target: "voter_run C chain_id sign keys st vs \<Longrightarrow>
    voter_run C chain_id sign keys (snd (advance_target_height h st)) vs"
| view: "voter_run C chain_id sign keys st vs \<Longrightarrow> voter_run C chain_id sign keys (bump_view st) vs"

definition earlier :: "u64 \<times> u64 \<Rightarrow> u64 \<times> u64 \<Rightarrow> bool" where
  "earlier p q \<longleftrightarrow> fst p < fst q \<or> fst p = fst q \<and> snd p < snd q"

lemma earlier_trans: "earlier p q \<Longrightarrow> earlier q r \<Longrightarrow> earlier p r"
  by (auto simp: earlier_def)

lemma create_vote_fields:
  assumes "create_vote C chain_id header idx addr sign keys st = (r, st')"
  shows "qc_slot (highest_qc st) \<le> qc_slot (highest_qc st')"
    and "r = Inr (Some vote) \<Longrightarrow> last_voted_slot st' = vote_slot vote \<and> last_voted_view st' = proposal_view header
      \<and> vote_slot vote = hdr_slot header \<and> vote_block_hash vote = header_hash C header
      \<and> earlier (last_voted_slot st, last_voted_view st) (vote_slot vote, proposal_view header)"
    and "(\<nexists>vote. r = Inr (Some vote)) \<Longrightarrow>
      last_voted_slot st' = last_voted_slot st \<and> last_voted_view st' = last_voted_view st"
  using assms
  by (auto simp: create_vote_def Let_def earlier_def not_less not_le split: if_splits option.splits
      simp flip: proposal_view_def)

lemma voter_run_last:
  assumes "voter_run C chain_id sign keys st vs"
  shows "\<forall>v\<in>set vs. v = hd vs \<or> earlier (fst v, fst (snd v)) (fst (hd vs), fst (snd (hd vs)))"
    and "vs \<noteq> [] \<longrightarrow> (fst (hd vs), fst (snd (hd vs))) = (last_voted_slot st, last_voted_view st)"
    and "sorted_wrt (\<lambda>a b. earlier (fst b, fst (snd b)) (fst a, fst (snd a))) vs"
  using assms
proof induction
  case (voted st vs header idx addr vote st')
  note new = create_vote_fields(2) [OF voted.hyps(2) refl]
  have old: "earlier (fst v, fst (snd v)) (vote_slot vote, proposal_view header)" if "v \<in> set vs" for v
  proof -
    have last: "(fst (hd vs), fst (snd (hd vs))) = (last_voted_slot st, last_voted_view st)"
      using voted.IH(2) that by (cases vs) auto
    show ?thesis using voted.IH(1) that new last earlier_trans by fastforce
  qed
  {
    case 1
    then show ?case using old by auto
  next
    case 2
    then show ?case using new by simp
  next
    case 3
    then show ?case using old voted.IH(3) by simp
  }
qed (simp_all add: create_vote_fields(3) advance_slot_def bump_view_def advance_target_height_def)

text \<open>
  C12: over its whole life, through every order of proposals, timeouts and view changes, a validator's
  votes have strictly increasing \<open>(slot, view)\<close>: it never votes twice at one position, and never
  goes back to an earlier one.
\<close>

theorem votes_strictly_increase:
  assumes "voter_run C chain_id sign keys st vs"
  shows "sorted_wrt (\<lambda>a b. earlier (fst b, fst (snd b)) (fst a, fst (snd a))) vs
    \<and> distinct (map (\<lambda>(slot, view, _). (slot, view)) vs)"
proof -
  have sorted: "sorted_wrt (\<lambda>a b. earlier (fst b, fst (snd b)) (fst a, fst (snd a))) vs"
    by (rule voter_run_last(3) [OF assms])
  then have "distinct (map (\<lambda>(slot, view, _). (slot, view)) vs)"
    by (induction vs) (auto simp: earlier_def)
  then show ?thesis using sorted by simp
qed

definition plain_header :: "u64 \<Rightarrow> quorum_cert \<Rightarrow> block_header" where
  "plain_header slot qc = empty_block_header slot 0 (replicate 32 0) qc (replicate 32 0) 0"

lemma plain_header_simps [simp]:
  "hdr_slot (plain_header slot qc) = slot" "hdr_qc_previous (plain_header slot qc) = qc"
  "proposal_view (plain_header slot qc) = 0"
  by (simp_all add: plain_header_def empty_block_header_def proposal_view_def decode_fallback_proof_def
      is_fallback_proof_def FALLBACK_PROPOSAL_MARKER_def ascii_def)

lemma verify_qc_empty [simp]: "verify_qc C qc_empty keys chain_id"
  by (simp add: verify_qc_def qc_empty_def)

lemma create_vote_votes:
  assumes "earlier (last_voted_slot st, last_voted_view st) (hdr_slot header, proposal_view header)"
    and "qc_slot (highest_qc st) \<le> qc_slot (hdr_qc_previous header)"
    and "verify_qc C (hdr_qc_previous header) keys chain_id"
    and "sign (proposer_sign_message chain_id (hdr_slot header) (header_hash C header)) = Some sig"
  shows "create_vote C chain_id header idx addr sign keys st =
    (Inr (Some (Vote (hdr_slot header) (header_hash C header) idx addr sig)),
     st\<lparr>highest_qc := if qc_slot (highest_qc st) < qc_slot (hdr_qc_previous header)
          then hdr_qc_previous header else highest_qc st,
        last_voted_slot := hdr_slot header, last_voted_view := proposal_view header\<rparr>)"
proof -
  have "\<not> (hdr_slot header < last_voted_slot st
      \<or> hdr_slot header = last_voted_slot st \<and> proposal_view header \<le> last_voted_view st)"
    using assms(1) by (auto simp: earlier_def)
  then show ?thesis using assms(2-4)
    by (simp add: create_vote_def Let_def not_less [symmetric] flip: proposal_view_def)
qed

theorem votes_strictly_increase_witness:
  "\<exists>st vs. voter_run accepting_crypto 1 (\<lambda>_. Some (replicate 600 0)) [replicate 897 0] st vs \<and> length vs = 2
     \<and> distinct (map (\<lambda>(slot, view, _). (slot, view)) vs)"
proof -
  let ?C = accepting_crypto and ?sign = "\<lambda>_ :: bytes. Some (replicate 600 (0 :: u8))" and ?keys = "[replicate 897 (0 :: u8)]"
  have "\<exists>v. create_vote ?C 1 (plain_header 1 qc_empty) 0 [] ?sign ?keys consensus_new
      = (Inr (Some v), consensus_new\<lparr>last_voted_slot := 1\<rparr>)"
    by (subst create_vote_votes [OF _ _ _ refl]) (simp_all add: consensus_new_def earlier_def)
  then obtain v1 where 1: "create_vote ?C 1 (plain_header 1 qc_empty) 0 [] ?sign ?keys consensus_new
      = (Inr (Some v1), consensus_new\<lparr>last_voted_slot := 1\<rparr>)" by blast
  have "\<exists>v. create_vote ?C 1 (plain_header 2 qc_empty) 0 [] ?sign ?keys (consensus_new\<lparr>last_voted_slot := 1\<rparr>)
      = (Inr (Some v), consensus_new\<lparr>last_voted_slot := 2\<rparr>)"
    by (subst create_vote_votes [OF _ _ _ refl]) (simp_all add: consensus_new_def earlier_def)
  then obtain v2 where 2: "create_vote ?C 1 (plain_header 2 qc_empty) 0 [] ?sign ?keys (consensus_new\<lparr>last_voted_slot := 1\<rparr>)
      = (Inr (Some v2), consensus_new\<lparr>last_voted_slot := 2\<rparr>)" by blast
  note run = voter_run.voted [OF voter_run.voted [OF voter_run.start 1] 2]
  then show ?thesis using votes_strictly_increase [OF run] run by fastforce
qed

section \<open>Where certificates are not checked\<close>

text \<open>
  C28: a certificate with an empty bitmap and no signature is accepted at every slot, not only at slot
  0. A proposer that claims one for a far slot gets its vote, and from then on the voter refuses
  every proposal whose certificate is older than the claim, however valid.
\<close>

theorem forged_sentinel_locks_voter:
  assumes "earlier (last_voted_slot st, last_voted_view st) (hdr_slot header, proposal_view header)"
    and "hdr_qc_previous header = \<lparr>qc_slot = far, qc_block_hash = h, qc_voter_bitmap = 0, qc_signatures = []\<rparr>"
    and "qc_slot (highest_qc st) < far"
    and "sign (proposer_sign_message chain_id (hdr_slot header) (header_hash C header)) = Some sig"
  shows "\<exists>st'. create_vote C chain_id header idx addr sign keys st =
      (Inr (Some (Vote (hdr_slot header) (header_hash C header) idx addr sig)), st')
    \<and> (\<forall>honest. qc_slot (hdr_qc_previous honest) < far \<longrightarrow>
         create_vote C chain_id honest idx addr sign keys st' = (Inr None, st'))"
proof -
  have "verify_qc C (hdr_qc_previous header) keys chain_id" by (simp add: assms(2) verify_qc_def)
  note vote = create_vote_votes [of st header C keys chain_id sign sig idx addr, OF assms(1) _ this assms(4)]
  show ?thesis
    using assms(3) by (subst vote) (auto simp: assms(2) create_vote_def Let_def)
qed

theorem forged_sentinel_locks_voter_witness:
  "\<exists>st'. create_vote accepting_crypto 1
        (plain_header 1 \<lparr>qc_slot = 1000000, qc_block_hash = [], qc_voter_bitmap = 0, qc_signatures = []\<rparr>)
        0 [] (\<lambda>_. Some (replicate 600 0)) [replicate 897 0] consensus_new
      = (Inr (Some (Vote 1 (header_hash accepting_crypto
          (plain_header 1 \<lparr>qc_slot = 1000000, qc_block_hash = [], qc_voter_bitmap = 0, qc_signatures = []\<rparr>))
          0 [] (replicate 600 0))), st')
    \<and> create_vote accepting_crypto 1 (plain_header 2 qc_empty) 0 [] (\<lambda>_. Some (replicate 600 0)) [replicate 897 0] st'
      = (Inr None, st')"
  using forged_sentinel_locks_voter [of consensus_new
      "plain_header 1 \<lparr>qc_slot = 1000000, qc_block_hash = [], qc_voter_bitmap = 0, qc_signatures = []\<rparr>"
      1000000 "[]" "\<lambda>_. Some (replicate 600 0)" 1 accepting_crypto "replicate 600 0" 0 "[]" "[replicate 897 0]"]
  by (auto simp: earlier_def consensus_new_def qc_empty_def)

text \<open>
  C29: the certificate a view change carries is taken on its bitmap alone. One member whose signed
  timeout claims a full bitmap with no signatures at the largest slot decides the highest certificate
  of the view change, and no verifier accepts that certificate.
\<close>

theorem view_change_adopts_unverified_qc:
  assumes "try_form_view_change_qc C chain_id slot (m # ms) keys = Some q" "length keys \<le> 128"
    and "vc_sender C chain_id slot keys m \<noteq> None"
    and "vcm_highest_qc m = \<lparr>qc_slot = - 1, qc_block_hash = h, qc_voter_bitmap = - 1, qc_signatures = []\<rparr>"
  shows "vcqc_highest_qc q = vcm_highest_qc m \<and> \<not> verify_qc C (vcqc_highest_qc q) keys chain_id"
proof -
  let ?c = "collect_view_change C chain_id slot keys m vc_collection_initial"
  have full: "voters (- 1) = {..<128}" by (auto simp: voters_def)
  have pop: "unat (count_ones (- 1)) = 128" by (simp add: unat_count_ones full)
  have "qc_has_quorum_for (vcm_highest_qc m) (length keys)"
    using assms(2) quorum_for_committee_bounds(2) [of "length keys"]
    by (simp add: qc_has_quorum_for_iff assms(4) full)
  then have first: "vcc_highest_qc ?c = vcm_highest_qc m"
    using assms(3) by (auto simp: vc_sender_def collect_view_change_def vc_collection_initial_def Let_def
        assms(4) qc_empty_def word_gt_0 split: if_splits)
  have "vcc_highest_qc (fold (collect_view_change C chain_id slot keys) ms c) = vcc_highest_qc c"
    if "qc_slot (vcc_highest_qc c) = - 1" for c
    using that
  proof (induction ms arbitrary: c)
    case (Cons x xs)
    have "\<not> (- 1 :: u64) < y" for y by (simp add: not_less)
    then have same: "vcc_highest_qc (collect_view_change C chain_id slot keys x c) = vcc_highest_qc c"
      using Cons.prems by (simp add: collect_view_change_def Let_def)
    then show ?case using Cons.IH [of "collect_view_change C chain_id slot keys x c"] Cons.prems by simp
  qed simp
  then have "vcqc_highest_qc q = vcm_highest_qc m"
    using assms(1) first by (auto simp: try_form_view_change_qc_def Let_def assms(4) split: if_splits)
  then show ?thesis by (simp add: assms(4) verify_qc_def pop Let_def)
qed

theorem view_change_adopts_unverified_qc_witness:
  "\<exists>q. try_form_view_change_qc accepting_crypto 1 7
       [\<lparr>vcm_slot = 7, vcm_highest_qc = \<lparr>qc_slot = - 1, qc_block_hash = [], qc_voter_bitmap = - 1, qc_signatures = []\<rparr>,
         vcm_voter_index = 0, vcm_voter_address = replicate 32 0, vcm_signature = replicate 600 0\<rparr>]
       [replicate 897 0] = Some q
     \<and> qc_slot (vcqc_highest_qc q) = - 1 \<and> \<not> verify_qc accepting_crypto (vcqc_highest_qc q) [replicate 897 0] 1"
proof -
  let ?m = "\<lparr>vcm_slot = 7, vcm_highest_qc = \<lparr>qc_slot = - 1, qc_block_hash = [], qc_voter_bitmap = - 1, qc_signatures = []\<rparr>,
    vcm_voter_index = 0, vcm_voter_address = replicate 32 0, vcm_signature = replicate 600 0\<rparr> :: view_change_message"
  have sender: "vc_sender accepting_crypto 1 7 [replicate 897 0] ?m = Some 0"
    by (simp add: vc_sender_def verify_view_change_def accepting_signature_ok)
  then have "unat (vcc_valid_count (fold (collect_view_change accepting_crypto 1 7 [replicate 897 0]) [?m]
      vc_collection_initial)) = card {0 :: nat}"
    using vc.count_senders [of vc_collection_initial accepting_crypto 1 7 "[replicate 897 0]" "[?m]"]
    by (simp add: vc_collection_initial_def)
  then obtain q where q: "try_form_view_change_qc accepting_crypto 1 7 [?m] [replicate 897 0] = Some q"
    by (auto simp: try_form_view_change_qc_def Let_def quorum_for_committee_def div_ceil_usize_def word_le_nat_alt)
  show ?thesis using view_change_adopts_unverified_qc [OF q] q sender by auto
qed

end
