(* ===== verification/Finality.thy ===== *)
theory Finality
  imports HotStuff
begin

unbundle bit_operations_syntax

text \<open>
  Soft and hard finality (\<open>crates/consensus/src/finality.rs\<close>): finality votes, the hard finality
  certificate, and the tracker whose checkpoint no reorganisation may cross.
\<close>

section \<open>Certificates\<close>

datatype finality_level = NoFinality | Soft | Hard

record hard_finality_cert =
  hfc_slot :: u64
  hfc_block_hash :: bytes
  hfc_state_root :: bytes
  hfc_voter_bitmap :: u128
  hfc_signatures :: "bytes list"

record finality_status =
  fs_slot :: u64
  fs_block_hash :: bytes
  fs_level :: finality_level
  fs_qc :: "quorum_cert option"
  fs_hard_cert :: "hard_finality_cert option"

definition hfc_vote_count :: "hard_finality_cert \<Rightarrow> u32" where
  "hfc_vote_count cert = count_ones (hfc_voter_bitmap cert)"

definition hfc_has_quorum :: "hard_finality_cert \<Rightarrow> bool" where
  "hfc_has_quorum cert \<longleftrightarrow> of_nat QUORUM_THRESHOLD \<le> hfc_vote_count cert"

definition hfc_has_quorum_for :: "hard_finality_cert \<Rightarrow> nat \<Rightarrow> bool" where
  "hfc_has_quorum_for cert committee_size \<longleftrightarrow> of_nat (quorum_for_committee committee_size) \<le> hfc_vote_count cert"

record finality_vote =
  fv_slot :: u64
  fv_block_hash :: bytes
  fv_state_root :: bytes
  fv_voter_index :: u8
  fv_voter_address :: bytes
  fv_signature :: bytes

definition finality_sign_message :: "u64 \<Rightarrow> u64 \<Rightarrow> bytes \<Rightarrow> bytes \<Rightarrow> bytes" where
  "finality_sign_message chain_id slot bhash state_root =
     ascii ''hard_finality'' @ to_le_bytes 8 chain_id @ to_le_bytes 8 slot @ bhash @ state_root"

definition check_soft_finality :: "quorum_cert \<Rightarrow> nat \<Rightarrow> bool" where
  "check_soft_finality qc committee_size = qc_has_quorum_for qc committee_size"

definition soft_finality_status :: "u64 \<Rightarrow> bytes \<Rightarrow> quorum_cert \<Rightarrow> nat \<Rightarrow> finality_status" where
  "soft_finality_status slot bhash qc committee_size =
     \<lparr>fs_slot = slot, fs_block_hash = bhash,
      fs_level = (if check_soft_finality qc committee_size then Soft else NoFinality),
      fs_qc = Some qc, fs_hard_cert = None\<rparr>"

definition create_finality_vote ::
  "u64 \<Rightarrow> u64 \<Rightarrow> bytes \<Rightarrow> bytes \<Rightarrow> u8 \<Rightarrow> bytes \<Rightarrow> (bytes \<Rightarrow> bytes option) \<Rightarrow> finality_vote option" where
  "create_finality_vote chain_id slot bhash state_root voter_index voter_address sign =
     (case sign (finality_sign_message chain_id slot bhash state_root) of
        None \<Rightarrow> None
      | Some sig \<Rightarrow> Some \<lparr>fv_slot = slot, fv_block_hash = bhash, fv_state_root = state_root,
          fv_voter_index = voter_index, fv_voter_address = voter_address, fv_signature = sig\<rparr>)"

definition verify_finality_vote :: "crypto_lib \<Rightarrow> u64 \<Rightarrow> finality_vote \<Rightarrow> bytes \<Rightarrow> bool" where
  "verify_finality_vote C chain_id vote public_key \<longleftrightarrow>
     signature_ok C (finality_sign_message chain_id (fv_slot vote) (fv_block_hash vote) (fv_state_root vote))
       public_key (fv_signature vote)"

record finality_collection =
  fc_voter_bitmap :: u128
  fc_signatures :: "bytes list"
  fc_valid_count :: u32

definition collect_finality_vote ::
  "crypto_lib \<Rightarrow> u64 \<Rightarrow> u64 \<Rightarrow> bytes \<Rightarrow> bytes \<Rightarrow> bytes list \<Rightarrow> finality_vote \<Rightarrow> finality_collection \<Rightarrow> finality_collection" where
  "collect_finality_vote C chain_id slot bhash state_root committee_keys vote c =
     (let idx = unat (fv_voter_index vote)
      in if fv_slot vote \<noteq> slot \<or> fv_block_hash vote \<noteq> bhash then c
         else if fv_state_root vote \<noteq> state_root then c
         else if length committee_keys \<le> idx then c
         else if fc_voter_bitmap c AND voter_bit (fv_voter_index vote) \<noteq> 0 then c
         else if verify_finality_vote C chain_id vote (committee_keys ! idx) then
           c\<lparr>fc_voter_bitmap := fc_voter_bitmap c OR voter_bit (fv_voter_index vote),
             fc_signatures := fc_signatures c @ [fv_signature vote],
             fc_valid_count := fc_valid_count c + 1\<rparr>
         else c)"

definition finality_collection_initial :: finality_collection where
  "finality_collection_initial = \<lparr>fc_voter_bitmap = 0, fc_signatures = [], fc_valid_count = 0\<rparr>"

definition try_form_hard_finality ::
  "crypto_lib \<Rightarrow> u64 \<Rightarrow> u64 \<Rightarrow> bytes \<Rightarrow> bytes \<Rightarrow> finality_vote list \<Rightarrow> bytes list \<Rightarrow> hard_finality_cert option" where
  "try_form_hard_finality C chain_id slot bhash state_root votes committee_keys =
     (let c = fold (collect_finality_vote C chain_id slot bhash state_root committee_keys) votes finality_collection_initial;
          threshold = quorum_for_committee (length committee_keys)
      in if of_nat threshold \<le> fc_valid_count c then
           Some \<lparr>hfc_slot = slot, hfc_block_hash = bhash, hfc_state_root = state_root,
             hfc_voter_bitmap = fc_voter_bitmap c, hfc_signatures = fc_signatures c\<rparr>
         else None)"

section \<open>The tracker\<close>

record finality_checkpoint =
  cp_slot :: u64
  cp_block_hash :: bytes
  cp_state_root :: bytes
  cp_cert :: hard_finality_cert

record finality_tracker =
  latest_checkpoint :: "finality_checkpoint option"
  ft_pending :: "finality_status list"
  highest_soft_slot :: u64
  highest_hard_slot :: u64

definition finality_tracker_new :: finality_tracker where
  "finality_tracker_new = \<lparr>latest_checkpoint = None, ft_pending = [], highest_soft_slot = 0, highest_hard_slot = 0\<rparr>"

definition unconfirmed_count :: "finality_tracker \<Rightarrow> u64" where
  "unconfirmed_count t = saturating_sub (highest_soft_slot t) (highest_hard_slot t)"

definition record_soft_finality :: "u64 \<Rightarrow> bytes \<Rightarrow> quorum_cert \<Rightarrow> nat \<Rightarrow> finality_tracker \<Rightarrow> finality_tracker" where
  "record_soft_finality slot bhash qc committee_size t =
     (let status = soft_finality_status slot bhash qc committee_size
      in if fs_level status = Soft then
           t\<lparr>highest_soft_slot := (if highest_soft_slot t < slot then slot else highest_soft_slot t),
             ft_pending := ft_pending t @ [status]\<rparr>
         else t)"

definition promote :: "hard_finality_cert \<Rightarrow> finality_status \<Rightarrow> finality_status" where
  "promote cert status =
     (if fs_slot status = hfc_slot cert \<and> fs_block_hash status = hfc_block_hash cert
      then status\<lparr>fs_level := Hard, fs_hard_cert := Some cert\<rparr> else status)"

definition record_hard_finality :: "hard_finality_cert \<Rightarrow> finality_tracker \<Rightarrow> finality_tracker" where
  "record_hard_finality cert t =
     (let t = t\<lparr>ft_pending := map (promote cert) (ft_pending t)\<rparr>;
          advances = (case latest_checkpoint t of Some cp \<Rightarrow> cp_slot cp < hfc_slot cert | None \<Rightarrow> True)
      in if \<not> advances then t
         else t\<lparr>highest_hard_slot := (if highest_hard_slot t < hfc_slot cert then hfc_slot cert else highest_hard_slot t),
                latest_checkpoint := Some \<lparr>cp_slot = hfc_slot cert, cp_block_hash = hfc_block_hash cert,
                  cp_state_root = hfc_state_root cert, cp_cert = cert\<rparr>,
                ft_pending := filter (\<lambda>s. hfc_slot cert < fs_slot s) (ft_pending t)\<rparr>)"

definition can_reorg :: "finality_tracker \<Rightarrow> u64 \<Rightarrow> bool" where
  "can_reorg t slot = (case latest_checkpoint t of Some cp \<Rightarrow> cp_slot cp < slot | None \<Rightarrow> True)"

definition pending_level :: "finality_status list \<Rightarrow> u64 \<Rightarrow> bytes \<Rightarrow> finality_level" where
  "pending_level statuses slot bhash =
     (case find (\<lambda>s. fs_slot s = slot \<and> fs_block_hash s = bhash) statuses of
        Some s \<Rightarrow> fs_level s | None \<Rightarrow> NoFinality)"

definition finality_level_of :: "finality_tracker \<Rightarrow> u64 \<Rightarrow> bytes \<Rightarrow> finality_level" where
  "finality_level_of t slot bhash =
     (case latest_checkpoint t of
        Some cp \<Rightarrow>
          if slot = cp_slot cp \<and> bhash = cp_block_hash cp then Hard
          else if slot < cp_slot cp then Hard
          else pending_level (ft_pending t) slot bhash
      | None \<Rightarrow> pending_level (ft_pending t) slot bhash)"

section \<open>Hard finality needs a quorum\<close>

definition finality_sender ::
  "crypto_lib \<Rightarrow> u64 \<Rightarrow> u64 \<Rightarrow> bytes \<Rightarrow> bytes \<Rightarrow> bytes list \<Rightarrow> finality_vote \<Rightarrow> nat option" where
  "finality_sender C chain_id slot bhash state_root committee_keys vote =
     (let idx = unat (fv_voter_index vote)
      in if fv_slot vote = slot \<and> fv_block_hash vote = bhash \<and> fv_state_root vote = state_root
           \<and> idx < length committee_keys \<and> verify_finality_vote C chain_id vote (committee_keys ! idx)
         then Some (idx mod 128) else None)"

interpretation fin: vote_collector "collect_finality_vote C chain_id slot bhash root keys" fc_voter_bitmap fc_valid_count
    "finality_sender C chain_id slot bhash root keys" for C chain_id slot bhash root keys
  by unfold_locales
    (auto simp: finality_sender_def collect_finality_vote_def Let_def voter_bit_and not_le split: if_splits)

definition attesters :: "crypto_lib \<Rightarrow> u64 \<Rightarrow> u64 \<Rightarrow> bytes \<Rightarrow> bytes \<Rightarrow> bytes list \<Rightarrow> finality_vote list \<Rightarrow> nat set" where
  "attesters C chain_id slot bhash state_root committee_keys votes =
     {i. i < length committee_keys \<and> (\<exists>v\<in>set votes. fv_slot v = slot \<and> fv_block_hash v = bhash
        \<and> fv_state_root v = state_root \<and> unat (fv_voter_index v) = i
        \<and> verify_finality_vote C chain_id v (committee_keys ! i))}"

lemma finality_senders:
  "length keys \<le> 128 \<Longrightarrow>
   {i. \<exists>v\<in>set votes. finality_sender C chain_id slot bhash root keys v = Some i}
     = attesters C chain_id slot bhash root keys votes"
  by (auto simp: finality_sender_def attesters_def Let_def split: if_splits)

text \<open>
  Two hard finality certificates of one committee for one slot that differ in block or state root
  have a third of the committee in common: those members attested to both.
\<close>

lemma hard_finality_attested:
  assumes "length keys \<le> 128" "try_form_hard_finality C chain_id slot bhash root votes keys = Some cert"
  shows "voters (hfc_voter_bitmap cert) = attesters C chain_id slot bhash root keys votes"
    and "quorum_for_committee (length keys) \<le> card (attesters C chain_id slot bhash root keys votes)"
    and "hfc_slot cert = slot" "hfc_block_hash cert = bhash" "hfc_state_root cert = root"
proof -
  let ?c = "fold (collect_finality_vote C chain_id slot bhash root keys) votes finality_collection_initial"
  have count: "unat (fc_valid_count ?c) = card (attesters C chain_id slot bhash root keys votes)"
    using fin.count_senders [of finality_collection_initial C chain_id slot bhash root keys votes] finality_senders [OF assms(1)]
    by (simp add: finality_collection_initial_def)
  have voters: "voters (fc_voter_bitmap ?c) = attesters C chain_id slot bhash root keys votes"
    using fin.fold_voters [of C chain_id slot bhash root keys votes finality_collection_initial] finality_senders [OF assms(1)]
    by (simp add: finality_collection_initial_def)
  show "voters (hfc_voter_bitmap cert) = attesters C chain_id slot bhash root keys votes"
    "quorum_for_committee (length keys) \<le> card (attesters C chain_id slot bhash root keys votes)"
    "hfc_slot cert = slot" "hfc_block_hash cert = bhash" "hfc_state_root cert = root"
    using assms by (auto simp: try_form_hard_finality_def Let_def quorum_le_u32 voters simp flip: count split: if_splits)
qed

lemma conflicting_finality_overlap:
  assumes "length keys \<le> 128"
    and "try_form_hard_finality C chain_id slot h1 r1 votes1 keys = Some c1"
    and "try_form_hard_finality C chain_id slot h2 r2 votes2 keys = Some c2"
  shows "length keys \<le> 3 * card (attesters C chain_id slot h1 r1 keys votes1 \<inter> attesters C chain_id slot h2 r2 keys votes2)"
  by (rule committee.overlap)
    (use hard_finality_attested(2) [OF assms(1,2)] hard_finality_attested(2) [OF assms(1,3)] in \<open>auto simp: attesters_def\<close>)

section \<open>Finality never goes back\<close>

datatype finality_event = SoftEvent u64 bytes quorum_cert nat | HardEvent hard_finality_cert

fun finality_step :: "finality_event \<Rightarrow> finality_tracker \<Rightarrow> finality_tracker" where
  "finality_step (SoftEvent slot bhash qc n) t = record_soft_finality slot bhash qc n t"
| "finality_step (HardEvent cert) t = record_hard_finality cert t"

definition checkpoint_slot :: "finality_tracker \<Rightarrow> u64 option" where
  "checkpoint_slot t = map_option cp_slot (latest_checkpoint t)"

text \<open>
  A block that is pending and hard sits at or below the checkpoint, and the highest hard slot is the
  checkpoint's.
\<close>

definition tracker_wf :: "finality_tracker \<Rightarrow> bool" where
  "tracker_wf t \<longleftrightarrow>
     (\<forall>s\<in>set (ft_pending t). fs_level s = Hard \<longrightarrow> (\<exists>c. checkpoint_slot t = Some c \<and> fs_slot s \<le> c))
     \<and> highest_hard_slot t = (case checkpoint_slot t of Some c \<Rightarrow> c | None \<Rightarrow> 0)"

lemma promote_fields [simp]: "fs_slot (promote cert s) = fs_slot s" "fs_block_hash (promote cert s) = fs_block_hash s"
  by (simp_all add: promote_def)

lemma checkpoint_slot_soft [simp]: "checkpoint_slot (record_soft_finality slot h qc n t) = checkpoint_slot t"
  by (simp add: record_soft_finality_def checkpoint_slot_def Let_def)

lemma checkpoint_slot_hard:
  "checkpoint_slot (record_hard_finality cert t) =
     Some (case checkpoint_slot t of Some c \<Rightarrow> max c (hfc_slot cert) | None \<Rightarrow> hfc_slot cert)"
  by (auto simp: record_hard_finality_def checkpoint_slot_def Let_def max_def not_le not_less split: option.splits)

lemma hard_not_advancing:
  "checkpoint_slot t = Some c \<Longrightarrow> hfc_slot cert \<le> c \<Longrightarrow>
   record_hard_finality cert t = t\<lparr>ft_pending := map (promote cert) (ft_pending t)\<rparr>"
  by (auto simp: record_hard_finality_def checkpoint_slot_def Let_def not_less)

lemma hard_advancing:
  assumes "case checkpoint_slot t of Some c \<Rightarrow> c < hfc_slot cert | None \<Rightarrow> True"
  shows "ft_pending (record_hard_finality cert t) =
      filter (\<lambda>s. hfc_slot cert < fs_slot s) (map (promote cert) (ft_pending t))"
    and "highest_hard_slot (record_hard_finality cert t) = max (highest_hard_slot t) (hfc_slot cert)"
  using assms by (auto simp: record_hard_finality_def checkpoint_slot_def Let_def max_def split: option.splits)

lemma tracker_wf_hard:
  assumes "tracker_wf t"
  shows "tracker_wf (record_hard_finality cert t)"
proof (cases "\<exists>c. checkpoint_slot t = Some c \<and> hfc_slot cert \<le> c")
  case True
  then show ?thesis
    using assms by (auto simp: tracker_wf_def hard_not_advancing checkpoint_slot_def promote_def split: if_splits)
next
  case False
  then have adv: "case checkpoint_slot t of Some c \<Rightarrow> c < hfc_slot cert | None \<Rightarrow> True" by (auto split: option.splits)
  have "fs_level s \<noteq> Hard" if mem: "s \<in> set (ft_pending (record_hard_finality cert t))" for s
  proof -
    obtain u where u: "u \<in> set (ft_pending t)" "s = promote cert u" "hfc_slot cert < fs_slot u"
      using mem unfolding hard_advancing(1) [OF adv] by auto
    then have "s = u" by (auto simp: promote_def)
    then show ?thesis using u assms adv by (fastforce simp: tracker_wf_def)
  qed
  then show ?thesis
    using assms adv hard_advancing(2) [OF adv]
    by (auto simp: tracker_wf_def checkpoint_slot_hard max_def split: option.splits)
qed

lemma tracker_wf_soft: "tracker_wf t \<Longrightarrow> tracker_wf (record_soft_finality slot h qc n t)"
proof -
  assume wf: "tracker_wf t"
  have "set (ft_pending (record_soft_finality slot h qc n t)) \<subseteq> set (ft_pending t) \<union> {s. fs_level s = Soft}"
    "highest_hard_slot (record_soft_finality slot h qc n t) = highest_hard_slot t"
    by (auto simp: record_soft_finality_def Let_def)
  then show ?thesis using wf by (fastforce simp: tracker_wf_def)
qed

lemma tracker_run_wf: "tracker_wf t \<Longrightarrow> tracker_wf (fold finality_step evs t)"
proof (induction evs arbitrary: t)
  case (Cons ev evs)
  then have "tracker_wf (finality_step ev t)" by (cases ev) (simp_all add: tracker_wf_hard tracker_wf_soft)
  then show ?case using Cons.IH by simp
qed simp

lemma tracker_new_wf: "tracker_wf finality_tracker_new"
  by (simp add: tracker_wf_def finality_tracker_new_def checkpoint_slot_def)

lemma can_reorg_iff: "can_reorg t slot \<longleftrightarrow> (case checkpoint_slot t of Some c \<Rightarrow> c < slot | None \<Rightarrow> True)"
  by (simp add: can_reorg_def checkpoint_slot_def split: option.splits)

lemma reorg_closed_step: "\<not> can_reorg t slot \<Longrightarrow> \<not> can_reorg (finality_step ev t) slot"
  by (cases ev) (auto simp: can_reorg_iff checkpoint_slot_hard split: option.splits)

lemma find_append_Some: "find p xs = Some x \<Longrightarrow> find p (xs @ ys) = Some x"
  by (induction xs) (auto split: if_splits)

lemma find_map_same:
  "(\<And>x. p (f x) = p x) \<Longrightarrow> find p (map f xs) = map_option f (find p xs)"
  by (induction xs) auto

lemma pending_hard_promote:
  "pending_level ss slot h = Hard \<Longrightarrow> pending_level (map (promote cert) ss) slot h = Hard"
  by (auto simp: pending_level_def find_map_same promote_def split: option.splits)

lemma pending_hard_wf:
  assumes "tracker_wf t" "pending_level (ft_pending t) slot h = Hard"
  shows "\<exists>c. checkpoint_slot t = Some c \<and> slot \<le> c"
proof -
  obtain s where s: "find (\<lambda>s. fs_slot s = slot \<and> fs_block_hash s = h) (ft_pending t) = Some s" "fs_level s = Hard"
    using assms(2) by (auto simp: pending_level_def split: option.splits)
  then have "s \<in> set (ft_pending t)" "fs_slot s = slot" by (auto simp: find_Some_iff)
  then show ?thesis using assms(1) s(2) by (auto simp: tracker_wf_def)
qed

lemma level_hard_iff:
  "finality_level_of t slot h = Hard \<longleftrightarrow>
     (\<exists>cp. latest_checkpoint t = Some cp \<and> (slot = cp_slot cp \<and> h = cp_block_hash cp \<or> slot < cp_slot cp))
     \<or> pending_level (ft_pending t) slot h = Hard"
  by (auto simp: finality_level_of_def split: option.splits)

lemma hard_stays_hard_step:
  assumes "tracker_wf t" "finality_level_of t slot h = Hard"
  shows "finality_level_of (finality_step ev t) slot h = Hard"
proof (cases ev)
  case (SoftEvent s bh qc n)
  have "latest_checkpoint (finality_step ev t) = latest_checkpoint t"
    "\<exists>ss. ft_pending (finality_step ev t) = ft_pending t @ ss"
    by (auto simp: SoftEvent record_soft_finality_def Let_def)
  moreover have "pending_level (ft_pending t @ ss) slot h = Hard" if "pending_level (ft_pending t) slot h = Hard" for ss
    using that by (auto simp: pending_level_def find_append_Some split: option.splits)
  ultimately show ?thesis using assms(2) by (auto simp: level_hard_iff)
next
  case (HardEvent cert)
  obtain c where c: "checkpoint_slot t = Some c" "slot \<le> c"
    using assms(2) pending_hard_wf [OF assms(1)] by (fastforce simp: level_hard_iff checkpoint_slot_def)
  show ?thesis
  proof (cases "hfc_slot cert \<le> c")
    case True
    then show ?thesis
      using assms(2) by (auto simp: HardEvent hard_not_advancing [OF c(1)] level_hard_iff pending_hard_promote)
  next
    case False
    then have "checkpoint_slot (record_hard_finality cert t) = Some (hfc_slot cert)" "slot < hfc_slot cert"
      using c by (auto simp: checkpoint_slot_hard max_def)
    then show ?thesis by (auto simp: HardEvent level_hard_iff checkpoint_slot_def)
  qed
qed

text \<open>
  C17: finality is irrevocable. From start-up through any sequence of soft and hard finality events,
  certificates out of order or conflicting ones included, a slot closed to reorganisation stays
  closed, and a block reported as hard-final is reported as hard-final ever after.
\<close>

theorem finality_irrevocable:
  assumes "t = fold finality_step evs finality_tracker_new"
  shows "(\<not> can_reorg t slot \<longrightarrow> \<not> can_reorg (fold finality_step later t) slot)
    \<and> (finality_level_of t slot h = Hard \<longrightarrow> finality_level_of (fold finality_step later t) slot h = Hard)"
proof -
  have "tracker_wf t" unfolding assms by (rule tracker_run_wf [OF tracker_new_wf])
  then show ?thesis
  proof (induction later arbitrary: t)
    case (Cons ev later)
    have "tracker_wf (finality_step ev t)" using tracker_run_wf [OF Cons.prems, of "[ev]"] by simp
    then show ?case
      using Cons.IH [of "finality_step ev t"] reorg_closed_step [of t slot ev]
        hard_stays_hard_step [OF Cons.prems, of slot h ev] by simp
  qed simp
qed

theorem finality_irrevocable_witness:
  "let cert = \<lambda>s. \<lparr>hfc_slot = s, hfc_block_hash = [], hfc_state_root = [], hfc_voter_bitmap = 0, hfc_signatures = []\<rparr>;
       t = fold finality_step [HardEvent (cert 9)] finality_tracker_new
   in \<not> can_reorg t 7 \<and> \<not> can_reorg (fold finality_step [HardEvent (cert 4)] t) 7
      \<and> finality_level_of (fold finality_step [HardEvent (cert 4)] t) 9 [] = Hard"
proof -
  let ?cert = "\<lambda>s. \<lparr>hfc_slot = s, hfc_block_hash = [], hfc_state_root = [], hfc_voter_bitmap = 0, hfc_signatures = []\<rparr>"
  let ?t = "fold finality_step [HardEvent (?cert 9)] finality_tracker_new"
  have "latest_checkpoint ?t = Some \<lparr>cp_slot = 9, cp_block_hash = [], cp_state_root = [], cp_cert = ?cert 9\<rparr>"
    by (simp add: record_hard_finality_def finality_tracker_new_def Let_def)
  then have "\<not> can_reorg ?t 7" "finality_level_of ?t 9 [] = Hard" by (simp_all add: can_reorg_def finality_level_of_def)
  then show ?thesis
    using finality_irrevocable [OF refl, of "[HardEvent (?cert 9)]" 7 "[HardEvent (?cert 4)]" "[]"]
      finality_irrevocable [OF refl, of "[HardEvent (?cert 9)]" 9 "[HardEvent (?cert 4)]" "[]"]
    by (simp only: Let_def simp_thms)
qed

end
