(* ===== verification/Store.thy ===== *)
theory Store
  imports Keys
begin

text \<open>
  Access to the state: the tree wrapper and the execution overlay
  (\<open>crates/state/src/smt.rs\<close>) and the node's state manager with its read cache, deferred writes
  and undo logs (\<open>crates/node/src/state_manager.rs\<close>).

  The trees themselves are third-party. What the code relies on is their documented behaviour as a
  map from keys to byte strings in which the empty string is "absent", and that is how they are
  modelled; the root hash is a parameter where it is needed. Transactions execute over an overlay
  or the state manager, whose \<open>insert\<close> returns \<open>Ok\<close> for every key (\<open>smt.rs\<close>, \<open>state_manager.rs\<close>);
  an \<open>Err\<close> exists for trees on disk only, and those are written when a block is committed.
\<close>

section \<open>The tree\<close>

type_synonym store = "bytes \<Rightarrow> bytes"

definition hasher_finish :: "crypto_lib \<Rightarrow> bytes \<Rightarrow> bytes" where
  "hasher_finish C buf =
     (if length buf = 64 then poseidon2_pair C (take 32 buf) (drop 32 buf) else poseidon2_hash C buf)"

definition smt_value_to_h256 :: "crypto_lib \<Rightarrow> bytes \<Rightarrow> bytes" where
  "smt_value_to_h256 C v = (if v = [] then replicate 32 0 else poseidon2_hash C v)"

definition smt_new :: store where
  "smt_new = (\<lambda>_. [])"

definition smt_get :: "store \<Rightarrow> bytes \<Rightarrow> bytes option" where
  "smt_get s key = (if s key = [] then None else Some (s key))"

definition smt_insert :: "bytes \<Rightarrow> bytes \<Rightarrow> store \<Rightarrow> store" where
  "smt_insert key value s = s(key := value)"

definition smt_delete :: "bytes \<Rightarrow> store \<Rightarrow> bool \<times> store" where
  "smt_delete key s =
     (let existed = (smt_get s key \<noteq> None) in (existed, if existed then s(key := []) else s))"

definition smt_update_all :: "(bytes \<times> bytes) list \<Rightarrow> store \<Rightarrow> store" where
  "smt_update_all entries s = fold (\<lambda>(k, v). smt_insert k v) entries s"

section \<open>The access interface\<close>

lemma map_of_distinct_set:
  "distinct (map fst xs) \<Longrightarrow> distinct (map fst ys) \<Longrightarrow> set xs = set ys \<Longrightarrow> map_of xs = map_of ys"
  using map_of_inject_set by blast

text \<open>
  What the transaction pipeline relies on of \<open>StateAccess\<close>: a read after a write returns the value
  written, an empty value is absent, and other keys are untouched.
\<close>

locale state_access =
  fixes get :: "'s \<Rightarrow> bytes \<Rightarrow> bytes option"
    and ins :: "bytes \<Rightarrow> bytes \<Rightarrow> 's \<Rightarrow> 's"
  assumes get_ins: "get (ins k v s) k' = (if k' = k then if v = [] then None else Some v else get s k')"
begin

lemma get_fold_ins:
  "get (fold (\<lambda>(k, v). ins k v) es s) k =
     (case map_of (rev es) k of None \<Rightarrow> get s k | Some v \<Rightarrow> if v = [] then None else Some v)"
proof (induction es rule: rev_induct)
  case (snoc e es)
  then show ?case by (cases e) (simp add: get_ins)
qed simp

lemma get_fold_ins_distinct:
  "distinct (map fst es) \<Longrightarrow> get (fold (\<lambda>(k, v). ins k v) es s) k =
     (case map_of es k of None \<Rightarrow> get s k | Some v \<Rightarrow> if v = [] then None else Some v)"
  by (simp add: get_fold_ins map_of_distinct_set [of "rev es" es] rev_map [symmetric])

lemma ins_twice: "get (ins k v (ins k w s)) k' = get (ins k v s) k'"
  by (simp add: get_ins)

lemma ins_commute: "k1 \<noteq> k2 \<Longrightarrow> get (ins k1 v (ins k2 w s)) k = get (ins k2 w (ins k1 v s)) k"
  by (simp add: get_ins)

end

interpretation smt: state_access smt_get smt_insert
  by unfold_locales (simp add: smt_get_def smt_insert_def)

section \<open>The overlay\<close>

record overlay =
  ov_base :: store
  ov_writes :: "(bytes, bytes) hashmap"

definition overlay_new :: "store \<Rightarrow> overlay" where
  "overlay_new base = \<lparr>ov_base = base, ov_writes = []\<rparr>"

definition overlay_get :: "overlay \<Rightarrow> bytes \<Rightarrow> bytes option" where
  "overlay_get ov key =
     (case hm_get (ov_writes ov) key of
        Some v \<Rightarrow> if v = [] then None else Some v
      | None \<Rightarrow> smt_get (ov_base ov) key)"

definition overlay_insert :: "bytes \<Rightarrow> bytes \<Rightarrow> overlay \<Rightarrow> overlay" where
  "overlay_insert key value ov = ov\<lparr>ov_writes := hm_insert key value (ov_writes ov)\<rparr>"

text \<open>
  The write set is a \<open>BTreeMap\<close>; its iteration order is the order of the third-party key type, the
  parameter \<open>rank\<close>.
\<close>

definition into_writes :: "(bytes \<Rightarrow> 'r::linorder) \<Rightarrow> overlay \<Rightarrow> (bytes \<times> bytes) list" where
  "into_writes rank ov = sort_key (\<lambda>e. rank (fst e)) (ov_writes ov)"

record undo_entry =
  undo_key :: bytes
  undo_old_value :: "bytes option"

definition into_writes_with_undo ::
  "(bytes \<Rightarrow> 'r::linorder) \<Rightarrow> overlay \<Rightarrow> (bytes \<times> bytes) list \<times> undo_entry list" where
  "into_writes_with_undo rank ov =
     (let undo = map (\<lambda>e. \<lparr>undo_key = fst e, undo_old_value = smt_get (ov_base ov) (fst e)\<rparr>) (into_writes rank ov)
      in (into_writes rank ov, undo))"

interpretation ov: state_access overlay_get overlay_insert
  by unfold_locales (simp add: overlay_get_def overlay_insert_def split: option.splits)

section \<open>The state manager\<close>

definition MAX_UNDO_DEPTH :: nat where "MAX_UNDO_DEPTH = 128"

record state_manager =
  sm_cache :: "(bytes, bytes) hashmap"
  sm_smt :: store
  sm_tracked_keys :: "bytes set"
  sm_pending_writes :: "(bytes \<times> bytes) list"
  sm_block_undo_logs :: "(u64 \<times> undo_entry list) list"

definition manager_get :: "state_manager \<Rightarrow> bytes \<Rightarrow> bytes option" where
  "manager_get m key =
     (case hm_get (sm_cache m) key of
        Some val \<Rightarrow> if val = [] then None else Some val
      | None \<Rightarrow> smt_get (sm_smt m) key)"

text \<open>\<open>StateManager::insert\<close>, used for genesis, and the deferred \<open>insert\<close> of its \<open>StateAccess\<close> instance.\<close>

definition manager_insert_direct :: "bytes \<Rightarrow> bytes \<Rightarrow> state_manager \<Rightarrow> state_manager" where
  "manager_insert_direct key value m =
     m\<lparr>sm_cache := hm_insert key value (sm_cache m), sm_smt := smt_insert key value (sm_smt m),
       sm_tracked_keys := insert key (sm_tracked_keys m)\<rparr>"

definition manager_insert :: "bytes \<Rightarrow> bytes \<Rightarrow> state_manager \<Rightarrow> state_manager" where
  "manager_insert key value m =
     m\<lparr>sm_cache := hm_insert key value (sm_cache m),
       sm_tracked_keys := insert key (sm_tracked_keys m),
       sm_pending_writes := sm_pending_writes m @ [(key, value)]\<rparr>"

definition manager_delete :: "bytes \<Rightarrow> state_manager \<Rightarrow> bool \<times> state_manager" where
  "manager_delete key m = (case smt_delete key (sm_smt m) of (existed, s) \<Rightarrow>
     (existed, m\<lparr>sm_smt := s, sm_tracked_keys := sm_tracked_keys m - {key}\<rparr>))"

definition update_batch :: "(bytes \<times> bytes) list \<Rightarrow> state_manager \<Rightarrow> state_manager" where
  "update_batch entries m =
     m\<lparr>sm_smt := smt_update_all entries (sm_smt m), sm_tracked_keys := fst ` set entries \<union> sm_tracked_keys m\<rparr>"

definition update_batch_deferred :: "(bytes \<times> bytes) list \<Rightarrow> state_manager \<Rightarrow> state_manager" where
  "update_batch_deferred entries m =
     m\<lparr>sm_cache := fold (\<lambda>(k, v). hm_insert k v) entries (sm_cache m),
       sm_tracked_keys := fst ` set entries \<union> sm_tracked_keys m,
       sm_pending_writes := sm_pending_writes m @ entries\<rparr>"

definition flush_pending :: "state_manager \<Rightarrow> state_manager" where
  "flush_pending m =
     (if sm_pending_writes m = [] then m
      else update_batch (sm_pending_writes m) (m\<lparr>sm_pending_writes := []\<rparr>))"

definition record_block_undo :: "u64 \<Rightarrow> undo_entry list \<Rightarrow> state_manager \<Rightarrow> state_manager" where
  "record_block_undo slot entries m =
     (let logs = sm_block_undo_logs m @ [(slot, entries)]
      in m\<lparr>sm_block_undo_logs := drop (length logs - MAX_UNDO_DEPTH) logs\<rparr>)"

definition can_revert_to :: "u64 \<Rightarrow> state_manager \<Rightarrow> bool" where
  "can_revert_to target_slot m =
     (case sm_block_undo_logs m of
        [] \<Rightarrow> False
      | (s, _) # _ \<Rightarrow> saturating_sub s 1 \<le> target_slot)"

definition restore_writes :: "undo_entry list \<Rightarrow> (bytes \<times> bytes) list" where
  "restore_writes entries =
     map (\<lambda>e. (undo_key e, case undo_old_value e of Some v \<Rightarrow> v | None \<Rightarrow> [])) entries"

definition restore_cache :: "bytes \<times> bytes \<Rightarrow> (bytes, bytes) hashmap \<Rightarrow> (bytes, bytes) hashmap" where
  "restore_cache e cache = (if snd e = [] then hm_remove (fst e) cache else hm_insert (fst e) (snd e) cache)"

definition undo_block :: "undo_entry list \<Rightarrow> state_manager \<Rightarrow> state_manager" where
  "undo_block entries m =
     m\<lparr>sm_cache := fold restore_cache (restore_writes entries) (sm_cache m),
       sm_smt := smt_update_all (restore_writes entries) (sm_smt m)\<rparr>"

text \<open>The loop that pops undo logs, newest first; the list is reversed for it.\<close>

fun revert_loop :: "u64 \<Rightarrow> (u64 \<times> undo_entry list) list \<Rightarrow> state_manager \<Rightarrow> nat \<Rightarrow> nat \<times> state_manager" where
  "revert_loop target_slot [] m reverted = (reverted, m\<lparr>sm_block_undo_logs := []\<rparr>)"
| "revert_loop target_slot ((slot, entries) # logs) m reverted =
     (if slot \<le> target_slot then (reverted, m\<lparr>sm_block_undo_logs := rev ((slot, entries) # logs)\<rparr>)
      else revert_loop target_slot logs (undo_block entries m) (reverted + 1))"

definition revert_to :: "u64 \<Rightarrow> state_manager \<Rightarrow> nat option \<times> state_manager" where
  "revert_to target_slot m =
     (if (case sm_block_undo_logs m of [] \<Rightarrow> False | (oldest_slot, _) # _ \<Rightarrow> target_slot + 1 < oldest_slot)
      then (None, m)
      else case revert_loop target_slot (rev (sm_block_undo_logs m)) m 0 of
             (reverted, m) \<Rightarrow> (Some reverted, m))"

interpretation mgr: state_access manager_get manager_insert
  by unfold_locales (simp add: manager_get_def manager_insert_def split: option.splits)

section \<open>Commit of an overlay\<close>

definition overlay_wf :: "overlay \<Rightarrow> bool" where
  "overlay_wf ov \<longleftrightarrow> hm_wf (ov_writes ov)"

lemma overlay_wf_new [simp]: "overlay_wf (overlay_new base)"
  by (simp add: overlay_wf_def overlay_new_def)

lemma overlay_wf_insert [simp]: "overlay_wf ov \<Longrightarrow> overlay_wf (overlay_insert k v ov)"
  by (simp add: overlay_wf_def overlay_insert_def)

lemma into_writes_distinct: "overlay_wf ov \<Longrightarrow> distinct (map fst (into_writes rank ov))"
  by (simp add: overlay_wf_def hm_wf_def into_writes_def distinct_map)

lemma into_writes_map_of: "overlay_wf ov \<Longrightarrow> map_of (into_writes rank ov) k = hm_get (ov_writes ov) k"
  unfolding hm_get_def
  using map_of_distinct_set [of "into_writes rank ov" "ov_writes ov"] into_writes_distinct [of ov rank]
  by (simp add: overlay_wf_def hm_wf_def into_writes_def)

lemma hm_get_same_set:
  "hm_wf m1 \<Longrightarrow> hm_wf m2 \<Longrightarrow> (\<And>k. hm_get m1 k = hm_get m2 k) \<Longrightarrow> set m1 = set m2"
  by (auto simp: hm_get_mem)

lemma into_writes_deterministic:
  assumes "overlay_wf ov1" "overlay_wf ov2" "inj rank"
    and "\<And>k. hm_get (ov_writes ov1) k = hm_get (ov_writes ov2) k"
  shows "into_writes rank ov1 = into_writes rank ov2"
proof -
  let ?r = "\<lambda>e :: bytes \<times> bytes. rank (fst e)"
  have set: "set (ov_writes ov1) = set (ov_writes ov2)"
    using assms by (intro hm_get_same_set) (simp_all add: overlay_wf_def)
  have inj: "inj_on ?r (set (ov_writes ov1))"
  proof (rule inj_onI)
    fix x y assume "x \<in> set (ov_writes ov1)" "y \<in> set (ov_writes ov1)" "?r x = ?r y"
    then show "x = y" using assms(1,3)
      by (metis overlay_wf_def hm_wf_def injD eq_key_imp_eq_value prod.collapse)
  qed
  have sorted: "map ?r (into_writes rank ov) = sorted_list_of_set (?r ` set (ov_writes ov))"
    if "overlay_wf ov" "inj_on ?r (set (ov_writes ov))" for ov
    using that by (intro sorted_distinct_set_unique)
      (auto simp: into_writes_def distinct_map overlay_wf_def hm_wf_def)
  have "map ?r (into_writes rank ov1) = map ?r (into_writes rank ov2)"
    using sorted [OF assms(1) inj] sorted [OF assms(2)] inj set by simp
  moreover have "inj_on ?r (set (into_writes rank ov1) \<union> set (into_writes rank ov2))"
    using inj set by (simp add: into_writes_def)
  ultimately show ?thesis by (rule map_inj_on)
qed

lemma overlay_commit:
  "overlay_wf ov \<Longrightarrow> smt_get (smt_update_all (into_writes rank ov) (ov_base ov)) k = overlay_get ov k"
  by (simp add: smt_update_all_def smt.get_fold_ins_distinct into_writes_distinct into_writes_map_of overlay_get_def)

section \<open>Reverting blocks\<close>

definition manager_view :: "state_manager \<Rightarrow> store" where
  "manager_view m = (\<lambda>k. case manager_get m k of Some v \<Rightarrow> v | None \<Rightarrow> [])"

lemma manager_view_get [simp]: "smt_get (manager_view m) k = manager_get m k"
  by (auto simp: smt_get_def manager_view_def manager_get_def split: option.splits)

text \<open>A block's writes reach the manager through an overlay on it, with their undo log.\<close>

definition commit_overlay ::
  "(bytes \<Rightarrow> 'r::linorder) \<Rightarrow> u64 \<Rightarrow> (bytes, bytes) hashmap \<Rightarrow> state_manager \<Rightarrow> state_manager" where
  "commit_overlay rank slot written m =
     (let (writes, undo) = into_writes_with_undo rank \<lparr>ov_base = manager_view m, ov_writes = written\<rparr>;
          m = (if writes \<noteq> [] then update_batch_deferred writes m else m)
      in record_block_undo slot undo m)"

lemma update_batch_deferred_get:
  assumes "distinct (map fst es)"
  shows "manager_get (update_batch_deferred es m) k =
    (case map_of es k of None \<Rightarrow> manager_get m k | Some v \<Rightarrow> if v = [] then None else Some v)"
proof -
  have "hm_get (fold (\<lambda>(k, v). hm_insert k v) es c) k = (case map_of (rev es) k of None \<Rightarrow> hm_get c k | Some v \<Rightarrow> Some v)"
    for c :: "(bytes, bytes) hashmap"
    by (induction es rule: rev_induct) (auto split: prod.splits)
  moreover have "map_of (rev es) = map_of es"
    using assms by (intro map_of_distinct_set) (simp_all add: rev_map [symmetric])
  ultimately show ?thesis by (simp add: manager_get_def update_batch_deferred_def split: option.splits)
qed

lemma manager_get_cong:
  "sm_cache m1 = sm_cache m2 \<Longrightarrow> sm_smt m1 = sm_smt m2 \<Longrightarrow> manager_get m1 k = manager_get m2 k"
  by (simp add: manager_get_def split: option.splits)

lemma record_block_undo_get [simp]: "manager_get (record_block_undo slot es m) k = manager_get m k"
  by (rule manager_get_cong) (simp_all add: record_block_undo_def Let_def)

lemma commit_overlay_get:
  assumes "hm_wf written"
  shows "manager_get (commit_overlay rank slot written m) k =
    (case hm_get written k of None \<Rightarrow> manager_get m k | Some v \<Rightarrow> if v = [] then None else Some v)"
proof -
  let ?ov = "\<lparr>ov_base = manager_view m, ov_writes = written\<rparr>"
  have wf: "overlay_wf ?ov" using assms by (simp add: overlay_wf_def)
  have "manager_get (commit_overlay rank slot written m) k =
      manager_get (if into_writes rank ?ov \<noteq> [] then update_batch_deferred (into_writes rank ?ov) m else m) k"
    by (simp add: commit_overlay_def into_writes_with_undo_def Let_def)
  also have "\<dots> = manager_get (update_batch_deferred (into_writes rank ?ov) m) k"
    by (simp add: update_batch_deferred_def)
  finally show ?thesis
    using update_batch_deferred_get [OF into_writes_distinct [OF wf], of rank m k] into_writes_map_of [OF wf, of rank k]
    by simp
qed

lemma fold_restore_cache_get:
  "distinct (map fst es) \<Longrightarrow> hm_get (fold restore_cache es c) k =
     (case map_of es k of None \<Rightarrow> hm_get c k | Some v \<Rightarrow> if v = [] then None else Some v)"
proof (induction es arbitrary: c)
  case (Cons e es)
  have "map_of es (fst e) = None" using Cons.prems by (auto simp: map_of_eq_None_iff)
  then show ?case using Cons by (cases e) (auto simp: restore_cache_def split: option.splits)
qed simp

lemma restore_writes_map_of:
  "map_of (restore_writes es) k = map_option (\<lambda>v. case v of Some v \<Rightarrow> v | None \<Rightarrow> [])
     (map_of (map (\<lambda>e. (undo_key e, undo_old_value e)) es) k)"
  by (induction es) (auto simp: restore_writes_def)

lemma undo_block_get:
  assumes "distinct (map undo_key es)"
  shows "manager_get (undo_block es m) k =
    (case map_of (map (\<lambda>e. (undo_key e, undo_old_value e)) es) k of
       None \<Rightarrow> manager_get m k | Some (Some v) \<Rightarrow> if v = [] then None else Some v | Some None \<Rightarrow> None)"
proof -
  let ?ws = "restore_writes es"
  have d: "distinct (map fst ?ws)" using assms by (simp add: restore_writes_def comp_def)
  have "manager_get (undo_block es m) k = (case map_of ?ws k of
      None \<Rightarrow> manager_get m k | Some v \<Rightarrow> if v = [] then None else Some v)"
    using smt.get_fold_ins_distinct [OF d, of "sm_smt m" k]
    by (simp add: undo_block_def manager_get_def fold_restore_cache_get [OF d] smt_update_all_def split: option.splits)
  then show ?thesis by (simp add: restore_writes_map_of split: option.splits)
qed

definition block_undo :: "(bytes \<Rightarrow> 'r::linorder) \<Rightarrow> (bytes, bytes) hashmap \<Rightarrow> state_manager \<Rightarrow> undo_entry list" where
  "block_undo rank written m = snd (into_writes_with_undo rank \<lparr>ov_base = manager_view m, ov_writes = written\<rparr>)"

lemma map_of_key_image:
  "map_of (map (\<lambda>e. (fst e, f (fst e))) xs) k = (if map_of xs k = None then None else Some (f k))"
  by (induction xs) auto

lemma block_undo_map:
  assumes "hm_wf written"
  shows "distinct (map undo_key (block_undo rank written m))"
    and "map_of (map (\<lambda>e. (undo_key e, undo_old_value e)) (block_undo rank written m)) k =
      (if hm_get written k = None then None else Some (manager_get m k))"
proof -
  let ?ov = "\<lparr>ov_base = manager_view m, ov_writes = written\<rparr>"
  have wf: "overlay_wf ?ov" using assms by (simp add: overlay_wf_def)
  have undo: "block_undo rank written m =
      map (\<lambda>e. \<lparr>undo_key = fst e, undo_old_value = manager_get m (fst e)\<rparr>) (into_writes rank ?ov)"
    by (simp add: block_undo_def into_writes_with_undo_def Let_def)
  show "distinct (map undo_key (block_undo rank written m))"
    using into_writes_distinct [OF wf, of rank] by (simp add: undo comp_def)
  have "map_of (map (\<lambda>e. (undo_key e, undo_old_value e)) (block_undo rank written m)) k =
      (if map_of (into_writes rank ?ov) k = None then None else Some (manager_get m k))"
    by (simp add: undo comp_def map_of_key_image)
  then show "map_of (map (\<lambda>e. (undo_key e, undo_old_value e)) (block_undo rank written m)) k =
      (if hm_get written k = None then None else Some (manager_get m k))"
    by (simp add: into_writes_map_of [OF wf])
qed

lemma manager_get_nonempty: "manager_get m k \<noteq> Some []"
  by (auto simp: manager_get_def smt_get_def split: option.splits)

text \<open>Undoing the block just committed, on any manager that reads like the committed one.\<close>

lemma undo_commit_get:
  assumes "hm_wf written" and "\<And>k. manager_get m' k = manager_get (commit_overlay rank slot written m) k"
  shows "manager_get (undo_block (block_undo rank written m) m') k = manager_get m k"
  using manager_get_nonempty [of m k]
  by (auto simp: undo_block_get [OF block_undo_map(1) [OF assms(1)]] block_undo_map(2) [OF assms(1)] assms(2)
      commit_overlay_get [OF assms(1)] split: option.splits)

lemma commit_overlay_logs:
  "length (sm_block_undo_logs m) < MAX_UNDO_DEPTH \<Longrightarrow>
   sm_block_undo_logs (commit_overlay rank slot written m) = sm_block_undo_logs m @ [(slot, block_undo rank written m)]"
  by (simp add: commit_overlay_def into_writes_with_undo_def block_undo_def Let_def record_block_undo_def
      update_batch_deferred_def)

fun commit_blocks ::
  "(bytes \<Rightarrow> 'r::linorder) \<Rightarrow> (u64 \<times> (bytes, bytes) hashmap) list \<Rightarrow> state_manager \<Rightarrow> state_manager" where
  "commit_blocks rank [] m = m"
| "commit_blocks rank ((slot, written) # bs) m = commit_blocks rank bs (commit_overlay rank slot written m)"

lemma commit_blocks_snoc:
  "commit_blocks rank (bs @ [(slot, written)]) m = commit_overlay rank slot written (commit_blocks rank bs m)"
  by (induction rank bs m rule: commit_blocks.induct) auto

lemma revert_loop_commits:
  assumes "\<forall>(s, w)\<in>set bs. target < s \<and> hm_wf w"
    and "\<forall>(s, _)\<in>set (sm_block_undo_logs m). s \<le> target"
    and "length (sm_block_undo_logs m) + length bs \<le> MAX_UNDO_DEPTH"
    and "\<And>k. manager_get m' k = manager_get (commit_blocks rank bs m) k"
  shows "fst (revert_loop target (rev (sm_block_undo_logs (commit_blocks rank bs m))) m' n) = n + length bs
    \<and> (\<forall>k. manager_get (snd (revert_loop target (rev (sm_block_undo_logs (commit_blocks rank bs m))) m' n)) k = manager_get m k)"
  using assms
proof (induction bs arbitrary: m' n rule: rev_induct)
  case Nil
  have frame: "manager_get (m'\<lparr>sm_block_undo_logs := l\<rparr>) k = manager_get m' k" for l k
    by (rule manager_get_cong) simp_all
  show ?case
  proof (cases "rev (sm_block_undo_logs m)")
    case Nil
    then show ?thesis using Nil.prems(4) frame by simp
  next
    case (Cons e es)
    then have "e \<in> set (sm_block_undo_logs m)" by (metis list.set_intros(1) set_rev)
    then have "fst e \<le> target" using Nil.prems(2) by (cases e) auto
    then show ?thesis using Nil.prems(4) frame Cons by (cases e) simp
  qed
next
  case (snoc b bs)
  obtain slot written where b: "b = (slot, written)" by fastforce
  have slot: "target < slot" and wf: "hm_wf written" using snoc.prems(1) by (auto simp: b)
  have logs: "length (sm_block_undo_logs (commit_blocks rank bs m)) = length (sm_block_undo_logs m) + length bs"
    if "length (sm_block_undo_logs m) + length bs \<le> MAX_UNDO_DEPTH" for bs and m :: state_manager
    using that by (induction rank bs m rule: commit_blocks.induct) (auto simp: commit_overlay_logs)
  let ?mb = "commit_blocks rank bs m"
  have "sm_block_undo_logs (commit_blocks rank (bs @ [b]) m)
      = sm_block_undo_logs ?mb @ [(slot, block_undo rank written ?mb)]"
    using snoc.prems(3) logs [of m bs] by (simp add: b commit_blocks_snoc commit_overlay_logs)
  moreover have "manager_get (undo_block (block_undo rank written ?mb) m') k = manager_get ?mb k" for k
    by (rule undo_commit_get [OF wf]) (use snoc.prems(4) in \<open>simp add: b commit_blocks_snoc\<close>)
  ultimately show ?case
    using snoc.IH [of "undo_block (block_undo rank written ?mb) m'" "n + 1"] snoc.prems(1-3) slot
    by (simp add: not_le [symmetric])
qed

text \<open>
  C5: a reorganisation gives the old state back. After any number of committed blocks within the undo
  horizon, \<open>revert_to\<close> undoes exactly the blocks above the target slot, and every key reads as it did
  at the target.
\<close>

theorem revert_restores_state:
  assumes "\<forall>(s, w)\<in>set bs. target < s \<and> hm_wf w"
    and "\<forall>(s, _)\<in>set (sm_block_undo_logs m). s \<le> target"
    and "length (sm_block_undo_logs m) + length bs \<le> MAX_UNDO_DEPTH" "target \<noteq> - 1"
    and "can_revert_to target (commit_blocks rank bs m)"
  shows "\<exists>m'. revert_to target (commit_blocks rank bs m) = (Some (length bs), m')
    \<and> (\<forall>k. manager_get m' k = manager_get m k)"
proof -
  let ?m = "commit_blocks rank bs m"
  obtain oldest es logs where logs: "sm_block_undo_logs ?m = (oldest, es) # logs" "saturating_sub oldest 1 \<le> target"
    using assms(5) by (auto simp: can_revert_to_def split: list.splits)
  have "unat target \<noteq> 2 ^ 64 - 1" using assms(4) by (simp add: word_unat_eq_iff unat_max_word)
  then have "unat (target + 1) = unat target + 1"
    using unsigned_less [of target, where 'a = nat] by (intro unat_add_lem [THEN iffD1, THEN trans]) simp_all
  then have "\<not> target + 1 < oldest"
    using logs(2) by (auto simp: saturating_sub_def word_le_nat_alt word_less_nat_alt unat_sub split: if_splits)
  then have "revert_to target ?m =
      (case revert_loop target (rev (sm_block_undo_logs ?m)) ?m 0 of (reverted, m) \<Rightarrow> (Some reverted, m))"
    by (simp add: revert_to_def logs(1))
  then show ?thesis
    using revert_loop_commits [OF assms(1-3), of ?m rank 0] by (auto split: prod.splits)
qed

definition manager_new :: state_manager where
  "manager_new = \<lparr>sm_cache = [], sm_smt = smt_new, sm_tracked_keys = {}, sm_pending_writes = [], sm_block_undo_logs = []\<rparr>"

theorem revert_restores_state_witness:
  "\<exists>m'. revert_to 4 (commit_blocks (\<lambda>k. unat (hd k)) [(5, [([1], [7])]), (6, [([1], [8]), ([2], [9])])] manager_new) = (Some 2, m')
     \<and> manager_get m' [1] = None \<and> manager_get m' [2] = None"
proof -
  let ?bs = "[(5, [([1], [7])]), (6, [([1], [8]), ([2], [9])])] :: (u64 \<times> (bytes, bytes) hashmap) list"
  have "sm_block_undo_logs (commit_blocks (\<lambda>k. unat (hd k)) ?bs manager_new) \<noteq> [] \<and>
      fst (hd (sm_block_undo_logs (commit_blocks (\<lambda>k. unat (hd k)) ?bs manager_new))) = 5"
    by (simp add: commit_overlay_logs manager_new_def MAX_UNDO_DEPTH_def)
  then have "can_revert_to 4 (commit_blocks (\<lambda>k. unat (hd k)) ?bs manager_new)"
    by (auto simp: can_revert_to_def saturating_sub_def split: list.splits)
  moreover have "manager_get manager_new k = None" for k
    by (simp add: manager_get_def manager_new_def smt_get_def smt_new_def)
  moreover have "\<forall>(s, w)\<in>set ?bs. (4 :: u64) < s \<and> hm_wf w" by (simp add: hm_wf_def)
  ultimately obtain m' where "revert_to 4 (commit_blocks (\<lambda>k. unat (hd k)) ?bs manager_new) = (Some (length ?bs), m')"
    "\<forall>k. manager_get m' k = None"
    using revert_restores_state [of ?bs 4 manager_new "\<lambda>k. unat (hd k)"]
    by (auto simp: MAX_UNDO_DEPTH_def manager_new_def)
  then show ?thesis by simp
qed

text \<open>
  C37: a reverted block comes back. \<open>revert_to\<close> restores the cache and the tree but leaves the block's
  writes in the queue of deferred writes: the next flush writes them into the tree after all, and a
  key the block had created, which the revert dropped from the cache, reads as the reverted block
  left it.
\<close>

theorem flush_resurrects_reverted_block:
  assumes "hm_wf written" "hm_get written k = Some v" "v \<noteq> []" "manager_get m k = None"
    and "sm_block_undo_logs m = []" "target < slot" "slot \<le> target + 1"
  shows "\<exists>m'. revert_to target (commit_overlay rank slot written m) = (Some 1, m')
    \<and> manager_get m' k = None \<and> manager_get (flush_pending m') k = Some v"
proof -
  let ?ov = "\<lparr>ov_base = manager_view m, ov_writes = written\<rparr>"
  let ?m1 = "commit_overlay rank slot written m" and ?undo = "block_undo rank written m"
  let ?m' = "(undo_block ?undo ?m1)\<lparr>sm_block_undo_logs := []\<rparr>"
  have wf: "overlay_wf ?ov" using assms(1) by (simp add: overlay_wf_def)
  have logs: "sm_block_undo_logs ?m1 = [(slot, ?undo)]"
    using assms(5) by (simp add: commit_overlay_logs MAX_UNDO_DEPTH_def)
  have revert: "revert_to target ?m1 = (Some 1, ?m')"
    using assms(6,7) by (simp add: revert_to_def logs not_le [symmetric])
  have writes: "map_of (into_writes rank ?ov) k = Some v" "into_writes rank ?ov \<noteq> []"
    using assms(2) into_writes_map_of [OF wf, of rank k] by auto
  then have pending: "sm_pending_writes ?m' = sm_pending_writes m @ into_writes rank ?ov"
    by (simp add: commit_overlay_def into_writes_with_undo_def Let_def record_block_undo_def update_batch_deferred_def
        undo_block_def)
  have "map_of (rev (into_writes rank ?ov)) k = Some v"
    using writes(1) map_of_distinct_set [of "rev (into_writes rank ?ov)" "into_writes rank ?ov"]
      into_writes_distinct [OF wf, of rank] by (simp add: rev_map [symmetric])
  then have flushed: "smt_get (sm_smt (flush_pending ?m')) k = Some v"
    using writes(2) assms(3) pending
    by (simp add: flush_pending_def update_batch_def smt_update_all_def smt.get_fold_ins)
  have "map_of (map (\<lambda>e. (undo_key e, undo_old_value e)) ?undo) k = Some None"
    using assms(2,4) by (simp add: block_undo_map(2) [OF assms(1)])
  then have "map_of (restore_writes ?undo) k = Some []"
    by (simp add: restore_writes_map_of)
  then have cache: "hm_get (sm_cache ?m') k = None"
    using block_undo_map(1) [OF assms(1), of rank m]
    by (simp add: undo_block_def fold_restore_cache_get restore_writes_def comp_def)
  have "sm_cache (flush_pending ?m') = sm_cache ?m'" by (simp add: flush_pending_def update_batch_def)
  then have "manager_get (flush_pending ?m') k = Some v" using cache flushed by (simp add: manager_get_def)
  moreover have "manager_get ?m' k = manager_get (undo_block ?undo ?m1) k" by (rule manager_get_cong) simp_all
  then have "manager_get ?m' k = None" using undo_commit_get [OF assms(1), of ?m1 rank slot m k] assms(4) by simp
  ultimately show ?thesis using revert by blast
qed

theorem flush_resurrects_reverted_block_witness:
  "\<exists>m'. revert_to 4 (commit_overlay (\<lambda>k. unat (hd k)) 5 [([1], [7])] manager_new) = (Some 1, m')
     \<and> manager_get m' [1] = None \<and> manager_get (flush_pending m') [1] = Some [7]"
  by (rule flush_resurrects_reverted_block)
    (simp_all add: hm_wf_def hm_get_def manager_get_def manager_new_def smt_get_def smt_new_def)

end
