(* ===== verification/Snapshot.thy ===== *)
theory Snapshot
  imports Store Account "HOL-Library.Multiset"
begin

text \<open>
  State snapshots for node sync (\<open>crates/state/src/snapshot.rs\<close>): full and incremental snapshots,
  their chunks for the network and the checks on receipt. The root hash is computed by the
  third-party tree: the parameter \<open>root\<close>, a function of the tree's contents.
\<close>

section \<open>Snapshots\<close>

record snapshot =
  snap_root :: bytes
  snap_entries :: "(bytes \<times> bytes) list"

record snapshot_chunk =
  ch_index :: u32
  ch_total :: u32
  ch_entries :: "(bytes \<times> bytes) list"
  ch_chunk_hash :: bytes

record incremental_snapshot =
  inc_from_root :: bytes
  inc_to_root :: bytes
  inc_diffs :: "(bytes \<times> bytes) list"

definition create_snapshot :: "(store \<Rightarrow> bytes) \<Rightarrow> store \<Rightarrow> bytes list \<Rightarrow> snapshot" where
  "create_snapshot root s all_keys =
     \<lparr>snap_root = root s, snap_entries = List.map_filter (\<lambda>k. map_option (Pair k) (smt_get s k)) all_keys\<rparr>"

definition restore_snapshot :: "snapshot \<Rightarrow> store" where
  "restore_snapshot snap =
     (if snap_entries snap \<noteq> [] then smt_update_all (snap_entries snap) smt_new else smt_new)"

definition verify_snapshot :: "(store \<Rightarrow> bytes) \<Rightarrow> snapshot \<Rightarrow> bool" where
  "verify_snapshot root snap \<longleftrightarrow> root (restore_snapshot snap) = snap_root snap"

definition create_incremental :: "(store \<Rightarrow> bytes) \<Rightarrow> bytes list \<Rightarrow> store \<Rightarrow> store \<Rightarrow> bytes list \<Rightarrow> incremental_snapshot" where
  "create_incremental root old_keys old_smt new_smt new_keys =
     \<lparr>inc_from_root = root old_smt, inc_to_root = root new_smt,
      inc_diffs =
        map (\<lambda>k. (k, case smt_get new_smt k of Some v \<Rightarrow> v | None \<Rightarrow> []))
          (filter (\<lambda>k. smt_get old_smt k \<noteq> smt_get new_smt k) new_keys) @
        map (\<lambda>k. (k, [])) (filter (\<lambda>k. smt_get new_smt k = None \<and> smt_get old_smt k \<noteq> None) old_keys)\<rparr>"

definition apply_incremental :: "(store \<Rightarrow> bytes) \<Rightarrow> incremental_snapshot \<Rightarrow> store \<Rightarrow> bytes option \<times> store" where
  "apply_incremental root inc s =
     (if root s \<noteq> inc_from_root inc then (None, s)
      else let s = smt_update_all (inc_diffs inc) s in (Some (root s), s))"

section \<open>Chunks\<close>

definition hash_chunk :: "crypto_lib \<Rightarrow> (bytes \<times> bytes) list \<Rightarrow> bytes" where
  "hash_chunk C entries =
     poseidon2_hash C (concat (map (\<lambda>(k, v). k @ to_le_bytes 4 (of_nat (length v) :: u32) @ v) entries))"

text \<open>\<open>slice::chunks\<close> panics on a chunk size of 0: \<open>None\<close>.\<close>

definition chunk_snapshot :: "crypto_lib \<Rightarrow> snapshot \<Rightarrow> nat \<Rightarrow> snapshot_chunk list option" where
  "chunk_snapshot C snap chunk_size =
     (if chunk_size = 0 then None
      else let total = max ((length (snap_entries snap) + chunk_size - 1) div chunk_size) 1
           in Some (map (\<lambda>(i, entries).
                \<lparr>ch_index = of_nat i, ch_total = of_nat total, ch_entries = entries, ch_chunk_hash = hash_chunk C entries\<rparr>)
                (enumerate 0 (chunks chunk_size (snap_entries snap)))))"

definition verify_chunks :: "crypto_lib \<Rightarrow> (store \<Rightarrow> bytes) \<Rightarrow> snapshot_chunk list \<Rightarrow> bytes \<Rightarrow> bool" where
  "verify_chunks C root chs expected_root \<longleftrightarrow>
     (\<forall>c\<in>set chs. hash_chunk C (ch_entries c) = ch_chunk_hash c) \<and>
     verify_snapshot root
       \<lparr>snap_root = expected_root, snap_entries = concat (map ch_entries (sort_key ch_index chs))\<rparr>"

section \<open>Round trips\<close>

lemma smt_get_ext: "(\<And>k. smt_get s k = smt_get s' k) \<Longrightarrow> s = s'"
proof
  fix k assume "\<And>k. smt_get s k = smt_get s' k"
  then have "smt_get s k = smt_get s' k" .
  then show "s k = s' k" by (auto simp: smt_get_def split: if_splits)
qed

lemma map_of_keyed:
  "map_of (map (\<lambda>k. (k, f k)) xs) k = (if k \<in> set xs then Some (f k) else None)"
  by (induction xs) auto

lemma map_of_map_filter:
  "map_of (List.map_filter (\<lambda>k. map_option (Pair k) (f k)) xs) k = (if k \<in> set xs then f k else None)"
  by (induction xs) (auto simp: map_filter_simps split: option.splits)

lemma map_filter_rev: "rev (List.map_filter f xs) = List.map_filter f (rev xs)"
  by (simp add: map_filter_def rev_map rev_filter)

lemma restore_create:
  assumes "\<And>k. smt_get s k \<noteq> None \<Longrightarrow> k \<in> set all_keys"
  shows "restore_snapshot (create_snapshot root s all_keys) = s"
proof (rule smt_get_ext)
  fix k
  let ?es = "List.map_filter (\<lambda>k. map_option (Pair k) (smt_get s k)) all_keys"
  have new: "smt_get smt_new k = None" by (simp add: smt_get_def smt_new_def)
  have "restore_snapshot (create_snapshot root s all_keys) = smt_update_all ?es smt_new"
    by (simp add: restore_snapshot_def create_snapshot_def smt_update_all_def)
  moreover have "map_of (rev ?es) k = smt_get s k"
    using assms [of k] by (cases "smt_get s k") (auto simp: map_filter_rev map_of_map_filter)
  moreover have "smt_get s k \<noteq> Some []" by (simp add: smt_get_def)
  ultimately show "smt_get (restore_snapshot (create_snapshot root s all_keys)) k = smt_get s k"
    using new by (auto simp: smt_update_all_def smt.get_fold_ins split: option.splits)
qed

lemma concat_chunks: "n \<noteq> 0 \<Longrightarrow> concat (chunks n xs) = xs"
proof (induction n xs rule: chunks.induct)
  case (1 n xs)
  show ?case
  proof (cases "xs = []")
    case False
    then have "concat (chunks n xs) = take n xs @ concat (chunks n (drop n xs))"
      using chunks_Cons [OF 1(2) False] by simp
    then show ?thesis using 1 False by simp
  qed simp
qed

lemma length_chunks: "length (chunks n xs) \<le> length xs"
proof (induction n xs rule: chunks.induct)
  case (1 n xs)
  show ?case
  proof (cases "n = 0 \<or> xs = []")
    case True
    then have "length (chunks n xs) = 0" by simp
    then show ?thesis by linarith
  next
    case False
    then have "length (chunks n xs) = Suc (length (chunks n (drop n xs)))"
      using chunks_Cons [of n xs] by simp
    moreover have "length (chunks n (drop n xs)) \<le> length xs - n" using 1 False by simp
    moreover have "0 < length xs" "0 < n" using False by simp_all
    ultimately show ?thesis by linarith
  qed
qed

lemma sort_key_permuted:
  assumes "mset xs = mset ys" "sorted (map f ys)" "distinct (map f ys)"
  shows "sort_key f xs = ys"
proof -
  have "set xs = set ys" using assms(1) by (metis set_mset_mset)
  then have "inj_on f (set xs)" using assms(3) by (simp add: distinct_map)
  then show ?thesis using assms(1,2) by (intro sort_key_inj_key_eq) simp_all
qed

lemma enumerate_words:
  assumes "length xs \<le> 2 ^ 32"
  shows "sorted (map (\<lambda>(i, _). of_nat i :: u32) (enumerate 0 xs)) \<and> distinct (map (\<lambda>(i, _). of_nat i :: u32) (enumerate 0 xs))"
proof -
  have eq: "map (\<lambda>(i, _). of_nat i :: u32) (enumerate 0 xs) = map of_nat [0..<length xs]"
    by (rule nth_equalityI) (simp_all add: nth_enumerate_eq)
  have "unat (of_nat i :: u32) = i" if "i < length xs" for i
    using that assms by (simp add: unat_of_nat_small)
  then have "sorted (map (of_nat :: nat \<Rightarrow> u32) [0..<length xs])" "inj_on (of_nat :: nat \<Rightarrow> u32) {0..<length xs}"
    by (auto simp: sorted_iff_nth_mono word_le_nat_alt inj_on_def) (metis)
  then show ?thesis by (simp add: eq distinct_map)
qed

text \<open>
  C33: a snapshot survives the network. The chunks of a complete snapshot verify against the root of
  the state they were taken from in whatever order they arrive, and the state restored from them is
  that state.
\<close>

theorem snapshot_chunks_roundtrip:
  assumes "\<And>k. smt_get s k \<noteq> None \<Longrightarrow> k \<in> set all_keys" "0 < n" "length all_keys \<le> 2 ^ 32"
    and "chunk_snapshot C (create_snapshot root s all_keys) n = Some sent" "mset received = mset sent"
  shows "verify_chunks C root received (root s)
    \<and> restore_snapshot \<lparr>snap_root = root s, snap_entries = concat (map ch_entries (sort_key ch_index received))\<rparr> = s"
proof -
  let ?snap = "create_snapshot root s all_keys"
  let ?cs = "chunks n (snap_entries ?snap)"
  let ?mk = "\<lambda>(i, entries). \<lparr>ch_index = of_nat i :: u32,
    ch_total = of_nat (max ((length (snap_entries ?snap) + n - 1) div n) 1), ch_entries = entries,
    ch_chunk_hash = hash_chunk C entries\<rparr>"
  have sent: "sent = map ?mk (enumerate 0 ?cs)" using assms(2,4) by (simp add: chunk_snapshot_def Let_def)
  have "length (snap_entries ?snap) \<le> length all_keys"
    by (simp add: create_snapshot_def map_filter_def)
  then have "length ?cs \<le> 2 ^ 32" using length_chunks [of n "snap_entries ?snap"] assms(3) by linarith
  from enumerate_words [OF this]
  have "sorted (map ch_index sent) \<and> distinct (map ch_index sent)"
    by (simp add: sent comp_def case_prod_unfold)
  then have sorted: "sort_key ch_index received = sent" using sort_key_permuted assms(5) by blast
  have "map ch_entries sent = map snd (enumerate 0 ?cs)" by (simp add: sent comp_def case_prod_unfold)
  then have entries: "concat (map ch_entries sent) = snap_entries ?snap" using assms(2) by (simp add: concat_chunks)
  have "set received = set sent" using assms(5) by (metis set_mset_mset)
  then have "\<forall>c\<in>set received. hash_chunk C (ch_entries c) = ch_chunk_hash c" by (auto simp: sent)
  moreover have snap: "\<lparr>snap_root = root s, snap_entries = snap_entries ?snap\<rparr> = ?snap"
    by (simp add: create_snapshot_def)
  ultimately show ?thesis
    using restore_create [of s all_keys root, OF assms(1)]
    by (simp add: verify_chunks_def verify_snapshot_def sorted entries) (simp add: create_snapshot_def)
qed

theorem snapshot_chunks_roundtrip_witness:
  "let s = smt_insert [2] [9] (smt_insert [1] [7] smt_new); root = (\<lambda>s. s [1] @ s [2]);
       sent = the (chunk_snapshot example_crypto (create_snapshot root s [[1], [2]]) 1)
   in length sent = 2 \<and> verify_chunks example_crypto root (rev sent) [7, 9]"
proof -
  let ?s = "smt_insert [2] [9] (smt_insert [1] [7] smt_new)" and ?root = "\<lambda>s :: store. s [1] @ s [2]"
  let ?c = "chunk_snapshot example_crypto (create_snapshot ?root ?s [[1], [2]]) 1"
  have "smt_get ?s k \<noteq> None \<Longrightarrow> k \<in> set [[1], [2]]" for k
    by (simp add: smt_get_def smt_insert_def smt_new_def split: if_splits)
  moreover have root: "?root ?s = [7, 9]" by (simp add: smt_insert_def)
  moreover have "?c = Some (the ?c)" "length (the ?c) = 2"
    by (simp_all add: chunk_snapshot_def create_snapshot_def map_filter_def smt_get_def smt_insert_def smt_new_def
        chunks.simps Let_def)
  ultimately show ?thesis
    using snapshot_chunks_roundtrip [of ?s "[[1], [2]]" 1 example_crypto ?root "the ?c" "rev (the ?c)"]
    by (simp add: Let_def)
qed

text \<open>An incremental snapshot between two states turns the one into the other.\<close>

theorem incremental_roundtrip:
  assumes "\<And>k. smt_get new_smt k \<noteq> None \<Longrightarrow> k \<in> set new_keys" "\<And>k. smt_get old_smt k \<noteq> None \<Longrightarrow> k \<in> set old_keys"
  shows "apply_incremental root (create_incremental root old_keys old_smt new_smt new_keys) old_smt = (Some (root new_smt), new_smt)"
proof -
  let ?inc = "create_incremental root old_keys old_smt new_smt new_keys"
  have "smt_update_all (inc_diffs ?inc) old_smt = new_smt"
  proof (rule smt_get_ext)
    fix k
    have ne: "smt_get s k \<noteq> Some []" for s by (simp add: smt_get_def)
    have "map_of (rev (inc_diffs ?inc)) k =
        (if smt_get old_smt k = smt_get new_smt k then None
         else Some (case smt_get new_smt k of Some v \<Rightarrow> v | None \<Rightarrow> []))"
      using assms [of k]
      by (cases "smt_get new_smt k"; cases "smt_get old_smt k")
        (auto simp: create_incremental_def rev_map rev_filter map_of_keyed map_add_def split: option.splits)
    then show "smt_get (smt_update_all (inc_diffs ?inc) old_smt) k = smt_get new_smt k"
      using ne by (auto simp: smt_update_all_def smt.get_fold_ins split: option.splits)
  qed
  then show ?thesis by (simp add: apply_incremental_def create_incremental_def Let_def)
qed

end
