(* ===== verification/Nonce.thy ===== *)
theory Nonce
  imports Prelude
begin

unbundle bit_operations_syntax

text \<open>
  The nonce window of an account (\<open>crates/account/src/nonce.rs\<close>): a base and a 16-bit bitmap
  of the nonces above it that are already used. The window is specified by the set of consumed
  nonces; every nonce is accepted at most once.
\<close>

section \<open>The window\<close>

definition WINDOW_SIZE :: u64 where "WINDOW_SIZE = 16"

record nonce_state =
  nonce_base :: u64
  nonce_used :: u16

datatype nonce_error = BelowWindow | AboveWindow | AlreadyUsed

definition nonce_new :: nonce_state where
  "nonce_new = \<lparr>nonce_base = 0, nonce_used = 0\<rparr>"

definition nonce_with_base :: "u64 \<Rightarrow> nonce_state" where
  "nonce_with_base b = \<lparr>nonce_base = b, nonce_used = 0\<rparr>"

definition nonce_validate :: "nonce_state \<Rightarrow> u64 \<Rightarrow> nonce_error + u8" where
  "nonce_validate ns nonce =
     (if nonce < nonce_base ns then Inl BelowWindow
      else if (case checked_add (nonce_base ns) WINDOW_SIZE of
                 Some window_end \<Rightarrow> nonce \<ge> window_end | None \<Rightarrow> False)
      then Inl AboveWindow
      else
        (let b = ucast (nonce - nonce_base ns) :: u8
         in if nonce_used ns AND push_bit (unat b) 1 \<noteq> 0 then Inl AlreadyUsed else Inr b))"

definition nonce_is_valid :: "nonce_state \<Rightarrow> u64 \<Rightarrow> bool" where
  "nonce_is_valid ns nonce = (case nonce_validate ns nonce of Inr _ \<Rightarrow> True | Inl _ \<Rightarrow> False)"

lemma halve_odd_less:
  assumes "w AND 1 = 1"
  shows "unat (drop_bit (Suc 0) w) < unat (w :: u16)"
proof -
  have "unat w \<noteq> 0" using assms by (auto simp: unat_eq_zero)
  moreover have "unat (drop_bit (Suc 0) w) = unat w div 2"
    by (simp add: unat_drop_bit del: drop_bit_eq_div)
  ultimately show ?thesis by simp
qed

function nonce_advance :: "nonce_state \<Rightarrow> nonce_state" where
  "nonce_advance ns =
     (if nonce_used ns AND 1 = 1 then
        (case checked_add (nonce_base ns) 1 of
           Some b \<Rightarrow> nonce_advance (ns\<lparr>nonce_used := drop_bit 1 (nonce_used ns), nonce_base := b\<rparr>)
         | None \<Rightarrow> ns)
      else ns)"
  by pat_completeness auto
termination
  by (relation "measure (\<lambda>ns. unat (nonce_used ns))") (simp_all add: halve_odd_less)

declare nonce_advance.simps [simp del]

definition use_nonce :: "u64 \<Rightarrow> (nonce_state, nonce_error, unit) srm" where
  "use_nonce nonce = (\<lambda>ns.
     case nonce_validate ns nonce of
       Inl e \<Rightarrow> (Inl e, ns)
     | Inr b \<Rightarrow> (Inr (), nonce_advance (ns\<lparr>nonce_used := nonce_used ns OR push_bit (unat b) 1\<rparr>)))"

definition max_nonce :: "nonce_state \<Rightarrow> u64" where
  "max_nonce ns = saturating_add (nonce_base ns) (WINDOW_SIZE - 1)"

definition available_slots :: "nonce_state \<Rightarrow> u32" where
  "available_slots ns = ucast WINDOW_SIZE - of_nat (card {i. i < 16 \<and> bit (nonce_used ns) i})"

definition nonce_to_bytes :: "nonce_state \<Rightarrow> bytes" where
  "nonce_to_bytes ns = to_le_bytes 8 (nonce_base ns) @ to_le_bytes 2 (nonce_used ns)"

definition nonce_from_bytes :: "bytes \<Rightarrow> nonce_state option" where
  "nonce_from_bytes data =
     (if length data < 10 then None
      else Some \<lparr>nonce_base = from_le_bytes (take 8 data),
                 nonce_used = from_le_bytes (take 2 (drop 8 data))\<rparr>)"

section \<open>Specification\<close>

text \<open>The nonces consumed: all below the base, and those marked in the window.\<close>

definition consumed :: "nonce_state \<Rightarrow> nat set" where
  "consumed ns = {..<unat (nonce_base ns)} \<union>
     {unat (nonce_base ns) + i | i. bit (nonce_used ns) i}"

text \<open>The window has moved past every consumed nonce at its lower end.\<close>

definition nonce_canonical :: "nonce_state \<Rightarrow> bool" where
  "nonce_canonical ns \<longleftrightarrow> \<not> bit (nonce_used ns) 0 \<or> nonce_base ns = - 1"

lemma consumed_iff:
  "n \<in> consumed ns \<longleftrightarrow>
     n < unat (nonce_base ns)
     \<or> unat (nonce_base ns) \<le> n \<and> bit (nonce_used ns) (n - unat (nonce_base ns))"
  by (auto simp: consumed_def intro!: exI [of _ "n - unat (nonce_base ns)"])

lemma checked_add_one_None: "checked_add b 1 = None \<longleftrightarrow> b = (- 1 :: u64)"
  by (auto simp: checked_add_def word_unat_eq_iff unat_max_word split: if_splits)
     (use unat_lt_length [of b] in simp)

lemma checked_add_one_Some: "checked_add b 1 = Some c \<Longrightarrow> unat c = Suc (unat (b :: u64))"
  by (auto dest!: checked_add_SomeD(1))

lemma odd_bit0: "w AND 1 = 1 \<longleftrightarrow> bit (w :: u16) 0"
  by (simp add: and_one_eq bit_0 odd_iff_mod_2_eq_one)

lemma consumed_shift:
  assumes "bit (nonce_used ns) 0" and "checked_add (nonce_base ns) 1 = Some b"
  shows "consumed (ns\<lparr>nonce_used := drop_bit (Suc 0) (nonce_used ns), nonce_base := b\<rparr>) = consumed ns"
proof (rule set_eqI)
  fix n
  let ?m = "unat (nonce_base ns)"
  have b: "unat b = Suc ?m" using assms(2) by (rule checked_add_one_Some)
  consider "n < ?m" | "n = ?m" | "n > ?m" by linarith
  then show "n \<in> consumed (ns\<lparr>nonce_used := drop_bit (Suc 0) (nonce_used ns), nonce_base := b\<rparr>)
      \<longleftrightarrow> n \<in> consumed ns"
    by cases (use b assms(1) in \<open>auto simp: consumed_iff bit_drop_bit_eq Suc_diff_Suc\<close>)
qed

lemma advance_consumed: "consumed (nonce_advance ns) = consumed ns"
proof (induction ns rule: nonce_advance.induct)
  case (1 ns)
  then show ?case
    by (subst nonce_advance.simps) (auto split: option.splits simp: odd_bit0 consumed_shift)
qed

lemma advance_canonical: "nonce_canonical (nonce_advance ns)"
proof (induction ns rule: nonce_advance.induct)
  case (1 ns)
  then show ?case
    by (subst nonce_advance.simps)
       (auto split: option.splits simp: odd_bit0 checked_add_one_None nonce_canonical_def)
qed

lemma advance_base: "nonce_base ns \<le> nonce_base (nonce_advance ns)"
proof (induction ns rule: nonce_advance.induct)
  case (1 ns)
  show ?case
  proof (cases "nonce_used ns AND 1 = 1 \<and> checked_add (nonce_base ns) 1 \<noteq> None")
    case True
    then obtain b where b: "nonce_used ns AND 1 = 1" "checked_add (nonce_base ns) 1 = Some b"
      by auto
    then have "nonce_base ns \<le> b"
      using checked_add_one_Some [OF b(2)] by (simp add: word_le_nat_alt)
    with 1 [OF b] b show ?thesis by (subst nonce_advance.simps) simp
  next
    case False
    then show ?thesis by (subst nonce_advance.simps) auto
  qed
qed

text \<open>The three tests of \<open>validate\<close>, over the naturals.\<close>

lemma above_window:
  "(case checked_add b WINDOW_SIZE of Some e \<Rightarrow> nonce \<ge> e | None \<Rightarrow> False)
     \<longleftrightarrow> unat nonce \<ge> unat b + 16"
  using unat_lt_length [of nonce]
  by (auto simp: checked_add_def WINDOW_SIZE_def word_le_nat_alt unat_word_ariths)

lemma validate_spec:
  "nonce_validate ns nonce =
     (if unat nonce < unat (nonce_base ns) then Inl BelowWindow
      else if unat (nonce_base ns) + 16 \<le> unat nonce then Inl AboveWindow
      else if unat nonce \<in> consumed ns then Inl AlreadyUsed
      else Inr (of_nat (unat nonce - unat (nonce_base ns))))"
proof -
  let ?d = "unat nonce - unat (nonce_base ns)"
  have b: "ucast (nonce - nonce_base ns) = (of_nat ?d :: u8)" "unat (of_nat ?d :: u8) = ?d"
    if "\<not> unat nonce < unat (nonce_base ns)" "\<not> unat (nonce_base ns) + 16 \<le> unat nonce"
  proof -
    have "unat (nonce - nonce_base ns) = ?d"
      using that by (simp add: unat_sub word_le_nat_alt)
    moreover show "unat (of_nat ?d :: u8) = ?d" using that by (intro unat_of_nat_small) simp
    ultimately show "ucast (nonce - nonce_base ns) = (of_nat ?d :: u8)"
      using that by (simp add: word_unat_eq_iff [where 'a = 8] unat_ucast_down)
  qed
  show ?thesis
  proof (cases "unat nonce < unat (nonce_base ns) \<or> unat (nonce_base ns) + 16 \<le> unat nonce")
    case True
    then show ?thesis
      unfolding nonce_validate_def above_window word_less_nat_alt [of nonce] by auto
  next
    case False
    then show ?thesis
      using b unfolding nonce_validate_def above_window word_less_nat_alt [of nonce] Let_def
        and_push_bit_1 by (simp add: consumed_iff)
  qed
qed

lemma mark_consumed:
  assumes "nonce_validate ns nonce = Inr b"
  shows "consumed (ns\<lparr>nonce_used := nonce_used ns OR push_bit (unat b) 1\<rparr>)
    = insert (unat nonce) (consumed ns)"
proof -
  have n: "unat (nonce_base ns) \<le> unat nonce" "unat nonce < unat (nonce_base ns) + 16"
    and b: "b = of_nat (unat nonce - unat (nonce_base ns))"
    using assms by (auto simp: validate_spec split: if_splits)
  then have "unat b = unat nonce - unat (nonce_base ns)"
    unfolding b by (intro unat_of_nat_small) simp
  then have "bit (nonce_used ns OR push_bit (unat b) 1) i \<longleftrightarrow>
      bit (nonce_used ns) i \<or> i = unat nonce - unat (nonce_base ns)" for i
    using n by (auto simp: bit_or_iff bit_exp_iff)
  then show ?thesis using n by (auto simp: consumed_iff)
qed

text \<open>
  C24: the nonce window refines its set of consumed nonces. A nonce is accepted exactly when it is
  in the window of sixteen and not consumed; accepting it adds it and nothing else, leaves the
  window canonical and never lowers the base; a rejected nonce changes nothing, and the error
  says on which side of the window it lies.
\<close>

theorem use_nonce_refines:
  "case use_nonce nonce ns of
     (Inr _, ns') \<Rightarrow>
       unat nonce \<notin> consumed ns \<and> unat nonce < unat (nonce_base ns) + 16
       \<and> consumed ns' = insert (unat nonce) (consumed ns)
       \<and> nonce_canonical ns' \<and> nonce_base ns \<le> nonce_base ns'
   | (Inl e, ns') \<Rightarrow>
       ns' = ns
       \<and> (e = BelowWindow \<longleftrightarrow> unat nonce < unat (nonce_base ns))
       \<and> (e = AboveWindow \<longleftrightarrow> unat (nonce_base ns) + 16 \<le> unat nonce)
       \<and> (e = AlreadyUsed \<longleftrightarrow> unat (nonce_base ns) \<le> unat nonce \<and>
            unat nonce < unat (nonce_base ns) + 16 \<and> unat nonce \<in> consumed ns)"
proof (cases "nonce_validate ns nonce")
  case (Inl e)
  then show ?thesis by (auto simp: use_nonce_def validate_spec split: if_splits)
next
  case (Inr b)
  let ?m = "ns\<lparr>nonce_used := nonce_used ns OR push_bit (unat b) 1\<rparr>"
  have n: "unat nonce \<notin> consumed ns" "unat nonce < unat (nonce_base ns) + 16"
    using Inr by (auto simp: validate_spec split: if_splits)
  show ?thesis
    using n mark_consumed [OF Inr] advance_base [of ?m]
    by (simp add: use_nonce_def Inr advance_consumed advance_canonical)
qed

section \<open>Sequences of transactions\<close>

text \<open>The nonces accepted out of a sequence of attempts, in order.\<close>

fun use_nonces :: "u64 list \<Rightarrow> nonce_state \<Rightarrow> u64 list \<times> nonce_state" where
  "use_nonces [] ns = ([], ns)"
| "use_nonces (n # rest) ns =
     (case use_nonce n ns of
        (Inl _, ns') \<Rightarrow> use_nonces rest ns'
      | (Inr _, ns') \<Rightarrow> (case use_nonces rest ns' of (acc, ns'') \<Rightarrow> (n # acc, ns'')))"

lemma use_nonce_accepted:
  assumes "use_nonce n ns = (Inr x, ns')"
  shows "unat n \<notin> consumed ns" and "consumed ns' = insert (unat n) (consumed ns)"
proof -
  obtain b where b: "nonce_validate ns n = Inr b"
    and ns': "ns' = nonce_advance (ns\<lparr>nonce_used := nonce_used ns OR push_bit (unat b) 1\<rparr>)"
    using assms by (auto simp: use_nonce_def split: sum.splits)
  show "unat n \<notin> consumed ns" using b by (auto simp: validate_spec split: if_splits)
  show "consumed ns' = insert (unat n) (consumed ns)"
    unfolding ns' advance_consumed using b by (rule mark_consumed)
qed

lemma use_nonce_rejected: "use_nonce n ns = (Inl e, ns') \<Longrightarrow> ns' = ns"
  by (auto simp: use_nonce_def split: sum.splits)

text \<open>
  Replay protection. Over any sequence of attempts, however ordered and repeated, no nonce is
  accepted twice, none accepted before is accepted again, and the consumed set grows by exactly
  the accepted ones.
\<close>

theorem nonce_no_replay:
  "case use_nonces attempts ns of (accepted, ns') \<Rightarrow>
     distinct accepted \<and> set accepted \<subseteq> set attempts
     \<and> unat ` set accepted \<inter> consumed ns = {}
     \<and> consumed ns' = consumed ns \<union> unat ` set accepted"
proof (induction attempts arbitrary: ns)
  case Nil
  then show ?case by simp
next
  case (Cons n rest)
  show ?case
  proof (cases "use_nonce n ns")
    case (Pair r ns')
    show ?thesis
    proof (cases r)
      case (Inl e)
      then show ?thesis
        using Pair Cons.IH [of ns'] use_nonce_rejected [of n ns e ns'] by (auto split: prod.splits)
    next
      case (Inr x)
      then show ?thesis
        using Pair Cons.IH [of ns'] use_nonce_accepted [of n ns x ns']
        by (auto split: prod.splits)
    qed
  qed
qed

text \<open>A canonical window is never stuck: its base nonce is accepted, unless it is the last one.\<close>

lemma use_nonce_progress:
  "nonce_canonical ns \<Longrightarrow> nonce_base ns \<noteq> - 1 \<Longrightarrow> fst (use_nonce (nonce_base ns) ns) = Inr ()"
  by (simp add: use_nonce_def validate_spec consumed_iff nonce_canonical_def)

lemma nonce_bytes_roundtrip: "nonce_from_bytes (nonce_to_bytes ns) = Some ns"
  by (simp add: nonce_from_bytes_def nonce_to_bytes_def from_to_le_bytes)

end
