(* ===== verification/Fees.thy ===== *)
theory Fees
  imports Account
begin

unbundle bit_operations_syntax

text \<open>
  The economics of the transaction crate: base fee adjustment and block rewards
  (\<open>crates/tx/src/fee.rs\<close>), vesting schedules (\<open>vesting.rs\<close>) and gas tanks (\<open>gas_tank.rs\<close>).
  Amounts are \<open>u128\<close> words; the theorems relate them to arithmetic on naturals and say where
  that needs the absence of wrap-around.
\<close>

section \<open>Base fee\<close>

definition GAS_TARGET :: u64 where "GAS_TARGET = 400000000"
definition GAS_CEILING :: u64 where "GAS_CEILING = 1600000000"
definition MIN_BASE_FEE :: u128 where "MIN_BASE_FEE = 1"
definition GENESIS_BASE_FEE :: u128 where "GENESIS_BASE_FEE = 50000000000"
definition ADJUSTMENT_DIVISOR :: u128 where "ADJUSTMENT_DIVISOR = 8"

definition adjust_base_fee :: "u128 \<Rightarrow> u64 \<Rightarrow> u64 \<Rightarrow> u128" where
  "adjust_base_fee parent_base_fee parent_gas_used parent_gas_target =
     (if parent_gas_target = 0 then parent_base_fee
      else if parent_gas_used = parent_gas_target then parent_base_fee
      else
        (let new_fee =
               (if parent_gas_used > parent_gas_target then
                  (let gas_delta = parent_gas_used - parent_gas_target;
                       fee_delta = parent_base_fee * ucast gas_delta div ucast parent_gas_target
                                     div ADJUSTMENT_DIVISOR;
                       fee_delta = max fee_delta 1
                   in parent_base_fee + fee_delta)
                else
                  (let gas_delta = parent_gas_target - parent_gas_used;
                       fee_delta = parent_base_fee * ucast gas_delta div ucast parent_gas_target
                                     div ADJUSTMENT_DIVISOR;
                       fee_delta = (if gas_delta > 0 then max fee_delta 1 else fee_delta)
                   in saturating_sub parent_base_fee fee_delta))
         in max new_fee MIN_BASE_FEE))"

definition is_within_gas_limit :: "u64 \<Rightarrow> u64 \<Rightarrow> bool" where
  "is_within_gas_limit gas_used gas_ceiling \<longleftrightarrow> gas_used \<le> gas_ceiling"

section \<open>Block rewards\<close>

definition BLOCKS_PER_YEAR :: u64 where "BLOCKS_PER_YEAR = 78892800"
definition GENESIS_TOTAL_SUPPLY :: u128 where "GENESIS_TOTAL_SUPPLY = 1000000000 * 1000000000"

definition inflation_rate_bps :: "u64 \<Rightarrow> u64" where
  "inflation_rate_bps year =
     (if year = 0 then 500 else if year = 1 then 300 else if year = 2 then 200 else 100)"

definition block_reward :: "u64 \<Rightarrow> u128" where
  "block_reward slot =
     (let year = slot div BLOCKS_PER_YEAR;
          rate = ucast (inflation_rate_bps year);
          per_block_base = GENESIS_TOTAL_SUPPLY div ucast BLOCKS_PER_YEAR
      in per_block_base * rate div 10000)"

section \<open>Vesting\<close>

record vesting_schedule =
  start_slot :: u64
  cliff_slots :: u64
  duration_slots :: u64
  total_amount :: u128

definition VESTING_ENCODED_LEN :: nat where "VESTING_ENCODED_LEN = 8 + 8 + 8 + 16"

definition vesting_encode :: "vesting_schedule \<Rightarrow> bytes" where
  "vesting_encode v =
     to_le_bytes 8 (start_slot v) @ to_le_bytes 8 (cliff_slots v)
     @ to_le_bytes 8 (duration_slots v) @ to_le_bytes 16 (total_amount v)"

definition vesting_decode :: "bytes \<Rightarrow> vesting_schedule option" where
  "vesting_decode bs =
     (if length bs < VESTING_ENCODED_LEN then None
      else Some \<lparr>start_slot = from_le_bytes (byte_range 0 8 bs),
                 cliff_slots = from_le_bytes (byte_range 8 16 bs),
                 duration_slots = from_le_bytes (byte_range 16 24 bs),
                 total_amount = from_le_bytes (byte_range 24 40 bs)\<rparr>)"

definition unlocked_at :: "vesting_schedule \<Rightarrow> u64 \<Rightarrow> u128" where
  "unlocked_at v current_slot =
     (if duration_slots v = 0 then total_amount v
      else
        (let e = saturating_add (start_slot v) (duration_slots v)
         in if current_slot \<ge> e then total_amount v
            else if current_slot < saturating_add (start_slot v) (cliff_slots v) then 0
            else
              (let elapsed = ucast (saturating_sub current_slot (start_slot v));
                   duration = ucast (duration_slots v)
               in saturating_mul (total_amount v) elapsed div duration)))"

definition locked_at :: "vesting_schedule \<Rightarrow> u64 \<Rightarrow> u128" where
  "locked_at v current_slot = saturating_sub (total_amount v) (unlocked_at v current_slot)"

section \<open>Gas tanks\<close>

definition DEFAULT_PER_TX_LIMIT :: u128 where "DEFAULT_PER_TX_LIMIT = - 1"

record gas_tank_config =
  tank_owner :: bytes
  whitelist :: "bytes list"
  per_tx_limit :: u128
  tank_active :: bool

definition gas_tank_open :: "bytes \<Rightarrow> gas_tank_config" where
  "gas_tank_open owner =
     \<lparr>tank_owner = owner, whitelist = [], per_tx_limit = DEFAULT_PER_TX_LIMIT, tank_active = True\<rparr>"

definition gas_tank_whitelisted :: "bytes \<Rightarrow> bytes list \<Rightarrow> u128 \<Rightarrow> gas_tank_config" where
  "gas_tank_whitelisted owner wl limit =
     \<lparr>tank_owner = owner, whitelist = wl, per_tx_limit = limit, tank_active = True\<rparr>"

definition is_allowed :: "gas_tank_config \<Rightarrow> bytes \<Rightarrow> bool" where
  "is_allowed c sender =
     (if \<not> tank_active c then False
      else if whitelist c = [] then True
      else sender \<in> set (whitelist c))"

text \<open>The error strings of the gas tank, as values.\<close>

datatype tank_error =
    NotTankOwner
  | InsufficientTank u128 u128
  | TankInactive
  | NotWhitelisted
  | ExceedsPerTxLimit u128 u128

definition tank_deposit :: "u128 \<Rightarrow> account \<Rightarrow> account" where
  "tank_deposit amount a = a\<lparr>acc_gas_tank := acc_gas_tank a + amount\<rparr>"

definition tank_withdraw :: "u128 \<Rightarrow> bytes \<Rightarrow> (account, tank_error, unit) srm" where
  "tank_withdraw amount caller_addr = (\<lambda>a.
     if caller_addr \<noteq> acc_address a then (Inl NotTankOwner, a)
     else if acc_gas_tank a < amount then (Inl (InsufficientTank amount (acc_gas_tank a)), a)
     else (Inr (), a\<lparr>acc_gas_tank := acc_gas_tank a - amount\<rparr>))"

definition check_sponsorship ::
    "account \<Rightarrow> gas_tank_config \<Rightarrow> bytes \<Rightarrow> u128 \<Rightarrow> tank_error + u128" where
  "check_sponsorship a config sender gas_cost =
     (if \<not> tank_active config then Inl TankInactive
      else if \<not> is_allowed config sender then Inl NotWhitelisted
      else if gas_cost > per_tx_limit config
           then Inl (ExceedsPerTxLimit gas_cost (per_tx_limit config))
      else if acc_gas_tank a < gas_cost then Inl (InsufficientTank gas_cost (acc_gas_tank a))
      else Inr gas_cost)"

definition deduct_gas :: "u128 \<Rightarrow> (account, tank_error, unit) srm" where
  "deduct_gas amount = (\<lambda>a.
     if acc_gas_tank a < amount then (Inl (InsufficientTank amount (acc_gas_tank a)), a)
     else (Inr (), a\<lparr>acc_gas_tank := acc_gas_tank a - amount\<rparr>))"

section \<open>The base fee over the naturals\<close>

definition fee_step :: "nat \<Rightarrow> nat \<Rightarrow> nat \<Rightarrow> nat" where
  "fee_step b d t = max (b * d div t div 8) 1"

lemma unat_max: "unat (max a b) = max (unat a) (unat (b :: 'a::len word))"
  by (simp add: max_def word_le_nat_alt)

lemma unat_ucast_u64 [simp]: "unat (ucast (x :: u64) :: u128) = unat x"
  by (rule unat_ucast_up) simp

lemma unat_fee_delta:
  assumes "unat b * unat d < 2 ^ 128"
  shows "unat (max (b * ucast (d :: u64) div ucast (t :: u64) div ADJUSTMENT_DIVISOR) (1 :: u128))
    = fee_step (unat b) (unat d) (unat t)"
  using assms by (simp add: unat_max fee_step_def unat_div_distrib unat_word_ariths ADJUSTMENT_DIVISOR_def)

lemma fee_step_le:
  assumes "0 < t" and "d \<le> k * t"
  shows "fee_step b d t \<le> max (b * k div 8) 1"
proof -
  have "b * d \<le> b * k * t" using assms(2) by (simp add: mult.assoc)
  then have "b * d div t \<le> b * k" using assms(1) by (metis div_le_mono nonzero_mult_div_cancel_right less_not_refl)
  then have "b * d div t div 8 \<le> b * k div 8" by (rule div_le_mono)
  then show ?thesis by (simp add: fee_step_def)
qed

lemma adjust_up:
  assumes "target < used" and "0 < target" and "unat b * unat (used - target) < 2 ^ 128"
    and "unat b + fee_step (unat b) (unat (used - target)) (unat target) < 2 ^ 128"
  shows "unat (adjust_base_fee b used target)
    = unat b + fee_step (unat b) (unat (used - target)) (unat target)"
proof -
  let ?d = "max (b * ucast (used - target) div ucast target div ADJUSTMENT_DIVISOR) 1"
  have "unat (b + ?d) = unat b + unat ?d"
    using assms(4) unat_fee_delta [OF assms(3), of target] by (simp add: unat_word_ariths)
  moreover have "adjust_base_fee b used target = max (b + ?d) MIN_BASE_FEE"
    using assms(1,2) by (auto simp: adjust_base_fee_def Let_def)
  moreover have "1 \<le> fee_step n d t" for n d t by (simp add: fee_step_def)
  ultimately show ?thesis
    using unat_fee_delta [OF assms(3), of target] by (simp add: unat_max MIN_BASE_FEE_def max_absorb1)
qed

lemma adjust_down:
  assumes "used < target" and "unat b * unat (target - used) < 2 ^ 128"
  shows "unat (adjust_base_fee b used target)
    = max (unat b - fee_step (unat b) (unat (target - used)) (unat target)) 1"
proof -
  let ?d = "max (b * ucast (target - used) div ucast target div ADJUSTMENT_DIVISOR) 1"
  have "target - used > 0" "target \<noteq> 0" "used \<noteq> target" "\<not> target < used"
    using assms(1) by (auto simp: word_gt_0)
  then have "adjust_base_fee b used target = max (saturating_sub b ?d) MIN_BASE_FEE"
    by (simp add: adjust_base_fee_def Let_def)
  then show ?thesis
    using unat_fee_delta [OF assms(2), of target]
    by (simp add: unat_max [of "saturating_sub b ?d"] unat_saturating_sub MIN_BASE_FEE_def)
qed

text \<open>
  The base fee follows the EIP-1559 rule. Without wrap-around of the product and the sum, the
  next fee is the parent fee moved by \<open>fee * |used - target| / target / 8\<close>, by at least one, and
  never below one; it falls by at most an eighth (or one), and rises by at most an eighth per
  multiple of the target that the usage exceeds it by.
\<close>

theorem base_fee_adjustment:
  assumes "0 < target" and "used \<noteq> target"
    and "unat b * (if target < used then unat (used - target) else unat (target - used)) < 2 ^ 128"
    and "unat b + fee_step (unat b) (unat (used - target)) (unat target) < 2 ^ 128 \<or> used < target"
  shows "unat (adjust_base_fee b used target) =
      (if target < used then unat b + fee_step (unat b) (unat (used - target)) (unat target)
       else max (unat b - fee_step (unat b) (unat (target - used)) (unat target)) 1)
    \<and> unat b - max (unat b div 8) 1 \<le> unat (adjust_base_fee b used target)
    \<and> (\<forall>k. unat used \<le> unat target + k * unat target \<longrightarrow>
         unat (adjust_base_fee b used target) \<le> unat b + max (unat b * k div 8) 1)"
proof (cases "target < used")
  case True
  then have "unat (used - target) = unat used - unat target" by (simp add: unat_sub)
  then have "fee_step (unat b) (unat (used - target)) (unat target) \<le> max (unat b * k div 8) 1"
    if "unat used \<le> unat target + k * unat target" for k
    using that assms(1) by (intro fee_step_le) (auto simp: word_less_nat_alt)
  with True show ?thesis using assms adjust_up [OF True assms(1)] by (fastforce simp: max.coboundedI1)
next
  case False
  then have *: "used < target" using assms(2) by auto
  then have "unat (target - used) \<le> 1 * unat target" by (simp add: unat_sub order.strict_implies_order)
  then have "fee_step (unat b) (unat (target - used)) (unat target) \<le> max (unat b div 8) 1"
    using fee_step_le [of "unat target" "unat (target - used)" 1 "unat b"] assms(1)
    by (simp add: word_less_nat_alt)
  with * False show ?thesis using assms(3) adjust_down [OF *] by auto
qed

theorem base_fee_adjustment_witness:
  "unat (adjust_base_fee 1000 500000000 GAS_TARGET) = 1031"
  using base_fee_adjustment [of GAS_TARGET 500000000 1000]
  by (simp add: GAS_TARGET_def fee_step_def)

text \<open>
  A single block can raise the base fee by three eighths. Blocks may use up to the elastic
  ceiling of four times the target, and the adjustment is proportional without a cap, so a full
  block moves the fee by 37.5 percent, not by the 12.5 percent that bounds a decrease.
\<close>

theorem base_fee_full_block:
  "is_within_gas_limit GAS_CEILING GAS_CEILING
   \<and> adjust_base_fee GENESIS_BASE_FEE GAS_CEILING GAS_TARGET
       = GENESIS_BASE_FEE + GENESIS_BASE_FEE * 3 div 8
   \<and> GENESIS_BASE_FEE * 3 div 8 = 18750000000 \<and> GENESIS_BASE_FEE div 8 = 6250000000"
  by (simp add: is_within_gas_limit_def adjust_base_fee_def GENESIS_BASE_FEE_def GAS_CEILING_def
      GAS_TARGET_def ADJUSTMENT_DIVISOR_def MIN_BASE_FEE_def Let_def)

section \<open>Vesting and rewards\<close>

lemma unlocked_cases:
  obtains (full) "unlocked_at v slot = total_amount v"
    "duration_slots v = 0 \<or> saturating_add (start_slot v) (duration_slots v) \<le> slot"
  | (cliff) "unlocked_at v slot = 0" "duration_slots v \<noteq> 0"
      "slot < saturating_add (start_slot v) (cliff_slots v)"
      "slot < saturating_add (start_slot v) (duration_slots v)"
  | (linear) "unlocked_at v slot
        = saturating_mul (total_amount v) (ucast (saturating_sub slot (start_slot v)))
            div ucast (duration_slots v)"
      "duration_slots v \<noteq> 0" "slot < saturating_add (start_slot v) (duration_slots v)"
      "saturating_add (start_slot v) (cliff_slots v) \<le> slot"
  by (fastforce simp: unlocked_at_def Let_def split: if_splits)

lemma unlocked_le_total: "unlocked_at v slot \<le> total_amount v"
proof (cases rule: unlocked_cases [of v slot])
  case linear
  let ?e = "saturating_sub slot (start_slot v)"
  have "unat ?e \<le> unat (duration_slots v)"
    using linear(3) unat_lt_length [of slot]
    by (auto simp: unat_saturating_sub unat_saturating_add word_less_nat_alt)
  then have "unat (saturating_mul (total_amount v) (ucast ?e))
      \<le> unat (total_amount v) * unat (duration_slots v)"
    by (simp add: unat_saturating_mul min.coboundedI1)
  then have "unat (saturating_mul (total_amount v) (ucast ?e)) div unat (duration_slots v)
      \<le> unat (total_amount v) * unat (duration_slots v) div unat (duration_slots v)"
    by (rule div_le_mono)
  also have "\<dots> = unat (total_amount v)" using linear(2) by (simp add: unat_eq_zero)
  finally show ?thesis
    unfolding linear(1) by (simp add: word_le_nat_alt unat_div_distrib)
qed simp_all

text \<open>A schedule before its end and past its cliff unlocks linearly.\<close>

lemma unlocked_linear:
  assumes "duration_slots v \<noteq> 0" "unat slot < unat (start_slot v) + unat (duration_slots v)"
    "unat (start_slot v) + unat (cliff_slots v) \<le> unat slot" "slot \<noteq> - 1"
  shows "unat (unlocked_at v slot)
    = min (unat (total_amount v) * (unat slot - unat (start_slot v))) (2 ^ 128 - 1)
        div unat (duration_slots v)"
proof -
  have "unat slot < 2 ^ 64 - 1"
    using assms(4) unat_lt_length [of slot] by (simp add: word_unat_eq_iff unat_max_word)
  then have "\<not> saturating_add (start_slot v) (duration_slots v) \<le> slot"
    "\<not> slot < saturating_add (start_slot v) (cliff_slots v)"
    using assms(2,3) by (auto simp: word_le_nat_alt word_less_nat_alt unat_saturating_add)
  then show ?thesis
    using assms(1)
    by (simp add: unlocked_at_def Let_def unat_div_distrib unat_saturating_mul unat_saturating_sub)
qed

lemma unlocked_mono:
  assumes "slot \<le> slot'"
  shows "unlocked_at v slot \<le> unlocked_at v slot'"
proof (cases rule: unlocked_cases [of v slot'])
  case full
  then show ?thesis using unlocked_le_total [of v slot] by simp
next
  case later: cliff
  show ?thesis
    by (cases rule: unlocked_cases [of v slot]) (use later assms in auto)
next
  case later: linear
  show ?thesis
  proof (cases rule: unlocked_cases [of v slot])
    case full
    then show ?thesis using later assms by auto
  next
    case linear
    have "unat (saturating_sub slot (start_slot v)) \<le> unat (saturating_sub slot' (start_slot v))"
      using assms by (simp add: unat_saturating_sub word_le_nat_alt diff_le_mono)
    then have "unat (unlocked_at v slot) \<le> unat (unlocked_at v slot')"
      unfolding linear(1) later(1)
      by (simp add: unat_div_distrib unat_saturating_mul) (intro div_le_mono min.mono mult_le_mono2 order_refl)
    then show ?thesis by (simp add: word_le_nat_alt)
  qed simp
qed

text \<open>
  Vesting. What is locked and what is unlocked always add up to the total; unlocking never goes
  back; nothing is unlocked before the cliff, everything from the end on, and in between the
  linear share (exactly, while the product fits in 128 bits).
\<close>

theorem vesting_unlocks:
  "unat (locked_at v slot) + unat (unlocked_at v slot) = unat (total_amount v)
   \<and> (slot \<le> slot' \<longrightarrow> unlocked_at v slot \<le> unlocked_at v slot')
   \<and> (unat (start_slot v) + unat (duration_slots v) \<le> unat slot \<longrightarrow>
        unlocked_at v slot = total_amount v)
   \<and> (duration_slots v \<noteq> 0 \<and> unat slot < unat (start_slot v) + unat (cliff_slots v)
        \<and> unat slot < unat (start_slot v) + unat (duration_slots v) \<and> slot \<noteq> - 1 \<longrightarrow>
        unlocked_at v slot = 0)
   \<and> (duration_slots v \<noteq> 0 \<and> unat (start_slot v) + unat (cliff_slots v) \<le> unat slot
        \<and> unat slot < unat (start_slot v) + unat (duration_slots v) \<and> slot \<noteq> - 1
        \<and> unat (total_amount v) * (unat slot - unat (start_slot v)) < 2 ^ 128 \<longrightarrow>
        unat (unlocked_at v slot)
          = unat (total_amount v) * (unat slot - unat (start_slot v)) div unat (duration_slots v))"
proof (intro conjI impI)
  show "unat (locked_at v slot) + unat (unlocked_at v slot) = unat (total_amount v)"
    using unlocked_le_total [of v slot] by (simp add: locked_at_def unat_saturating_sub word_le_nat_alt)
  show "unlocked_at v slot = total_amount v"
    if "unat (start_slot v) + unat (duration_slots v) \<le> unat slot"
    using that by (auto simp: unlocked_at_def Let_def word_le_nat_alt unat_saturating_add)
  show "unlocked_at v slot = 0"
    if *: "duration_slots v \<noteq> 0 \<and> unat slot < unat (start_slot v) + unat (cliff_slots v)
        \<and> unat slot < unat (start_slot v) + unat (duration_slots v) \<and> slot \<noteq> - 1"
  proof -
    have "unat slot < 2 ^ 64 - 1"
      using * unat_lt_length [of slot] by (simp add: word_unat_eq_iff unat_max_word)
    then show ?thesis
      using * by (auto simp: unlocked_at_def Let_def word_le_nat_alt word_less_nat_alt unat_saturating_add)
  qed
qed (use unlocked_mono unlocked_linear in auto)

definition team_schedule :: vesting_schedule where
  "team_schedule = \<lparr>start_slot = 0, cliff_slots = 10, duration_slots = 40, total_amount = 1000\<rparr>"

theorem vesting_unlocks_witness:
  "unat (locked_at team_schedule 20) + unat (unlocked_at team_schedule 20) = 1000
   \<and> unat (unlocked_at team_schedule 20) = 500 \<and> unlocked_at team_schedule 9 = 0
   \<and> unlocked_at team_schedule 40 = 1000"
  using vesting_unlocks [of team_schedule 20 40] vesting_unlocks [of team_schedule 9 9]
    vesting_unlocks [of team_schedule 40 40]
  by (simp add: team_schedule_def)

lemma vesting_bytes_roundtrip: "vesting_decode (vesting_encode v) = Some v"
  by (simp add: vesting_decode_def vesting_encode_def VESTING_ENCODED_LEN_def byte_range_def
      from_to_le_bytes)

text \<open>
  The blocks of one year together issue at most the year's inflation on the genesis supply.
\<close>

lemma yearly_issuance:
  "unat (block_reward slot) * unat BLOCKS_PER_YEAR
     \<le> 10 ^ 18 * unat (inflation_rate_bps (slot div BLOCKS_PER_YEAR)) div 10000"
  by (simp add: block_reward_def Let_def inflation_rate_bps_def BLOCKS_PER_YEAR_def
      GENESIS_TOTAL_SUPPLY_def)

text \<open>
  A gas tank pays only within its bounds. Deducting what \<open>check_sponsorship\<close> grants always
  succeeds and lowers the tank by exactly the gas cost, which respects the activity flag, the
  whitelist and the limit per transaction; and only the owner can withdraw, never more than the
  tank holds. A refused operation leaves the account unchanged.
\<close>

theorem gas_tank_bounds:
  "(check_sponsorship a config sender gas_cost = Inr g \<longrightarrow>
      g = gas_cost \<and> tank_active config \<and> is_allowed config sender \<and> g \<le> per_tx_limit config
      \<and> fst (deduct_gas g a) = Inr ()
      \<and> unat (acc_gas_tank (snd (deduct_gas g a))) + unat g = unat (acc_gas_tank a))
   \<and> (fst (tank_withdraw amount caller_addr a) = Inr () \<longleftrightarrow>
        caller_addr = acc_address a \<and> amount \<le> acc_gas_tank a)
   \<and> (fst (tank_withdraw amount caller_addr a) \<noteq> Inr () \<longrightarrow>
        snd (tank_withdraw amount caller_addr a) = a)
   \<and> (fst (deduct_gas amount a) \<noteq> Inr () \<longrightarrow> snd (deduct_gas amount a) = a)
   \<and> unat (acc_gas_tank (snd (tank_withdraw amount caller_addr a))) \<le> unat (acc_gas_tank a)"
  by (auto simp: check_sponsorship_def deduct_gas_def tank_withdraw_def unat_sub word_le_nat_alt
      word_less_nat_alt split: if_splits)

definition funded_tank :: account where
  "funded_tank = (new_system [1])\<lparr>acc_gas_tank := 100\<rparr>"

theorem gas_tank_bounds_witness:
  "acc_gas_tank (snd (deduct_gas 30 funded_tank)) = 70"
proof -
  have "check_sponsorship funded_tank (gas_tank_open [1]) [2] 30 = Inr 30"
    by (simp add: check_sponsorship_def gas_tank_open_def is_allowed_def funded_tank_def
        DEFAULT_PER_TX_LIMIT_def)
  then have "unat (acc_gas_tank (snd (deduct_gas 30 funded_tank))) + 30 = 100"
    using gas_tank_bounds [of funded_tank "gas_tank_open [1]" "[2]" 30 30 0 "[]"]
    by (simp add: funded_tank_def)
  then show ?thesis by (simp add: word_unat_eq_iff)
qed

end
