(* ===== verification/Validation.thy ===== *)
theory Validation
  imports Tx Nonce Fees
begin

text \<open>
  Admission of transactions (\<open>crates/tx/src/validation.rs\<close>): the checks of
  \<open>validate_transaction\<close> in the order the code runs them, and what an accepted transaction is
  known to satisfy.
\<close>

section \<open>Checks\<close>

definition MIN_GAS_LIMIT :: u64 where "MIN_GAS_LIMIT = 21000"
definition MAX_TX_SIZE :: nat where "MAX_TX_SIZE = 128 * 1024"
definition MAX_CALLDATA :: nat where "MAX_CALLDATA = 64 * 1024"

text \<open>The chain id of the devnet, on which some gates are open.\<close>

definition DEVNET :: u64 where "DEVNET = 31337"

record validation_context =
  vc_block_height :: u64
  vc_base_fee :: u128
  vc_block_gas_limit :: u64
  vc_chain_id :: u64
  vc_dev_skip_signature :: bool
  vc_sender_locked :: u128
  vc_sig_pre_verified :: bool

text \<open>Formatted messages are replaced by the values they print.\<close>

datatype validation_error =
  InvalidSignature
| InvalidNonce nonce_error u64 u64 u64
| InsufficientBalance u128 u128
| GasLimitTooLow u64 u64
| GasLimitTooHigh u64 u64
| DeadlineExpired u64 u64
| TxTooLarge nat nat
| CalldataTooLarge nat nat
| InvalidAccessList nat nat
| WrongChainId u64 u64
| InvalidPaymaster
| UnexpectedValue u8 u128
| UnexpectedTo u8
| DisabledTxType u8

text \<open>The checks run in order and the first error is returned (\<open>?\<close>).\<close>

fun first_error :: "('e + unit) list \<Rightarrow> 'e + unit" where
  "first_error [] = Inr ()"
| "first_error (Inl e # rs) = Inl e"
| "first_error (Inr _ # rs) = first_error rs"

definition require :: "bool \<Rightarrow> 'e \<Rightarrow> 'e + unit" where
  "require b e = (if b then Inr () else Inl e)"

definition validate_chain_id :: "transaction \<Rightarrow> validation_context \<Rightarrow> validation_error + unit" where
  "validate_chain_id tx vc =
     require (tx_chain_id tx = vc_chain_id vc) (WrongChainId (vc_chain_id vc) (tx_chain_id tx))"

definition validate_tx_signature :: "crypto_lib \<Rightarrow> transaction \<Rightarrow> account \<Rightarrow> validation_error + unit" where
  "validate_tx_signature C tx sender =
     (case acc_auth_keys sender of
        AuthSingle pk \<Rightarrow> require (tx_verify_signature C tx pk) InvalidSignature
      | AuthNone \<Rightarrow> Inr ()
      | AuthMultiSig _ _ \<Rightarrow> Inr ())"

definition validate_nonce :: "transaction \<Rightarrow> nonce_state \<Rightarrow> validation_error + unit" where
  "validate_nonce tx ns =
     (case nonce_validate ns (tx_nonce tx) of
        Inr _ \<Rightarrow> Inr ()
      | Inl e \<Rightarrow> Inl (InvalidNonce e (tx_nonce tx) (nonce_base ns) (max_nonce ns)))"

definition validate_balance :: "transaction \<Rightarrow> account \<Rightarrow> validation_context \<Rightarrow> validation_error + unit" where
  "validate_balance tx sender vc =
     (let spendable = saturating_sub (acc_balance sender) (vc_sender_locked vc);
          overflow = InsufficientBalance (- 1) spendable
      in case checked_mul (ucast (tx_gas_limit tx)) (vc_base_fee vc) of
           None \<Rightarrow> Inl overflow
         | Some gas_cost \<Rightarrow>
             (case checked_add gas_cost (tx_value tx) of
                None \<Rightarrow> Inl overflow
              | Some total_required \<Rightarrow>
                  (case tx_fee_payer tx of
                     GasTank _ \<Rightarrow> require (tx_value tx \<le> spendable) (InsufficientBalance (tx_value tx) spendable)
                   | Paymaster paymaster_addr \<Rightarrow> require (paymaster_addr \<noteq> replicate 32 0) InvalidPaymaster
                   | Sender \<Rightarrow> require (total_required \<le> spendable) (InsufficientBalance total_required spendable))))"

definition validate_gas_limit :: "transaction \<Rightarrow> validation_context \<Rightarrow> validation_error + unit" where
  "validate_gas_limit tx vc =
     first_error
       [require (MIN_GAS_LIMIT \<le> tx_gas_limit tx) (GasLimitTooLow (tx_gas_limit tx) MIN_GAS_LIMIT),
        require (tx_gas_limit tx \<le> vc_block_gas_limit vc) (GasLimitTooHigh (tx_gas_limit tx) (vc_block_gas_limit vc))]"

definition validate_deadline :: "transaction \<Rightarrow> validation_context \<Rightarrow> validation_error + unit" where
  "validate_deadline tx vc =
     (case tx_deadline tx of
        Some deadline \<Rightarrow> require (vc_block_height vc < deadline) (DeadlineExpired deadline (vc_block_height vc))
      | None \<Rightarrow> Inr ())"

definition validate_access_list :: "transaction \<Rightarrow> validation_error + unit" where
  "validate_access_list tx =
     (let al = tx_access_list tx
      in first_error (concat (map (\<lambda>i.
           map (\<lambda>j. require (ae_address (al ! i) \<noteq> ae_address (al ! j)) (InvalidAccessList i j)) [i + 1..<length al])
           [0..<length al])))"

definition validate_size :: "transaction \<Rightarrow> validation_error + unit" where
  "validate_size tx =
     first_error
       [require (length (tx_data tx) \<le> MAX_CALLDATA) (CalldataTooLarge (length (tx_data tx)) MAX_CALLDATA),
        require (length (tx_to_bytes tx) \<le> MAX_TX_SIZE) (TxTooLarge (length (tx_to_bytes tx)) MAX_TX_SIZE)]"

definition validate_register_pubkey ::
  "crypto_lib \<Rightarrow> transaction \<Rightarrow> account \<Rightarrow> nonce_state \<Rightarrow> validation_error + unit" where
  "validate_register_pubkey C tx sender ns =
     first_error
       [require (tx_signature tx = []) InvalidSignature,
        require (tx_value tx = 0) InvalidPaymaster,
        require (tx_gas_limit tx = 0) (GasLimitTooHigh (tx_gas_limit tx) 0),
        require (length (tx_data tx) = FALCON_PK_SIZE) InvalidSignature,
        require (poseidon2_hash C (tx_data tx) = tx_from tx) InvalidSignature,
        require (acc_balance sender \<noteq> 0) (InsufficientBalance 1 0),
        require (acc_auth_keys sender = AuthNone) InvalidSignature,
        validate_nonce tx ns,
        validate_size tx]"

fun is_multisig :: "auth_keys \<Rightarrow> bool" where
  "is_multisig (AuthMultiSig _ _) = True"
| "is_multisig _ = False"

definition carries_value :: "transaction_type \<Rightarrow> bool" where
  "carries_value ty \<longleftrightarrow> ty = Standard \<or> ty = Deploy"

definition validate_transaction ::
  "crypto_lib \<Rightarrow> transaction \<Rightarrow> account \<Rightarrow> nonce_state \<Rightarrow> validation_context \<Rightarrow> validation_error + unit" where
  "validate_transaction C tx sender ns vc =
     (case validate_chain_id tx vc of
        Inl e \<Rightarrow> Inl e
      | Inr _ \<Rightarrow>
          if tx_type tx = RegisterPubkey then validate_register_pubkey C tx sender ns
          else first_error
            [require (vc_chain_id vc = DEVNET \<or> acc_auth_keys sender \<noteq> AuthNone) InvalidSignature,
             require (vc_chain_id vc = DEVNET \<or> \<not> is_multisig (acc_auth_keys sender)) InvalidSignature,
             require (vc_chain_id vc = DEVNET \<or> tx_fee_payer tx = Sender) InvalidPaymaster,
             require (carries_value (tx_type tx) \<or> tx_value tx = 0)
               (UnexpectedValue (transaction_type_to_u8 (tx_type tx)) (tx_value tx)),
             require (carries_value (tx_type tx) \<or> tx_to tx = replicate 32 0)
               (UnexpectedTo (transaction_type_to_u8 (tx_type tx))),
             require (tx_type tx \<noteq> StakeWithdraw) (DisabledTxType (transaction_type_to_u8 (tx_type tx))),
             (if \<not> vc_dev_skip_signature vc \<and> \<not> vc_sig_pre_verified vc
              then validate_tx_signature C tx sender else Inr ()),
             validate_nonce tx ns,
             validate_balance tx sender vc,
             validate_gas_limit tx vc,
             validate_deadline tx vc,
             validate_access_list tx,
             validate_size tx])"

section \<open>What acceptance means\<close>

lemma require_ok [simp]: "require b e = Inr u \<longleftrightarrow> b"
  by (simp add: require_def)

lemma first_error_ok: "first_error rs = Inr u \<longleftrightarrow> (\<forall>r\<in>set rs. r = Inr ())"
  by (induction rs rule: first_error.induct) auto

lemma validate_nonce_ok: "validate_nonce tx ns = Inr u \<longleftrightarrow> nonce_is_valid ns (tx_nonce tx)"
  by (simp add: validate_nonce_def nonce_is_valid_def split: sum.splits)

lemma validate_deadline_ok:
  "validate_deadline tx vc = Inr u \<longleftrightarrow> (case tx_deadline tx of None \<Rightarrow> True | Some d \<Rightarrow> vc_block_height vc < d)"
  by (simp add: validate_deadline_def split: option.splits)

lemma validate_access_list_ok:
  "validate_access_list tx = Inr u \<longleftrightarrow> distinct (map ae_address (tx_access_list tx))"
proof -
  have "validate_access_list tx = Inr u \<longleftrightarrow>
      (\<forall>i j. i < j \<and> j < length (tx_access_list tx) \<longrightarrow>
         ae_address (tx_access_list tx ! i) \<noteq> ae_address (tx_access_list tx ! j))"
    by (auto simp: validate_access_list_def Let_def first_error_ok Suc_le_eq)
  also have "\<dots> \<longleftrightarrow> distinct (map ae_address (tx_access_list tx))"
    by (auto simp: distinct_conv_nth) (metis nat_neq_iff)
  finally show ?thesis .
qed

text \<open>The fee a transaction can cost at most, and the balance the sender may spend.\<close>

definition max_fee :: "transaction \<Rightarrow> u128 \<Rightarrow> nat" where
  "max_fee tx base_fee = unat (tx_gas_limit tx) * unat base_fee"

definition spendable :: "account \<Rightarrow> u128 \<Rightarrow> nat" where
  "spendable sender locked = unat (acc_balance sender) - unat locked"

lemma validate_balance_sender:
  "tx_fee_payer tx = Sender \<Longrightarrow> validate_balance tx sender vc = Inr u \<longleftrightarrow>
     max_fee tx (vc_base_fee vc) + unat (tx_value tx) \<le> spendable sender (vc_sender_locked vc)"
proof -
  assume payer: "tx_fee_payer tx = Sender"
  let ?g = "ucast (tx_gas_limit tx) :: u128"
  have bound: "spendable sender (vc_sender_locked vc) < 2 ^ 128"
    using unat_lt_length [of "acc_balance sender"] by (simp add: spendable_def)
  show ?thesis
  proof (cases "checked_mul ?g (vc_base_fee vc)")
    case None
    then show ?thesis using bound
      by (auto simp: validate_balance_def Let_def checked_mul_def max_fee_def split: if_splits)
  next
    case (Some cost)
    then have cost: "unat cost = max_fee tx (vc_base_fee vc)"
      using checked_mul_SomeD(1) [OF Some] by (simp add: max_fee_def)
    show ?thesis
    proof (cases "checked_add cost (tx_value tx)")
      case None
      then have "2 ^ 128 \<le> max_fee tx (vc_base_fee vc) + unat (tx_value tx)"
        using cost by (simp add: checked_add_None_iff)
      then show ?thesis using Some None bound by (simp add: validate_balance_def Let_def)
    next
      case total: (Some total)
      then have "unat total = max_fee tx (vc_base_fee vc) + unat (tx_value tx)"
        using checked_add_SomeD(1) [OF total] cost by simp
      then show ?thesis using Some total payer
        by (simp add: validate_balance_def Let_def word_le_nat_alt unat_saturating_sub spendable_def)
    qed
  qed
qed

text \<open>
  C4: what validation accepts on a production chain. A registration of a key is accepted exactly when
  it is for this chain and unsigned, carries no value and no gas, its data is a key that hashes to the
  sender, the sender holds a balance and has no key yet, and nonce and size are in order. Every other
  transaction is accepted exactly when the sender has a single key under which the signature verifies
  (or the context says that the signature was verified before, or is to be skipped), the nonce is in
  the window and unused, gas at the limit plus the value fit in the unlocked balance with no overflow,
  the gas limit is within the bounds of the block, the deadline has not passed, no address occurs twice
  in the access list, and only a transfer or a deployment carries a value or a recipient.
\<close>

theorem accepted_iff_authentic_and_payable:
  assumes "vc_chain_id vc \<noteq> DEVNET"
  shows "validate_transaction C tx sender ns vc = Inr () \<longleftrightarrow>
    tx_chain_id tx = vc_chain_id vc
    \<and> unat (nonce_base ns) \<le> unat (tx_nonce tx) \<and> unat (tx_nonce tx) < unat (nonce_base ns) + 16
    \<and> unat (tx_nonce tx) \<notin> consumed ns
    \<and> length (tx_data tx) \<le> 65536 \<and> length (tx_to_bytes tx) \<le> 131072
    \<and> (if tx_type tx = RegisterPubkey then
         tx_signature tx = [] \<and> tx_value tx = 0 \<and> tx_gas_limit tx = 0 \<and> length (tx_data tx) = 897
         \<and> poseidon2_hash C (tx_data tx) = tx_from tx \<and> acc_balance sender \<noteq> 0 \<and> acc_auth_keys sender = AuthNone
       else
         (\<exists>pk. acc_auth_keys sender = AuthSingle pk
            \<and> (vc_dev_skip_signature vc \<or> vc_sig_pre_verified vc \<or> tx_verify_signature C tx pk))
         \<and> tx_fee_payer tx = Sender
         \<and> (carries_value (tx_type tx) \<or> tx_value tx = 0 \<and> tx_to tx = replicate 32 0)
         \<and> tx_type tx \<noteq> StakeWithdraw
         \<and> max_fee tx (vc_base_fee vc) + unat (tx_value tx) \<le> spendable sender (vc_sender_locked vc)
         \<and> 21000 \<le> tx_gas_limit tx \<and> tx_gas_limit tx \<le> vc_block_gas_limit vc
         \<and> (case tx_deadline tx of None \<Rightarrow> True | Some d \<Rightarrow> vc_block_height vc < d)
         \<and> distinct (map ae_address (tx_access_list tx)))"
proof -
  have nonce: "nonce_is_valid ns (tx_nonce tx) \<longleftrightarrow>
      unat (nonce_base ns) \<le> unat (tx_nonce tx) \<and> unat (tx_nonce tx) < unat (nonce_base ns) + 16
      \<and> unat (tx_nonce tx) \<notin> consumed ns"
    using validate_spec [of ns "tx_nonce tx"] by (auto simp: nonce_is_valid_def consumed_iff split: sum.splits)
  have auth: "acc_auth_keys sender \<noteq> AuthNone \<and> \<not> is_multisig (acc_auth_keys sender)
      \<and> (\<not> vc_dev_skip_signature vc \<and> \<not> vc_sig_pre_verified vc \<longrightarrow> validate_tx_signature C tx sender = Inr ()) \<longleftrightarrow>
      (\<exists>pk. acc_auth_keys sender = AuthSingle pk
         \<and> (vc_dev_skip_signature vc \<or> vc_sig_pre_verified vc \<or> tx_verify_signature C tx pk))"
    by (cases "acc_auth_keys sender") (auto simp: validate_tx_signature_def)
  show ?thesis
  proof (cases "tx_type tx = RegisterPubkey")
    case True
    then show ?thesis
      by (auto simp: validate_transaction_def validate_register_pubkey_def validate_chain_id_def require_def first_error_ok
          validate_nonce_ok nonce validate_size_def MAX_CALLDATA_def MAX_TX_SIZE_def FALCON_PK_SIZE_def split: sum.splits if_splits)
  next
    case False
    then show ?thesis
      unfolding validate_transaction_def
      using assms auth validate_balance_sender [of tx sender vc "()"]
      by (auto simp: validate_chain_id_def require_def first_error_ok validate_nonce_ok nonce validate_gas_limit_def
          validate_deadline_ok validate_access_list_ok validate_size_def MIN_GAS_LIMIT_def MAX_CALLDATA_def MAX_TX_SIZE_def
          split: sum.splits if_splits)
  qed
qed

definition transfer_tx :: "bytes \<Rightarrow> u128 \<Rightarrow> transaction" where
  "transfer_tx to value = \<lparr>tx_from = replicate 32 1, tx_to = to, tx_value = value, tx_data = [],
     tx_gas_limit = 30000, tx_nonce = 2, tx_signature = replicate 600 0, tx_fee_payer = Sender,
     tx_access_list = [], tx_deadline = Some 100, tx_chain_id = 1, tx_type = Standard\<rparr>"

definition funded_sender :: account where
  "funded_sender = (new_system (replicate 32 1))
     \<lparr>acc_balance := 1000000, acc_auth_keys := AuthSingle (replicate 897 1)\<rparr>"

definition production_context :: validation_context where
  "production_context = \<lparr>vc_block_height = 5, vc_base_fee = 3, vc_block_gas_limit = 1600000000, vc_chain_id = 1,
     vc_dev_skip_signature = False, vc_sender_locked = 10, vc_sig_pre_verified = False\<rparr>"

lemma accepting_tx_verify:
  "length pk = 897 \<Longrightarrow> 500 \<le> length (tx_signature tx) \<Longrightarrow> length (tx_signature tx) \<le> 1000 \<Longrightarrow>
     tx_verify_signature accepting_crypto tx pk"
  by (simp add: tx_verify_signature_def falcon_pk_from_bytes_def FALCON_PK_SIZE_def
      falcon_sig_from_bytes_def falcon_verify_def accepting_crypto_def)

theorem accepted_iff_authentic_and_payable_witness:
  "validate_transaction accepting_crypto (transfer_tx (replicate 32 2) 700) funded_sender nonce_new production_context = Inr ()"
  by (subst accepted_iff_authentic_and_payable)
    (simp_all add: production_context_def DEVNET_def transfer_tx_def funded_sender_def new_system_def accepting_tx_verify
      carries_value_def nonce_new_def consumed_def max_fee_def spendable_def tx_to_bytes_def serialize_access_list_def Let_def)

end
