(* ===== verification/Execution.thy ===== *)
theory Execution
  imports Validation
begin

text \<open>
  Charging and settling a transaction (\<open>crates/tx/src/execution.rs\<close>): the charge before
  execution, the transfer of the value, the refund and the distribution of the fee. Arithmetic is
  that of a release build: \<open>+\<close>, \<open>-\<close> and \<open>*\<close> wrap, the \<open>checked_\<close> operations do not.
\<close>

section \<open>Operations\<close>

definition FEE_BURN_PCT :: u64 where "FEE_BURN_PCT = 70"
definition FEE_VALIDATOR_PCT :: u64 where "FEE_VALIDATOR_PCT = 20"

record log_entry =
  le_address :: bytes
  le_topics :: "bytes list"
  le_data :: bytes

record receipt =
  rc_tx_hash :: bytes
  rc_success :: bool
  rc_gas_used :: u64
  rc_gas_refund :: u64
  rc_effective_gas :: u64
  rc_fee_paid :: u128
  rc_fee_burned :: u128
  rc_fee_validator :: u128
  rc_fee_treasury :: u128
  rc_logs :: "log_entry list"
  rc_state_root :: bytes
  rc_return_data :: bytes

record fee_distribution =
  fd_burned :: u128
  fd_validator :: u128
  fd_treasury :: u128

text \<open>Numbers as the messages print them.\<close>

fun decimal :: "nat \<Rightarrow> string" where
  "decimal n = (if n < 10 then [char_of (48 + n)] else decimal (n div 10) @ [char_of (48 + n mod 10)])"

declare decimal.simps [simp del]

definition show_word :: "'a::len word \<Rightarrow> bytes" where
  "show_word w = ascii (decimal (unat w))"

text \<open>The result is the amount charged with the new balances, or the message of the error.\<close>

definition pre_execution_charge ::
  "transaction \<Rightarrow> u128 \<Rightarrow> u128 \<Rightarrow> u128 \<Rightarrow> bytes + (u128 \<times> u128 \<times> u128)" where
  "pre_execution_charge tx sender_balance gas_tank_balance base_fee =
     (case checked_mul (ucast (tx_gas_limit tx)) base_fee of
        None \<Rightarrow> Inl (ascii ''fee overflow: gas_limit ('' @ show_word (tx_gas_limit tx) @ ascii '') * base_fee (''
                  @ show_word base_fee @ ascii '') > u128::MAX'')
      | Some max_gas_cost \<Rightarrow>
          (case tx_fee_payer tx of
             Sender \<Rightarrow>
               (case checked_add max_gas_cost (tx_value tx) of
                  None \<Rightarrow> Inl (ascii ''fee overflow: max_gas_cost ('' @ show_word max_gas_cost @ ascii '') + value (''
                            @ show_word (tx_value tx) @ ascii '') > u128::MAX'')
                | Some needed \<Rightarrow>
                    if sender_balance < needed
                    then Inl (ascii ''insufficient balance: need '' @ show_word needed @ ascii '', have '' @ show_word sender_balance)
                    else Inr (max_gas_cost, sender_balance - max_gas_cost, gas_tank_balance))
           | GasTank _ \<Rightarrow>
               if gas_tank_balance < max_gas_cost
               then Inl (ascii ''insufficient gas tank: need '' @ show_word max_gas_cost @ ascii '', have '' @ show_word gas_tank_balance)
               else if sender_balance < tx_value tx
               then Inl (ascii ''insufficient balance for value: need '' @ show_word (tx_value tx) @ ascii '', have '' @ show_word sender_balance)
               else Inr (max_gas_cost, sender_balance, gas_tank_balance - max_gas_cost)
           | Paymaster _ \<Rightarrow> Inr (0, sender_balance, gas_tank_balance)))"

definition transfer_tx_value :: "u128 \<Rightarrow> u128 \<Rightarrow> u128 \<Rightarrow> bytes + (u128 \<times> u128)" where
  "transfer_tx_value sender_balance recipient_balance value =
     (if value = 0 then Inr (sender_balance, recipient_balance)
      else if sender_balance < value
      then Inl (ascii ''insufficient balance for transfer: need '' @ show_word value @ ascii '', have '' @ show_word sender_balance)
      else Inr (sender_balance - value, recipient_balance + value))"

definition post_execution_refund :: "u64 \<Rightarrow> u64 \<Rightarrow> u64 \<Rightarrow> u128 \<Rightarrow> u128 \<Rightarrow> (u64 \<times> u64) \<times> u128" where
  "post_execution_refund gas_used gas_limit gas_refund_from_sdelete fee_payer_balance base_fee =
     (let max_refund = gas_used div 2;
          actual_refund = min gas_refund_from_sdelete max_refund;
          effective_gas = gas_used - actual_refund;
          gas_used = min gas_used gas_limit;
          unused_gas = gas_limit - gas_used;
          total_refund_gas = unused_gas + actual_refund;
          refund_amount = ucast total_refund_gas * base_fee
      in ((effective_gas, actual_refund), fee_payer_balance + refund_amount))"

definition distribute_fee :: "u64 \<Rightarrow> u128 \<Rightarrow> fee_distribution" where
  "distribute_fee effective_gas base_fee =
     (let total_fee = ucast effective_gas * base_fee;
          burned = total_fee * ucast FEE_BURN_PCT div 100;
          validator = total_fee * ucast FEE_VALIDATOR_PCT div 100
      in \<lparr>fd_burned = burned, fd_validator = validator, fd_treasury = total_fee - burned - validator\<rparr>)"

definition generate_receipt ::
  "crypto_lib \<Rightarrow> transaction \<Rightarrow> bool \<Rightarrow> u64 \<Rightarrow> u64 \<Rightarrow> u64 \<Rightarrow> u128 \<Rightarrow> log_entry list \<Rightarrow> bytes \<Rightarrow> bytes \<Rightarrow> receipt" where
  "generate_receipt C tx success gas_used gas_refund effective_gas base_fee logs state_root return_data =
     (let fee = distribute_fee effective_gas base_fee
      in \<lparr>rc_tx_hash = tx_hash C tx, rc_success = success, rc_gas_used = gas_used, rc_gas_refund = gas_refund,
          rc_effective_gas = effective_gas, rc_fee_paid = ucast effective_gas * base_fee,
          rc_fee_burned = fd_burned fee, rc_fee_validator = fd_validator fee, rc_fee_treasury = fd_treasury fee,
          rc_logs = logs, rc_state_root = state_root, rc_return_data = return_data\<rparr>)"

section \<open>The charge\<close>

lemma checked_mul_max_fee:
  "checked_mul (ucast (tx_gas_limit tx)) base_fee = Some cost \<longleftrightarrow>
     max_fee tx base_fee < 2 ^ 128 \<and> cost = ucast (tx_gas_limit tx) * base_fee"
  by (auto simp: checked_mul_def max_fee_def)

lemma unat_max_fee:
  "max_fee tx base_fee < 2 ^ 128 \<Longrightarrow> unat (ucast (tx_gas_limit tx) * base_fee) = max_fee tx base_fee"
  by (simp add: max_fee_def unat_mult_lem [THEN iffD1])

text \<open>A sender who can pay the fee and the value is charged, and the value is still there.\<close>

lemma charge_sender:
  assumes "tx_fee_payer tx = Sender" "max_fee tx base_fee + unat (tx_value tx) \<le> unat bal"
  shows "pre_execution_charge tx bal tank base_fee =
      Inr (ucast (tx_gas_limit tx) * base_fee, bal - ucast (tx_gas_limit tx) * base_fee, tank)"
    and "unat (bal - ucast (tx_gas_limit tx) * base_fee) = unat bal - max_fee tx base_fee"
proof -
  let ?c = "ucast (tx_gas_limit tx) * base_fee :: u128"
  have "unat bal < 2 ^ 128" using unat_lt_length [of bal] by simp
  then have fits: "max_fee tx base_fee < 2 ^ 128" "unat ?c + unat (tx_value tx) < 2 ^ 128"
    using assms(2) unat_max_fee [of tx base_fee] by linarith+
  note c = unat_max_fee [OF fits(1)]
  have "unat (?c + tx_value tx) = max_fee tx base_fee + unat (tx_value tx)"
    using fits(2) c by (simp add: unat_add_lem [THEN iffD1])
  then show "pre_execution_charge tx bal tank base_fee = Inr (?c, bal - ?c, tank)"
    using assms fits c
    by (simp add: pre_execution_charge_def checked_mul_max_fee [THEN iffD2] checked_add_def word_less_nat_alt)
  show "unat (bal - ?c) = unat bal - max_fee tx base_fee"
    using assms(2) c by (simp add: unat_sub word_le_nat_alt)
qed

section \<open>The fee\<close>

lemma unat_pct:
  assumes "unat t * 70 < 2 ^ 128"
  shows "unat (t * 70 div 100 :: u128) = unat t * 70 div 100" "unat (t * 20 div 100 :: u128) = unat t * 20 div 100"
  using assms by (simp_all add: unat_div unat_mult_lem [THEN iffD1])

text \<open>The three shares, over the naturals, and that they add up to the fee.\<close>

lemma distribute_fee_shares:
  assumes "unat g * unat base_fee * 70 < 2 ^ 128"
  shows "unat (fd_burned (distribute_fee g base_fee)) = unat g * unat base_fee * 70 div 100"
    and "unat (fd_validator (distribute_fee g base_fee)) = unat g * unat base_fee * 20 div 100"
    and "unat (fd_burned (distribute_fee g base_fee)) + unat (fd_validator (distribute_fee g base_fee))
      + unat (fd_treasury (distribute_fee g base_fee)) = unat g * unat base_fee"
proof -
  let ?t = "ucast g * base_fee :: u128"
  have "unat g * unat base_fee < 2 ^ 128" using assms by linarith
  then have t: "unat ?t = unat g * unat base_fee" by (subst unat_mult_lem [THEN iffD1]) simp_all
  have p: "unat (?t * 70 div 100) = unat ?t * 70 div 100" "unat (?t * 20 div 100) = unat ?t * 20 div 100"
    using assms t by (intro unat_pct; simp)+
  have "unat ?t * 70 div 100 + unat ?t * 20 div 100 \<le> unat ?t" by linarith
  then have le: "?t * 70 div 100 \<le> ?t" "?t * 20 div 100 \<le> ?t - ?t * 70 div 100"
    using p by (simp_all add: word_le_nat_alt unat_sub)
  then have "unat (?t - ?t * 70 div 100 - ?t * 20 div 100) = unat ?t - unat ?t * 70 div 100 - unat ?t * 20 div 100"
    using p by (simp add: unat_sub)
  then show "unat (fd_burned (distribute_fee g base_fee)) = unat g * unat base_fee * 70 div 100"
    "unat (fd_validator (distribute_fee g base_fee)) = unat g * unat base_fee * 20 div 100"
    "unat (fd_burned (distribute_fee g base_fee)) + unat (fd_validator (distribute_fee g base_fee))
      + unat (fd_treasury (distribute_fee g base_fee)) = unat g * unat base_fee"
    using p t \<open>unat ?t * 70 div 100 + unat ?t * 20 div 100 \<le> unat ?t\<close>
    by (simp_all add: distribute_fee_def Let_def FEE_BURN_PCT_def FEE_VALIDATOR_PCT_def)
qed

lemma unburned_share:
  fixes t :: nat
  assumes "b = t * 70 div 100" "b + v + r = t"
  shows "3 * t \<le> 10 * (v + r)"
proof -
  have "b * 100 \<le> t * 70" unfolding assms(1) by (rule div_times_less_eq_dividend)
  then have "10 * b \<le> 7 * t" by simp
  then show ?thesis using assms(2) by simp
qed

text \<open>What the refund leaves of the charge, for gas within the limit.\<close>

lemma refund_within_limit:
  assumes "gas_used \<le> tx_gas_limit tx" "max_fee tx base_fee \<le> unat (charged_from :: u128)"
    and "unat bal = unat charged_from - max_fee tx base_fee"
  shows "case post_execution_refund gas_used (tx_gas_limit tx) sdel bal base_fee of ((eff, r), bal') \<Rightarrow>
    unat eff = unat gas_used - unat r \<and> unat r \<le> unat gas_used div 2 \<and> unat eff * unat base_fee \<le> max_fee tx base_fee
    \<and> unat bal' = unat charged_from - unat eff * unat base_fee"
proof -
  let ?r = "min sdel (gas_used div 2)" and ?l = "tx_gas_limit tx"
  have "?r \<le> gas_used div 2" by simp
  then have r: "unat ?r \<le> unat gas_used div 2" by (simp add: word_le_nat_alt unat_div del: min.cobounded2)
  have used: "unat gas_used \<le> unat ?l" using assms(1) by (simp add: word_le_nat_alt)
  have eff: "unat (gas_used - ?r) = unat gas_used - unat ?r"
    using r by (simp add: unat_sub word_le_nat_alt)
  have "unat (?l - gas_used) = unat ?l - unat gas_used" using assms(1) by (simp add: unat_sub)
  then have unused: "unat (?l - gas_used + ?r) = unat ?l - unat (gas_used - ?r)"
    using r eff used unat_lt_length [of ?l] by (subst unat_add_lem [THEN iffD1]) auto
  have fee: "unat (gas_used - ?r) * unat base_fee \<le> max_fee tx base_fee"
    using eff used unfolding max_fee_def by (intro mult_le_mono1) simp
  have refund: "unat (?l - gas_used + ?r) * unat base_fee = max_fee tx base_fee - unat (gas_used - ?r) * unat base_fee"
    by (simp add: unused max_fee_def diff_mult_distrib)
  have lt: "max_fee tx base_fee < 2 ^ 128" using assms(2) unat_lt_length [of charged_from] by simp
  then have "unat (ucast (?l - gas_used + ?r) * base_fee :: u128) = max_fee tx base_fee - unat (gas_used - ?r) * unat base_fee"
    using refund by (subst unat_mult_lem [THEN iffD1]) simp_all
  then have "unat (bal + ucast (?l - gas_used + ?r) * base_fee) = unat charged_from - unat (gas_used - ?r) * unat base_fee"
    using assms(2,3) fee unat_lt_length [of charged_from] by (subst unat_add_lem [THEN iffD1]) auto
  then show ?thesis
    using r eff fee assms(1) by (simp add: post_execution_refund_def Let_def min_absorb1)
qed

lemma transfer_ok:
  assumes "unat value \<le> unat bal" "unat recipient + unat value < 2 ^ 128"
  shows "transfer_tx_value bal recipient value = Inr (bal - value, recipient + value)"
    and "unat (bal - value) = unat bal - unat value" "unat (recipient + value) = unat recipient + unat value"
  using assms by (simp_all add: transfer_tx_value_def word_less_nat_alt unat_sub word_le_nat_alt unat_add_lem [THEN iffD1])

text \<open>
  C38: gas above the limit is paid from nowhere. When more gas is reported than the limit, the payer
  has been charged the limit only, but the shares are computed from the gas reported less the refund.
  As soon as ten times the limit is below three times that effective gas plus ten times the refund,
  the refund and the credits to proposer and treasury together exceed the charge.
\<close>

theorem excess_gas_mints:
  assumes run: "post_execution_refund gas_used gas_limit sdel bal base_fee = ((eff, r), bal')"
    and "gas_limit \<le> gas_used" "10 * unat gas_limit < 3 * unat eff + 10 * unat r" "0 < unat base_fee"
    and "unat bal + unat r * unat base_fee < 2 ^ 128" "unat eff * unat base_fee * 70 < 2 ^ 128"
  shows "unat bal' = unat bal + unat r * unat base_fee
    \<and> unat gas_limit * unat base_fee < (unat bal' - unat bal)
        + unat (fd_validator (distribute_fee eff base_fee)) + unat (fd_treasury (distribute_fee eff base_fee))"
proof -
  have "bal' = bal + ucast r * base_fee"
    using run assms(2) by (auto simp: post_execution_refund_def Let_def min_absorb2)
  moreover have "unat (ucast r * base_fee :: u128) = unat r * unat base_fee"
    using assms(5) by (subst unat_mult_lem [THEN iffD1]) (simp_all add: unat_ucast_up)
  ultimately have bal': "unat bal' = unat bal + unat r * unat base_fee"
    using assms(5) by (simp add: unat_add_lem [THEN iffD1])
  have "10 * (unat gas_limit * unat base_fee) < 3 * (unat eff * unat base_fee) + 10 * (unat r * unat base_fee)"
    using mult_strict_right_mono [OF assms(3,4)] by (simp add: algebra_simps)
  moreover have "3 * (unat eff * unat base_fee) \<le>
      10 * (unat (fd_validator (distribute_fee eff base_fee)) + unat (fd_treasury (distribute_fee eff base_fee)))"
    by (rule unburned_share [OF distribute_fee_shares(1,3) [OF assms(6)]])
  ultimately show ?thesis using bal' by simp
qed

theorem excess_gas_mints_witness:
  "21000 * 3 < unat (fd_validator (distribute_fee 100000 3)) + unat (fd_treasury (distribute_fee 100000 3))"
proof -
  have "post_execution_refund 100000 21000 0 1000000 3 = ((100000, 0), 1000000)"
    by (simp add: post_execution_refund_def Let_def)
  from excess_gas_mints [OF this] show ?thesis by simp
qed

end
