(* ===== verification/Airdrop.thy ===== *)
theory Airdrop
  imports Account
begin

unbundle bit_operations_syntax

text \<open>
  The airdrop Merkle tree (\<open>crates/tx/src/airdrop.rs\<close>): the claim payload, the walk from a leaf to
  the root, and the off-chain builder. The builder's proofs verify, and a verified claim is a
  leaf of the tree unless the sponge has a collision among the inputs actually hashed.
\<close>

section \<open>Claims\<close>

definition LEAF_TAG :: u8 where "LEAF_TAG = 0x00"
definition MAX_PROOF_LEN :: nat where "MAX_PROOF_LEN = 255"
definition MIN_CLAIM_DATA_LEN :: nat where "MIN_CLAIM_DATA_LEN = 25"

record claim_payload =
  leaf_index :: u64
  claim_amount :: u128
  claim_proof :: "hash256 list"

definition claim_decode :: "bytes \<Rightarrow> claim_payload option" where
  "claim_decode bs =
     (if length bs < MIN_CLAIM_DATA_LEN then None
      else
        (let proof_len = unat (bs ! 24);
             expected = MIN_CLAIM_DATA_LEN + proof_len * 32
         in if length bs \<noteq> expected then None
            else Some \<lparr>leaf_index = from_le_bytes (byte_range 0 8 bs),
                       claim_amount = from_le_bytes (byte_range 8 24 bs),
                       claim_proof = map (\<lambda>i. let off = MIN_CLAIM_DATA_LEN + i * 32
                                              in byte_range off (off + 32) bs) [0..<proof_len]\<rparr>))"

text \<open>\<open>None\<close> is the panic of the assertion on the proof length.\<close>

definition claim_encode :: "claim_payload \<Rightarrow> bytes option" where
  "claim_encode c =
     (if length (claim_proof c) \<le> MAX_PROOF_LEN
      then Some (to_le_bytes 8 (leaf_index c) @ to_le_bytes 16 (claim_amount c)
                 @ [of_nat (length (claim_proof c))] @ concat (claim_proof c))
      else None)"

section \<open>Verification\<close>

definition leaf_hash :: "crypto_lib \<Rightarrow> u64 \<Rightarrow> bytes \<Rightarrow> u128 \<Rightarrow> hash256" where
  "leaf_hash C index addr amount =
     poseidon2_hash C ([LEAF_TAG] @ to_le_bytes 8 index @ addr @ to_le_bytes 16 amount)"

text \<open>The loop over the siblings, with the current node and index.\<close>

fun climb :: "crypto_lib \<Rightarrow> hash256 \<Rightarrow> u64 \<Rightarrow> hash256 list \<Rightarrow> hash256" where
  "climb C node index [] = node"
| "climb C node index (sibling # proof) =
     climb C
       (if index AND 1 = 0 then poseidon2_pair C node sibling else poseidon2_pair C sibling node)
       (drop_bit 1 index) proof"

definition compute_root :: "crypto_lib \<Rightarrow> u64 \<Rightarrow> bytes \<Rightarrow> u128 \<Rightarrow> hash256 list \<Rightarrow> hash256" where
  "compute_root C idx addr amount proof = climb C (leaf_hash C idx addr amount) idx proof"

definition verify_proof :: "crypto_lib \<Rightarrow> u64 \<Rightarrow> bytes \<Rightarrow> u128 \<Rightarrow> hash256 list \<Rightarrow> hash256 \<Rightarrow> bool" where
  "verify_proof C idx addr amount proof root \<longleftrightarrow> compute_root C idx addr amount proof = root"

section \<open>The builder\<close>

text \<open>\<open>usize::ilog2\<close>\<close>

fun ilog2 :: "nat \<Rightarrow> nat" where
  "ilog2 n = (if n < 2 then 0 else Suc (ilog2 (n div 2)))"

declare ilog2.simps [simp del]

definition tree_depth :: "nat \<Rightarrow> nat" where
  "tree_depth n = (if n \<le> 1 then 0 else ilog2 (n - 1) + 1)"

definition next_level :: "crypto_lib \<Rightarrow> hash256 list \<Rightarrow> hash256 list" where
  "next_level C level = map (\<lambda>pair. poseidon2_pair C (pair ! 0) (pair ! 1)) (chunks 2 level)"

fun build_loop ::
    "crypto_lib \<Rightarrow> nat \<Rightarrow> nat \<Rightarrow> hash256 list \<Rightarrow> hash256 list list \<Rightarrow> hash256 list \<times> hash256 list list"
    where
  "build_loop C d 0 level siblings_per_leaf = (level, siblings_per_leaf)"
| "build_loop C d (Suc n) level siblings_per_leaf =
     build_loop C (Suc d) n (next_level C level)
       (map (\<lambda>leaf_i. let pos_at_level = drop_bit d leaf_i;
                          sibling_pos = pos_at_level XOR 1
                      in siblings_per_leaf ! leaf_i @ [level ! sibling_pos])
          [0..<length siblings_per_leaf])"

definition tree_leaves :: "crypto_lib \<Rightarrow> (bytes \<times> u128) list \<Rightarrow> hash256 list" where
  "tree_leaves C leaves =
     (let level = map (\<lambda>(i, addr, amt). leaf_hash C (of_nat i) addr amt) (enumerate 0 leaves);
          padded_width = 2 ^ tree_depth (length level)
      in level @ replicate (padded_width - length level) hash256_ZERO)"

text \<open>\<open>None\<close> is the panic on an empty list of leaves.\<close>

definition build_tree ::
    "crypto_lib \<Rightarrow> (bytes \<times> u128) list \<Rightarrow> (hash256 \<times> hash256 list list) option" where
  "build_tree C leaves =
     (if leaves = [] then None
      else
        (case build_loop C 0 (tree_depth (length leaves)) (tree_leaves C leaves)
                (replicate (length leaves) []) of
           (level, siblings_per_leaf) \<Rightarrow> Some (level ! 0, siblings_per_leaf)))"

section \<open>Trees as levels\<close>

text \<open>The root of a level of \<open>2 ^ m\<close> nodes and the path of siblings of a node in it.\<close>

fun level_root :: "crypto_lib \<Rightarrow> nat \<Rightarrow> hash256 list \<Rightarrow> hash256" where
  "level_root C 0 level = level ! 0"
| "level_root C (Suc m) level = level_root C m (next_level C level)"

fun level_path :: "crypto_lib \<Rightarrow> nat \<Rightarrow> hash256 list \<Rightarrow> nat \<Rightarrow> hash256 list" where
  "level_path C 0 level i = []"
| "level_path C (Suc m) level i =
     level ! (i XOR 1) # level_path C m (next_level C level) (i div 2)"

lemma chunks_2_Cons: "chunks 2 (x # y # zs) = [x, y] # chunks 2 zs"
  by (simp add: chunks_Cons numeral_2_eq_2)

lemma length_chunks_2: "even (length xs) \<Longrightarrow> length (chunks 2 xs) = length xs div 2"
  by (induction xs rule: induct_list012) (auto simp: chunks_2_Cons)

lemma nth_chunks_2:
  "even (length xs) \<Longrightarrow> j < length xs div 2 \<Longrightarrow> chunks 2 xs ! j = [xs ! (2 * j), xs ! (2 * j + 1)]"
proof (induction xs arbitrary: j rule: induct_list012)
  case (3 x y zs)
  then show ?case by (cases j) (auto simp: chunks_2_Cons)
qed auto

lemma length_next_level: "even (length level) \<Longrightarrow> length (next_level C level) = length level div 2"
  by (simp add: next_level_def length_chunks_2)

lemma nth_next_level:
  "even (length level) \<Longrightarrow> j < length level div 2 \<Longrightarrow>
     next_level C level ! j = poseidon2_pair C (level ! (2 * j)) (level ! (2 * j + 1))"
  by (simp add: next_level_def length_chunks_2 nth_chunks_2)

lemma climb_level_path:
  assumes "length level = 2 ^ m" "i < 2 ^ m" "m \<le> 64" "unat index = i"
  shows "climb C (level ! i) index (level_path C m level i) = level_root C m level"
  using assms
proof (induction m arbitrary: level i index)
  case (Suc m)
  have half: "length (next_level C level) = 2 ^ m" "i div 2 < 2 ^ m"
    using Suc.prems by (simp_all add: length_next_level)
  have idx: "unat (drop_bit 1 index) = i div 2" "index AND 1 = 0 \<longleftrightarrow> even i"
    using Suc.prems(4) unat_and_mask [of index 1]
    by (auto simp: unat_drop_bit unat_eq_zero [symmetric] even_iff_mod_2_eq_zero mask_eq_exp_minus_1
        simp del: unat_eq_zero)
  have "next_level C level ! (i div 2)
      = (if even i then poseidon2_pair C (level ! i) (level ! (i XOR 1))
         else poseidon2_pair C (level ! (i XOR 1)) (level ! i))"
  proof -
    have "i XOR 1 = (if even i then i + 1 else i - 1)" by (simp add: xor_Suc_0_eq)
    moreover have "i div 2 < length level div 2" using Suc.prems(1,2) by simp
    ultimately show ?thesis using Suc.prems(1) by (auto simp: nth_next_level elim!: evenE oddE)
  qed
  then show ?case
    using Suc.IH [of "next_level C level" "i div 2" "drop_bit 1 index"] half idx Suc.prems(3)
    by (cases "even i") simp_all
qed simp

lemma drop_bit_Suc_half: "drop_bit d i div 2 = drop_bit (Suc d) (i :: nat)"
  by (simp only: drop_bit_eq_div power_Suc2 div_mult2_eq)

lemma build_loop_path:
  assumes "length level = 2 ^ m" "length sibs \<le> 2 ^ (d + m)"
  shows "build_loop C d m level sibs
    = ([level_root C m level],
       map (\<lambda>i. sibs ! i @ level_path C m level (drop_bit d i)) [0..<length sibs])"
  using assms
proof (induction m arbitrary: d level sibs)
  case 0
  then have "level = [level ! 0]" by (cases level) auto
  moreover have "map (\<lambda>i. sibs ! i) [0..<length sibs] = sibs" by (rule map_nth)
  ultimately show ?case by simp
next
  case (Suc m)
  let ?sibs = "map (\<lambda>i. sibs ! i @ [level ! (drop_bit d i XOR 1)]) [0..<length sibs]"
  have "build_loop C (Suc d) m (next_level C level) ?sibs
      = ([level_root C m (next_level C level)],
         map (\<lambda>i. ?sibs ! i @ level_path C m (next_level C level) (drop_bit (Suc d) i))
           [0..<length ?sibs])"
    using Suc.prems by (intro Suc.IH) (simp_all add: length_next_level)
  then show ?case by (auto simp: Let_def drop_bit_Suc_half)
qed

lemma ilog2_bounds: "0 < n \<Longrightarrow> 2 ^ ilog2 n \<le> n \<and> n < 2 ^ Suc (ilog2 n)"
proof (induction n rule: ilog2.induct)
  case (1 n)
  show ?case
  proof (cases "n < 2")
    case True
    then show ?thesis using 1(2) by (simp add: ilog2.simps)
  next
    case False
    define p :: nat where "p = 2 ^ ilog2 (n div 2)"
    have "p \<le> n div 2" "n div 2 < 2 * p" using 1 False by (simp_all add: p_def)
    then have "2 * p \<le> n \<and> n < 4 * p" by linarith
    then show ?thesis using False by (simp add: ilog2.simps [of n] p_def)
  qed
qed

lemma tree_depth_bounds:
  shows "n \<le> 2 ^ tree_depth n" and "n \<le> 2 ^ k \<Longrightarrow> tree_depth n \<le> k"
proof -
  show "n \<le> 2 ^ tree_depth n"
    using ilog2_bounds [of "n - 1"] by (auto simp: tree_depth_def)
  show "tree_depth n \<le> k" if "n \<le> 2 ^ k"
  proof (cases "n \<le> 1")
    case False
    then have "2 ^ ilog2 (n - 1) < (2 :: nat) ^ k"
      using ilog2_bounds [of "n - 1"] that by linarith
    then have "ilog2 (n - 1) < k" by (simp add: power_strict_increasing_iff)
    with False show ?thesis by (simp add: tree_depth_def)
  qed (simp add: tree_depth_def)
qed

lemma length_tree_leaves: "length (tree_leaves C leaves) = 2 ^ tree_depth (length leaves)"
  using tree_depth_bounds(1) [of "length leaves"] by (simp add: tree_leaves_def Let_def)

lemma nth_tree_leaves:
  "i < length leaves \<Longrightarrow>
     tree_leaves C leaves ! i = leaf_hash C (of_nat i) (fst (leaves ! i)) (snd (leaves ! i))"
  by (simp add: tree_leaves_def Let_def nth_append nth_enumerate_eq split: prod.splits)

lemma build_tree_levels:
  assumes "leaves \<noteq> []"
  shows "build_tree C leaves =
    Some (level_root C (tree_depth (length leaves)) (tree_leaves C leaves),
          map (level_path C (tree_depth (length leaves)) (tree_leaves C leaves)) [0..<length leaves])"
proof -
  let ?m = "tree_depth (length leaves)" and ?level = "tree_leaves C leaves"
    and ?sibs = "replicate (length leaves) [] :: hash256 list list"
  have "build_loop C 0 ?m ?level ?sibs
      = ([level_root C ?m ?level],
         map (\<lambda>i. ?sibs ! i @ level_path C ?m ?level (drop_bit 0 i)) [0..<length ?sibs])"
    by (rule build_loop_path) (simp_all add: length_tree_leaves tree_depth_bounds(1))
  moreover have "map (\<lambda>i. ?sibs ! i @ level_path C ?m ?level (drop_bit 0 i)) [0..<length ?sibs]
      = map (level_path C ?m ?level) [0..<length leaves]"
    by (intro map_cong) auto
  ultimately show ?thesis using assms by (simp add: build_tree_def)
qed

text \<open>
  Every proof the builder hands out verifies. For any non-empty list of at most \<open>2 ^ 64\<close> leaves,
  the proof of leaf \<open>i\<close> leads from its address and amount to the root of the tree.
\<close>

theorem build_tree_proofs_verify:
  assumes "leaves \<noteq> []" and "length leaves \<le> 2 ^ 64" and "i < length leaves"
  shows "\<exists>root proofs. build_tree C leaves = Some (root, proofs) \<and> length proofs = length leaves
    \<and> verify_proof C (of_nat i) (fst (leaves ! i)) (snd (leaves ! i)) (proofs ! i) root"
proof -
  let ?m = "tree_depth (length leaves)" and ?level = "tree_leaves C leaves"
  have "unat (of_nat i :: u64) = i" using assms(2,3) by (intro unat_of_nat_small) simp
  then have "climb C (?level ! i) (of_nat i) (level_path C ?m ?level i) = level_root C ?m ?level"
    using assms(3) tree_depth_bounds(1) [of "length leaves"] tree_depth_bounds(2) [OF assms(2)]
    by (intro climb_level_path) (simp_all add: length_tree_leaves)
  then show ?thesis
    using assms(1,3) by (simp add: build_tree_levels verify_proof_def compute_root_def nth_tree_leaves)
qed

theorem build_tree_proofs_verify_witness:
  "\<exists>root proofs. build_tree example_crypto [([1], 10), ([2], 20), ([3], 30)] = Some (root, proofs)
     \<and> length proofs = 3 \<and> verify_proof example_crypto 2 [3] 30 (proofs ! 2) root"
  using build_tree_proofs_verify [of "[([1], 10), ([2], 20), ([3], 30)]" 2 example_crypto]
  by (simp add: numeral_3_eq_3)

section \<open>Soundness of claims\<close>

text \<open>
  What the sponge crate documents of its output: field elements in canonical form, below the
  modulus. A hash made of such elements is not changed by the reduction that \<open>poseidon2_pair\<close>
  applies to its arguments.
\<close>

definition canonical_elements :: "goldilocks \<times> goldilocks \<times> goldilocks \<times> goldilocks \<Rightarrow> bool" where
  "canonical_elements els =
     (case els of (a, b, c, d) \<Rightarrow>
        a < goldilocks_modulus \<and> b < goldilocks_modulus
        \<and> c < goldilocks_modulus \<and> d < goldilocks_modulus)"

definition canonical_sponge :: "crypto_lib \<Rightarrow> bool" where
  "canonical_sponge C \<longleftrightarrow> (\<forall>xs. canonical_elements (sponge C xs))"

definition hash_canonical :: "hash256 \<Rightarrow> bool" where
  "hash_canonical h \<longleftrightarrow> (\<exists>els. canonical_elements els \<and> h = elements_to_hash els)"

lemma elements_of_canonical:
  assumes "canonical_elements (a, b, c, d)"
  shows "hash256_to_elements (elements_to_hash (a, b, c, d)) = [a, b, c, d]"
proof -
  have "u64_to_goldilocks x = x" if "x < goldilocks_modulus" for x
    using that by (simp add: u64_to_goldilocks_def word_unat_eq_iff unat_mod_distrib word_less_nat_alt)
  then show ?thesis
    using assms
    by (simp add: hash256_to_elements_def elements_to_hash_def goldilocks_to_u64_def from_to_le_bytes
        canonical_elements_def)
qed

lemma canonical_inject:
  assumes "hash_canonical h" "hash_canonical h'" "hash256_to_elements h = hash256_to_elements h'"
  shows "h = h'"
proof -
  obtain x y where xy: "h = elements_to_hash x" "h' = elements_to_hash y"
    "canonical_elements x" "canonical_elements y"
    using assms(1,2) by (auto simp: hash_canonical_def)
  then show ?thesis
    using assms(3) by (cases x; cases y) (simp add: elements_of_canonical)
qed

lemma zero_hash: "hash256_ZERO = elements_to_hash (0, 0, 0, 0)"
  by (simp add: hash256_ZERO_def elements_to_hash_def goldilocks_to_u64_def to_le_bytes_def
      numeral_eq_Suc)

lemma canonical_hashes:
  assumes "canonical_sponge C"
  shows "hash_canonical (poseidon2_pair C l r)" "hash_canonical (poseidon2_hash C data)"
    "hash_canonical hash256_ZERO"
proof -
  show "hash_canonical (poseidon2_pair C l r)" "hash_canonical (poseidon2_hash C data)"
    using assms unfolding hash_canonical_def poseidon2_pair_def poseidon2_hash_def canonical_sponge_def
    by blast+
  have "canonical_elements (0, 0, 0, 0)"
    by (simp add: canonical_elements_def goldilocks_modulus_def)
  then show "hash_canonical hash256_ZERO"
    unfolding hash_canonical_def zero_hash by blast
qed

definition pair_input :: "hash256 \<Rightarrow> hash256 \<Rightarrow> goldilocks list" where
  "pair_input l r = hash256_to_elements l @ hash256_to_elements r"

text \<open>Two distinct inputs on which the sponge agrees, one from each set.\<close>

definition sponge_collision :: "crypto_lib \<Rightarrow> goldilocks list set \<Rightarrow> goldilocks list set \<Rightarrow> bool" where
  "sponge_collision C X Y \<longleftrightarrow> (\<exists>x\<in>X. \<exists>y\<in>Y. x \<noteq> y \<and> sponge C x = sponge C y)"

lemma sponge_collisionI:
  "x \<in> X \<Longrightarrow> y \<in> Y \<Longrightarrow> x \<noteq> y \<Longrightarrow> sponge C x = sponge C y \<Longrightarrow> sponge_collision C X Y"
  by (auto simp: sponge_collision_def)

lemma sponge_collision_mono:
  "sponge_collision C X Y \<Longrightarrow> X \<subseteq> X' \<Longrightarrow> Y \<subseteq> Y' \<Longrightarrow> sponge_collision C X' Y'"
  by (auto simp: sponge_collision_def)

lemma length_pair_input [simp]: "length (pair_input l r) = 8"
  by (simp add: pair_input_def hash256_to_elements_def)

lemma pair_as_input: "poseidon2_pair C l r = elements_to_hash (sponge C (pair_input l r))"
  by (simp add: poseidon2_pair_def pair_input_def)

lemma pair_eq_cases:
  assumes "poseidon2_pair C l r = poseidon2_pair C l' r'"
  obtains "sponge_collision C {pair_input l r} {pair_input l' r'}"
  | "hash256_to_elements l = hash256_to_elements l'" "hash256_to_elements r = hash256_to_elements r'"
proof (cases "pair_input l r = pair_input l' r'")
  case True
  then show ?thesis
    using that(2) by (auto simp: pair_input_def hash256_to_elements_def)
next
  case False
  then show ?thesis
    using assms that(1) by (auto simp: pair_as_input sponge_collision_def)
qed

text \<open>The sponge inputs of a walk and of a tree.\<close>

fun climb_inputs :: "crypto_lib \<Rightarrow> hash256 \<Rightarrow> u64 \<Rightarrow> hash256 list \<Rightarrow> goldilocks list set" where
  "climb_inputs C node index [] = {}"
| "climb_inputs C node index (s # proof) =
     (if index AND 1 = 0
      then insert (pair_input node s)
             (climb_inputs C (poseidon2_pair C node s) (drop_bit 1 index) proof)
      else insert (pair_input s node)
             (climb_inputs C (poseidon2_pair C s node) (drop_bit 1 index) proof))"

fun tree_inputs :: "crypto_lib \<Rightarrow> nat \<Rightarrow> hash256 list \<Rightarrow> goldilocks list set" where
  "tree_inputs C 0 level = {}"
| "tree_inputs C (Suc m) level =
     (\<lambda>j. pair_input (level ! (2 * j)) (level ! (2 * j + 1))) ` {..<length level div 2}
     \<union> tree_inputs C m (next_level C level)"

lemma low_bit: "index AND 1 = 0 \<longleftrightarrow> \<not> bit (index :: u64) 0"
  by (simp add: and_one_eq bit_0 even_iff_mod_2_eq_zero)

lemma climb_snoc:
  "climb C node index (ps @ [s])
     = (if bit index (length ps) then poseidon2_pair C s (climb C node index ps)
        else poseidon2_pair C (climb C node index ps) s)"
  by (induction ps arbitrary: node index) (simp_all add: low_bit bit_drop_bit_eq)

lemma climb_inputs_snoc:
  "climb_inputs C node index (ps @ [s])
     = insert (if bit index (length ps) then pair_input s (climb C node index ps)
               else pair_input (climb C node index ps) s)
         (climb_inputs C node index ps)"
  by (induction ps arbitrary: node index) (auto simp: low_bit bit_drop_bit_eq)

text \<open>A tree of depth \<open>m + 1\<close> is a root over the trees of its two halves.\<close>

lemma next_level_halves:
  assumes "length level = 2 ^ Suc (Suc m)"
  shows "next_level C (take (2 ^ Suc m) level) = take (2 ^ m) (next_level C level)"
    "next_level C (drop (2 ^ Suc m) level) = drop (2 ^ m) (next_level C level)"
  using assms
  by (auto intro!: nth_equalityI simp: length_next_level nth_next_level min_def algebra_simps)

lemma level_root_split:
  "length level = 2 ^ Suc m \<Longrightarrow>
     level_root C (Suc m) level
       = poseidon2_pair C (level_root C m (take (2 ^ m) level)) (level_root C m (drop (2 ^ m) level))"
proof (induction m arbitrary: level)
  case 0
  then show ?case by (simp add: nth_next_level)
next
  case (Suc m)
  have "length (next_level C level) = 2 ^ Suc m" using Suc.prems by (simp add: length_next_level)
  from Suc.IH [OF this] show ?case
    using next_level_halves [OF Suc.prems, of C] by simp
qed

lemma tree_inputs_split:
  "length level = 2 ^ Suc m \<Longrightarrow>
     insert (pair_input (level_root C m (take (2 ^ m) level)) (level_root C m (drop (2 ^ m) level)))
       (tree_inputs C m (take (2 ^ m) level) \<union> tree_inputs C m (drop (2 ^ m) level))
     \<subseteq> tree_inputs C (Suc m) level"
proof (induction m arbitrary: level)
  case 0
  then show ?case by auto
next
  case (Suc m)
  let ?f = "\<lambda>l j. pair_input (l ! (2 * j)) (l ! (2 * j + 1))"
  have len: "length (next_level C level) = 2 ^ Suc m" using Suc.prems by (simp add: length_next_level)
  have "?f (take (2 ^ Suc m) level) ` {..<2 ^ m} \<subseteq> ?f level ` {..<2 ^ Suc m}"
    by (auto intro!: image_eqI)
  moreover have "?f (drop (2 ^ Suc m) level) ` {..<2 ^ m} \<subseteq> ?f level ` {..<2 ^ Suc m}"
  proof
    fix x assume "x \<in> ?f (drop (2 ^ Suc m) level) ` {..<2 ^ m}"
    then obtain j where "j < 2 ^ m" "x = ?f (drop (2 ^ Suc m) level) j" by auto
    then show "x \<in> ?f level ` {..<2 ^ Suc m}"
      using Suc.prems by (intro image_eqI [of _ _ "2 ^ m + j"]) (simp_all add: algebra_simps)
  qed
  ultimately show ?case
    using Suc.IH [OF len] next_level_halves [OF Suc.prems, of C] Suc.prems
    by (simp add: min_def) blast
qed

lemma level_root_canonical:
  assumes "canonical_sponge C" "\<forall>h\<in>set level. hash_canonical h" "length level = 2 ^ m"
  shows "hash_canonical (level_root C m level)"
proof (cases m)
  case 0
  then show ?thesis using assms(2,3) by simp
next
  case (Suc n)
  then show ?thesis using assms level_root_split [of level n C] canonical_hashes(1) by simp
qed

lemma climb_canonical:
  "canonical_sponge C \<Longrightarrow> hash_canonical node \<Longrightarrow> hash_canonical (climb C node index pf)"
  by (cases pf rule: rev_cases) (simp_all add: climb_snoc canonical_hashes)

lemma mod_Suc_bit:
  "unat (w :: u64) mod 2 ^ Suc m = (if bit w m then 2 ^ m else 0) + unat w mod 2 ^ m"
proof -
  have "take_bit (Suc m) (unat w) = take_bit m (unat w) + (if bit (unat w) m then 2 ^ m else 0)"
    by (simp add: take_bit_Suc_from_most add.commute)
  moreover have "bit (unat w) m = bit w m" by (simp add: bit_unsigned_iff bit_imp_possible_bit)
  ultimately show ?thesis by (simp only: take_bit_nat_def)
qed

text \<open>
  A walk that ends in the root of a tree follows its index to a leaf, runs past a leaf, stops at
  an inner node, or exhibits a collision.
\<close>

lemma climb_to_root_disj:
  assumes C: "canonical_sponge C" and node: "hash_canonical node"
    and "\<forall>h\<in>set level. hash_canonical h" "length level = 2 ^ m"
    and "climb C node index pf = level_root C m level"
  shows "sponge_collision C (climb_inputs C node index pf) (tree_inputs C m level)
    \<or> length pf = m \<and> node = level ! (unat index mod 2 ^ m)
    \<or> (\<exists>j x. j < length level \<and> x \<in> climb_inputs C node index pf
         \<and> level ! j = elements_to_hash (sponge C x))
    \<or> (\<exists>y. y \<in> tree_inputs C m level \<and> node = elements_to_hash (sponge C y))"
  using assms(3-5)
proof (induction m arbitrary: level pf)
  case 0
  show ?case
  proof (cases pf rule: rev_cases)
    case Nil
    then show ?thesis using 0 by simp
  next
    case (snoc ps s)
    let ?x = "if bit index (length ps) then pair_input s (climb C node index ps)
      else pair_input (climb C node index ps) s"
    have "level ! 0 = elements_to_hash (sponge C ?x)"
      using snoc 0(3) by (simp add: climb_snoc) (simp add: pair_as_input split: if_splits)
    moreover have "?x \<in> climb_inputs C node index pf" using snoc by (simp add: climb_inputs_snoc)
    moreover have "0 < length level" using 0(2) by simp
    ultimately show ?thesis by blast
  qed
next
  case (Suc m)
  let ?l = "take (2 ^ m) level" and ?r = "drop (2 ^ m) level"
  have half: "length ?l = 2 ^ m" "length ?r = 2 ^ m" "\<forall>h\<in>set ?l. hash_canonical h"
    "\<forall>h\<in>set ?r. hash_canonical h"
    using Suc.prems(1,2) by (auto dest: in_set_takeD in_set_dropD)
  note canon = level_root_canonical [OF C half(3,1)] level_root_canonical [OF C half(4,2)]
  have root: "climb C node index pf = poseidon2_pair C (level_root C m ?l) (level_root C m ?r)"
    using Suc.prems(2,3) by (simp only: level_root_split)
  note inputs = tree_inputs_split [OF Suc.prems(2), of C]
  show ?case
  proof (cases pf rule: rev_cases)
    case Nil
    then have "node = elements_to_hash (sponge C (pair_input (level_root C m ?l) (level_root C m ?r)))"
      using root by (simp add: pair_as_input)
    then show ?thesis using inputs by blast
  next
    case (snoc ps s)
    let ?c = "climb C node index ps" and ?b = "bit index (length ps)"
    have c: "hash_canonical ?c" using C node by (rule climb_canonical)
    define half_level where "half_level = (if ?b then ?r else ?l)"
    have sub: "climb_inputs C node index ps \<subseteq> climb_inputs C node index pf"
      "tree_inputs C m half_level \<subseteq> tree_inputs C (Suc m) level"
      using snoc inputs by (auto simp: climb_inputs_snoc half_level_def)
    have "poseidon2_pair C (if ?b then s else ?c) (if ?b then ?c else s)
        = poseidon2_pair C (level_root C m ?l) (level_root C m ?r)"
      using root snoc by (simp add: climb_snoc split: if_splits)
    then show ?thesis
    proof (cases rule: pair_eq_cases)
      case 1
      then have "sponge_collision C (climb_inputs C node index pf) (tree_inputs C (Suc m) level)"
        using snoc inputs
        by (auto elim!: sponge_collision_mono simp: climb_inputs_snoc split: if_splits)
      then show ?thesis ..
    next
      case 2
      then have "?c = level_root C m half_level"
        using canonical_inject [OF c canon(1)] canonical_inject [OF c canon(2)]
        by (auto simp: half_level_def split: if_splits)
      moreover have len: "length half_level = 2 ^ m"
        and "\<forall>h\<in>set half_level. hash_canonical h"
        using half by (simp_all add: half_level_def)
      ultimately consider
          "sponge_collision C (climb_inputs C node index ps) (tree_inputs C m half_level)"
        | "length ps = m" "node = half_level ! (unat index mod 2 ^ m)"
        | j x where "j < length half_level" "x \<in> climb_inputs C node index ps"
            "half_level ! j = elements_to_hash (sponge C x)"
        | y where "y \<in> tree_inputs C m half_level" "node = elements_to_hash (sponge C y)"
        using Suc.IH [of half_level ps] by blast
      then show ?thesis
      proof cases
        case 1
        then show ?thesis using sponge_collision_mono sub by blast
      next
        case 2
        have "level ! (unat index mod 2 ^ Suc m) = half_level ! (unat index mod 2 ^ m)"
          unfolding mod_Suc_bit using 2(1) Suc.prems(2) by (simp add: half_level_def)
        with 2 snoc show ?thesis by simp
      next
        case (3 j x)
        have "level ! (if ?b then 2 ^ m + j else j) = half_level ! j"
          "(if ?b then 2 ^ m + j else j) < length level"
          using 3(1) len Suc.prems(2) half by (simp_all add: half_level_def)
        moreover have "x \<in> climb_inputs C node index pf" using 3(2) sub(1) by blast
        ultimately show ?thesis using 3(3) by metis
      next
        case (4 y)
        then show ?thesis using sub by blast
      qed
    qed
  qed
qed

lemma climb_to_root:
  assumes "canonical_sponge C" "hash_canonical node"
    and "\<forall>h\<in>set level. hash_canonical h" "length level = 2 ^ m"
    and "climb C node index pf = level_root C m level"
  obtains (collision) "sponge_collision C (climb_inputs C node index pf) (tree_inputs C m level)"
  | (leaf) "length pf = m" "node = level ! (unat index mod 2 ^ m)"
  | (below) j x where "j < length level" "x \<in> climb_inputs C node index pf"
      "level ! j = elements_to_hash (sponge C x)"
  | (inner) y where "y \<in> tree_inputs C m level" "node = elements_to_hash (sponge C y)"
  using climb_to_root_disj [OF assms] by blast

text \<open>The bytes of a leaf, and all sponge inputs of a claim and of a tree.\<close>

definition leaf_bytes :: "u64 \<Rightarrow> bytes \<Rightarrow> u128 \<Rightarrow> bytes" where
  "leaf_bytes index addr amount = [LEAF_TAG] @ to_le_bytes 8 index @ addr @ to_le_bytes 16 amount"

definition claim_inputs :: "crypto_lib \<Rightarrow> u64 \<Rightarrow> bytes \<Rightarrow> u128 \<Rightarrow> hash256 list \<Rightarrow> goldilocks list set" where
  "claim_inputs C idx addr amount pf =
     insert (bytes_to_elements (leaf_bytes idx addr amount))
       (climb_inputs C (leaf_hash C idx addr amount) idx pf)"

definition airdrop_inputs :: "crypto_lib \<Rightarrow> (bytes \<times> u128) list \<Rightarrow> goldilocks list set" where
  "airdrop_inputs C leaves =
     (\<lambda>i. bytes_to_elements (leaf_bytes (of_nat i) (fst (leaves ! i)) (snd (leaves ! i))))
       ` {..<length leaves}
     \<union> tree_inputs C (tree_depth (length leaves)) (tree_leaves C leaves)"

lemma leaf_hash_input:
  "leaf_hash C index addr amount = elements_to_hash (sponge C (bytes_to_elements (leaf_bytes index addr amount)))"
  by (simp add: leaf_hash_def leaf_bytes_def poseidon2_hash_def)

lemma length_chunks_le: "0 < n \<Longrightarrow> length xs \<le> n * length (chunks n xs)"
proof (induction n xs rule: chunks.induct)
  case (1 n xs)
  show ?case
  proof (cases "xs = []")
    case False
    then have "length (drop n xs) \<le> n * length (chunks n (drop n xs))" using 1 by simp
    moreover have "length (chunks n xs) = Suc (length (chunks n (drop n xs)))"
      using False 1(2) by (subst chunks_Cons) simp_all
    ultimately show ?thesis by simp
  qed simp
qed

lemma leaf_elements_length: "length addr = 32 \<Longrightarrow> 8 < length (bytes_to_elements (leaf_bytes i addr a))"
  using length_chunks_le [of 7 "leaf_bytes i addr a"] by (simp add: bytes_to_elements_def leaf_bytes_def)

lemma climb_inputs_length: "x \<in> climb_inputs C node index pf \<Longrightarrow> length x = 8"
  by (induction pf arbitrary: node index) (auto split: if_splits)

lemma tree_inputs_length: "y \<in> tree_inputs C m level \<Longrightarrow> length y = 8"
  by (induction m arbitrary: level) auto

lemma leaf_bytes_inject:
  "length addr = 32 \<Longrightarrow> length addr' = 32 \<Longrightarrow> leaf_bytes i addr a = leaf_bytes i' addr' a' \<longleftrightarrow>
     i = i' \<and> addr = addr' \<and> a = a'"
  using to_le_bytes_inject [of 16 a a'] by (auto simp: leaf_bytes_def)

lemma tree_leaf_cases:
  assumes "j < length (tree_leaves C leaves)"
  obtains "j < length leaves" "tree_leaves C leaves ! j
      = elements_to_hash (sponge C (bytes_to_elements (leaf_bytes (of_nat j) (fst (leaves ! j)) (snd (leaves ! j)))))"
  | "tree_leaves C leaves ! j = elements_to_hash (0, 0, 0, 0)"
proof (cases "j < length leaves")
  case True
  then show ?thesis using that(1) by (simp add: nth_tree_leaves leaf_hash_input)
next
  case False
  then have "tree_leaves C leaves ! j = hash256_ZERO"
    using assms by (simp add: tree_leaves_def Let_def nth_append)
  then show ?thesis using that(2) by (simp add: zero_hash)
qed

text \<open>
  An accepted claim is a leaf of the tree. If a claim verifies against the root of a tree, with
  a proof of whatever length, then its index is a position of the leaf list and the address and
  amount are those listed there, unless the sponge gives the same output on two different
  inputs, one hashed for the claim and one for the tree, or the all-zero output (the padding of
  the tree) on an input hashed for the claim.
\<close>

theorem airdrop_claim_sound:
  assumes "canonical_sponge C" and "leaves \<noteq> []" and "length leaves \<le> 2 ^ 64"
    and "\<forall>(a, _)\<in>set leaves. length a = 32" and "length addr = 32"
    and "build_tree C leaves = Some (root, proofs)" and "verify_proof C idx addr amount pf root"
  shows "unat idx < length leaves \<and> leaves ! unat idx = (addr, amount)
    \<or> sponge_collision C (claim_inputs C idx addr amount pf) (airdrop_inputs C leaves)
    \<or> (\<exists>x\<in>claim_inputs C idx addr amount pf. sponge C x = (0, 0, 0, 0))"
proof -
  let ?m = "tree_depth (length leaves)" and ?level = "tree_leaves C leaves"
  let ?node = "leaf_hash C idx addr amount" and ?x = "bytes_to_elements (leaf_bytes idx addr amount)"
  let ?y = "\<lambda>j. bytes_to_elements (leaf_bytes (of_nat j) (fst (leaves ! j)) (snd (leaves ! j)))"
  have addrs: "length (fst (leaves ! j)) = 32" if "j < length leaves" for j
    using assms(4) that by (auto simp: split_beta)
  have canon: "hash_canonical ?node" "\<forall>h\<in>set ?level. hash_canonical h"
    using canonical_hashes [OF assms(1)]
    by (auto simp: leaf_hash_def tree_leaves_def Let_def split: prod.splits)
  have ins: "?x \<in> claim_inputs C idx addr amount pf"
    "climb_inputs C ?node idx pf \<subseteq> claim_inputs C idx addr amount pf"
    "tree_inputs C ?m ?level \<subseteq> airdrop_inputs C leaves"
    by (auto simp: claim_inputs_def airdrop_inputs_def)
  have leaf_in: "?y j \<in> airdrop_inputs C leaves" if "j < length leaves" for j
    using that by (auto simp: airdrop_inputs_def)
  have "climb C ?node idx pf = level_root C ?m ?level"
    using assms(2,6,7) by (simp add: build_tree_levels verify_proof_def compute_root_def)
  with assms(1) canon length_tree_leaves show ?thesis
  proof (cases rule: climb_to_root)
    case collision
    then have "sponge_collision C (claim_inputs C idx addr amount pf) (airdrop_inputs C leaves)"
      by (rule sponge_collision_mono) (auto simp: claim_inputs_def airdrop_inputs_def)
    then show ?thesis by simp
  next
    case leaf
    let ?j = "unat idx mod 2 ^ ?m"
    have "?j < length ?level" by (simp add: length_tree_leaves)
    then show ?thesis
    proof (cases rule: tree_leaf_cases)
      case 1
      then have eq: "sponge C ?x = sponge C (?y ?j)" using leaf(2) by (simp add: leaf_hash_input)
      show ?thesis
      proof (cases "?x = ?y ?j")
        case True
        then have "leaf_bytes idx addr amount = leaf_bytes (of_nat ?j) (fst (leaves ! ?j)) (snd (leaves ! ?j))"
          using assms(5) addrs [OF 1(1)] by (intro bytes_to_elements_inject) (simp_all add: leaf_bytes_def)
        then have "idx = of_nat ?j" "(addr, amount) = leaves ! ?j"
          using assms(5) addrs [OF 1(1)] by (simp_all add: leaf_bytes_inject)
        moreover have "unat (of_nat ?j :: u64) = ?j"
          using 1(1) assms(3) by (intro unat_of_nat_small) simp
        ultimately show ?thesis using 1(1) by metis
      next
        case False
        then show ?thesis using sponge_collisionI [OF ins(1) leaf_in [OF 1(1)]] eq by blast
      qed
    next
      case 2
      then show ?thesis using leaf(2) by (auto simp: leaf_hash_input claim_inputs_def)
    qed
  next
    case (below j x)
    from below(1) show ?thesis
    proof (cases rule: tree_leaf_cases)
      case 1
      then have "sponge C x = sponge C (?y j)" using below(3) by simp
      moreover have "x \<noteq> ?y j"
        using climb_inputs_length [OF below(2)] leaf_elements_length [OF addrs [OF 1(1)]] by (metis nat_neq_iff)
      ultimately show ?thesis
        using sponge_collisionI [OF subsetD [OF ins(2) below(2)] leaf_in [OF 1(1)]] by blast
    next
      case 2
      then show ?thesis using below(2,3) by (auto simp: claim_inputs_def)
    qed
  next
    case (inner y)
    then have "sponge C ?x = sponge C y" by (simp add: leaf_hash_input)
    moreover have "?x \<noteq> y"
      using tree_inputs_length [OF inner(1)] leaf_elements_length [OF assms(5)] by (metis nat_neq_iff)
    ultimately show ?thesis
      using sponge_collisionI [OF ins(1) subsetD [OF ins(3) inner(1)]] by blast
  qed
qed

text \<open>A sponge with one fixed canonical output, for a tree with a single leaf.\<close>

definition fixed_crypto :: crypto_lib where
  "fixed_crypto = example_crypto\<lparr>sponge := \<lambda>_. (1, 0, 0, 0)\<rparr>"

lemma single_leaf_inputs:
  "airdrop_inputs C [(a, v)] = {bytes_to_elements (leaf_bytes 0 a v)}"
  "claim_inputs C 0 a v [] = {bytes_to_elements (leaf_bytes 0 a v)}"
  "build_tree C [(a, v)] = Some (leaf_hash C 0 a v, [[]])"
  "verify_proof C 0 a v [] (leaf_hash C 0 a v)"
  by (simp_all add: airdrop_inputs_def claim_inputs_def build_tree_def tree_depth_def tree_leaves_def
      Let_def verify_proof_def compute_root_def lessThan_Suc)

theorem airdrop_claim_sound_witness:
  "canonical_sponge fixed_crypto
   \<and> verify_proof fixed_crypto 0 (replicate 32 7) 5 [] (leaf_hash fixed_crypto 0 (replicate 32 7) 5)
   \<and> [(replicate 32 7 :: bytes, 5 :: u128)] ! unat (0 :: u64) = (replicate 32 7, 5)"
proof -
  have canon: "canonical_sponge fixed_crypto"
    by (simp add: canonical_sponge_def canonical_elements_def fixed_crypto_def goldilocks_modulus_def)
  note leaf = single_leaf_inputs [of fixed_crypto "replicate 32 7" 5]
  have "sponge fixed_crypto x \<noteq> (0, 0, 0, 0)" for x by (simp add: fixed_crypto_def)
  then show ?thesis
    using airdrop_claim_sound [OF canon _ _ _ _ leaf(3,4)] canon leaf
    by (simp add: sponge_collision_def)
qed
end
