(* ===== verification/Multisig.thy ===== *)
theory Multisig
  imports Account
begin

unbundle bit_operations_syntax

text \<open>
  Multisig governance payloads (\<open>crates/tx/src/multisig.rs\<close>): treasury spends, signer-set rotations,
  emergency pause and resume, with their wire format, the messages signers sign, and the count of
  valid signatures. The theory shows that the wire format has exactly one encoding per payload,
  that a signature is bound to one operation, nonce and chain, and what a quorum count means.
  \<open>None\<close> is the result of a rejected decoding and of a failed assertion of an encoder.
\<close>

section \<open>Payloads\<close>

definition MULTISIG_VERSION :: u8 where "MULTISIG_VERSION = 0x01"
definition MAX_SIGNERS :: u8 where "MAX_SIGNERS = 16"

record sig_entry =
  signer_index :: u8
  entry_signature :: bytes

record multisig_spend =
  spend_target :: bytes
  spend_value :: u128
  spend_data_digest :: bytes

record multisig_rotate =
  new_signer_pks :: "bytes list"
  new_threshold :: u8

datatype multisig_payload =
  Spend multisig_spend "sig_entry list"
| Rotate multisig_rotate "sig_entry list"

definition EMERGENCY_PAUSE_TAG :: u8 where "EMERGENCY_PAUSE_TAG = 0x03"
definition EMERGENCY_RESUME_TAG :: u8 where "EMERGENCY_RESUME_TAG = 0x04"
definition SPEND_TAG :: u8 where "SPEND_TAG = 0x01"
definition ROTATE_TAG :: u8 where "ROTATE_TAG = 0x02"

record emergency_pause_payload =
  pause_duration_slots :: u64
  pause_sigs :: "sig_entry list"

record emergency_resume_payload =
  resume_sigs :: "sig_entry list"

section \<open>Signature lists\<close>

definition encode_entry :: "sig_entry \<Rightarrow> bytes" where
  "encode_entry e =
     signer_index e # to_le_bytes 2 (of_nat (length (entry_signature e)) :: u16) @ entry_signature e"

definition encode_sigs :: "sig_entry list \<Rightarrow> bytes option" where
  "encode_sigs sigs =
     (if length sigs \<le> unat MAX_SIGNERS
      then Some (of_nat (length sigs) # concat (map encode_entry sigs)) else None)"

text \<open>The loop of \<open>decode_sigs\<close>, on what is left of the input.\<close>

fun read_entries :: "nat \<Rightarrow> bytes \<Rightarrow> (sig_entry list \<times> bytes) option" where
  "read_entries 0 bs = Some ([], bs)"
| "read_entries (Suc n) bs =
     (if length bs < 3 then None
      else
        let len = unat (from_le_bytes [bs ! 1, bs ! 2] :: u16);
            rest = drop 3 bs
        in if length rest < len then None
           else case read_entries n (drop len rest) of
                  None \<Rightarrow> None
                | Some (es, rest') \<Rightarrow>
                    Some (\<lparr>signer_index = bs ! 0, entry_signature = take len rest\<rparr> # es, rest'))"

definition decode_sigs :: "bytes \<Rightarrow> sig_entry list option" where
  "decode_sigs bs =
     (case bs of
        [] \<Rightarrow> None
      | b # rest \<Rightarrow>
          let count = unat b
          in if count = 0 \<or> unat MAX_SIGNERS < count then None
             else case read_entries count rest of
                    None \<Rightarrow> None
                  | Some (out, trailing) \<Rightarrow> if trailing \<noteq> [] then None else Some out)"

section \<open>Operation bodies\<close>

definition spend_encode_body :: "multisig_spend \<Rightarrow> bytes" where
  "spend_encode_body s = spend_target s @ to_le_bytes 16 (spend_value s) @ spend_data_digest s"

definition spend_decode_body :: "bytes \<Rightarrow> (multisig_spend \<times> bytes) option" where
  "spend_decode_body bs =
     (if length bs < 32 + 16 + 32 then None
      else Some (\<lparr>spend_target = byte_range 0 32 bs, spend_value = from_le_bytes (byte_range 32 48 bs),
                 spend_data_digest = byte_range 48 80 bs\<rparr>, drop 80 bs))"

definition rotate_encode_body :: "multisig_rotate \<Rightarrow> bytes option" where
  "rotate_encode_body r =
     (if \<forall>pk\<in>set (new_signer_pks r). length pk = 897
      then Some (of_nat (length (new_signer_pks r)) # concat (new_signer_pks r) @ [new_threshold r])
      else None)"

definition read_pks :: "nat \<Rightarrow> bytes \<Rightarrow> bytes list" where
  "read_pks count bs = map (\<lambda>i. byte_range (1 + i * 897) (1 + i * 897 + 897) bs) [0..<count]"

definition rotate_decode_body :: "bytes \<Rightarrow> (multisig_rotate \<times> bytes) option" where
  "rotate_decode_body bs =
     (if bs = [] then None
      else
        let count = unat (bs ! 0); needed = 1 + count * 897 + 1
        in if count = 0 \<or> unat MAX_SIGNERS < count then None
           else if length bs < needed then None
           else Some (\<lparr>new_signer_pks = read_pks count bs, new_threshold = bs ! (1 + count * 897)\<rparr>,
                      drop needed bs))"

section \<open>Wire format\<close>

fun multisig_encode :: "multisig_payload \<Rightarrow> bytes option" where
  "multisig_encode (Spend spend sigs) =
     map_option (\<lambda>s. [MULTISIG_VERSION, SPEND_TAG] @ spend_encode_body spend @ s) (encode_sigs sigs)"
| "multisig_encode (Rotate rot sigs) =
     (case rotate_encode_body rot of
        None \<Rightarrow> None
      | Some body \<Rightarrow>
          map_option (\<lambda>s. [MULTISIG_VERSION, ROTATE_TAG] @ body @ s) (encode_sigs sigs))"

definition multisig_decode :: "bytes \<Rightarrow> multisig_payload option" where
  "multisig_decode bs =
     (if length bs < 2 then None
      else if bs ! 0 \<noteq> MULTISIG_VERSION then None
      else
        let tag = bs ! 1; rest = drop 2 bs
        in if tag = SPEND_TAG then
             (case spend_decode_body rest of
                None \<Rightarrow> None
              | Some (spend, rest) \<Rightarrow> map_option (Spend spend) (decode_sigs rest))
           else if tag = ROTATE_TAG then
             (case rotate_decode_body rest of
                None \<Rightarrow> None
              | Some (rot, rest) \<Rightarrow> map_option (Rotate rot) (decode_sigs rest))
           else None)"

fun payload_sigs :: "multisig_payload \<Rightarrow> sig_entry list" where
  "payload_sigs (Spend spend sigs) = sigs"
| "payload_sigs (Rotate rot sigs) = sigs"

definition pause_encode :: "emergency_pause_payload \<Rightarrow> bytes option" where
  "pause_encode p =
     map_option (\<lambda>s. [MULTISIG_VERSION, EMERGENCY_PAUSE_TAG] @ to_le_bytes 8 (pause_duration_slots p) @ s)
       (encode_sigs (pause_sigs p))"

definition pause_decode :: "bytes \<Rightarrow> emergency_pause_payload option" where
  "pause_decode bs =
     (if length bs < 2 + 8 \<or> bs ! 0 \<noteq> MULTISIG_VERSION \<or> bs ! 1 \<noteq> EMERGENCY_PAUSE_TAG then None
      else map_option
             (\<lambda>sigs. \<lparr>pause_duration_slots = from_le_bytes (byte_range 2 10 bs), pause_sigs = sigs\<rparr>)
             (decode_sigs (drop 10 bs)))"

definition resume_encode :: "emergency_resume_payload \<Rightarrow> bytes option" where
  "resume_encode p =
     map_option (\<lambda>s. [MULTISIG_VERSION, EMERGENCY_RESUME_TAG] @ s) (encode_sigs (resume_sigs p))"

definition resume_decode :: "bytes \<Rightarrow> emergency_resume_payload option" where
  "resume_decode bs =
     (if length bs < 2 \<or> bs ! 0 \<noteq> MULTISIG_VERSION \<or> bs ! 1 \<noteq> EMERGENCY_RESUME_TAG then None
      else map_option (\<lambda>sigs. \<lparr>resume_sigs = sigs\<rparr>) (decode_sigs (drop 2 bs)))"

section \<open>Signed messages\<close>

definition spend_signing_bytes :: "crypto_lib \<Rightarrow> multisig_spend \<Rightarrow> u64 \<Rightarrow> u64 \<Rightarrow> bytes" where
  "spend_signing_bytes C s nonce chain_id =
     poseidon2_hash C (to_le_bytes 8 chain_id @ to_le_bytes 8 nonce @ spend_target s
       @ to_le_bytes 16 (spend_value s) @ spend_data_digest s)"

definition rotate_signing_bytes :: "crypto_lib \<Rightarrow> multisig_rotate \<Rightarrow> u64 \<Rightarrow> u64 \<Rightarrow> bytes" where
  "rotate_signing_bytes C r nonce chain_id =
     poseidon2_hash C (to_le_bytes 8 chain_id @ to_le_bytes 8 nonce
       @ [of_nat (length (new_signer_pks r))] @ concat (new_signer_pks r) @ [new_threshold r])"

definition pause_signing_bytes :: "crypto_lib \<Rightarrow> emergency_pause_payload \<Rightarrow> u64 \<Rightarrow> u64 \<Rightarrow> bytes" where
  "pause_signing_bytes C p nonce chain_id =
     poseidon2_hash C (to_le_bytes 8 chain_id @ to_le_bytes 8 nonce @ ascii ''PAUSE''
       @ to_le_bytes 8 (pause_duration_slots p))"

definition resume_signing_bytes :: "crypto_lib \<Rightarrow> u64 \<Rightarrow> u64 \<Rightarrow> bytes" where
  "resume_signing_bytes C nonce chain_id =
     poseidon2_hash C (to_le_bytes 8 chain_id @ to_le_bytes 8 nonce @ ascii ''RESUME'')"

section \<open>Signer sets and signature counting\<close>

definition encode_signer_set :: "bytes list \<Rightarrow> bytes option" where
  "encode_signer_set pks =
     (if length pks \<le> unat MAX_SIGNERS \<and> (\<forall>pk\<in>set pks. length pk = 897)
      then Some (of_nat (length pks) # concat pks) else None)"

definition decode_signer_set :: "bytes \<Rightarrow> bytes list option" where
  "decode_signer_set bs =
     (if bs = [] then None
      else
        let count = unat (bs ! 0)
        in if count = 0 \<or> unat MAX_SIGNERS < count then None
           else if length bs \<noteq> 1 + count * 897 then None
           else Some (read_pks count bs))"

definition verify_sig_entry :: "crypto_lib \<Rightarrow> sig_entry \<Rightarrow> bytes list \<Rightarrow> bytes \<Rightarrow> u8 option" where
  "verify_sig_entry C e signer_pks signing_bytes =
     (let idx = unat (signer_index e)
      in if length signer_pks \<le> idx then None
         else case falcon_pk_from_bytes (signer_pks ! idx) of
                None \<Rightarrow> None
              | Some pk \<Rightarrow>
                  (case falcon_sig_from_bytes (entry_signature e) of
                     None \<Rightarrow> None
                   | Some sig \<Rightarrow>
                       if falcon_verify C pk signing_bytes sig then Some (signer_index e) else None))"

datatype count_error = SignerIndexOutOfBounds | DuplicateSignerIndex

fun count_sigs_loop ::
    "crypto_lib \<Rightarrow> bytes list \<Rightarrow> bytes \<Rightarrow> bool list \<Rightarrow> nat \<Rightarrow> sig_entry list \<Rightarrow> count_error + nat" where
  "count_sigs_loop C signer_pks signing_bytes seen valid [] = Inr valid"
| "count_sigs_loop C signer_pks signing_bytes seen valid (e # sigs) =
     (let idx = unat (signer_index e)
      in if unat MAX_SIGNERS \<le> idx then Inl SignerIndexOutOfBounds
         else if seen ! idx then Inl DuplicateSignerIndex
         else count_sigs_loop C signer_pks signing_bytes (seen[idx := True])
                (if verify_sig_entry C e signer_pks signing_bytes \<noteq> None then valid + 1 else valid) sigs)"

definition count_valid_sigs ::
    "crypto_lib \<Rightarrow> sig_entry list \<Rightarrow> bytes list \<Rightarrow> bytes \<Rightarrow> count_error + nat" where
  "count_valid_sigs C sigs signer_pks signing_bytes =
     count_sigs_loop C signer_pks signing_bytes (replicate (unat MAX_SIGNERS) False) 0 sigs"

section \<open>One encoding per payload\<close>

definition entry_wf :: "sig_entry \<Rightarrow> bool" where
  "entry_wf e \<longleftrightarrow> length (entry_signature e) < 2 ^ 16"

definition sigs_wf :: "sig_entry list \<Rightarrow> bool" where
  "sigs_wf sigs \<longleftrightarrow> sigs \<noteq> [] \<and> length sigs \<le> 16 \<and> list_all entry_wf sigs"

definition spend_wf :: "multisig_spend \<Rightarrow> bool" where
  "spend_wf s \<longleftrightarrow> length (spend_target s) = 32 \<and> length (spend_data_digest s) = 32"

definition rotate_wf :: "multisig_rotate \<Rightarrow> bool" where
  "rotate_wf r \<longleftrightarrow>
     new_signer_pks r \<noteq> [] \<and> length (new_signer_pks r) \<le> 16
     \<and> list_all (\<lambda>pk. length pk = 897) (new_signer_pks r)"

fun payload_wf :: "multisig_payload \<Rightarrow> bool" where
  "payload_wf (Spend s sigs) \<longleftrightarrow> spend_wf s \<and> sigs_wf sigs"
| "payload_wf (Rotate r sigs) \<longleftrightarrow> rotate_wf r \<and> sigs_wf sigs"

lemma MAX_SIGNERS_nat [simp]: "unat MAX_SIGNERS = 16"
  by (simp add: MAX_SIGNERS_def)

lemma read_entries_encode:
  "list_all entry_wf es \<Longrightarrow>
     read_entries (length es) (concat (map encode_entry es) @ rest) = Some (es, rest)"
proof (induction es)
  case (Cons e es)
  let ?n = "length (entry_signature e)"
  have len: "unat (of_nat ?n :: u16) = ?n"
    using Cons.prems by (intro unat_of_nat_small) (simp add: entry_wf_def)
  have two: "to_le_bytes 2 w = [to_le_bytes 2 w ! 0, to_le_bytes 2 w ! 1]" for w :: u16
    by (simp add: to_le_bytes_def numeral_2_eq_2)
  have "encode_entry e = signer_index e # to_le_bytes 2 (of_nat ?n :: u16) ! 0
      # to_le_bytes 2 (of_nat ?n :: u16) ! 1 # entry_signature e"
    unfolding encode_entry_def by (subst two) simp
  moreover have "unat (from_le_bytes [to_le_bytes 2 w ! 0, to_le_bytes 2 w ! 1] :: u16) = unat w" for w :: u16
    unfolding two [symmetric] by (simp add: from_to_le_bytes)
  ultimately show ?case using Cons len by (simp add: Let_def)
qed simp

lemma read_entries_sound:
  "read_entries n bs = Some (es, rest) \<Longrightarrow>
     length es = n \<and> list_all entry_wf es \<and> bs = concat (map encode_entry es) @ rest"
proof (induction n arbitrary: bs es)
  case (Suc n)
  obtain i a b tl where bs: "bs = i # a # b # tl"
    using Suc.prems by (cases bs rule: remdups_adj.cases; cases "tl (tl bs)") (auto split: if_splits)
  define w :: u16 where "w = from_le_bytes [a, b]"
  obtain es' where es: "read_entries n (drop (unat w) tl) = Some (es', rest)"
    "es = \<lparr>signer_index = i, entry_signature = take (unat w) tl\<rparr> # es'" "unat w \<le> length tl"
    using Suc.prems by (auto simp: bs w_def Let_def split: if_splits option.splits)
  have "to_le_bytes 2 w = [a, b]" unfolding w_def by (rule to_from_le_bytes) simp_all
  then have "encode_entry (hd es) = i # a # b # take (unat w) tl"
    using es(2,3) by (simp add: encode_entry_def min_absorb2)
  moreover have "entry_wf (hd es)"
    using es(2) unsigned_less [of w, where ?'a = nat] by (simp add: entry_wf_def)
  moreover have "take (unat w) tl @ concat (map encode_entry es') @ rest = tl"
    using Suc.IH [OF es(1)] append_take_drop_id [of "unat w" tl] by simp
  ultimately show ?case using Suc.IH [OF es(1)] by (simp add: bs es(2))
qed simp

lemma decode_sigs_iff: "decode_sigs bs = Some sigs \<longleftrightarrow> sigs_wf sigs \<and> encode_sigs sigs = Some bs"
proof
  assume "decode_sigs bs = Some sigs"
  then obtain b rest where "bs = b # rest" "unat b \<noteq> 0" "unat b \<le> 16"
    "read_entries (unat b) rest = Some (sigs, [])"
    by (auto simp: decode_sigs_def Let_def split: list.splits if_splits option.splits prod.splits)
  then show "sigs_wf sigs \<and> encode_sigs sigs = Some bs"
    using read_entries_sound [of "unat b" rest sigs "[]"] by (auto simp: sigs_wf_def encode_sigs_def)
next
  assume wf: "sigs_wf sigs \<and> encode_sigs sigs = Some bs"
  then have "unat (of_nat (length sigs) :: u8) = length sigs"
    by (intro unat_of_nat_small) (simp add: sigs_wf_def)
  then show "decode_sigs bs = Some sigs"
    using wf read_entries_encode [of sigs "[]"]
    by (auto simp: sigs_wf_def encode_sigs_def decode_sigs_def Let_def split: if_splits)
qed

lemma spend_body_iff:
  "spend_decode_body bs = Some (s, rest) \<longleftrightarrow> spend_wf s \<and> bs = spend_encode_body s @ rest"
proof
  assume "spend_decode_body bs = Some (s, rest)"
  then have "80 \<le> length bs" and s: "spend_target s = byte_range 0 32 bs"
    "spend_value s = from_le_bytes (byte_range 32 48 bs)" "spend_data_digest s = byte_range 48 80 bs"
    "rest = drop 80 bs"
    by (auto simp: spend_decode_body_def split: if_splits)
  moreover from this have "to_le_bytes 16 (spend_value s) = byte_range 32 48 bs"
    unfolding s by (intro to_from_le_bytes) (simp_all add: byte_range_def)
  moreover have "bs = byte_range 0 32 bs @ byte_range 32 48 bs @ byte_range 48 80 bs @ drop 80 bs"
    using append_take_drop_id [of 32 bs] append_take_drop_id [of 16 "drop 32 bs"]
      append_take_drop_id [of 32 "drop 48 bs"]
    by (simp add: byte_range_def)
  ultimately show "spend_wf s \<and> bs = spend_encode_body s @ rest"
    by (simp add: spend_wf_def spend_encode_body_def byte_range_def)
next
  assume "spend_wf s \<and> bs = spend_encode_body s @ rest"
  then show "spend_decode_body bs = Some (s, rest)"
    by (simp add: spend_wf_def spend_encode_body_def spend_decode_body_def byte_range_def from_to_le_bytes)
qed

lemma block_of_concat:
  "\<forall>x\<in>set xs. length x = m \<Longrightarrow> i < length xs \<Longrightarrow> take m (drop (i * m) (concat xs @ rest)) = xs ! i"
proof (induction xs arbitrary: i)
  case (Cons x xs)
  show ?case
  proof (cases i)
    case (Suc j)
    then have "drop (i * m) (concat (x # xs) @ rest) = drop (j * m) (concat xs @ rest)" using Cons.prems(1) by simp
    then show ?thesis using Cons Suc by simp
  qed (use Cons.prems in simp)
qed simp

lemma concat_of_blocks:
  "n * m \<le> length bs \<Longrightarrow> concat (map (\<lambda>i. take m (drop (i * m) bs)) [0..<n]) = take (n * m) bs"
proof (induction n)
  case (Suc n)
  have "take (Suc n * m) bs = take (n * m) bs @ take m (drop (n * m) bs)"
    using take_add [of "n * m" m bs] by (simp add: add.commute)
  then show ?case using Suc by simp
qed simp

lemma read_pks_shift: "read_pks n (b # bs) = map (\<lambda>i. take 897 (drop (i * 897) bs)) [0..<n]"
  by (simp add: read_pks_def byte_range_def)

lemma read_pks_concat:
  assumes "list_all (\<lambda>pk. length pk = 897) pks"
  shows "read_pks (length pks) (b # concat pks @ rest) = pks"
  unfolding read_pks_shift
  by (rule nth_equalityI) (use assms in \<open>simp_all add: block_of_concat list_all_iff del: take_append drop_append\<close>)

lemma concat_read_pks: "n * 897 \<le> length bs \<Longrightarrow> concat (read_pks n (b # bs)) = take (n * 897) bs"
  unfolding read_pks_shift by (rule concat_of_blocks)

lemma length_read_pks [simp]: "length (read_pks n bs) = n"
  by (simp add: read_pks_def)

lemma read_pks_lengths: "n * 897 \<le> length bs \<Longrightarrow> list_all (\<lambda>pk. length pk = 897) (read_pks n (b # bs))"
proof -
  assume "n * 897 \<le> length bs"
  then have "897 \<le> length bs - i * 897" if "i < n" for i
    using that mult_le_mono1 [of "Suc i" n 897] by simp
  then show ?thesis by (simp add: read_pks_shift list_all_iff min_absorb2)
qed

lemma length_concat_pks: "list_all (\<lambda>pk. length pk = 897) pks \<Longrightarrow> length (concat pks) = length pks * 897"
  by (induction pks) simp_all

lemma rotate_body_iff:
  "rotate_decode_body bs = Some (r, rest) \<longleftrightarrow>
     rotate_wf r \<and> (\<exists>body. rotate_encode_body r = Some body \<and> bs = body @ rest)"
proof
  assume dec: "rotate_decode_body bs = Some (r, rest)"
  then obtain b tl where bs: "bs = b # tl" by (cases bs) (auto simp: rotate_decode_body_def)
  let ?n = "unat b"
  from dec have len: "?n \<noteq> 0" "?n \<le> 16" "?n * 897 + 1 \<le> length tl"
    and r: "new_signer_pks r = read_pks ?n bs" "new_threshold r = tl ! (?n * 897)" "rest = drop (?n * 897 + 1) tl"
    by (auto simp: rotate_decode_body_def bs Let_def split: if_splits)
  have wf: "list_all (\<lambda>pk. length pk = 897) (read_pks ?n bs)"
    unfolding bs using len(3) by (intro read_pks_lengths) simp
  have "tl = take (?n * 897) tl @ [tl ! (?n * 897)] @ drop (?n * 897 + 1) tl"
    using len(3) by (simp add: id_take_nth_drop [symmetric])
  then have "bs = b # concat (new_signer_pks r) @ [new_threshold r] @ rest"
    unfolding r unfolding bs using concat_read_pks [of ?n tl b] len(3) by simp
  then show "rotate_wf r \<and> (\<exists>body. rotate_encode_body r = Some body \<and> bs = body @ rest)"
    using wf len r(1) length_read_pks [of ?n bs]
    by (auto simp: rotate_wf_def rotate_encode_body_def list_all_iff simp del: length_read_pks)
next
  assume "rotate_wf r \<and> (\<exists>body. rotate_encode_body r = Some body \<and> bs = body @ rest)"
  then have wf: "rotate_wf r"
    and bs: "bs = of_nat (length (new_signer_pks r)) # concat (new_signer_pks r) @ new_threshold r # rest"
    by (auto simp: rotate_encode_body_def split: if_splits)
  have n: "unat (of_nat (length (new_signer_pks r)) :: u8) = length (new_signer_pks r)"
    using wf by (intro unat_of_nat_small) (simp add: rotate_wf_def)
  then show "rotate_decode_body bs = Some (r, rest)"
    using wf length_concat_pks [of "new_signer_pks r"] read_pks_concat [of "new_signer_pks r"]
    by (simp add: rotate_decode_body_def bs rotate_wf_def Let_def nth_append)
qed

lemma two_bytes: "2 \<le> length bs \<Longrightarrow> bs = [bs ! 0, bs ! 1] @ drop 2 bs"
  by (cases bs; cases "tl bs") simp_all

lemma tags_differ [simp]: "SPEND_TAG \<noteq> ROTATE_TAG" "ROTATE_TAG \<noteq> SPEND_TAG"
  by (simp_all add: SPEND_TAG_def ROTATE_TAG_def)

lemma multisig_decode_Some:
  "multisig_decode (MULTISIG_VERSION # tag # rest) = Some p \<longleftrightarrow>
     (\<exists>s rest' sigs. tag = SPEND_TAG \<and> spend_decode_body rest = Some (s, rest')
        \<and> decode_sigs rest' = Some sigs \<and> p = Spend s sigs)
     \<or> (\<exists>r rest' sigs. tag = ROTATE_TAG \<and> rotate_decode_body rest = Some (r, rest')
        \<and> decode_sigs rest' = Some sigs \<and> p = Rotate r sigs)"
  by (simp add: multisig_decode_def Let_def split: option.splits) auto

lemma multisig_encode_Rotate_Some:
  "multisig_encode (Rotate r sigs) = Some bs \<longleftrightarrow>
     (\<exists>body s. rotate_encode_body r = Some body \<and> encode_sigs sigs = Some s
        \<and> bs = MULTISIG_VERSION # ROTATE_TAG # body @ s)"
  by (auto split: option.splits)

lemma multisig_decode_iff:
  "multisig_decode bs = Some p \<longleftrightarrow> payload_wf p \<and> multisig_encode p = Some bs"
proof (cases "2 \<le> length bs \<and> bs ! 0 = MULTISIG_VERSION")
  case True
  then obtain tag rest where bs: "bs = MULTISIG_VERSION # tag # rest"
    using two_bytes [of bs] by (metis append_Cons append_Nil)
  show ?thesis
  proof (cases p)
    case (Spend s sigs)
    then show ?thesis unfolding bs multisig_decode_Some spend_body_iff rotate_body_iff decode_sigs_iff
      by auto
  next
    case (Rotate r sigs)
    show ?thesis
      unfolding bs Rotate multisig_decode_Some spend_body_iff rotate_body_iff decode_sigs_iff
        multisig_encode_Rotate_Some payload_wf.simps
      by auto
  qed
next
  case False
  then show ?thesis by (cases p) (auto simp: multisig_decode_def split: option.splits)
qed

lemma pause_decode_iff:
  "pause_decode bs = Some p \<longleftrightarrow> sigs_wf (pause_sigs p) \<and> pause_encode p = Some bs"
proof
  assume "pause_decode bs = Some p"
  then have len: "10 \<le> length bs" "bs ! 0 = MULTISIG_VERSION" "bs ! 1 = EMERGENCY_PAUSE_TAG"
    and p: "pause_duration_slots p = from_le_bytes (byte_range 2 10 bs)"
      "decode_sigs (drop 10 bs) = Some (pause_sigs p)"
    by (auto simp: pause_decode_def split: if_splits)
  have "to_le_bytes 8 (pause_duration_slots p) = byte_range 2 10 bs"
    unfolding p using len(1) by (intro to_from_le_bytes) (simp_all add: byte_range_def)
  moreover have "bs = [bs ! 0, bs ! 1] @ byte_range 2 10 bs @ drop 10 bs"
    using two_bytes [of bs] append_take_drop_id [of 8 "drop 2 bs"] len(1) by (simp add: byte_range_def)
  ultimately show "sigs_wf (pause_sigs p) \<and> pause_encode p = Some bs"
    using p(2) len(2,3) by (auto simp: decode_sigs_iff pause_encode_def)
next
  assume "sigs_wf (pause_sigs p) \<and> pause_encode p = Some bs"
  then obtain s where "decode_sigs s = Some (pause_sigs p)"
    "bs = [MULTISIG_VERSION, EMERGENCY_PAUSE_TAG] @ to_le_bytes 8 (pause_duration_slots p) @ s"
    by (auto simp: pause_encode_def decode_sigs_iff)
  then show "pause_decode bs = Some p"
    by (simp add: pause_decode_def byte_range_def from_to_le_bytes)
qed

lemma resume_decode_iff:
  "resume_decode bs = Some p \<longleftrightarrow> sigs_wf (resume_sigs p) \<and> resume_encode p = Some bs"
proof (cases "2 \<le> length bs")
  case True
  then obtain b c rest where "bs = b # c # rest" using two_bytes by (metis append_Cons append_Nil)
  then show ?thesis
    by (cases p) (auto simp: resume_decode_def resume_encode_def decode_sigs_iff split: option.splits)
next
  case False
  then show ?thesis by (auto simp: resume_decode_def resume_encode_def)
qed

text \<open>
  The wire format of governance payloads is one to one. The decoders accept exactly the outputs of
  the encoders on well-formed payloads and return the payload encoded: decoding inverts encoding,
  and there is no second byte string for a payload, with trailing bytes or otherwise.
\<close>

theorem multisig_wire_canonical:
  "(multisig_decode bs = Some p \<longleftrightarrow> payload_wf p \<and> multisig_encode p = Some bs)
   \<and> (pause_decode bs = Some pp \<longleftrightarrow> sigs_wf (pause_sigs pp) \<and> pause_encode pp = Some bs)
   \<and> (resume_decode bs = Some rp \<longleftrightarrow> sigs_wf (resume_sigs rp) \<and> resume_encode rp = Some bs)"
  using multisig_decode_iff pause_decode_iff resume_decode_iff by blast

section \<open>What a signature authorises\<close>

text \<open>The four operations signers can authorise, the bytes hashed for each and the hash signed.\<close>

datatype operation =
  OpSpend multisig_spend
| OpRotate multisig_rotate
| OpPause emergency_pause_payload
| OpResume

fun op_wf :: "operation \<Rightarrow> bool" where
  "op_wf (OpSpend s) \<longleftrightarrow> spend_wf s"
| "op_wf (OpRotate r) \<longleftrightarrow> rotate_wf r"
| "op_wf (OpPause p) \<longleftrightarrow> True"
| "op_wf OpResume \<longleftrightarrow> True"

fun op_body :: "operation \<Rightarrow> bytes" where
  "op_body (OpSpend s) = spend_encode_body s"
| "op_body (OpRotate r) =
     of_nat (length (new_signer_pks r)) # concat (new_signer_pks r) @ [new_threshold r]"
| "op_body (OpPause p) = ascii ''PAUSE'' @ to_le_bytes 8 (pause_duration_slots p)"
| "op_body OpResume = ascii ''RESUME''"

definition op_preimage :: "operation \<Rightarrow> u64 \<Rightarrow> u64 \<Rightarrow> bytes" where
  "op_preimage op nonce chain_id = to_le_bytes 8 chain_id @ to_le_bytes 8 nonce @ op_body op"

fun op_signing_bytes :: "crypto_lib \<Rightarrow> operation \<Rightarrow> u64 \<Rightarrow> u64 \<Rightarrow> bytes" where
  "op_signing_bytes C (OpSpend s) nonce chain_id = spend_signing_bytes C s nonce chain_id"
| "op_signing_bytes C (OpRotate r) nonce chain_id = rotate_signing_bytes C r nonce chain_id"
| "op_signing_bytes C (OpPause p) nonce chain_id = pause_signing_bytes C p nonce chain_id"
| "op_signing_bytes C OpResume nonce chain_id = resume_signing_bytes C nonce chain_id"

text \<open>What the operation does: the action, leaving out the signatures carried with a pause.\<close>

fun same_action :: "operation \<Rightarrow> operation \<Rightarrow> bool" where
  "same_action (OpSpend s) (OpSpend s') \<longleftrightarrow> s = s'"
| "same_action (OpRotate r) (OpRotate r') \<longleftrightarrow> r = r'"
| "same_action (OpPause p) (OpPause p') \<longleftrightarrow> pause_duration_slots p = pause_duration_slots p'"
| "same_action OpResume OpResume \<longleftrightarrow> True"
| "same_action _ _ \<longleftrightarrow> False"

lemma op_signing_hash: "op_signing_bytes C op nonce chain_id = poseidon2_hash C (op_preimage op nonce chain_id)"
  by (cases op) (simp_all add: op_preimage_def spend_signing_bytes_def rotate_signing_bytes_def
      pause_signing_bytes_def resume_signing_bytes_def spend_encode_body_def)

lemma op_body_length:
  "spend_wf s \<Longrightarrow> length (op_body (OpSpend s)) = 80"
  "rotate_wf r \<Longrightarrow> length (op_body (OpRotate r)) = length (new_signer_pks r) * 897 + 2"
  "length (op_body (OpPause p)) = 13"
  "length (op_body OpResume) = 6"
  by (simp_all add: spend_wf_def spend_encode_body_def rotate_wf_def length_concat_pks ascii_def)

lemma rotate_body_inject:
  assumes "rotate_wf r" "rotate_wf r'" "op_body (OpRotate r) = op_body (OpRotate r')"
  shows "r = r'"
proof -
  have body: "rotate_encode_body r = Some (op_body (OpRotate r))" if "rotate_wf r" for r
    using that by (simp add: rotate_encode_body_def rotate_wf_def list_all_iff)
  have "rotate_decode_body (op_body (OpRotate r)) = Some (r, [])" "rotate_decode_body (op_body (OpRotate r')) = Some (r', [])"
    using assms(1,2) body by (simp_all add: rotate_body_iff)
  then show ?thesis using assms(3) by (metis Pair_inject option.inject)
qed

lemma op_body_size:
  "op_wf op \<Longrightarrow> case op of OpSpend _ \<Rightarrow> length (op_body op) = 80 | OpRotate _ \<Rightarrow> 899 \<le> length (op_body op)
     | OpPause _ \<Rightarrow> length (op_body op) = 13 | OpResume \<Rightarrow> length (op_body op) = 6"
proof (cases op)
  case (OpRotate r)
  moreover assume "op_wf op"
  ultimately show ?thesis
    by (cases "new_signer_pks r") (simp_all add: op_body_length(2) rotate_wf_def del: op_body.simps)
qed (simp_all add: op_body_length del: op_body.simps)

lemma spend_body_inject:
  "spend_wf s \<Longrightarrow> spend_wf s' \<Longrightarrow> spend_encode_body s = spend_encode_body s' \<Longrightarrow> s = s'"
  using spend_body_iff [of "spend_encode_body s" s "[]"] spend_body_iff [of "spend_encode_body s" s' "[]"]
  by simp

lemma op_body_inject:
  assumes "op_wf op" "op_wf op'" "op_body op = op_body op'"
  shows "same_action op op'"
proof -
  note size = op_body_size [OF assms(1)] op_body_size [OF assms(2)] assms(3)
  show ?thesis
  proof (cases op)
    case OpSpend
    then obtain s' where "op' = OpSpend s'" using size by (cases op') (simp_all del: op_body.simps)
    then show ?thesis using OpSpend assms spend_body_inject by simp
  next
    case OpRotate
    then obtain r' where "op' = OpRotate r'" using size by (cases op') (simp_all del: op_body.simps)
    then show ?thesis using OpRotate assms rotate_body_inject by (simp del: op_body.simps)
  next
    case OpPause
    then obtain p' where "op' = OpPause p'" using size by (cases op') (simp_all del: op_body.simps)
    then show ?thesis using OpPause assms(3) by (auto dest: to_le_bytes_inject)
  next
    case OpResume
    then have "op' = OpResume" using size by (cases op') (simp_all del: op_body.simps)
    then show ?thesis using OpResume by simp
  qed
qed

text \<open>
  A governance signature authorises one action, once, on one chain. If the signed messages of two
  well-formed operations (treasury spend, signer rotation, pause, resume) agree, then they have
  the same chain id, the same multisig nonce and are the same action, unless Poseidon2 collides
  on the two messages.
\<close>

theorem multisig_signature_binding:
  assumes "op_wf op" and "op_wf op'"
    and "op_signing_bytes C op nonce chain_id = op_signing_bytes C op' nonce' chain_id'"
  shows "nonce = nonce' \<and> chain_id = chain_id' \<and> same_action op op'
    \<or> hash_collision C {op_preimage op nonce chain_id} {op_preimage op' nonce' chain_id'}"
proof (cases "op_preimage op nonce chain_id = op_preimage op' nonce' chain_id'")
  case True
  then show ?thesis
    using assms(1,2) op_body_inject by (auto simp: op_preimage_def dest: to_le_bytes_inject)
next
  case False
  then show ?thesis using assms(3) by (simp add: op_signing_hash hash_collision_def)
qed

theorem multisig_signature_binding_witness:
  "op_wf (OpSpend \<lparr>spend_target = replicate 32 1, spend_value = 5, spend_data_digest = replicate 32 0\<rparr>)
   \<and> same_action OpResume OpResume"
  using multisig_signature_binding [of OpResume OpResume example_crypto 3 1 3 1]
  by (simp add: spend_wf_def)

section \<open>What a quorum count means\<close>

definition authorised_by :: "crypto_lib \<Rightarrow> sig_entry list \<Rightarrow> bytes list \<Rightarrow> bytes \<Rightarrow> nat set" where
  "authorised_by C sigs pks msg =
     {i. i < length pks \<and>
         (\<exists>e\<in>set sigs. unat (signer_index e) = i \<and> signature_ok C msg (pks ! i) (entry_signature e))}"

lemma verify_sig_entry_iff:
  "verify_sig_entry C e pks msg = None \<longleftrightarrow>
     \<not> (unat (signer_index e) < length pks
        \<and> signature_ok C msg (pks ! unat (signer_index e)) (entry_signature e))"
  by (simp add: verify_sig_entry_def signature_ok_def Let_def split: option.splits)

lemma authorised_by_Cons:
  assumes "unat (signer_index e) \<notin> unat ` signer_index ` set sigs"
  shows "card (authorised_by C (e # sigs) pks msg)
    = (if verify_sig_entry C e pks msg \<noteq> None then 1 else 0) + card (authorised_by C sigs pks msg)"
proof -
  have "authorised_by C (e # sigs) pks msg =
      (if verify_sig_entry C e pks msg \<noteq> None
       then insert (unat (signer_index e)) (authorised_by C sigs pks msg)
       else authorised_by C sigs pks msg)"
    unfolding verify_sig_entry_iff by (auto simp: authorised_by_def)
  moreover have "unat (signer_index e) \<notin> authorised_by C sigs pks msg"
  proof
    assume "unat (signer_index e) \<in> authorised_by C sigs pks msg"
    then obtain x where "x \<in> set sigs" "unat (signer_index x) = unat (signer_index e)"
      by (auto simp: authorised_by_def)
    then show False using assms by (metis image_eqI)
  qed
  moreover have "finite (authorised_by C sigs pks msg)" by (simp add: authorised_by_def)
  ultimately show ?thesis by simp
qed

lemma count_sigs_loop_spec:
  assumes "length seen = 16"
  shows "case count_sigs_loop C pks msg seen n sigs of
      Inr m \<Rightarrow> distinct (map signer_index sigs) \<and> unat ` signer_index ` set sigs \<subseteq> {i. i < 16 \<and> \<not> seen ! i}
        \<and> m = n + card (authorised_by C sigs pks msg)
    | Inl _ \<Rightarrow> \<not> (distinct (map signer_index sigs) \<and> unat ` signer_index ` set sigs \<subseteq> {i. i < 16 \<and> \<not> seen ! i})"
  using assms
proof (induction sigs arbitrary: seen n)
  case Nil
  then show ?case by (simp add: authorised_by_def)
next
  case (Cons e sigs)
  let ?i = "unat (signer_index e)"
  show ?case
  proof (cases "16 \<le> ?i \<or> seen ! ?i")
    case True
    then show ?thesis by (auto simp: Let_def)
  next
    case False
    let ?ok = "verify_sig_entry C e pks msg \<noteq> None"
    have ins: "{i. i < 16 \<and> \<not> seen[?i := True] ! i} = {i. i < 16 \<and> \<not> seen ! i} - {?i}"
      using False Cons.prems by (auto simp: nth_list_update)
    let ?r = "count_sigs_loop C pks msg (seen[?i := True]) (if ?ok then n + 1 else n) sigs"
    have step: "count_sigs_loop C pks msg seen n (e # sigs) = ?r" using False by (simp add: Let_def)
    have inj: "?i \<in> unat ` signer_index ` set sigs \<longleftrightarrow> signer_index e \<in> signer_index ` set sigs"
      by (auto simp: image_iff word_unat_eq_iff)
    define good where "good \<longleftrightarrow> distinct (map signer_index sigs)
      \<and> unat ` signer_index ` set sigs \<subseteq> {i. i < 16 \<and> \<not> seen[?i := True] ! i}"
    have dist: "distinct (map signer_index (e # sigs))
        \<and> unat ` signer_index ` set (e # sigs) \<subseteq> {i. i < 16 \<and> \<not> seen ! i} \<longleftrightarrow> good"
      unfolding good_def ins using False inj by (simp add: subset_Diff_insert) blast
    have card: "card (authorised_by C (e # sigs) pks msg)
        = (if ?ok then 1 else 0) + card (authorised_by C sigs pks msg)" if good
      using that unfolding good_def ins by (intro authorised_by_Cons) blast
    have "case ?r of Inr m \<Rightarrow> good \<and> m = (if ?ok then n + 1 else n) + card (authorised_by C sigs pks msg)
        | Inl _ \<Rightarrow> \<not> good"
      unfolding good_def conj_assoc using Cons.prems by (intro Cons.IH) simp
    with card show ?thesis
      unfolding step conj_assoc [symmetric] dist by (cases ?r) (simp_all split: if_splits)
  qed
qed

text \<open>
  The signature count of a governance payload. The count is refused exactly when a signer index
  is repeated or not below sixteen; otherwise it is the number of different positions of the
  signer set whose key has a valid signature on the message in the payload.
\<close>

theorem count_valid_sigs_spec:
  "case count_valid_sigs C sigs pks msg of
     Inr n \<Rightarrow> distinct (map signer_index sigs) \<and> unat ` signer_index ` set sigs \<subseteq> {..<16}
       \<and> n = card (authorised_by C sigs pks msg)
   | Inl _ \<Rightarrow> \<not> (distinct (map signer_index sigs) \<and> unat ` signer_index ` set sigs \<subseteq> {..<16})"
proof -
  have "{i. i < 16 \<and> \<not> replicate 16 False ! i} = {..<16 :: nat}" by auto
  from count_sigs_loop_spec [of "replicate 16 False" sigs 0 C pks msg, unfolded this add_0] show ?thesis
    by (simp add: count_valid_sigs_def)
qed

end
