(* ===== verification/Validators.thy ===== *)
theory Validators
  imports Block "HOL-Library.Multiset"
begin

text \<open>
  Who may propose and vote: the validator set and committee selection
  (\<open>crates/consensus/src/validator.rs\<close>), proposer selection (\<open>crates/consensus/src/proposer.rs\<close>) and
  the verifiable random function under it (\<open>crates/crypto/src/vrf.rs\<close>). A secret key is its bytes with
  the parameter \<open>sign\<close>, the FALCON library's signing with that key.
\<close>

section \<open>The verifiable random function\<close>

definition VRF_FINGERPRINT_DOMAIN :: bytes where "VRF_FINGERPRINT_DOMAIN = ascii ''pyde-vrf-sk-fingerprint-v1''"
definition VRF_OUTPUT_DOMAIN :: bytes where "VRF_OUTPUT_DOMAIN = ascii ''pyde-vrf-output-v1''"
definition VRF_DOMAIN_PROOF :: bytes where "VRF_DOMAIN_PROOF = ascii ''pyde-vrf-proof-v1''"

definition vrf_output_from_hash_bytes :: "bytes \<Rightarrow> bytes option" where
  "vrf_output_from_hash_bytes bs = (if length bs \<noteq> 32 then None else Some bs)"

definition compute_vrf_output :: "crypto_lib \<Rightarrow> bytes \<Rightarrow> bytes \<Rightarrow> bytes" where
  "compute_vrf_output C sk input =
     (let sk_fingerprint = poseidon2_hash C (VRF_FINGERPRINT_DOMAIN @ sk)
      in poseidon2_hash C (VRF_OUTPUT_DOMAIN @ sk_fingerprint @ input))"

definition build_proof_message :: "bytes \<Rightarrow> bytes \<Rightarrow> bytes \<Rightarrow> bytes" where
  "build_proof_message pk input output = VRF_DOMAIN_PROOF @ pk @ input @ output"

definition vrf_prove ::
  "crypto_lib \<Rightarrow> bytes \<Rightarrow> bytes \<Rightarrow> (bytes \<Rightarrow> bytes option) \<Rightarrow> bytes \<Rightarrow> (bytes \<times> bytes) option" where
  "vrf_prove C pk sk sign input =
     (let output = compute_vrf_output C sk input
      in case sign (build_proof_message pk input output) of None \<Rightarrow> None | Some sig \<Rightarrow> Some (output, sig))"

definition vrf_verify :: "crypto_lib \<Rightarrow> bytes \<Rightarrow> bytes \<Rightarrow> bytes \<Rightarrow> bytes \<Rightarrow> bool" where
  "vrf_verify C pk input output vproof =
     (case falcon_sig_from_bytes vproof of
        None \<Rightarrow> False
      | Some sig \<Rightarrow> falcon_verify C pk (build_proof_message pk input output) sig)"

section \<open>Proposers\<close>

definition vrf_input :: "bytes \<Rightarrow> u64 \<Rightarrow> bytes" where
  "vrf_input epoch_randomness slot = epoch_randomness @ to_le_bytes 8 slot"

definition score_from_output :: "bytes \<Rightarrow> u64" where
  "score_from_output output = from_le_bytes (take 8 output)"

definition vrf_proposer_threshold :: "nat \<Rightarrow> u64" where
  "vrf_proposer_threshold committee_size = - 1"

definition is_view0_proposer :: "u64 \<Rightarrow> nat \<Rightarrow> nat \<Rightarrow> bool" where
  "is_view0_proposer slot committee_index committee_size \<longleftrightarrow>
     committee_size \<noteq> 0 \<and> unat (slot mod of_nat committee_size) = committee_index"

record proposer_candidate =
  cand_address :: bytes
  cand_vrf_output :: bytes
  cand_vrf_proof :: bytes
  cand_score :: u64

definition compute_candidacy ::
  "crypto_lib \<Rightarrow> bytes \<Rightarrow> bytes \<Rightarrow> (bytes \<Rightarrow> bytes option) \<Rightarrow> bytes \<Rightarrow> u64 \<Rightarrow> bytes \<Rightarrow> proposer_candidate option" where
  "compute_candidacy C public_key secret_key sign epoch_randomness slot address =
     (case vrf_prove C public_key secret_key sign (vrf_input epoch_randomness slot) of
        None \<Rightarrow> None
      | Some (output, vproof) \<Rightarrow>
          Some \<lparr>cand_address = address, cand_vrf_output = output, cand_vrf_proof = vproof,
                cand_score = score_from_output output\<rparr>)"

definition verify_candidacy :: "crypto_lib \<Rightarrow> proposer_candidate \<Rightarrow> bytes \<Rightarrow> bytes \<Rightarrow> u64 \<Rightarrow> bool" where
  "verify_candidacy C candidate public_key epoch_randomness slot =
     (case falcon_pk_from_bytes public_key of
        None \<Rightarrow> False
      | Some pk \<Rightarrow>
          vrf_verify C pk (vrf_input epoch_randomness slot) (cand_vrf_output candidate) (cand_vrf_proof candidate)
          \<and> cand_score candidate = score_from_output (cand_vrf_output candidate))"

text \<open>\<open>min_by_key\<close>: the first of the candidates with the least score.\<close>

fun select_proposer :: "proposer_candidate list \<Rightarrow> proposer_candidate option" where
  "select_proposer [] = None"
| "select_proposer (c # cs) =
     (case select_proposer cs of
        None \<Rightarrow> Some c
      | Some d \<Rightarrow> if cand_score d < cand_score c then Some d else Some c)"

definition is_lowest_score :: "proposer_candidate \<Rightarrow> u64 list \<Rightarrow> bool" where
  "is_lowest_score candidate other_scores = list_all (\<lambda>s. cand_score candidate \<le> s) other_scores"

section \<open>The validator set\<close>

definition VALIDATOR_STAKE :: u128 where "VALIDATOR_STAKE = 10000000000000"
definition UNBONDING_PERIOD :: u64 where "UNBONDING_PERIOD = 3024000"

datatype validator_status = Active | Unbonding u64 | Exited

record validator =
  val_address :: bytes
  val_public_key :: bytes
  val_stake :: u128
  val_status :: validator_status
  val_registered_epoch :: u64
  val_kem_pk :: "bytes option"

record committee =
  com_epoch :: u64
  com_members :: "validator list"
  com_threshold_public_key :: bytes

definition committee_contains :: "committee \<Rightarrow> bytes \<Rightarrow> bool" where
  "committee_contains com address = list_ex (\<lambda>v. val_address v = address) (com_members com)"

definition committee_member :: "committee \<Rightarrow> nat \<Rightarrow> validator option" where
  "committee_member com index = (if index < length (com_members com) then Some (com_members com ! index) else None)"

type_synonym validator_set = "validator list"

datatype validator_error =
    InsufficientStake u128 u128
  | AlreadyRegistered bytes
  | NotFound bytes
  | AlreadyUnbonding bytes
  | NotEnoughValidators nat nat

definition validator_register ::
  "bytes \<Rightarrow> bytes \<Rightarrow> u128 \<Rightarrow> u64 \<Rightarrow> validator_set \<Rightarrow> (validator_error + unit) \<times> validator_set" where
  "validator_register address public_key stake current_epoch vs =
     (if stake < VALIDATOR_STAKE then (Inl (InsufficientStake VALIDATOR_STAKE stake), vs)
      else if list_ex (\<lambda>v. val_address v = address \<and> val_status v = Active) vs
        then (Inl (AlreadyRegistered address), vs)
      else (Inr (), vs @ [\<lparr>val_address = address, val_public_key = public_key, val_stake = VALIDATOR_STAKE,
        val_status = Active, val_registered_epoch = current_epoch, val_kem_pk = None\<rparr>]))"

text \<open>\<open>iter_mut().find(p)\<close> and an update of what it found.\<close>

fun update_first :: "('a \<Rightarrow> bool) \<Rightarrow> ('a \<Rightarrow> 'a) \<Rightarrow> 'a list \<Rightarrow> 'a list option" where
  "update_first p f [] = None"
| "update_first p f (x # xs) = (if p x then Some (f x # xs) else map_option ((#) x) (update_first p f xs))"

text \<open>
  What \<open>deregister\<close> finds is \<open>Active\<close>, so its later test for a validator that is already unbonding never
  succeeds.
\<close>

definition validator_deregister :: "bytes \<Rightarrow> u64 \<Rightarrow> validator_set \<Rightarrow> (validator_error + unit) \<times> validator_set" where
  "validator_deregister address current_block vs =
     (case update_first (\<lambda>v. val_address v = address \<and> val_status v = Active)
             (\<lambda>v. v\<lparr>val_status := Unbonding current_block\<rparr>) vs of
        None \<Rightarrow> (Inl (NotFound address), vs)
      | Some vs' \<Rightarrow> (Inr (), vs'))"

definition unbond :: "u64 \<Rightarrow> validator \<Rightarrow> validator" where
  "unbond current_block v =
     (case val_status v of
        Unbonding exit_block \<Rightarrow>
          if exit_block + UNBONDING_PERIOD \<le> current_block then v\<lparr>val_status := Exited\<rparr> else v
      | _ \<Rightarrow> v)"

definition process_unbonding :: "u64 \<Rightarrow> validator_set \<Rightarrow> validator_set" where
  "process_unbonding current_block vs = map (unbond current_block) vs"

definition eligible :: "validator \<Rightarrow> bool" where
  "eligible v \<longleftrightarrow> val_status v = Active \<and> VALIDATOR_STAKE \<le> val_stake v"

definition active_validators :: "validator_set \<Rightarrow> validator list" where
  "active_validators vs = filter eligible vs"

definition underfunded_validators :: "validator_set \<Rightarrow> validator list" where
  "underfunded_validators vs = filter (\<lambda>v. val_status v = Active \<and> val_stake v < VALIDATOR_STAKE) vs"

definition top_up_stake :: "bytes \<Rightarrow> u128 \<Rightarrow> validator_set \<Rightarrow> (validator_error + unit) \<times> validator_set" where
  "top_up_stake address amount vs =
     (case update_first (\<lambda>v. val_address v = address) (\<lambda>v. v\<lparr>val_stake := val_stake v + amount\<rparr>) vs of
        None \<Rightarrow> (Inl (NotFound address), vs)
      | Some vs' \<Rightarrow> (Inr (), vs'))"

definition committee_score :: "crypto_lib \<Rightarrow> bytes \<Rightarrow> u64 \<Rightarrow> validator \<Rightarrow> u64" where
  "committee_score C randomness epoch v =
     from_le_bytes (take 8 (poseidon2_hash C (randomness @ to_le_bytes 8 epoch @ val_address v)))"

definition select_committee ::
  "crypto_lib \<Rightarrow> validator_set \<Rightarrow> u64 \<Rightarrow> bytes \<Rightarrow> bytes \<Rightarrow> validator_error + committee" where
  "select_committee C vs epoch randomness threshold_public_key =
     (let elig = filter eligible vs
      in if elig = [] then Inl (NotEnoughValidators 1 0)
         else let scored = map (\<lambda>v. (committee_score C randomness epoch v, v)) elig;
                  sorted = sort_key fst scored;
                  take_count = min (length sorted) COMMITTEE_SIZE
           in Inr \<lparr>com_epoch = epoch, com_members = map snd (take take_count sorted),
                com_threshold_public_key = threshold_public_key\<rparr>)"

section \<open>Verified outputs are chosen by the prover\<close>

text \<open>
  C30: the function is verifiable but not unique. Every proof that \<open>vrf_prove\<close> makes verifies; but so
  does a signature of the same key over any other output, because the verifier never recomputes the
  output. A committee member can therefore present any score it likes for a slot, 0 included.
\<close>

theorem vrf_complete_not_unique:
  assumes signer: "\<And>m. \<exists>sig. sign m = Some sig \<and> 500 \<le> length sig \<and> length sig \<le> 1000 \<and> falcon_verify C pk m sig"
    and size: "length pk = FALCON_PK_SIZE"
  shows "(\<exists>vproof. vrf_prove C pk sk sign input = Some (compute_vrf_output C sk input, vproof)
        \<and> vrf_verify C pk input (compute_vrf_output C sk input) vproof)
    \<and> (\<exists>vproof. vrf_verify C pk input out vproof)
    \<and> (\<exists>cand. verify_candidacy C cand pk randomness slot \<and> cand_score cand = 0 \<and> is_lowest_score cand scores)"
proof -
  have forge: "\<exists>vproof. sign (build_proof_message pk inp out) = Some vproof \<and> vrf_verify C pk inp out vproof"
    for inp out
    using signer [of "build_proof_message pk inp out"] by (auto simp: vrf_verify_def falcon_sig_from_bytes_def)
  have complete: "\<exists>vproof. vrf_prove C pk sk sign input = Some (compute_vrf_output C sk input, vproof)
      \<and> vrf_verify C pk input (compute_vrf_output C sk input) vproof"
    using forge [of input "compute_vrf_output C sk input"] by (auto simp: vrf_prove_def Let_def)
  obtain vproof where ok: "vrf_verify C pk (vrf_input randomness slot) (replicate 32 0) vproof" using forge by blast
  have zero: "score_from_output (replicate 32 0) = 0" by (simp add: score_from_output_def numeral_eq_Suc)
  let ?cand = "\<lparr>cand_address = [], cand_vrf_output = replicate 32 0, cand_vrf_proof = vproof, cand_score = 0\<rparr>"
  have "verify_candidacy C ?cand pk randomness slot \<and> cand_score ?cand = 0 \<and> is_lowest_score ?cand scores"
    using ok zero size by (simp add: verify_candidacy_def falcon_pk_from_bytes_def is_lowest_score_def list_all_iff)
  then show ?thesis using complete forge by blast
qed

theorem vrf_complete_not_unique_witness:
  "\<exists>cand. verify_candidacy accepting_crypto cand (replicate 897 0) (replicate 32 7) 5
     \<and> cand_score cand = 0 \<and> is_lowest_score cand [3, 9]"
  using vrf_complete_not_unique [of "\<lambda>_. Some (replicate 600 0)" accepting_crypto "replicate 897 0"
      "[]" "[]" "[]" "replicate 32 7" 5 "[3, 9]"]
  by (simp add: falcon_verify_def accepting_crypto_def FALCON_PK_SIZE_def)

section \<open>One leader per slot\<close>

lemma view0_proposer_unique:
  assumes "0 < n" "n < 2 ^ 64"
  shows "\<exists>!i. i < n \<and> is_view0_proposer slot i n"
proof -
  have n: "unat (of_nat n :: u64) = n" using assms(2) by (simp add: unat_of_nat_small)
  have "unat (slot mod of_nat n) < n" using assms(1) by (simp add: unat_mod n)
  then show ?thesis using assms(1) by (auto simp: is_view0_proposer_def)
qed

lemma select_proposer_None: "select_proposer cs = None \<longleftrightarrow> cs = []"
  by (cases cs) (auto split: option.splits)

lemma select_proposer_least:
  "select_proposer cs = Some c \<Longrightarrow> c \<in> set cs \<and> is_lowest_score c (map cand_score cs)"
proof (induction cs arbitrary: c)
  case (Cons d cs)
  show ?case
  proof (cases "select_proposer cs")
    case None
    then show ?thesis using Cons.prems by (simp add: select_proposer_None is_lowest_score_def)
  next
    case (Some e)
    then show ?thesis using Cons.prems Cons.IH [OF Some]
      by (auto simp: is_lowest_score_def list_all_iff split: if_splits intro: order_trans)
  qed
qed simp

section \<open>The validator set stays well formed\<close>

text \<open>An address has at most one active record; older records of it may remain.\<close>

definition validator_set_wf :: "validator_set \<Rightarrow> bool" where
  "validator_set_wf vs \<longleftrightarrow> distinct (map val_address (filter (\<lambda>v. val_status v = Active) vs))"

lemma update_first_split:
  assumes "update_first p f xs = Some ys"
  obtains us x ws where "xs = us @ x # ws" "\<forall>u\<in>set us. \<not> p u" "p x" "ys = us @ f x # ws"
  using assms
proof (induction xs arbitrary: ys thesis)
  case (Cons a xs)
  show ?case
  proof (cases "p a")
    case True
    then show ?thesis using Cons.prems(1) [of "[]" a xs] Cons.prems(2) by simp
  next
    case False
    then obtain zs where zs: "update_first p f xs = Some zs" "ys = a # zs" using Cons.prems(2) by auto
    obtain us x ws where "xs = us @ x # ws" "\<forall>u\<in>set us. \<not> p u" "p x" "zs = us @ f x # ws"
      using Cons.IH [OF _ zs(1)] .
    then show ?thesis using Cons.prems(1) [of "a # us" x ws] False zs(2) by simp
  qed
qed simp

lemma update_first_None: "update_first p f xs = None \<longleftrightarrow> (\<forall>x\<in>set xs. \<not> p x)"
  by (induction xs) auto

lemma set_wf_update_first:
  assumes "validator_set_wf vs" "update_first p f vs = Some vs'"
    and "\<And>v. val_address (f v) = val_address v" "\<And>v. val_status (f v) = Active \<Longrightarrow> val_status v = Active"
  shows "validator_set_wf vs'"
proof -
  obtain us x ws where "vs = us @ x # ws" "vs' = us @ f x # ws"
    using update_first_split [OF assms(2)] .
  then show ?thesis using assms(1,3,4) by (auto simp: validator_set_wf_def split: if_splits)
qed

lemma set_wf_register: "validator_set_wf vs \<Longrightarrow> validator_set_wf (snd (validator_register a pk stake e vs))"
  by (auto simp: validator_set_wf_def validator_register_def list_ex_iff)

lemma set_wf_deregister: "validator_set_wf vs \<Longrightarrow> validator_set_wf (snd (validator_deregister a b vs))"
  by (auto simp: validator_deregister_def elim!: set_wf_update_first split: option.splits)

lemma set_wf_top_up: "validator_set_wf vs \<Longrightarrow> validator_set_wf (snd (top_up_stake a n vs))"
  by (auto simp: top_up_stake_def elim!: set_wf_update_first split: option.splits)

lemma unbond_active: "val_status (unbond b v) = Active \<longleftrightarrow> val_status v = Active"
  and unbond_address [simp]: "val_address (unbond b v) = val_address v"
  by (auto simp: unbond_def split: validator_status.splits)

lemma set_wf_unbonding: "validator_set_wf vs \<Longrightarrow> validator_set_wf (process_unbonding b vs)"
  by (simp add: validator_set_wf_def process_unbonding_def filter_map comp_def unbond_active)

lemma committee_members_spec:
  assumes "select_committee C vs epoch randomness tpk = Inr com"
  shows "\<exists>ms. mset ms = mset (filter eligible vs) \<and> com_members com = take COMMITTEE_SIZE ms
    \<and> sorted (map (committee_score C randomness epoch) ms) \<and> ms \<noteq> []"
proof -
  let ?score = "committee_score C randomness epoch"
  let ?ms = "map snd (sort_key fst (map (\<lambda>v. (?score v, v)) (filter eligible vs)))"
  have perm: "mset ?ms = mset (filter eligible vs)" by (simp add: multiset.map_comp comp_def)
  have take: "com_members com = take COMMITTEE_SIZE ?ms"
    using assms by (auto simp: select_committee_def Let_def take_map min_def split: if_splits)
  have sorted: "sorted (map ?score ?ms)"
  proof -
    have eq: "map ?score ?ms = map fst (sort_key fst (map (\<lambda>v. (?score v, v)) (filter eligible vs)))" by auto
    show ?thesis unfolding eq by (rule sorted_sort_key)
  qed
  have "filter eligible vs \<noteq> []" using assms by (auto simp: select_committee_def Let_def)
  then have "?ms \<noteq> []" using perm by (metis mset_zero_iff)
  then show ?thesis using perm take sorted by blast
qed

lemma committee_well_formed:
  assumes "validator_set_wf vs" "select_committee C vs epoch randomness tpk = Inr com"
  shows "distinct (map val_address (com_members com)) \<and> list_all eligible (com_members com)
    \<and> set (com_members com) \<subseteq> set vs
    \<and> length (com_members com) = min (length (active_validators vs)) COMMITTEE_SIZE \<and> com_members com \<noteq> []"
proof -
  obtain ms where ms: "mset ms = mset (filter eligible vs)" "com_members com = take COMMITTEE_SIZE ms" "ms \<noteq> []"
    using committee_members_spec [OF assms(2)] by blast
  have "filter eligible vs = filter eligible (filter (\<lambda>v. val_status v = Active) vs)"
    by (auto simp: eligible_def intro: filter_cong)
  then have "distinct (map val_address (filter eligible vs))"
    using assms(1) unfolding validator_set_wf_def by (metis distinct_map_filter)
  then have "distinct (map val_address ms)"
    using ms(1) by (metis mset_eq_imp_distinct_iff mset_map)
  then have "distinct (map val_address (com_members com))" 
    unfolding ms(2) take_map [symmetric] by (rule distinct_take)
  moreover have "set ms = set (filter eligible vs)" using ms(1) by (metis set_mset_mset)
  moreover have "length ms = length (filter eligible vs)" using ms(1) by (metis size_mset)
  ultimately show ?thesis using ms(2,3)
    by (auto simp: list_all_iff active_validators_def COMMITTEE_SIZE_def min_def dest!: in_set_takeD)
qed

end
