(* ===== verification/Slashing.thy ===== *)
theory Slashing
  imports HotStuff Validators
begin

text \<open>
  Slashing (\<open>crates/consensus/src/slashing.rs\<close>, constants from \<open>crates/slashing/src/lib.rs\<close>): evidence, the
  amounts, and what a slash does to the validator set. The theory closes the circle of the voting
  protocol: conflicting certificates leave evidence that the checks here accept.
\<close>

section \<open>Offences and evidence\<close>

definition FINDER_FEE_PERCENT :: u128 where "FINDER_FEE_PERCENT = 10"
definition LIVENESS_SLASH_MINOR :: u128 where "LIVENESS_SLASH_MINOR = 1"
definition LIVENESS_SLASH_MAJOR :: u128 where "LIVENESS_SLASH_MAJOR = 5"
definition LIVENESS_SLASH_ABSENT :: u128 where "LIVENESS_SLASH_ABSENT = 10"
definition INVALID_PROPOSAL_SLASH :: u128 where "INVALID_PROPOSAL_SLASH = 50"
definition DECRYPTION_WITHHOLD_SLASH :: u128 where "DECRYPTION_WITHHOLD_SLASH = 2"

datatype slashing_offense =
  DoubleSigning | Equivocation | LivenessMinor | LivenessMajor | LivenessAbsent | InvalidProposal
  | DecryptionWithholding

record slash_result =
  sl_offender :: bytes
  sl_amount_burned :: u128
  sl_finder_fee :: u128
  sl_ejected :: bool
  sl_forced_unbonding :: bool
  sl_offense :: slashing_offense

record double_sign_evidence =
  ds_slot :: u64
  ds_block_hash_1 :: bytes
  ds_signature_1 :: bytes
  ds_block_hash_2 :: bytes
  ds_signature_2 :: bytes
  ds_signer :: bytes
  ds_submitter :: bytes

record double_view_change_evidence =
  dvc_slot :: u64
  dvc_qc_hash_1 :: bytes
  dvc_signature_1 :: bytes
  dvc_qc_hash_2 :: bytes
  dvc_signature_2 :: bytes
  dvc_signer :: bytes
  dvc_submitter :: bytes

record liveness_report =
  lr_validator :: bytes
  lr_slots_participated :: u64
  lr_total_slots :: u64
  lr_current_stake :: u128

definition participation_percent :: "liveness_report \<Rightarrow> u64" where
  "participation_percent r =
     (if lr_total_slots r = 0 then 100 else (lr_slots_participated r * 100) div lr_total_slots r)"

definition two_signatures_ok :: "crypto_lib \<Rightarrow> bytes \<Rightarrow> bytes \<Rightarrow> bytes \<Rightarrow> bytes \<Rightarrow> bytes \<Rightarrow> bool" where
  "two_signatures_ok C public_key msg_1 signature_1 msg_2 signature_2 =
     (case falcon_pk_from_bytes public_key of
        None \<Rightarrow> False
      | Some pk \<Rightarrow>
          (case falcon_sig_from_bytes signature_1 of
             None \<Rightarrow> False
           | Some sig_1 \<Rightarrow>
               (case falcon_sig_from_bytes signature_2 of
                  None \<Rightarrow> False
                | Some sig_2 \<Rightarrow> falcon_verify C pk msg_1 sig_1 \<and> falcon_verify C pk msg_2 sig_2)))"

definition verify_double_sign :: "crypto_lib \<Rightarrow> u64 \<Rightarrow> double_sign_evidence \<Rightarrow> bytes \<Rightarrow> bool" where
  "verify_double_sign C chain_id evidence public_key =
     (if ds_block_hash_1 evidence = ds_block_hash_2 evidence then False
      else two_signatures_ok C public_key
        (proposer_sign_message chain_id (ds_slot evidence) (ds_block_hash_1 evidence)) (ds_signature_1 evidence)
        (proposer_sign_message chain_id (ds_slot evidence) (ds_block_hash_2 evidence)) (ds_signature_2 evidence))"

definition verify_double_view_change :: "crypto_lib \<Rightarrow> u64 \<Rightarrow> double_view_change_evidence \<Rightarrow> bytes \<Rightarrow> bool" where
  "verify_double_view_change C chain_id evidence public_key =
     (if dvc_qc_hash_1 evidence = dvc_qc_hash_2 evidence then False
      else two_signatures_ok C public_key
        (view_change_sign_message_from_hash chain_id (dvc_slot evidence) (dvc_qc_hash_1 evidence)) (dvc_signature_1 evidence)
        (view_change_sign_message_from_hash chain_id (dvc_slot evidence) (dvc_qc_hash_2 evidence)) (dvc_signature_2 evidence))"

section \<open>Amounts\<close>

fun slash_percent :: "slashing_offense \<Rightarrow> u128" where
  "slash_percent DoubleSigning = 100"
| "slash_percent Equivocation = 100"
| "slash_percent LivenessMinor = LIVENESS_SLASH_MINOR"
| "slash_percent LivenessMajor = LIVENESS_SLASH_MAJOR"
| "slash_percent LivenessAbsent = LIVENESS_SLASH_ABSENT"
| "slash_percent InvalidProposal = INVALID_PROPOSAL_SLASH"
| "slash_percent DecryptionWithholding = DECRYPTION_WITHHOLD_SLASH"

definition compute_slash :: "u128 \<Rightarrow> slashing_offense \<Rightarrow> u128 \<times> u128" where
  "compute_slash stake offense =
     (let slash_amount = stake * slash_percent offense div 100;
          finder_fee = slash_amount * FINDER_FEE_PERCENT div 100
      in (slash_amount - finder_fee, finder_fee))"

definition slash_double_sign ::
  "crypto_lib \<Rightarrow> u64 \<Rightarrow> double_sign_evidence \<Rightarrow> bytes \<Rightarrow> u128 \<Rightarrow> slash_result option" where
  "slash_double_sign C chain_id evidence public_key current_stake =
     (if \<not> verify_double_sign C chain_id evidence public_key then None
      else let (burned, finder_fee) = compute_slash current_stake DoubleSigning
        in Some \<lparr>sl_offender = ds_signer evidence, sl_amount_burned = burned, sl_finder_fee = finder_fee,
             sl_ejected = True, sl_forced_unbonding = True, sl_offense = DoubleSigning\<rparr>)"

definition slash_double_view_change ::
  "crypto_lib \<Rightarrow> u64 \<Rightarrow> double_view_change_evidence \<Rightarrow> bytes \<Rightarrow> u128 \<Rightarrow> slash_result option" where
  "slash_double_view_change C chain_id evidence public_key current_stake =
     (if \<not> verify_double_view_change C chain_id evidence public_key then None
      else let (burned, finder_fee) = compute_slash current_stake Equivocation
        in Some \<lparr>sl_offender = dvc_signer evidence, sl_amount_burned = burned, sl_finder_fee = finder_fee,
             sl_ejected = True, sl_forced_unbonding = True, sl_offense = Equivocation\<rparr>)"

definition liveness_offense :: "u64 \<Rightarrow> slashing_offense option" where
  "liveness_offense pct =
     (if pct = 0 then Some LivenessAbsent
      else if pct < 50 then Some LivenessMajor
      else if pct < 90 then Some LivenessMinor
      else None)"

definition slash_liveness :: "liveness_report \<Rightarrow> slash_result option" where
  "slash_liveness report =
     (case liveness_offense (participation_percent report) of
        None \<Rightarrow> None
      | Some offense \<Rightarrow>
          let (burned, finder_fee) = compute_slash (lr_current_stake report) offense
          in Some \<lparr>sl_offender = lr_validator report, sl_amount_burned = burned, sl_finder_fee = finder_fee,
               sl_ejected = (offense = LivenessMajor \<or> offense = LivenessAbsent),
               sl_forced_unbonding = (offense = LivenessAbsent), sl_offense = offense\<rparr>)"

definition slash_validator :: "slash_result \<Rightarrow> u64 \<Rightarrow> validator \<Rightarrow> validator" where
  "slash_validator result current_block v =
     (let total_slash = sl_amount_burned result + sl_finder_fee result;
          v = v\<lparr>val_stake := (if total_slash \<le> val_stake v then val_stake v - total_slash else 0)\<rparr>
      in if sl_forced_unbonding result then v\<lparr>val_status := Unbonding current_block\<rparr>
         else if sl_ejected result then v\<lparr>val_status := Exited\<rparr>
         else v)"

definition apply_slash :: "slash_result \<Rightarrow> u64 \<Rightarrow> validator_set \<Rightarrow> bool \<times> validator_set" where
  "apply_slash result current_block vs =
     (case update_first (\<lambda>v. val_address v = sl_offender result) (slash_validator result current_block) vs of
        None \<Rightarrow> (False, vs)
      | Some vs' \<Rightarrow> (True, vs'))"

section \<open>Accountable safety\<close>

lemma two_signatures_ok_iff:
  "two_signatures_ok C pk m1 s1 m2 s2 \<longleftrightarrow> signature_ok C m1 pk s1 \<and> signature_ok C m2 pk s2"
  by (auto simp: two_signatures_ok_def signature_ok_def split: option.splits)

lemma verify_double_sign_iff:
  "verify_double_sign C chain_id ev pk \<longleftrightarrow> ds_block_hash_1 ev \<noteq> ds_block_hash_2 ev
     \<and> signature_ok C (proposer_sign_message chain_id (ds_slot ev) (ds_block_hash_1 ev)) pk (ds_signature_1 ev)
     \<and> signature_ok C (proposer_sign_message chain_id (ds_slot ev) (ds_block_hash_2 ev)) pk (ds_signature_2 ev)"
  by (simp add: verify_double_sign_def two_signatures_ok_iff)

text \<open>
  C11: safety is accountable. If two verified certificates with non-empty voter bitmaps, of one
  committee and one slot, name different blocks, then at least a third of the committee can be
  slashed for it: for each of those members, two of the signatures inside the certificates are
  double-sign evidence that \<open>verify_double_sign\<close> accepts under that member's key. Certificates
  with an empty bitmap, the sentinels that \<open>verify_qc\<close> accepts without signatures, are left out.
\<close>

theorem conflicting_qcs_are_slashable:
  assumes "verify_qc C qc1 keys chain_id" "verify_qc C qc2 keys chain_id"
    and "qc_voter_bitmap qc1 \<noteq> 0" "qc_voter_bitmap qc2 \<noteq> 0"
    and "qc_slot qc1 = qc_slot qc2" "qc_block_hash qc1 \<noteq> qc_block_hash qc2"
  shows "\<exists>V \<subseteq> {..<length keys}. length keys \<le> 3 * card V
    \<and> (\<forall>i\<in>V. \<exists>s1\<in>set (qc_signatures qc1). \<exists>s2\<in>set (qc_signatures qc2).
         verify_double_sign C chain_id
           \<lparr>ds_slot = qc_slot qc1, ds_block_hash_1 = qc_block_hash qc1, ds_signature_1 = s1,
            ds_block_hash_2 = qc_block_hash qc2, ds_signature_2 = s2, ds_signer = signer, ds_submitter = submitter\<rparr>
           (keys ! i))"
proof -
  let ?A = "voters (qc_voter_bitmap qc1)" and ?B = "voters (qc_voter_bitmap qc2)"
  note signed1 = verify_qc_sound [OF assms(1,3)] and signed2 = verify_qc_sound [OF assms(2,4)]
  have sub: "?A \<subseteq> {..<length keys}" "?B \<subseteq> {..<length keys}"
    using signed1(1) signed2(1) by (auto simp: qc_signed_def)
  have "length keys \<le> 3 * card (?A \<inter> ?B)"
    by (rule committee.overlap [OF sub signed1(2) signed2(2)])
  moreover have "\<exists>s1\<in>set (qc_signatures qc1). \<exists>s2\<in>set (qc_signatures qc2).
      verify_double_sign C chain_id
        \<lparr>ds_slot = qc_slot qc1, ds_block_hash_1 = qc_block_hash qc1, ds_signature_1 = s1,
         ds_block_hash_2 = qc_block_hash qc2, ds_signature_2 = s2, ds_signer = signer, ds_submitter = submitter\<rparr>
        (keys ! i)" if "i \<in> ?A \<inter> ?B" for i
  proof -
    have "i \<in> qc_signed C qc1 keys chain_id" "i \<in> qc_signed C qc2 keys chain_id"
      using that signed1(1) signed2(1) by blast+
    then show ?thesis using assms(5,6) unfolding qc_signed_def verify_double_sign_iff by auto
  qed
  ultimately show ?thesis using sub(1) by (intro exI [of _ "?A \<inter> ?B"]) blast
qed

theorem conflicting_qcs_are_slashable_witness:
  "\<exists>V \<subseteq> {..<1}. length [replicate 897 (0 :: u8)] \<le> 3 * card V
    \<and> V = {i \<in> V. verify_double_sign accepting_crypto 1
         \<lparr>ds_slot = 4, ds_block_hash_1 = replicate 32 1, ds_signature_1 = replicate 600 0,
          ds_block_hash_2 = replicate 32 2, ds_signature_2 = replicate 600 0, ds_signer = [], ds_submitter = []\<rparr>
         ([replicate 897 0] ! i)}"
proof -
  let ?qc = "\<lambda>h. \<lparr>qc_slot = 4, qc_block_hash = replicate 32 h, qc_voter_bitmap = 1, qc_signatures = [replicate 600 0]\<rparr>"
  have one: "voters 1 = {0}" by (auto simp: voters_def bit_1_iff)
  have "verify_qc accepting_crypto (?qc h) [replicate 897 0] 1" for h
    using formed_qc_verifies [of accepting_crypto 1 4 "replicate 32 h" "[replicate 897 0]"
        "\<lparr>vote_bitmap = 1, vote_indexed_sigs = [(0, replicate 600 0)], vote_valid_count = 1\<rparr>"]
    by (simp add: sigs_match_def one accepting_signature_ok quorum_for_committee_def div_ceil_usize_def)
  then show ?thesis
    using conflicting_qcs_are_slashable [of accepting_crypto "?qc 1" "[replicate 897 0]" 1 "?qc 2" "[]" "[]"]
    by fastforce
qed

section \<open>Honest recovery is punishable\<close>

text \<open>
  C27: a signed vote does not say which view it was cast in, so the recovery rule and the slashing
  rule contradict each other. A validator that votes for a proposal of view 0 and later, as the vote
  rule allows, for the fallback proposal of a higher view of the same slot has broken no rule, and
  its two votes are double-sign evidence that is accepted against it.
\<close>

theorem honest_recovery_vote_is_slashable:
  assumes "earlier (last_voted_slot st, last_voted_view st) (hdr_slot h0, proposal_view h0)"
    and "hdr_slot h1 = hdr_slot h0" "proposal_view h0 < proposal_view h1"
    and "qc_slot (highest_qc st) \<le> qc_slot (hdr_qc_previous h0)"
    and "qc_slot (hdr_qc_previous h0) \<le> qc_slot (hdr_qc_previous h1)"
    and "verify_qc C (hdr_qc_previous h0) keys chain_id" "verify_qc C (hdr_qc_previous h1) keys chain_id"
    and signer: "\<And>m. \<exists>sig. sign m = Some sig \<and> signature_ok C m pk sig"
    and "header_hash C h0 \<noteq> header_hash C h1"
  shows "\<exists>v0 st0 v1 st1. create_vote C chain_id h0 idx addr sign keys st = (Inr (Some v0), st0)
    \<and> create_vote C chain_id h1 idx addr sign keys st0 = (Inr (Some v1), st1)
    \<and> verify_double_sign C chain_id
        \<lparr>ds_slot = vote_slot v0, ds_block_hash_1 = vote_block_hash v0, ds_signature_1 = vote_signature v0,
         ds_block_hash_2 = vote_block_hash v1, ds_signature_2 = vote_signature v1, ds_signer = addr,
         ds_submitter = submitter\<rparr> pk"
proof -
  obtain s0 where s0: "sign (proposer_sign_message chain_id (hdr_slot h0) (header_hash C h0)) = Some s0"
      "signature_ok C (proposer_sign_message chain_id (hdr_slot h0) (header_hash C h0)) pk s0" using signer by blast
  obtain s1 where s1: "sign (proposer_sign_message chain_id (hdr_slot h1) (header_hash C h1)) = Some s1"
      "signature_ok C (proposer_sign_message chain_id (hdr_slot h1) (header_hash C h1)) pk s1" using signer by blast
  note first = create_vote_votes [of st h0 C keys chain_id sign s0 idx addr, OF assms(1,4,6) s0(1)]
  define st0 where "st0 = snd (create_vote C chain_id h0 idx addr sign keys st)"
  have st0: "earlier (last_voted_slot st0, last_voted_view st0) (hdr_slot h1, proposal_view h1)"
    "qc_slot (highest_qc st0) \<le> qc_slot (hdr_qc_previous h1)"
    using assms(2,3,4,5) by (auto simp: st0_def first earlier_def)
  note second = create_vote_votes [of st0 h1 C keys chain_id sign s1 idx addr, OF st0 assms(7) s1(1)]
  have "verify_double_sign C chain_id
      \<lparr>ds_slot = hdr_slot h0, ds_block_hash_1 = header_hash C h0, ds_signature_1 = s0,
       ds_block_hash_2 = header_hash C h1, ds_signature_2 = s1, ds_signer = addr, ds_submitter = submitter\<rparr> pk"
    using s0(2) s1(2) assms(2,9) by (simp add: verify_double_sign_iff)
  moreover have "create_vote C chain_id h0 idx addr sign keys st
      = (Inr (Some (Vote (hdr_slot h0) (header_hash C h0) idx addr s0)), st0)"
    by (simp add: first st0_def)
  ultimately show ?thesis using second by fastforce
qed

text \<open>A sponge that returns its second element, enough to tell two epochs apart.\<close>

definition epoch_crypto :: crypto_lib where
  "epoch_crypto = accepting_crypto\<lparr>sponge := \<lambda>xs. (xs ! 1, 0, 0, 0)\<rparr>"

definition recovery_header :: block_header where
  "recovery_header = (plain_header 1 qc_empty)\<lparr>hdr_epoch := 1, hdr_vrf_proof := encode_fallback_proof 1 1\<rparr>"

lemma epoch_crypto_hash:
  "7 < length d \<Longrightarrow> poseidon2_hash epoch_crypto d =
     elements_to_hash (u64_to_goldilocks (from_le_bytes (pad_to 8 (take 7 (drop 7 d)))), 0, 0, 0)"
  by (auto simp: poseidon2_hash_def epoch_crypto_def bytes_to_elements_def chunks.simps [of 7 d]
      chunks.simps [of 7 "drop 7 d"])

lemma header_epoch_bytes:
  "7 < length (header_preimage C h)"
  "take 7 (drop 7 (header_preimage C h)) = drop 7 (to_le_bytes 8 (hdr_slot h)) @ take 6 (to_le_bytes 8 (hdr_epoch h))"
  by (simp_all add: header_preimage_def)

lemma recovery_header_hash: "header_hash epoch_crypto (plain_header 1 qc_empty) \<noteq> header_hash epoch_crypto recovery_header"
proof -
  have "hdr_epoch (plain_header 1 qc_empty) = 0" "hdr_slot recovery_header = 1" "hdr_epoch recovery_header = 1"
    by (simp_all add: plain_header_def empty_block_header_def recovery_header_def)
  moreover have
    "elements_to_hash (u64_to_goldilocks (from_le_bytes
        (pad_to 8 (drop 7 (to_le_bytes 8 (1 :: u64)) @ take 6 (to_le_bytes 8 (0 :: u64))))), 0, 0, 0)
     \<noteq> elements_to_hash (u64_to_goldilocks (from_le_bytes
        (pad_to 8 (drop 7 (to_le_bytes 8 (1 :: u64)) @ take 6 (to_le_bytes 8 (1 :: u64))))), 0, 0, 0)"
    by code_simp
  ultimately show ?thesis unfolding header_hash_def by (simp add: epoch_crypto_hash header_epoch_bytes)
qed

theorem honest_recovery_vote_is_slashable_witness:
  "\<exists>v0 st0 v1 st1.
     create_vote epoch_crypto 1 (plain_header 1 qc_empty) 0 [] (\<lambda>_. Some (replicate 600 0)) [replicate 897 0] consensus_new
       = (Inr (Some v0), st0)
   \<and> create_vote epoch_crypto 1 recovery_header 0 [] (\<lambda>_. Some (replicate 600 0)) [replicate 897 0] st0 = (Inr (Some v1), st1)
   \<and> verify_double_sign epoch_crypto 1
        \<lparr>ds_slot = vote_slot v0, ds_block_hash_1 = vote_block_hash v0, ds_signature_1 = vote_signature v0,
         ds_block_hash_2 = vote_block_hash v1, ds_signature_2 = vote_signature v1, ds_signer = [], ds_submitter = []\<rparr>
        (replicate 897 0)"
proof (rule honest_recovery_vote_is_slashable)
  show "\<exists>sig. (\<lambda>_. Some (replicate 600 0)) m = Some sig \<and> signature_ok epoch_crypto m (replicate 897 0) sig" for m :: bytes
    by (simp add: signature_ok_def falcon_pk_from_bytes_def FALCON_PK_SIZE_def falcon_sig_from_bytes_def
        falcon_verify_def epoch_crypto_def accepting_crypto_def)
  have view: "proposal_view recovery_header = 1"
    by (simp add: proposal_view_def recovery_header_def decode_encode_fallback_proof)
  then show "proposal_view (plain_header 1 qc_empty) < proposal_view recovery_header" by simp
  show "earlier (last_voted_slot consensus_new, last_voted_view consensus_new)
      (hdr_slot (plain_header 1 qc_empty), proposal_view (plain_header 1 qc_empty))"
    by (simp add: earlier_def consensus_new_def)
qed (simp_all add: recovery_header_hash, simp_all add: recovery_header_def consensus_new_def)

section \<open>Amounts and the validator set\<close>

lemma slash_percent_le: "unat (slash_percent off) \<le> 100"
  by (cases off) (simp_all add: LIVENESS_SLASH_MINOR_def LIVENESS_SLASH_MAJOR_def LIVENESS_SLASH_ABSENT_def
      INVALID_PROPOSAL_SLASH_def DECRYPTION_WITHHOLD_SLASH_def)

lemma percent_unat:
  assumes "unat (s :: u128) * 100 < 2 ^ 128" "unat p \<le> 100"
  shows "unat (s * p div 100) = unat s * unat p div 100" "unat (s * p div 100) \<le> unat s"
proof -
  have le: "unat s * unat p \<le> unat s * 100" using assms(2) by simp
  have "unat s * unat p < 2 ^ LENGTH(128)" using order.strict_trans1 [OF le assms(1)] by simp
  then have "unat (s * p) = unat s * unat p" by (rule unat_mult_lem [THEN iffD1])
  then show eq: "unat (s * p div 100) = unat s * unat p div 100" by (simp add: unat_div)
  show "unat (s * p div 100) \<le> unat s" unfolding eq using le by linarith
qed

text \<open>
  A slash takes exactly the offence's percentage of the stake, a tenth of that goes to the finder
  and the rest is burned; nothing is created or lost, so the validator's new stake, the burned amount
  and the fee sum to the old stake. It needs stakes below \<open>2^128 / 100\<close>; above, the product wraps.
\<close>

theorem slash_conserves_stake:
  assumes "unat (val_stake v) * 100 < 2 ^ 128"
    and "compute_slash (val_stake v) off = (sl_amount_burned r, sl_finder_fee r)"
  shows "unat (val_stake (slash_validator r b v)) + unat (sl_amount_burned r) + unat (sl_finder_fee r) = unat (val_stake v)
    \<and> unat (sl_amount_burned r) + unat (sl_finder_fee r) = unat (val_stake v) * unat (slash_percent off) div 100
    \<and> unat (sl_finder_fee r) = unat (val_stake v) * unat (slash_percent off) div 100 * 10 div 100"
proof -
  let ?s = "val_stake v" and ?b = "sl_amount_burned r" and ?f = "sl_finder_fee r"
  define a where "a = ?s * slash_percent off div 100"
  have a: "unat a = unat ?s * unat (slash_percent off) div 100" "unat a \<le> unat ?s"
    using percent_unat [OF assms(1) slash_percent_le] by (simp_all add: a_def)
  have f: "?f = a * FINDER_FEE_PERCENT div 100" "?b = a - ?f"
    using assms(2) by (auto simp: compute_slash_def Let_def a_def)
  have fee: "unat ?f = unat a * 10 div 100" "unat ?f \<le> unat a"
    using percent_unat [of a FINDER_FEE_PERCENT] a(2) assms(1) f(1) by (simp_all add: FINDER_FEE_PERCENT_def)
  then have burned: "unat ?b = unat a - unat ?f" using f(2) by (simp add: unat_sub word_le_nat_alt)
  have "?b + ?f = a" using f(2) by simp
  moreover have "a \<le> ?s" "unat (?s - a) = unat ?s - unat a" using a(2) by (simp_all add: word_le_nat_alt unat_sub)
  ultimately have "unat (val_stake (slash_validator r b v)) = unat ?s - unat a"
    by (simp add: slash_validator_def Let_def)
  then show ?thesis using a(2) fee burned unfolding a(1) [symmetric] by linarith
qed

definition sample_validator :: validator where
  "sample_validator = \<lparr>val_address = replicate 32 1, val_public_key = replicate 897 0, val_stake = VALIDATOR_STAKE,
     val_status = Active, val_registered_epoch = 0, val_kem_pk = None\<rparr>"

theorem slash_conserves_stake_witness:
  "unat VALIDATOR_STAKE * 100 < 2 ^ 128
   \<and> compute_slash (val_stake sample_validator) LivenessMajor = (450000000000, 50000000000)
   \<and> unat (val_stake (slash_validator \<lparr>sl_offender = replicate 32 1, sl_amount_burned = 450000000000,
        sl_finder_fee = 50000000000, sl_ejected = True, sl_forced_unbonding = False, sl_offense = LivenessMajor\<rparr> 9
        sample_validator)) + 450000000000 + 50000000000 = unat VALIDATOR_STAKE"
proof -
  have "compute_slash (val_stake sample_validator) LivenessMajor = (450000000000, 50000000000)"
    by (simp add: compute_slash_def sample_validator_def VALIDATOR_STAKE_def LIVENESS_SLASH_MAJOR_def
        FINDER_FEE_PERCENT_def Let_def)
  then show ?thesis
    using slash_conserves_stake [of sample_validator LivenessMajor "\<lparr>sl_offender = replicate 32 1,
        sl_amount_burned = 450000000000, sl_finder_fee = 50000000000, sl_ejected = True, sl_forced_unbonding = False,
        sl_offense = LivenessMajor\<rparr>" 9]
    by (simp add: sample_validator_def VALIDATOR_STAKE_def)
qed

datatype set_op =
    Register bytes bytes u128 u64
  | Deregister bytes u64
  | ProcessUnbonding u64
  | TopUp bytes u128
  | Slash slash_result u64

fun set_step :: "set_op \<Rightarrow> validator_set \<Rightarrow> validator_set" where
  "set_step (Register a pk stake e) vs = snd (validator_register a pk stake e vs)"
| "set_step (Deregister a b) vs = snd (validator_deregister a b vs)"
| "set_step (ProcessUnbonding b) vs = process_unbonding b vs"
| "set_step (TopUp a n) vs = snd (top_up_stake a n vs)"
| "set_step (Slash r b) vs = snd (apply_slash r b vs)"

lemma set_wf_slash: "validator_set_wf vs \<Longrightarrow> validator_set_wf (snd (apply_slash r b vs))"
  by (auto simp: apply_slash_def slash_validator_def Let_def elim!: set_wf_update_first split: option.splits if_splits)

lemma set_run_wf: "validator_set_wf vs \<Longrightarrow> validator_set_wf (fold set_step ops vs)"
proof (induction ops arbitrary: vs)
  case (Cons op ops)
  have "validator_set_wf (set_step op vs)"
    using Cons.prems by (cases op) (simp_all add: set_wf_register set_wf_deregister set_wf_unbonding set_wf_top_up set_wf_slash)
  then show ?case using Cons.IH by simp
qed simp

text \<open>
  C26: whatever registrations, exits, top-ups and slashes happened, the validator set has at most one
  active record per address, and committee selection returns a committee exactly when a fully staked
  active validator exists: 1 to 128 members of the set, all of them eligible, no address twice.
\<close>

theorem committee_always_well_formed:
  "validator_set_wf (fold set_step ops [])
   \<and> (case select_committee C (fold set_step ops []) epoch randomness tpk of
        Inl e \<Rightarrow> e = NotEnoughValidators 1 0 \<and> active_validators (fold set_step ops []) = []
      | Inr com \<Rightarrow> com_epoch com = epoch \<and> distinct (map val_address (com_members com))
          \<and> list_all eligible (com_members com) \<and> set (com_members com) \<subseteq> set (fold set_step ops [])
          \<and> length (com_members com) = min (length (active_validators (fold set_step ops []))) 128
          \<and> com_members com \<noteq> [])"
proof -
  let ?vs = "fold set_step ops []"
  have wf: "validator_set_wf ?vs" by (rule set_run_wf) (simp add: validator_set_wf_def)
  show ?thesis
  proof (cases "select_committee C ?vs epoch randomness tpk")
    case (Inl e)
    then show ?thesis using wf
      by (auto simp: select_committee_def active_validators_def Let_def split: if_splits)
  next
    case (Inr com)
    moreover have "com_epoch com = epoch" using Inr by (auto simp: select_committee_def Let_def split: if_splits)
    ultimately show ?thesis using wf committee_well_formed [OF wf Inr] by (simp add: COMMITTEE_SIZE_def)
  qed
qed

text \<open>
  A slash lands on the first record of the offender's address, also when that record is a
  registration the validator has already left. A validator that registers, exits and registers again
  cannot be slashed any more: \<open>apply_slash\<close> reports success and the active stake is unchanged.
\<close>

theorem reregistered_validator_evades_slash:
  "let vs = fold set_step [Register a pk VALIDATOR_STAKE e1, Deregister a b, Register a pk VALIDATOR_STAKE e2] []
   in length (active_validators vs) = 1
      \<and> fst (apply_slash (r\<lparr>sl_offender := a\<rparr>) now vs)
      \<and> active_validators (snd (apply_slash (r\<lparr>sl_offender := a\<rparr>) now vs)) = active_validators vs"
  by (simp add: validator_register_def validator_deregister_def apply_slash_def slash_validator_def
      active_validators_def eligible_def Let_def)

end
