(* ===== verification/Ledger.thy ===== *)
theory Ledger
  imports Store Execution Airdrop Multisig Slashing
begin

text \<open>
  The typed cells of the state that the transaction pipeline reads and writes (accessors of
  \<open>crates/tx/src/pipeline.rs\<close>): accounts, nonces, code, counters, schedules, and the records of
  validators. The state is a \<open>store\<close>; the pipeline sees it only through \<open>get\<close> and \<open>insert\<close>.
\<close>

section \<open>Accounts, nonces and code\<close>

definition empty_account :: "bytes \<Rightarrow> account" where
  "empty_account addr =
     \<lparr>acc_address = addr, acc_nonce = 0, acc_balance = 0, acc_code_hash = h256_zero, acc_storage_root = h256_zero,
      acc_type = EOA, acc_auth_keys = AuthNone, acc_gas_tank = 0, acc_key_nonce = 0\<rparr>"

definition load_account :: "crypto_lib \<Rightarrow> store \<Rightarrow> bytes \<Rightarrow> account" where
  "load_account C smt addr =
     (case smt_get smt (balance_key C addr) of
        Some bs \<Rightarrow> (case account_from_bytes bs of Some a \<Rightarrow> a | None \<Rightarrow> empty_account addr)
      | None \<Rightarrow> empty_account addr)"

definition store_account :: "crypto_lib \<Rightarrow> account \<Rightarrow> store \<Rightarrow> store" where
  "store_account C a smt = smt_insert (balance_key C (acc_address a)) (account_to_bytes a) smt"

text \<open>
  \<open>store_account\<close> with its result, for the callers that test it. The write goes to the execution
  overlay, whose \<open>insert\<close> has no failing branch.
\<close>

definition state_insert :: "bytes \<Rightarrow> bytes \<Rightarrow> store \<Rightarrow> bytes + store" where
  "state_insert key value smt = Inr (smt_insert key value smt)"

definition try_store_account :: "crypto_lib \<Rightarrow> account \<Rightarrow> store \<Rightarrow> bytes + store" where
  "try_store_account C a smt = state_insert (balance_key C (acc_address a)) (account_to_bytes a) smt"

lemma try_store_account_ok [simp]: "try_store_account C a smt = Inr (store_account C a smt)"
  by (simp add: try_store_account_def state_insert_def store_account_def)

definition load_nonce :: "crypto_lib \<Rightarrow> store \<Rightarrow> bytes \<Rightarrow> nonce_state" where
  "load_nonce C smt addr =
     (case Option.bind (smt_get smt (nonce_key C addr)) nonce_from_bytes of Some ns \<Rightarrow> ns | None \<Rightarrow> nonce_new)"

definition store_nonce :: "crypto_lib \<Rightarrow> bytes \<Rightarrow> nonce_state \<Rightarrow> store \<Rightarrow> store" where
  "store_nonce C addr ns smt = smt_insert (nonce_key C addr) (nonce_to_bytes ns) smt"

definition load_contract_code :: "crypto_lib \<Rightarrow> store \<Rightarrow> bytes \<Rightarrow> bytes option" where
  "load_contract_code C smt addr = smt_get smt (code_key C addr)"

definition store_contract_code :: "crypto_lib \<Rightarrow> bytes \<Rightarrow> bytes \<Rightarrow> store \<Rightarrow> store" where
  "store_contract_code C addr code smt = smt_insert (code_key C addr) code smt"

text \<open>
  The difference of two \<open>u128\<close> read as an \<open>i128\<close>, added to a balance with saturation.
\<close>

definition apply_delta :: "u128 \<Rightarrow> u128 \<Rightarrow> u128 \<Rightarrow> u128" where
  "apply_delta initial final current =
     (let delta = final - initial
      in if 0 \<le> sint delta then saturating_add current delta else saturating_sub current (- delta))"

definition apply_account_delta :: "crypto_lib \<Rightarrow> bytes \<Rightarrow> account \<Rightarrow> account \<Rightarrow> store \<Rightarrow> store" where
  "apply_account_delta C addr initial final smt =
     (let current = load_account C smt addr;
          current = current\<lparr>acc_balance := apply_delta (acc_balance initial) (acc_balance final) (acc_balance current)\<rparr>;
          current = current\<lparr>acc_gas_tank := apply_delta (acc_gas_tank initial) (acc_gas_tank final) (acc_gas_tank current)\<rparr>;
          current = (if acc_auth_keys final \<noteq> acc_auth_keys initial
                     then current\<lparr>acc_auth_keys := acc_auth_keys final\<rparr> else current);
          current = (if acc_nonce final \<noteq> acc_nonce initial then current\<lparr>acc_nonce := acc_nonce final\<rparr> else current)
      in store_account C current smt)"

section \<open>Counters and schedules\<close>

definition read_u128_state :: "store \<Rightarrow> bytes \<Rightarrow> u128 option" where
  "read_u128_state smt key =
     (case smt_get smt key of
        Some b \<Rightarrow> if 16 \<le> length b then Some (from_le_bytes (take 16 b)) else None
      | None \<Rightarrow> None)"

text \<open>The same idiom at eight bytes, inlined in the source of each \<open>u64\<close> cell.\<close>

definition read_u64_state :: "store \<Rightarrow> bytes \<Rightarrow> u64 option" where
  "read_u64_state smt key =
     (case smt_get smt key of
        Some b \<Rightarrow> if 8 \<le> length b then Some (from_le_bytes (take 8 b)) else None
      | None \<Rightarrow> None)"

definition unwrap_or :: "'a \<Rightarrow> 'a option \<Rightarrow> 'a" where
  "unwrap_or d x = (case x of Some v \<Rightarrow> v | None \<Rightarrow> d)"

definition read_rewards_per_validator :: "crypto_lib \<Rightarrow> store \<Rightarrow> u128" where
  "read_rewards_per_validator C smt = unwrap_or 0 (read_u128_state smt (rewards_per_validator_key C))"

definition write_rewards_per_validator :: "crypto_lib \<Rightarrow> u128 \<Rightarrow> store \<Rightarrow> store" where
  "write_rewards_per_validator C v smt = smt_insert (rewards_per_validator_key C) (to_le_bytes 16 v) smt"

definition read_total_supply :: "crypto_lib \<Rightarrow> store \<Rightarrow> u128" where
  "read_total_supply C smt = unwrap_or GENESIS_TOTAL_SUPPLY (read_u128_state smt (supply_key C))"

definition write_total_supply :: "crypto_lib \<Rightarrow> u128 \<Rightarrow> store \<Rightarrow> store" where
  "write_total_supply C v smt = smt_insert (supply_key C) (to_le_bytes 16 v) smt"

definition read_total_burned :: "crypto_lib \<Rightarrow> store \<Rightarrow> u128" where
  "read_total_burned C smt = unwrap_or 0 (read_u128_state smt (total_burned_key C))"

definition write_total_burned :: "crypto_lib \<Rightarrow> u128 \<Rightarrow> store \<Rightarrow> store" where
  "write_total_burned C v smt = smt_insert (total_burned_key C) (to_le_bytes 16 v) smt"

definition read_vesting_schedule :: "crypto_lib \<Rightarrow> store \<Rightarrow> bytes \<Rightarrow> vesting_schedule option" where
  "read_vesting_schedule C smt addr = Option.bind (smt_get smt (vesting_key C addr)) vesting_decode"

record validator_subsidy_schedule =
  sub_per_block :: u128
  sub_end_slot :: u64

definition subsidy_encode :: "validator_subsidy_schedule \<Rightarrow> bytes" where
  "subsidy_encode s = to_le_bytes 16 (sub_per_block s) @ to_le_bytes 8 (sub_end_slot s)"

definition subsidy_decode :: "bytes \<Rightarrow> validator_subsidy_schedule option" where
  "subsidy_decode bs =
     (if length bs < 16 + 8 then None
      else Some \<lparr>sub_per_block = from_le_bytes (byte_range 0 16 bs), sub_end_slot = from_le_bytes (byte_range 16 24 bs)\<rparr>)"

definition read_validator_subsidy :: "crypto_lib \<Rightarrow> store \<Rightarrow> validator_subsidy_schedule option" where
  "read_validator_subsidy C smt = Option.bind (smt_get smt (validator_subsidy_key C)) subsidy_decode"

definition read_multisig_signers :: "crypto_lib \<Rightarrow> store \<Rightarrow> bytes list option" where
  "read_multisig_signers C smt = Option.bind (smt_get smt (multisig_signers_key C)) decode_signer_set"

text \<open>\<open>None\<close> is the panic of \<open>encode_signer_set\<close>.\<close>

definition write_multisig_signers :: "crypto_lib \<Rightarrow> bytes list \<Rightarrow> store \<Rightarrow> store option" where
  "write_multisig_signers C pks smt =
     map_option (\<lambda>bs. smt_insert (multisig_signers_key C) bs smt) (encode_signer_set pks)"

definition read_multisig_threshold :: "crypto_lib \<Rightarrow> store \<Rightarrow> u8" where
  "read_multisig_threshold C smt =
     (case smt_get smt (multisig_threshold_key C) of Some (t # _) \<Rightarrow> t | _ \<Rightarrow> 0)"

definition write_multisig_threshold :: "crypto_lib \<Rightarrow> u8 \<Rightarrow> store \<Rightarrow> store" where
  "write_multisig_threshold C t smt = smt_insert (multisig_threshold_key C) [t] smt"

definition read_multisig_nonce :: "crypto_lib \<Rightarrow> store \<Rightarrow> u64" where
  "read_multisig_nonce C smt = unwrap_or 0 (read_u64_state smt (multisig_nonce_key C))"

definition write_multisig_nonce :: "crypto_lib \<Rightarrow> u64 \<Rightarrow> store \<Rightarrow> store" where
  "write_multisig_nonce C n smt = smt_insert (multisig_nonce_key C) (to_le_bytes 8 n) smt"

definition read_emergency_pause_end_slot :: "crypto_lib \<Rightarrow> store \<Rightarrow> u64" where
  "read_emergency_pause_end_slot C smt = unwrap_or 0 (read_u64_state smt (emergency_pause_end_slot_key C))"

definition write_emergency_pause_end_slot :: "crypto_lib \<Rightarrow> u64 \<Rightarrow> store \<Rightarrow> store" where
  "write_emergency_pause_end_slot C end_slot smt =
     smt_insert (emergency_pause_end_slot_key C) (to_le_bytes 8 end_slot) smt"

definition is_paused :: "crypto_lib \<Rightarrow> store \<Rightarrow> u64 \<Rightarrow> bool" where
  "is_paused C smt slot \<longleftrightarrow> slot < read_emergency_pause_end_slot C smt"

definition read_airdrop_root :: "crypto_lib \<Rightarrow> store \<Rightarrow> bytes option" where
  "read_airdrop_root C smt =
     (case smt_get smt (airdrop_root_key C) of Some bs \<Rightarrow> if length bs = 32 then Some bs else None | None \<Rightarrow> None)"

definition read_airdrop_deadline :: "crypto_lib \<Rightarrow> store \<Rightarrow> u64 option" where
  "read_airdrop_deadline C smt = read_u64_state smt (airdrop_deadline_key C)"

definition is_airdrop_claimed :: "crypto_lib \<Rightarrow> store \<Rightarrow> u64 \<Rightarrow> bool" where
  "is_airdrop_claimed C smt idx \<longleftrightarrow> smt_get smt (airdrop_claimed_key C idx) \<noteq> None"

definition mark_airdrop_claimed :: "crypto_lib \<Rightarrow> u64 \<Rightarrow> store \<Rightarrow> store" where
  "mark_airdrop_claimed C idx smt = smt_insert (airdrop_claimed_key C idx) [1] smt"

definition read_active_validator_count :: "crypto_lib \<Rightarrow> store \<Rightarrow> u64" where
  "read_active_validator_count C smt = unwrap_or 0 (read_u64_state smt (active_validator_count_key C))"

definition write_active_validator_count :: "crypto_lib \<Rightarrow> u64 \<Rightarrow> store \<Rightarrow> store" where
  "write_active_validator_count C n smt = smt_insert (active_validator_count_key C) (to_le_bytes 8 n) smt"

definition increment_active_validator_count :: "crypto_lib \<Rightarrow> store \<Rightarrow> store" where
  "increment_active_validator_count C smt =
     write_active_validator_count C (saturating_add (read_active_validator_count C smt) 1) smt"

definition decrement_active_validator_count :: "crypto_lib \<Rightarrow> store \<Rightarrow> store" where
  "decrement_active_validator_count C smt =
     write_active_validator_count C (saturating_sub (read_active_validator_count C smt) 1) smt"

section \<open>Validator records\<close>

definition VALIDATOR_ENTRY_BASE_LEN :: nat where "VALIDATOR_ENTRY_BASE_LEN = 4 + 897 + 16 + 1 + 16"

record validator_entry =
  ve_pk :: bytes
  ve_stake :: u128
  ve_status :: u8
  ve_last_claimed_at :: u128
  ve_exit_block :: "u64 option"
  ve_kem_pk :: "bytes option"

definition entry_kem_pk :: "bytes \<Rightarrow> bytes option" where
  "entry_kem_pk trailer =
     (if 4 \<le> length trailer then
        let kem_pk_len = unat (from_le_bytes (take 4 trailer) :: u32); rest = drop 4 trailer
        in if 0 < kem_pk_len \<and> kem_pk_len \<le> length rest then Some (take kem_pk_len rest) else None
      else None)"

definition validator_entry_decode :: "bytes \<Rightarrow> validator_entry option" where
  "validator_entry_decode bs =
     (if length bs < VALIDATOR_ENTRY_BASE_LEN then None
      else if unat (from_le_bytes (take 4 bs) :: u32) \<noteq> 897 then None
      else
        let status = bs ! 917;
            (exit_block, trailer) =
              (if status = 1 \<and> 934 + 8 \<le> length bs
               then (Some (from_le_bytes (byte_range 934 942 bs)), drop 942 bs) else (None, drop 934 bs))
        in Some \<lparr>ve_pk = byte_range 4 901 bs, ve_stake = from_le_bytes (byte_range 901 917 bs), ve_status = status,
                 ve_last_claimed_at = from_le_bytes (byte_range 918 934 bs), ve_exit_block = exit_block,
                 ve_kem_pk = entry_kem_pk trailer\<rparr>)"

definition validator_entry_encode :: "validator_entry \<Rightarrow> bytes" where
  "validator_entry_encode e =
     to_le_bytes 4 (of_nat (length (ve_pk e)) :: u32) @ ve_pk e @ to_le_bytes 16 (ve_stake e) @ [ve_status e]
     @ to_le_bytes 16 (ve_last_claimed_at e)
     @ (case ve_exit_block e of Some eb \<Rightarrow> to_le_bytes 8 eb | None \<Rightarrow> [])
     @ to_le_bytes 4 (of_nat (length (unwrap_or [] (ve_kem_pk e))) :: u32)
     @ unwrap_or [] (ve_kem_pk e)"

section \<open>Cells\<close>

text \<open>
  The contract of a cell of the state: a write is read back, touches no other key, and a read
  depends on the cell's own key only. \<open>valid\<close> restricts the values whose encoding is faithful.
\<close>

locale state_cell =
  fixes key :: bytes
    and valid :: "'a \<Rightarrow> bool"
    and rd_cell :: "store \<Rightarrow> 'a"
    and wr_cell :: "'a \<Rightarrow> store \<Rightarrow> store"
  assumes read_write: "valid x \<Longrightarrow> rd_cell (wr_cell x s) = x"
    and write_frame: "valid x \<Longrightarrow> k \<noteq> key \<Longrightarrow> smt_get (wr_cell x s) k = smt_get s k"
    and read_local: "smt_get s key = smt_get s' key \<Longrightarrow> rd_cell s = rd_cell s'"
begin

lemma read_other: "k \<noteq> key \<Longrightarrow> rd_cell (smt_insert k v s) = rd_cell s"
  by (rule read_local) (simp add: smt.get_ins)

lemma read_frame: "(\<And>k. k \<noteq> k0 \<Longrightarrow> smt_get s' k = smt_get s k) \<Longrightarrow> k0 \<noteq> key \<Longrightarrow> rd_cell s' = rd_cell s"
  by (rule read_local) simp

lemma write_twice: "valid x \<Longrightarrow> valid y \<Longrightarrow> rd_cell (wr_cell x (wr_cell y s)) = x"
  by (simp add: read_write)

end

lemma read_u128_insert: "read_u128_state (smt_insert k (to_le_bytes 16 v) s) k = Some v"
  by (simp add: read_u128_state_def smt.get_ins from_to_le_bytes)

lemma read_u64_insert: "read_u64_state (smt_insert k (to_le_bytes 8 v) s) k = Some v"
  by (simp add: read_u64_state_def smt.get_ins from_to_le_bytes)

lemma unwrap_or_simps [simp]: "unwrap_or d (Some x) = x" "unwrap_or d None = d"
  by (simp_all add: unwrap_or_def)

named_theorems cell_defs

lemmas [cell_defs] = read_rewards_per_validator_def write_rewards_per_validator_def read_total_supply_def
  write_total_supply_def read_total_burned_def write_total_burned_def read_multisig_nonce_def write_multisig_nonce_def
  read_emergency_pause_end_slot_def write_emergency_pause_end_slot_def read_active_validator_count_def
  write_active_validator_count_def read_u128_insert read_u64_insert smt.get_ins from_to_le_bytes

interpretation rewards: state_cell "rewards_per_validator_key C" "\<lambda>_. True" "read_rewards_per_validator C"
  "write_rewards_per_validator C" for C
  by unfold_locales (simp_all add: cell_defs read_u128_state_def)

interpretation minted: state_cell "supply_key C" "\<lambda>_. True" "read_total_supply C" "write_total_supply C" for C
  by unfold_locales (simp_all add: cell_defs read_u128_state_def)

interpretation burned: state_cell "total_burned_key C" "\<lambda>_. True" "read_total_burned C" "write_total_burned C" for C
  by unfold_locales (simp_all add: cell_defs read_u128_state_def)

interpretation ms_nonce: state_cell "multisig_nonce_key C" "\<lambda>_. True" "read_multisig_nonce C" "write_multisig_nonce C" for C
  by unfold_locales (simp_all add: cell_defs read_u64_state_def)

interpretation pause: state_cell "emergency_pause_end_slot_key C" "\<lambda>_. True" "read_emergency_pause_end_slot C"
  "write_emergency_pause_end_slot C" for C
  by unfold_locales (simp_all add: cell_defs read_u64_state_def)

interpretation active: state_cell "active_validator_count_key C" "\<lambda>_. True" "read_active_validator_count C"
  "write_active_validator_count C" for C
  by unfold_locales (simp_all add: cell_defs read_u64_state_def)

interpretation ms_threshold: state_cell "multisig_threshold_key C" "\<lambda>_. True" "read_multisig_threshold C"
  "write_multisig_threshold C" for C
  by unfold_locales (simp_all add: read_multisig_threshold_def write_multisig_threshold_def smt.get_ins)

text \<open>Accounts and nonces are cells of their address.\<close>

lemma account_to_bytes_nonempty: "account_to_bytes a \<noteq> []"
  by (simp add: account_to_bytes_def Let_def)

lemma account_read_back: "account_wf a \<Longrightarrow> account_from_bytes (account_to_bytes a) = Some a"
proof -
  have "account_type_from_u8 (account_type_to_u8 t) = Some t" for t
    by (cases t) (simp_all add: account_type_from_u8_def)
  then show "account_wf a \<Longrightarrow> account_from_bytes (account_to_bytes a) = Some a"
    using auth_keys_roundtrip [of "acc_auth_keys a"]
    by (simp add: account_from_bytes_def account_to_bytes_def Let_def byte_range_def account_wf_def
        from_to_le_bytes unat_of_nat_u32 nth_append)
qed

interpretation acct: state_cell "balance_key C addr" "\<lambda>a. account_wf a \<and> acc_address a = addr"
  "\<lambda>s. load_account C s addr" "store_account C" for C addr
  by unfold_locales
    (auto simp: load_account_def store_account_def smt.get_ins account_read_back account_to_bytes_nonempty)

lemma nonce_to_bytes_nonempty: "nonce_to_bytes ns \<noteq> []"
proof -
  have "length (nonce_to_bytes ns) = 10" by (simp add: nonce_to_bytes_def)
  then show ?thesis by auto
qed

interpretation nonces: state_cell "nonce_key C addr" "\<lambda>_. True" "\<lambda>s. load_nonce C s addr" "store_nonce C addr" for C addr
  by unfold_locales
    (auto simp: load_nonce_def store_nonce_def smt.get_ins nonce_bytes_roundtrip nonce_to_bytes_nonempty)

section \<open>Validator records round trip\<close>

definition validator_entry_wf :: "validator_entry \<Rightarrow> bool" where
  "validator_entry_wf e \<longleftrightarrow> length (ve_pk e) = 897 \<and> (ve_exit_block e \<noteq> None \<longleftrightarrow> ve_status e = 1)
     \<and> (case ve_kem_pk e of None \<Rightarrow> True | Some k \<Rightarrow> k \<noteq> [] \<and> length k < 2 ^ 32)"

lemma entry_kem_pk_encode:
  assumes "case k of None \<Rightarrow> True | Some k \<Rightarrow> k \<noteq> [] \<and> length k < 2 ^ 32"
  shows "entry_kem_pk (to_le_bytes 4 (of_nat (length (unwrap_or [] k)) :: u32) @ unwrap_or [] k) = k"
  using assms by (cases k) (simp_all add: entry_kem_pk_def from_to_le_bytes unat_of_nat_u32)

lemma entry_read_back:
  assumes "validator_entry_wf e"
  shows "validator_entry_decode (validator_entry_encode e) = Some e"
proof -
  let ?t = "to_le_bytes 4 (of_nat (length (unwrap_or [] (ve_kem_pk e))) :: u32) @ unwrap_or [] (ve_kem_pk e)"
  have t: "entry_kem_pk ?t = ve_kem_pk e"
    using assms by (intro entry_kem_pk_encode) (simp add: validator_entry_wf_def)
  have pk: "length (ve_pk e) = 897" using assms by (simp add: validator_entry_wf_def)
  show ?thesis
  proof (cases "ve_exit_block e")
    case None
    then have "ve_status e \<noteq> 1" using assms by (simp add: validator_entry_wf_def)
    then show ?thesis using pk None t
      by (simp add: validator_entry_decode_def validator_entry_encode_def VALIDATOR_ENTRY_BASE_LEN_def byte_range_def
          from_to_le_bytes nth_append Let_def)
  next
    case (Some eb)
    then have "ve_status e = 1" using assms by (auto simp: validator_entry_wf_def)
    then show ?thesis using pk Some t
      by (simp add: validator_entry_decode_def validator_entry_encode_def VALIDATOR_ENTRY_BASE_LEN_def byte_range_def
          from_to_le_bytes nth_append Let_def)
  qed
qed

section \<open>Deltas\<close>

lemma sint_nonneg_iff: "0 \<le> sint (w :: u128) \<longleftrightarrow> unat w < 2 ^ 127"
proof -
  have u: "int (unat w) = uint w" by simp
  have lt: "uint w < 2 ^ 128" using uint_lt2p [of w] by simp
  have s: "sint w = (uint w + 2 ^ 127) mod 2 ^ 128 - 2 ^ 127"
    by (simp add: sint_uint signed_take_bit_eq_take_bit_shift take_bit_eq_mod)
  show ?thesis
  proof (cases "uint w < 2 ^ 127")
    case True
    then have "(uint w + 2 ^ 127) mod 2 ^ 128 = uint w + 2 ^ 127" by (intro mod_pos_pos_trivial) simp_all
    moreover have "unat w < 2 ^ 127" using True u by (metis of_nat_less_iff of_nat_numeral of_nat_power)
    ultimately show ?thesis using s by simp
  next
    case False
    then have "(uint w + 2 ^ 127) mod 2 ^ 128 = uint w + 2 ^ 127 - 2 ^ 128"
      using lt by (subst mod_pos_geq) (auto intro: mod_pos_pos_trivial)
    moreover have "\<not> unat w < 2 ^ 127" using False u by (metis of_nat_less_iff of_nat_numeral of_nat_power)
    ultimately show ?thesis using s lt by simp
  qed
qed

lemma unat_minus_u128: "unat (- w :: u128) = (if w = 0 then 0 else 2 ^ 128 - unat w)"
  using unat_sub_if' [of 0 w] by (simp add: unat_eq_zero)

text \<open>
  For balances below \<open>2 ^ 127\<close>, the delta lands on whatever the cell holds by now as if the
  arithmetic were unbounded.
\<close>

lemma apply_delta_exact:
  assumes "unat initial < 2 ^ 127" "unat final < 2 ^ 127" "unat current + unat final < 2 ^ 128 + unat initial"
    and "unat initial \<le> unat current + unat final"
  shows "unat (apply_delta initial final current) = unat current + unat final - unat initial"
proof (cases "initial \<le> final")
  case True
  then have d: "unat (final - initial) = unat final - unat initial" "unat initial \<le> unat final"
    by (simp_all add: unat_sub word_le_nat_alt)
  then have "unat (final - initial) < 2 ^ 127" using assms(2) by linarith
  then show ?thesis using assms(3,4) d
    by (simp add: apply_delta_def Let_def sint_nonneg_iff unat_saturating_add)
next
  case False
  then have lt: "unat final < unat initial" by (simp add: word_le_nat_alt)
  have neg: "unat (initial - final) = unat initial - unat final"
    using False by (simp add: unat_sub)
  have "final - initial = - (initial - final)" by simp
  then have "unat (final - initial) = 2 ^ 128 - (unat initial - unat final)"
    using lt neg by (simp only: unat_minus_u128) auto
  then have "\<not> unat (final - initial) < 2 ^ 127" using assms(1) lt by simp
  then show ?thesis using neg lt
    by (simp add: apply_delta_def Let_def sint_nonneg_iff unat_saturating_sub)
qed

section \<open>A hash for the examples\<close>

text \<open>
  The first and the last block and the length: enough to tell apart the keys that occur in a
  concrete state.
\<close>

definition tagged_crypto :: crypto_lib where
  "tagged_crypto = accepting_crypto\<lparr>sponge := \<lambda>xs. (xs ! 0, xs ! (length xs - 2), xs ! (length xs - 1), 0)\<rparr>"

lemma last_last_chunks: "n \<noteq> 0 \<Longrightarrow> d \<noteq> [] \<Longrightarrow> last (last (chunks n d)) = last d \<and> length (last (chunks n d)) \<le> n"
proof (induction n d rule: chunks.induct)
  case (1 n d)
  show ?case
  proof (cases "drop n d = []")
    case True
    then have "chunks n d = [take n d]" "take n d = d" using chunks_Cons [OF 1(2,3)] by simp_all
    then show ?thesis using True by simp
  next
    case False
    then have "last (chunks n d) = last (chunks n (drop n d))" "last (drop n d) = last d"
      using chunks_Cons [OF 1(2,3)] 1(2) by (simp_all add: last_drop)
    then show ?thesis using 1 False by simp
  qed
qed

lemma length_last_chunk:
  "n \<noteq> 0 \<Longrightarrow> length (d :: bytes) = length (d' :: bytes) \<Longrightarrow> length (last (chunks n d)) = length (last (chunks n d'))"
proof (induction n d arbitrary: d' rule: chunks.induct)
  case (1 n d)
  show ?case
  proof (cases "d = []")
    case True
    then have "d' = []" using 1(3) by simp
    then show ?thesis using True by simp
  next
    case False
    then have ne: "d' \<noteq> []" using 1(3) by auto
    have "length (last (chunks n (drop n d))) = length (last (chunks n (drop n d')))"
      using 1 False by simp
    moreover have "drop n d = [] \<longleftrightarrow> drop n d' = []" using 1(3) by simp
    ultimately show ?thesis
      using chunks_Cons [OF 1(2) False] chunks_Cons [OF 1(2) ne] 1(2,3) by simp
  qed
qed

lemma tagged_hash:
  assumes "d \<noteq> []"
  shows "poseidon2_hash tagged_crypto d = elements_to_hash
    (u64_to_goldilocks (from_le_bytes (pad_to 8 (take 7 d))),
     u64_to_goldilocks (from_le_bytes (pad_to 8 (last (chunks 7 d)))), u64_to_goldilocks (of_nat (length d)), 0)"
proof -
  have "chunks 7 d = take 7 d # chunks 7 (drop 7 d)" using assms by (simp add: chunks_Cons)
  then show ?thesis using assms
    by (simp add: poseidon2_hash_def tagged_crypto_def accepting_crypto_def bytes_to_elements_def nth_append last_conv_nth)
qed

lemma tagged_hash_eqD:
  assumes "poseidon2_hash tagged_crypto d = poseidon2_hash tagged_crypto d'" "d \<noteq> []" "d' \<noteq> []"
    and "length d < 2 ^ 63" "length d' < 2 ^ 63"
  shows "length d = length d' \<and> take 7 d = take 7 d' \<and> last d = last d'"
proof -
  let ?el = "\<lambda>c. u64_to_goldilocks (from_le_bytes (pad_to 8 c))"
  have eqs: "?el (take 7 d) = ?el (take 7 d')" "?el (last (chunks 7 d)) = ?el (last (chunks 7 d'))"
    "u64_to_goldilocks (of_nat (length d)) = u64_to_goldilocks (of_nat (length d'))"
    using assms(1-3) by (simp_all add: tagged_hash)
  have "unat (of_nat (length xs) :: u64) = length xs" if "length xs < 2 ^ 63" for xs :: bytes
    using that by (simp add: unat_of_nat)
  then have len: "length d = length d'" using eqs(3) assms(4,5) by (metis u64_to_goldilocks_id)
  have "take 7 d = take 7 d'" by (rule chunk_inject [OF _ _ eqs(1)]) (simp_all add: len)
  moreover have "last (chunks 7 d) = last (chunks 7 d')"
    using last_last_chunks [of 7 d] assms(2)
    by (intro chunk_inject [OF _ _ eqs(2)] length_last_chunk) (simp_all add: len)
  then have "last d = last d'" using last_last_chunks [of 7] assms(2,3) by (metis zero_neq_numeral)
  ultimately show ?thesis using len by simp
qed

lemma tagged_hash_neq:
  "length d \<noteq> length d' \<or> take 7 d \<noteq> take 7 d' \<or> last d \<noteq> last d' \<Longrightarrow> d \<noteq> [] \<Longrightarrow> d' \<noteq> [] \<Longrightarrow>
   length d < 2 ^ 63 \<Longrightarrow> length d' < 2 ^ 63 \<Longrightarrow> poseidon2_hash tagged_crypto d \<noteq> poseidon2_hash tagged_crypto d'"
  using tagged_hash_eqD by blast

end
