(* ===== verification/Handlers.thy ===== *)
theory Handlers
  imports Ledger
begin

text \<open>
  The handlers of the special transaction types (\<open>crates/tx/src/pipeline.rs\<close>): staking, rewards,
  slashing, airdrop, treasury multisig and emergency pause. Each returns what the pipeline needs
  (success, gas used, gas refund, logs, return data) and the new state.
\<close>

record block_context =
  bc_height :: u64
  bc_timestamp :: u64
  bc_base_fee :: u128
  bc_block_gas_limit :: u64
  bc_chain_id :: u64
  bc_validator_address :: bytes
  bc_dev_skip_signature :: bool
  bc_block_sigs_pre_verified :: bool

type_synonym handler_result = "bool \<times> u64 \<times> u64 \<times> log_entry list \<times> bytes"

definition failed :: "u64 \<Rightarrow> bytes \<Rightarrow> handler_result" where
  "failed gas msg = (False, gas, 0, [], msg)"

definition succeeded :: "u64 \<Rightarrow> bytes \<Rightarrow> handler_result" where
  "succeeded gas ret = (True, gas, 0, [], ret)"

section \<open>Staking\<close>

definition execute_stake_deposit ::
  "crypto_lib \<Rightarrow> transaction \<Rightarrow> u128 \<Rightarrow> store \<Rightarrow> handler_result \<times> u128 \<times> store" where
  "execute_stake_deposit C tx sender_balance smt =
     (if sender_balance < VALIDATOR_STAKE
      then (failed 21000 (ascii ''insufficient balance for stake deposit''), sender_balance, smt)
      else if length (tx_data tx) < 897
      then (failed 21000 (ascii ''tx.data must contain FALCON public key (897 bytes)''), sender_balance, smt)
      else
        let pk_bytes = take 897 (tx_data tx)
        in if derive_eoa_address C pk_bytes \<noteq> tx_from tx
           then (failed 21000 (ascii ''public key does not match sender address''), sender_balance, smt)
           else if smt_get smt (validator_key C (tx_from tx)) \<noteq> None
           then (failed 21000 (ascii ''already registered as validator''), sender_balance, smt)
           else
             let val_data = to_le_bytes 4 (897 :: u32) @ pk_bytes @ to_le_bytes 16 VALIDATOR_STAKE @ [0]
                   @ to_le_bytes 16 (read_rewards_per_validator C smt);
                 smt = smt_insert (validator_key C (tx_from tx)) val_data smt;
                 count = unwrap_or 0 (read_u64_state smt (validator_count_key C));
                 smt = smt_insert (validator_count_key C) (to_le_bytes 8 (count + 1)) smt;
                 smt = smt_insert (validator_index_key C count) (tx_from tx) smt;
                 smt = increment_active_validator_count C smt
             in (succeeded 50000 (tx_from tx), sender_balance - VALIDATOR_STAKE, smt))"

definition execute_stake_withdraw ::
  "crypto_lib \<Rightarrow> transaction \<Rightarrow> block_context \<Rightarrow> store \<Rightarrow> handler_result \<times> store" where
  "execute_stake_withdraw C tx bc smt =
     (case smt_get smt (validator_key C (tx_from tx)) of
        None \<Rightarrow> (failed 21000 (ascii ''not a registered validator''), smt)
      | Some val_data \<Rightarrow>
          (case validator_entry_decode val_data of
             None \<Rightarrow> (failed 21000 (ascii ''invalid validator entry''), smt)
           | Some entry \<Rightarrow>
               if ve_status entry = 0 then
                 let entry = entry\<lparr>ve_status := 1, ve_exit_block := Some (bc_height bc)\<rparr>;
                     smt = smt_insert (validator_key C (tx_from tx)) (validator_entry_encode entry) smt
                 in (succeeded 50000 [], decrement_active_validator_count C smt)
               else (failed 21000 (ascii ''validator is not active''), smt)))"

definition execute_claim_reward ::
  "crypto_lib \<Rightarrow> transaction \<Rightarrow> u128 \<Rightarrow> store \<Rightarrow> handler_result \<times> u128 \<times> store" where
  "execute_claim_reward C tx sender_balance smt =
     (case smt_get smt (validator_key C (tx_from tx)) of
        None \<Rightarrow> (failed 21000 (ascii ''not a registered validator''), sender_balance, smt)
      | Some val_data \<Rightarrow>
          (case validator_entry_decode val_data of
             None \<Rightarrow> (failed 21000 (ascii ''validator entry corrupt''), sender_balance, smt)
           | Some entry \<Rightarrow>
               if ve_status entry = 2
               then (failed 21000 (ascii ''validator has exited; no further claims''), sender_balance, smt)
               else
                 let current = read_rewards_per_validator C smt;
                     owed = saturating_sub current (ve_last_claimed_at entry)
                 in if 0 < owed
                    then (succeeded 21000 (to_le_bytes 16 owed), saturating_add sender_balance owed,
                          smt_insert (validator_key C (tx_from tx))
                            (validator_entry_encode (entry\<lparr>ve_last_claimed_at := current\<rparr>)) smt)
                    else (succeeded 21000 (to_le_bytes 16 owed), sender_balance, smt)))"

section \<open>Slashing\<close>

definition EVIDENCE_VERSION :: u8 where "EVIDENCE_VERSION = 1"

definition truncated :: "nat \<Rightarrow> bytes + 'a" where
  "truncated pos = Inl (ascii ''evidence truncated at offset '' @ ascii (decimal pos))"

definition decode_slash_evidence :: "bytes \<Rightarrow> bytes + double_sign_evidence" where
  "decode_slash_evidence d =
     (if length d < 1 then truncated 0
      else if d ! 0 \<noteq> EVIDENCE_VERSION then Inl (ascii ''unsupported evidence version: '' @ show_word (d ! 0))
      else if length d < 9 then truncated 1
      else if length d < 41 then truncated 9
      else if length d < 45 then truncated 41
      else
        let p = 45 + unat (from_le_bytes (byte_range 41 45 d) :: u32)
        in if length d < p then truncated 45
           else if length d < p + 32 then truncated p
           else if length d < p + 36 then truncated (p + 32)
           else
             let q = p + 36 + unat (from_le_bytes (byte_range (p + 32) (p + 36) d) :: u32)
             in if length d < q then truncated (p + 36)
                else if length d < q + 32 then truncated q
                else if length d < q + 64 then truncated (q + 32)
                else Inr \<lparr>ds_slot = from_le_bytes (byte_range 1 9 d), ds_block_hash_1 = byte_range 9 41 d,
                          ds_signature_1 = byte_range 45 p d, ds_block_hash_2 = byte_range p (p + 32) d,
                          ds_signature_2 = byte_range (p + 36) q d, ds_signer = byte_range q (q + 32) d,
                          ds_submitter = byte_range (q + 32) (q + 64) d\<rparr>)"

text \<open>The pipeline's own copy of the message that proposers and voters sign.\<close>

definition proposer_sign_message_bytes :: "u64 \<Rightarrow> u64 \<Rightarrow> bytes \<Rightarrow> bytes" where
  "proposer_sign_message_bytes chain_id slot bhash = to_le_bytes 8 chain_id @ to_le_bytes 8 slot @ bhash"

definition evidence_error :: "crypto_lib \<Rightarrow> u64 \<Rightarrow> double_sign_evidence \<Rightarrow> bytes \<Rightarrow> string option" where
  "evidence_error C chain_id ev pk_bytes =
     (case falcon_pk_from_bytes pk_bytes of
        None \<Rightarrow> Some ''validator public key is malformed''
      | Some pk \<Rightarrow>
          (case falcon_sig_from_bytes (ds_signature_1 ev) of
             None \<Rightarrow> Some ''signature_1 malformed''
           | Some sig_1 \<Rightarrow>
               (case falcon_sig_from_bytes (ds_signature_2 ev) of
                  None \<Rightarrow> Some ''signature_2 malformed''
                | Some sig_2 \<Rightarrow>
                    if \<not> falcon_verify C pk (proposer_sign_message_bytes chain_id (ds_slot ev) (ds_block_hash_1 ev)) sig_1
                       \<or> \<not> falcon_verify C pk (proposer_sign_message_bytes chain_id (ds_slot ev) (ds_block_hash_2 ev)) sig_2
                    then Some ''evidence signatures failed FALCON verification'' else None)))"

definition execute_slash ::
  "crypto_lib \<Rightarrow> u64 \<Rightarrow> transaction \<Rightarrow> u128 \<Rightarrow> store \<Rightarrow> handler_result \<times> u128 \<times> store" where
  "execute_slash C chain_id tx submitter_balance smt =
     (case decode_slash_evidence (tx_data tx) of
        Inl e \<Rightarrow> (failed 21000 e, submitter_balance, smt)
      | Inr ev \<Rightarrow>
          if ds_block_hash_1 ev = ds_block_hash_2 ev
          then (failed 21000 (ascii ''evidence blocks must differ''), submitter_balance, smt)
          else
            (case smt_get smt (validator_key C (ds_signer ev)) of
               None \<Rightarrow> (failed 21000 (ascii ''accused signer is not a registered validator''), submitter_balance, smt)
             | Some val_data \<Rightarrow>
                 (case validator_entry_decode val_data of
                    None \<Rightarrow> (failed 21000 (ascii ''corrupt validator entry''), submitter_balance, smt)
                  | Some entry \<Rightarrow>
                      if ve_status entry = 2
                      then (failed 21000 (ascii ''signer already ejected''), submitter_balance, smt)
                      else
                        (case evidence_error C chain_id ev (ve_pk entry) of
                           Some e \<Rightarrow> (failed 21000 (ascii e), submitter_balance, smt)
                         | None \<Rightarrow>
                             let slash_amount = min (ve_stake entry) VALIDATOR_STAKE;
                                 finder_fee = slash_amount * FINDER_FEE_PERCENT div 100;
                                 entry' = entry\<lparr>ve_stake := saturating_sub (ve_stake entry) slash_amount,
                                                ve_status := 2, ve_exit_block := None\<rparr>;
                                 smt = smt_insert (validator_key C (ds_signer ev)) (validator_entry_encode entry') smt
                             in (succeeded 100000 (ds_signer ev), saturating_add submitter_balance finder_fee,
                                 if ve_status entry = 0 then decrement_active_validator_count C smt else smt)))))"

section \<open>Airdrop\<close>

definition AIRDROP_CLAIM_BASE_GAS :: u64 where "AIRDROP_CLAIM_BASE_GAS = 30000"
definition AIRDROP_CLAIM_PER_LEVEL_GAS :: u64 where "AIRDROP_CLAIM_PER_LEVEL_GAS = 5000"
definition AIRDROP_SWEEP_GAS :: u64 where "AIRDROP_SWEEP_GAS = 40000"

definition claim_refusal :: "crypto_lib \<Rightarrow> transaction \<Rightarrow> block_context \<Rightarrow> claim_payload \<Rightarrow> store \<Rightarrow> string option" where
  "claim_refusal C tx bc p smt =
     (case read_airdrop_deadline C smt of
        None \<Rightarrow> Some ''airdrop not configured''
      | Some deadline \<Rightarrow>
          if deadline < bc_height bc then Some ''airdrop deadline passed''
          else
            (case read_airdrop_root C smt of
               None \<Rightarrow> Some ''airdrop root missing''
             | Some root \<Rightarrow>
                 if is_airdrop_claimed C smt (leaf_index p) then Some ''airdrop leaf already claimed''
                 else if \<not> verify_proof C (leaf_index p) (tx_from tx) (claim_amount p) (claim_proof p) root
                 then Some ''airdrop proof invalid''
                 else if acc_balance (load_account C smt (airdrop_pool_address C)) < claim_amount p
                 then Some ''airdrop pool insufficient'' else None))"

definition execute_claim_airdrop ::
  "crypto_lib \<Rightarrow> transaction \<Rightarrow> block_context \<Rightarrow> u128 \<Rightarrow> store \<Rightarrow> handler_result \<times> u128 \<times> store" where
  "execute_claim_airdrop C tx bc sender_balance smt =
     (case claim_decode (tx_data tx) of
        None \<Rightarrow> (failed AIRDROP_CLAIM_BASE_GAS (ascii ''airdrop payload malformed''), sender_balance, smt)
      | Some p \<Rightarrow>
          let gas = saturating_add AIRDROP_CLAIM_BASE_GAS
                (saturating_mul AIRDROP_CLAIM_PER_LEVEL_GAS (of_nat (length (claim_proof p))))
          in if tx_gas_limit tx < gas
             then (failed (tx_gas_limit tx) (ascii ''airdrop claim gas_limit below required cost''), sender_balance, smt)
             else
               (case claim_refusal C tx bc p smt of
                  Some e \<Rightarrow> (failed gas (ascii e), sender_balance, smt)
                | None \<Rightarrow>
                    let pool = load_account C smt (airdrop_pool_address C)
                    in (case try_store_account C (pool\<lparr>acc_balance := acc_balance pool - claim_amount p\<rparr>) smt of
                          Inl _ \<Rightarrow> (failed gas (ascii ''airdrop pool write failed''), sender_balance, smt)
                        | Inr smt \<Rightarrow>
                            (succeeded gas (to_le_bytes 16 (claim_amount p)),
                             saturating_add sender_balance (claim_amount p),
                             mark_airdrop_claimed C (leaf_index p) smt))))"

definition execute_sweep_airdrop ::
  "crypto_lib \<Rightarrow> transaction \<Rightarrow> block_context \<Rightarrow> store \<Rightarrow> handler_result \<times> store" where
  "execute_sweep_airdrop C tx bc smt =
     (if tx_gas_limit tx < AIRDROP_SWEEP_GAS
      then (failed (tx_gas_limit tx) (ascii ''sweep gas_limit below required cost''), smt)
      else
        (case read_airdrop_deadline C smt of
           None \<Rightarrow> (failed AIRDROP_SWEEP_GAS (ascii ''airdrop not configured''), smt)
         | Some deadline \<Rightarrow>
             if bc_height bc \<le> deadline then (failed AIRDROP_SWEEP_GAS (ascii ''airdrop still active''), smt)
             else
               let pool = load_account C smt (airdrop_pool_address C); residue = acc_balance pool
               in if residue = 0 then (succeeded AIRDROP_SWEEP_GAS [], smt)
                  else
                    let treasury = load_account C smt (treasury_address C);
                        write_failed = failed AIRDROP_SWEEP_GAS (ascii ''sweep state write failed'')
                    in (case try_store_account C (pool\<lparr>acc_balance := 0\<rparr>) smt of
                          Inl _ \<Rightarrow> (write_failed, smt)
                        | Inr smt \<Rightarrow>
                            (case try_store_account C
                                 (treasury\<lparr>acc_balance := saturating_add (acc_balance treasury) residue\<rparr>) smt of
                               Inl _ \<Rightarrow> (write_failed, smt)
                             | Inr smt \<Rightarrow> (succeeded AIRDROP_SWEEP_GAS (to_le_bytes 16 residue), smt)))))"

section \<open>Treasury multisig\<close>

definition MULTISIG_SPEND_BASE_GAS :: u64 where "MULTISIG_SPEND_BASE_GAS = 50000"
definition MULTISIG_PER_SIG_GAS :: u64 where "MULTISIG_PER_SIG_GAS = 50000"
definition MULTISIG_ROTATE_BASE_GAS :: u64 where "MULTISIG_ROTATE_BASE_GAS = 60000"
definition MULTISIG_ROTATE_PER_NEW_SIGNER_GAS :: u64 where "MULTISIG_ROTATE_PER_NEW_SIGNER_GAS = 10000"

definition per_sig_gas :: "u64 \<Rightarrow> sig_entry list \<Rightarrow> u64" where
  "per_sig_gas base sigs = saturating_add base (saturating_mul MULTISIG_PER_SIG_GAS (of_nat (length sigs)))"

fun count_error_message :: "count_error \<Rightarrow> string" where
  "count_error_message SignerIndexOutOfBounds = ''signer_index out of bounds''"
| "count_error_message DuplicateSignerIndex = ''duplicate signer_index in payload''"

text \<open>
  \<open>multisig_ok\<close>, and the same test inlined in the spend and rotate handlers, which differ in the
  first word of one message.
\<close>

definition multisig_ok ::
  "crypto_lib \<Rightarrow> string \<Rightarrow> store \<Rightarrow> sig_entry list \<Rightarrow> bytes \<Rightarrow> u64 \<Rightarrow> handler_result + unit" where
  "multisig_ok C what smt sigs signing_bytes gas =
     (case read_multisig_signers C smt of
        None \<Rightarrow> Inl (failed gas (ascii ''multisig not configured''))
      | Some signer_pks \<Rightarrow>
          let threshold = read_multisig_threshold C smt
          in if threshold = 0 then Inl (failed gas (ascii ''multisig threshold = 0''))
             else
               (case count_valid_sigs C sigs signer_pks signing_bytes of
                  Inl e \<Rightarrow> Inl (failed gas (ascii (count_error_message e)))
                | Inr valid \<Rightarrow>
                    if valid < unat threshold
                    then Inl (failed gas (ascii what @ ascii '' below threshold: '' @ ascii (decimal valid)
                           @ ascii '' valid of '' @ show_word threshold @ ascii '' required''))
                    else Inr ()))"

definition spend_refusal :: "crypto_lib \<Rightarrow> transaction \<Rightarrow> multisig_spend \<Rightarrow> string option" where
  "spend_refusal C tx spend =
     (if spend_value spend = 0 then Some ''multisig value must be > 0''
      else if spend_target spend = replicate 32 0 then Some ''multisig target must not be zero''
      else if spend_target spend = treasury_address C then Some ''multisig cannot spend to treasury itself''
      else if spend_target spend = tx_from tx then Some ''multisig target must not be the submitter''
      else if tx_to tx \<noteq> replicate 32 0 then Some ''MultisigTx must set tx.to = ZERO_ADDRESS''
      else None)"

definition execute_multisig_spend ::
  "crypto_lib \<Rightarrow> transaction \<Rightarrow> block_context \<Rightarrow> store \<Rightarrow> handler_result \<times> store" where
  "execute_multisig_spend C tx bc smt =
     (case multisig_decode (tx_data tx) of
        None \<Rightarrow> (failed MULTISIG_SPEND_BASE_GAS (ascii ''multisig payload malformed''), smt)
      | Some (Rotate _ _) \<Rightarrow> (failed MULTISIG_SPEND_BASE_GAS (ascii ''wrong payload tag for MultisigTx''), smt)
      | Some (Spend spend sigs) \<Rightarrow>
          let gas = per_sig_gas MULTISIG_SPEND_BASE_GAS sigs
          in if tx_gas_limit tx < gas
             then (failed (tx_gas_limit tx) (ascii ''multisig gas_limit below required cost''), smt)
             else
               (case spend_refusal C tx spend of
                  Some e \<Rightarrow> (failed gas (ascii e), smt)
                | None \<Rightarrow>
                    let nonce = read_multisig_nonce C smt;
                        msg = spend_signing_bytes C spend nonce (bc_chain_id bc)
                    in (case multisig_ok C ''multisig'' smt sigs msg gas of
                          Inl e \<Rightarrow> (e, smt)
                        | Inr _ \<Rightarrow>
                            let treasury = load_account C smt (treasury_address C)
                            in if acc_balance treasury < spend_value spend
                               then (failed gas (ascii ''treasury balance insufficient''), smt)
                               else
                                 let target = load_account C smt (spend_target spend);
                                     write_failed = failed gas (ascii ''multisig state write failed'')
                                 in (case try_store_account C (treasury\<lparr>acc_balance := acc_balance treasury - spend_value spend\<rparr>) smt of
                                       Inl _ \<Rightarrow> (write_failed, smt)
                                     | Inr smt \<Rightarrow>
                                         (case try_store_account C
                                              (target\<lparr>acc_balance := saturating_add (acc_balance target) (spend_value spend)\<rparr>) smt of
                                            Inl _ \<Rightarrow> (write_failed, smt)
                                          | Inr smt \<Rightarrow>
                                              (succeeded gas (to_le_bytes 16 (spend_value spend)),
                                               write_multisig_nonce C (saturating_add nonce 1) smt))))))"

fun check_new_pks :: "bytes list \<Rightarrow> bytes list \<Rightarrow> string option" where
  "check_new_pks seen [] = None"
| "check_new_pks seen (pk # pks) =
     (if falcon_pk_from_bytes pk = None then Some ''rotate contains malformed pk''
      else if pk \<in> set seen then Some ''rotate contains duplicate pk''
      else check_new_pks (seen @ [pk]) pks)"

definition rotate_refusal :: "multisig_rotate \<Rightarrow> string option" where
  "rotate_refusal r =
     (if new_signer_pks r = [] \<or> unat MAX_SIGNERS < length (new_signer_pks r)
      then Some ''rotate signer count out of range''
      else if new_threshold r = 0 \<or> length (new_signer_pks r) < unat (new_threshold r)
      then Some ''rotate threshold invalid''
      else check_new_pks [] (new_signer_pks r))"

definition execute_rotate_multisig ::
  "crypto_lib \<Rightarrow> transaction \<Rightarrow> block_context \<Rightarrow> store \<Rightarrow> (handler_result \<times> store) option" where
  "execute_rotate_multisig C tx bc smt =
     (case multisig_decode (tx_data tx) of
        None \<Rightarrow> Some (failed MULTISIG_ROTATE_BASE_GAS (ascii ''multisig payload malformed''), smt)
      | Some (Spend _ _) \<Rightarrow> Some (failed MULTISIG_ROTATE_BASE_GAS (ascii ''wrong payload tag for RotateMultisig''), smt)
      | Some (Rotate r sigs) \<Rightarrow>
          let gas = saturating_add (per_sig_gas MULTISIG_ROTATE_BASE_GAS sigs)
                (saturating_mul MULTISIG_ROTATE_PER_NEW_SIGNER_GAS (of_nat (length (new_signer_pks r))))
          in if tx_gas_limit tx < gas
             then Some (failed (tx_gas_limit tx) (ascii ''multisig rotate gas_limit below required cost''), smt)
             else
               (case rotate_refusal r of
                  Some e \<Rightarrow> Some (failed gas (ascii e), smt)
                | None \<Rightarrow>
                    let nonce = read_multisig_nonce C smt;
                        msg = rotate_signing_bytes C r nonce (bc_chain_id bc)
                    in (case multisig_ok C ''rotate'' smt sigs msg gas of
                          Inl e \<Rightarrow> Some (e, smt)
                        | Inr _ \<Rightarrow>
                            map_option (\<lambda>smt.
                              let smt = write_multisig_threshold C (new_threshold r) smt;
                                  smt = write_multisig_nonce C (saturating_add nonce 1) smt
                              in (succeeded gas [of_nat (length (new_signer_pks r)), new_threshold r], smt))
                              (write_multisig_signers C (new_signer_pks r) smt))))"

section \<open>Emergency pause\<close>

definition EMERGENCY_BASE_GAS :: u64 where "EMERGENCY_BASE_GAS = 40000"
definition MAX_PAUSE_DURATION_SLOTS :: u64 where "MAX_PAUSE_DURATION_SLOTS = 6500000"

definition execute_emergency_pause ::
  "crypto_lib \<Rightarrow> transaction \<Rightarrow> block_context \<Rightarrow> store \<Rightarrow> handler_result \<times> store" where
  "execute_emergency_pause C tx bc smt =
     (case pause_decode (tx_data tx) of
        None \<Rightarrow> (failed EMERGENCY_BASE_GAS (ascii ''pause payload malformed''), smt)
      | Some p \<Rightarrow>
          let gas = per_sig_gas EMERGENCY_BASE_GAS (pause_sigs p)
          in if tx_gas_limit tx < gas
             then (failed (tx_gas_limit tx) (ascii ''pause gas_limit below required cost''), smt)
             else if pause_duration_slots p = 0 \<or> MAX_PAUSE_DURATION_SLOTS < pause_duration_slots p
             then (failed gas (ascii ''pause duration_slots '' @ show_word (pause_duration_slots p)
                     @ ascii '' outside 1..='' @ show_word MAX_PAUSE_DURATION_SLOTS), smt)
             else if is_paused C smt (bc_height bc)
             then (failed gas (ascii ''chain already paused''), smt)
             else
               let nonce = read_multisig_nonce C smt;
                   msg = pause_signing_bytes C p nonce (bc_chain_id bc)
               in (case multisig_ok C ''emergency'' smt (pause_sigs p) msg gas of
                     Inl e \<Rightarrow> (e, smt)
                   | Inr _ \<Rightarrow>
                       let end_slot = saturating_add (bc_height bc) (pause_duration_slots p);
                           smt = write_emergency_pause_end_slot C end_slot smt;
                           smt = write_multisig_nonce C (saturating_add nonce 1) smt
                       in (succeeded gas (to_le_bytes 8 end_slot), smt)))"

definition execute_emergency_resume ::
  "crypto_lib \<Rightarrow> transaction \<Rightarrow> block_context \<Rightarrow> store \<Rightarrow> handler_result \<times> store" where
  "execute_emergency_resume C tx bc smt =
     (case resume_decode (tx_data tx) of
        None \<Rightarrow> (failed EMERGENCY_BASE_GAS (ascii ''resume payload malformed''), smt)
      | Some p \<Rightarrow>
          let gas = per_sig_gas EMERGENCY_BASE_GAS (resume_sigs p)
          in if tx_gas_limit tx < gas
             then (failed (tx_gas_limit tx) (ascii ''resume gas_limit below required cost''), smt)
             else if \<not> is_paused C smt (bc_height bc)
             then (failed gas (ascii ''chain already unpaused''), smt)
             else
               let nonce = read_multisig_nonce C smt;
                   msg = resume_signing_bytes C nonce (bc_chain_id bc)
               in (case multisig_ok C ''emergency'' smt (resume_sigs p) msg gas of
                     Inl e \<Rightarrow> (e, smt)
                   | Inr _ \<Rightarrow>
                       let smt = write_emergency_pause_end_slot C 0 smt;
                           smt = write_multisig_nonce C (saturating_add nonce 1) smt
                       in (succeeded gas [], smt)))"

section \<open>Failure changes nothing\<close>

lemma failed_succeeded [simp]: "fst (failed gas msg) = False" "fst (succeeded gas msg) = True" "failed g m \<noteq> succeeded g' m'"
  by (simp_all add: failed_def succeeded_def)

lemma handler_result_eq [simp]:
  "succeeded gas msg = (ok, g, r, l, m) \<longleftrightarrow> ok \<and> g = gas \<and> r = 0 \<and> l = [] \<and> m = msg"
  "failed gas msg = (ok, g, r, l, m) \<longleftrightarrow> \<not> ok \<and> g = gas \<and> r = 0 \<and> l = [] \<and> m = msg"
  by (auto simp: succeeded_def failed_def)

lemma multisig_ok_failed [simp]: "multisig_ok C what smt sigs msg gas \<noteq> Inl (True, g, r, l, m)"
  by (auto simp: multisig_ok_def Let_def split: option.splits sum.splits if_splits)

lemma check_new_pks_lengths: "check_new_pks seen pks = None \<Longrightarrow> \<forall>pk\<in>set pks. length pk = FALCON_PK_SIZE"
  by (induction pks arbitrary: seen) (simp_all add: falcon_pk_from_bytes_def split: if_splits)

lemma check_new_pks_distinct: "check_new_pks seen pks = None \<Longrightarrow> distinct pks \<and> set seen \<inter> set pks = {}"
proof (induction pks arbitrary: seen)
  case (Cons pk pks)
  then have "pk \<notin> set seen" "check_new_pks (seen @ [pk]) pks = None" by (simp_all split: if_splits)
  then show ?case using Cons.IH [of "seen @ [pk]"] by auto
qed simp

lemma rotate_ok_encodes: "rotate_refusal r = None \<Longrightarrow> encode_signer_set (new_signer_pks r) \<noteq> None"
  using check_new_pks_lengths [of "[]" "new_signer_pks r"]
  by (simp add: rotate_refusal_def encode_signer_set_def FALCON_PK_SIZE_def split: if_splits)

lemma rotate_atomic:
  "case execute_rotate_multisig C tx bc smt of None \<Rightarrow> False | Some res \<Rightarrow> fst (fst res) \<or> snd res = smt"
proof (cases "multisig_decode (tx_data tx)")
  case (Some p)
  show ?thesis
  proof (cases p)
    case (Rotate r sigs)
    have "rotate_refusal r = None \<Longrightarrow> \<exists>bs. encode_signer_set (new_signer_pks r) = Some bs"
      using rotate_ok_encodes by blast
    then show ?thesis
      by (auto simp: execute_rotate_multisig_def Some Rotate Let_def write_multisig_signers_def split: option.splits sum.splits)
  qed (simp add: execute_rotate_multisig_def Some)
qed (simp add: execute_rotate_multisig_def)

lemma spend_atomic: "case execute_multisig_spend C tx bc smt of (r, s') \<Rightarrow> fst r \<or> s' = smt"
  by (auto simp: execute_multisig_spend_def Let_def split: option.splits sum.splits multisig_payload.splits if_splits)

lemma pause_atomic: "case execute_emergency_pause C tx bc smt of (r, s') \<Rightarrow> fst r \<or> s' = smt"
  by (auto simp: execute_emergency_pause_def Let_def split: option.splits sum.splits if_splits)

lemma resume_atomic: "case execute_emergency_resume C tx bc smt of (r, s') \<Rightarrow> fst r \<or> s' = smt"
  by (auto simp: execute_emergency_resume_def Let_def split: option.splits sum.splits if_splits)

text \<open>
  C6: a handler that reports failure leaves the state and the balance as they were, whatever the
  branch it fails in; and installing a rotated signer set never reaches the assertion of its
  encoder. The state is the execution overlay (or the state manager), whose writes return \<open>Ok\<close>: the
  branches for a failed write, which would follow a first write in the sweep and the spend, are not
  reached there.
\<close>

theorem failed_handler_changes_nothing:
  "(case execute_stake_deposit C tx bal smt of (r, b', s') \<Rightarrow> fst r \<or> (b', s') = (bal, smt))
   \<and> (case execute_stake_withdraw C tx bc smt of (r, s') \<Rightarrow> fst r \<or> s' = smt)
   \<and> (case execute_claim_reward C tx bal smt of (r, b', s') \<Rightarrow> fst r \<or> (b', s') = (bal, smt))
   \<and> (case execute_slash C chain_id tx bal smt of (r, b', s') \<Rightarrow> fst r \<or> (b', s') = (bal, smt))
   \<and> (case execute_claim_airdrop C tx bc bal smt of (r, b', s') \<Rightarrow> fst r \<or> (b', s') = (bal, smt))
   \<and> (case execute_sweep_airdrop C tx bc smt of (r, s') \<Rightarrow> fst r \<or> s' = smt)
   \<and> (case execute_multisig_spend C tx bc smt of (r, s') \<Rightarrow> fst r \<or> s' = smt)
   \<and> (case execute_rotate_multisig C tx bc smt of None \<Rightarrow> False | Some res \<Rightarrow> fst (fst res) \<or> snd res = smt)
   \<and> (case execute_emergency_pause C tx bc smt of (r, s') \<Rightarrow> fst r \<or> s' = smt)
   \<and> (case execute_emergency_resume C tx bc smt of (r, s') \<Rightarrow> fst r \<or> s' = smt)"
proof (intro conjI)
  show "case execute_stake_deposit C tx bal smt of (r, b', s') \<Rightarrow> fst r \<or> (b', s') = (bal, smt)"
    by (simp add: execute_stake_deposit_def Let_def)
  show "case execute_stake_withdraw C tx bc smt of (r, s') \<Rightarrow> fst r \<or> s' = smt"
    by (simp add: execute_stake_withdraw_def Let_def split: option.splits)
  show "case execute_claim_reward C tx bal smt of (r, b', s') \<Rightarrow> fst r \<or> (b', s') = (bal, smt)"
    by (simp add: execute_claim_reward_def Let_def split: option.splits)
  show "case execute_slash C chain_id tx bal smt of (r, b', s') \<Rightarrow> fst r \<or> (b', s') = (bal, smt)"
    by (simp add: execute_slash_def Let_def split: option.splits sum.splits)
  show "case execute_claim_airdrop C tx bc bal smt of (r, b', s') \<Rightarrow> fst r \<or> (b', s') = (bal, smt)"
    by (simp add: execute_claim_airdrop_def Let_def split: option.splits)
  show "case execute_sweep_airdrop C tx bc smt of (r, s') \<Rightarrow> fst r \<or> s' = smt"
    by (simp add: execute_sweep_airdrop_def Let_def split: option.splits)
qed (rule rotate_atomic spend_atomic pause_atomic resume_atomic)+

section \<open>Treasury\<close>

text \<open>The account stored for an address is its own and decodes as it was written.\<close>

definition account_at :: "crypto_lib \<Rightarrow> store \<Rightarrow> bytes \<Rightarrow> bool" where
  "account_at C smt addr \<longleftrightarrow> account_wf (load_account C smt addr) \<and> acc_address (load_account C smt addr) = addr"

lemma empty_account_wf: "length addr = 32 \<Longrightarrow> account_wf (empty_account addr)"
  by (simp add: account_wf_def empty_account_def h256_zero_def)

lemma account_at_absent: "length addr = 32 \<Longrightarrow> smt_get smt (balance_key C addr) = None \<Longrightarrow> account_at C smt addr"
  by (simp add: account_at_def load_account_def empty_account_wf) (simp add: empty_account_def)

lemma account_wf_balance [simp]: "account_wf (a\<lparr>acc_balance := b\<rparr>) = account_wf a"
  by (simp add: account_wf_def)

lemma load_store_account:
  "account_wf a \<Longrightarrow> load_account C (store_account C a smt) (acc_address a) = a"
  by (simp add: acct.read_write)

lemma load_store_account_other:
  "account_wf a \<Longrightarrow> balance_key C addr \<noteq> balance_key C (acc_address a) \<Longrightarrow>
     load_account C (store_account C a smt) addr = load_account C smt addr"
  by (rule acct.read_local) (simp add: store_account_def smt.get_ins)

definition quorum :: "crypto_lib \<Rightarrow> store \<Rightarrow> sig_entry list \<Rightarrow> bytes \<Rightarrow> bool" where
  "quorum C smt sigs msg \<longleftrightarrow>
     (\<exists>pks. read_multisig_signers C smt = Some pks \<and> 0 < read_multisig_threshold C smt
        \<and> unat (read_multisig_threshold C smt) \<le> card (authorised_by C sigs pks msg))"

lemma count_valid_sigs_card: "count_valid_sigs C sigs pks msg = Inr n \<Longrightarrow> n = card (authorised_by C sigs pks msg)"
  using count_sigs_loop_spec [of "replicate 16 False" sigs 0 C pks msg]
  by (simp add: count_valid_sigs_def MAX_SIGNERS_def)

lemma multisig_ok_quorum: "multisig_ok C what smt sigs msg gas = Inr u \<Longrightarrow> quorum C smt sigs msg"
  by (auto simp: multisig_ok_def quorum_def Let_def word_gt_0 dest: count_valid_sigs_card
      split: option.splits sum.splits if_splits)

text \<open>
  C7: the treasury pays only what its signers ordered. A spend that succeeds has, for exactly its
  target, value and the current multisig nonce and chain, valid signatures of at least as many
  different signers as the threshold, which is not 0; it moves the value from the treasury to the
  target, advances the nonce, and writes no other key.
\<close>

theorem treasury_spend_authorised:
  assumes "execute_multisig_spend C tx bc smt = ((True, gas, refund, lgs, ret), smt')"
    and "multisig_decode (tx_data tx) = Some (Spend spend sigs)"
    and "account_at C smt (treasury_address C)" "account_at C smt (spend_target spend)"
    and "distinct [balance_key C (treasury_address C), balance_key C (spend_target spend), multisig_nonce_key C]"
    and "unat (acc_balance (load_account C smt (spend_target spend))) + unat (spend_value spend) < 2 ^ 128"
  shows "quorum C smt sigs (spend_signing_bytes C spend (read_multisig_nonce C smt) (bc_chain_id bc))
    \<and> unat (acc_balance (load_account C smt (treasury_address C)))
        = unat (acc_balance (load_account C smt' (treasury_address C))) + unat (spend_value spend)
    \<and> unat (acc_balance (load_account C smt' (spend_target spend)))
        = unat (acc_balance (load_account C smt (spend_target spend))) + unat (spend_value spend)
    \<and> read_multisig_nonce C smt' = saturating_add (read_multisig_nonce C smt) 1
    \<and> (\<forall>k. k \<notin> {balance_key C (treasury_address C), balance_key C (spend_target spend), multisig_nonce_key C}
         \<longrightarrow> smt_get smt' k = smt_get smt k)"
proof -
  let ?t = "load_account C smt (treasury_address C)" and ?a = "load_account C smt (spend_target spend)"
  let ?v = "spend_value spend" and ?n = "read_multisig_nonce C smt"
  let ?t' = "?t\<lparr>acc_balance := acc_balance ?t - ?v\<rparr>" and ?a' = "?a\<lparr>acc_balance := saturating_add (acc_balance ?a) ?v\<rparr>"
  let ?s1 = "store_account C ?t' smt"
  let ?s2 = "store_account C ?a' ?s1"
  have res: "multisig_ok C ''multisig'' smt sigs (spend_signing_bytes C spend ?n (bc_chain_id bc))
        (per_sig_gas MULTISIG_SPEND_BASE_GAS sigs) = Inr ()"
    "\<not> acc_balance ?t < ?v" "smt' = write_multisig_nonce C (saturating_add ?n 1) ?s2"
    using assms(1,2)
    by (auto simp: execute_multisig_spend_def Let_def split: option.splits sum.splits if_splits)
  have wf: "account_wf ?t'" "account_wf ?a'" "acc_address ?t' = treasury_address C" "acc_address ?a' = spend_target spend"
    using assms(3,4) by (simp_all add: account_at_def)
  have keys: "balance_key C (treasury_address C) \<noteq> balance_key C (spend_target spend)"
    "multisig_nonce_key C \<noteq> balance_key C (treasury_address C)" "multisig_nonce_key C \<noteq> balance_key C (spend_target spend)"
    using assms(5) by auto
  have frame: "smt_get smt' k = smt_get ?s2 k" if "k \<noteq> multisig_nonce_key C" for k
    using that res(3) by (simp add: ms_nonce.write_frame)
  have "load_account C smt' (treasury_address C) = load_account C ?s2 (treasury_address C)"
    by (rule acct.read_local) (use frame keys in auto)
  also have "\<dots> = load_account C ?s1 (treasury_address C)"
    using load_store_account_other [OF wf(2)] wf(4) keys(1) by simp
  also have "\<dots> = ?t'" using load_store_account [OF wf(1)] wf(3) by simp
  finally have t: "load_account C smt' (treasury_address C) = ?t'" .
  have "load_account C smt' (spend_target spend) = load_account C ?s2 (spend_target spend)"
    by (rule acct.read_local) (use frame keys in auto)
  also have "\<dots> = ?a'" using load_store_account [OF wf(2)] wf(4) by simp
  finally have a: "load_account C smt' (spend_target spend) = ?a'" .
  have "smt_get smt' k = smt_get smt k"
    if "k \<notin> {balance_key C (treasury_address C), balance_key C (spend_target spend), multisig_nonce_key C}" for k
    using that frame [of k] wf(3,4) by (simp add: store_account_def smt.get_ins)
  then show ?thesis
    using multisig_ok_quorum [OF res(1)] res(2,3) t a assms(6)
    by (auto simp: ms_nonce.read_write unat_saturating_add unat_sub word_less_nat_alt word_le_nat_alt)
qed

section \<open>Airdrop\<close>

text \<open>
  C8: an airdrop leaf is paid once, and only against a proof. A claim that succeeds was not claimed
  before, has a Merkle proof for the sender, the leaf and the amount, takes the amount from the pool
  and gives it to the sender; afterwards every claim of the same leaf is refused.
\<close>

theorem airdrop_paid_once:
  assumes "execute_claim_airdrop C tx bc bal smt = ((True, gas, refund, lgs, ret), bal', smt')"
    and "claim_decode (tx_data tx) = Some p" "account_at C smt (airdrop_pool_address C)"
    and "balance_key C (airdrop_pool_address C) \<noteq> airdrop_claimed_key C (leaf_index p)"
    and "claim_decode (tx_data tx2) = Some p2" "leaf_index p2 = leaf_index p"
  shows "\<not> is_airdrop_claimed C smt (leaf_index p)
    \<and> (\<exists>root. read_airdrop_root C smt = Some root
         \<and> verify_proof C (leaf_index p) (tx_from tx) (claim_amount p) (claim_proof p) root)
    \<and> unat (acc_balance (load_account C smt (airdrop_pool_address C)))
        = unat (acc_balance (load_account C smt' (airdrop_pool_address C))) + unat (claim_amount p)
    \<and> bal' = saturating_add bal (claim_amount p)
    \<and> \<not> fst (fst (execute_claim_airdrop C tx2 bc2 bal2 smt'))"
proof -
  let ?pool = "load_account C smt (airdrop_pool_address C)"
  let ?pool' = "?pool\<lparr>acc_balance := acc_balance ?pool - claim_amount p\<rparr>"
  have ok: "claim_refusal C tx bc p smt = None" "bal' = saturating_add bal (claim_amount p)"
    "smt' = mark_airdrop_claimed C (leaf_index p) (store_account C ?pool' smt)"
    using assms(1,2) by (auto simp: execute_claim_airdrop_def Let_def split: option.splits if_splits)
  have facts: "\<not> is_airdrop_claimed C smt (leaf_index p)" "\<not> acc_balance ?pool < claim_amount p"
    "\<exists>root. read_airdrop_root C smt = Some root
       \<and> verify_proof C (leaf_index p) (tx_from tx) (claim_amount p) (claim_proof p) root"
    using ok(1) by (auto simp: claim_refusal_def split: option.splits if_splits)
  have wf: "account_wf ?pool'" "acc_address ?pool' = airdrop_pool_address C"
    using assms(3) by (simp_all add: account_at_def)
  have "load_account C smt' (airdrop_pool_address C) = load_account C (store_account C ?pool' smt) (airdrop_pool_address C)"
    unfolding ok(3) mark_airdrop_claimed_def using assms(4) by (intro acct.read_other) simp
  then have "load_account C smt' (airdrop_pool_address C) = ?pool'"
    using load_store_account [OF wf(1), of C smt] wf(2) by simp
  then have pool: "unat (acc_balance ?pool) = unat (acc_balance (load_account C smt' (airdrop_pool_address C))) + unat (claim_amount p)"
    using facts(2) by (simp add: unat_sub word_less_nat_alt word_le_nat_alt)
  have "is_airdrop_claimed C smt' (leaf_index p2)"
    by (simp add: ok(3) assms(6) is_airdrop_claimed_def mark_airdrop_claimed_def smt.get_ins)
  then have "claim_refusal C tx2 bc2 p2 smt' \<noteq> None"
    by (auto simp: claim_refusal_def split: option.splits)
  then have "\<not> fst (fst (execute_claim_airdrop C tx2 bc2 bal2 smt'))"
    using assms(5) by (auto simp: execute_claim_airdrop_def Let_def)
  then show ?thesis using facts ok(2) pool by blast
qed

section \<open>Slashing\<close>

text \<open>The handler's own signature check is the one of the consensus layer.\<close>

lemma evidence_error_None:
  "ds_block_hash_1 ev \<noteq> ds_block_hash_2 ev \<Longrightarrow>
     evidence_error C chain_id ev pk = None \<longleftrightarrow> verify_double_sign C chain_id ev pk"
  by (auto simp: evidence_error_def verify_double_sign_def two_signatures_ok_def proposer_sign_message_bytes_def
      proposer_sign_message_def split: option.splits)

lemma decoded_entry_pk: "validator_entry_decode d = Some e \<Longrightarrow> length (ve_pk e) = 897"
  by (auto simp: validator_entry_decode_def VALIDATOR_ENTRY_BASE_LEN_def byte_range_def Let_def split: if_splits prod.splits)

lemma decoded_entry_kem:
  "validator_entry_decode d = Some e \<Longrightarrow> (case ve_kem_pk e of None \<Rightarrow> True | Some k \<Rightarrow> k \<noteq> [] \<and> length k < 2 ^ 32)"
proof -
  assume "validator_entry_decode d = Some e"
  then obtain t where "ve_kem_pk e = entry_kem_pk t"
    by (auto simp: validator_entry_decode_def Let_def split: if_splits prod.splits)
  moreover have "unat (w :: u32) < 2 ^ 32" for w using unat_lt_length [of w] by simp
  ultimately show ?thesis by (auto simp: entry_kem_pk_def Let_def split: if_splits)
qed

text \<open>
  C9: on-chain slashing agrees with consensus and strikes once. A slash transaction succeeds only on
  evidence that the consensus layer's check accepts for the key on record, takes the stake up to one
  validator stake, pays the submitter a tenth of it and ejects the validator; every later slash of
  the same signer fails.
\<close>

theorem slash_verified_and_once:
  assumes "execute_slash C chain_id tx bal smt = ((True, gas, refund, lgs, ret), bal', smt')"
    and "decode_slash_evidence (tx_data tx) = Inr ev"
    and "validator_key C (ds_signer ev) \<noteq> active_validator_count_key C"
    and "decode_slash_evidence (tx_data tx2) = Inr ev2" "ds_signer ev2 = ds_signer ev"
  shows "\<exists>entry entry'. Option.bind (smt_get smt (validator_key C (ds_signer ev))) validator_entry_decode = Some entry
    \<and> Option.bind (smt_get smt' (validator_key C (ds_signer ev))) validator_entry_decode = Some entry'
    \<and> verify_double_sign C chain_id ev (ve_pk entry)
    \<and> ve_status entry' = 2 \<and> unat (ve_stake entry') = unat (ve_stake entry) - unat VALIDATOR_STAKE
    \<and> bal' = saturating_add bal (min (ve_stake entry) VALIDATOR_STAKE * 10 div 100)
    \<and> \<not> fst (fst (execute_slash C chain_id2 tx2 bal2 smt'))"
proof -
  let ?k = "validator_key C (ds_signer ev)"
  obtain d entry where d: "smt_get smt ?k = Some d" "validator_entry_decode d = Some entry"
    using assms(1,2) by (auto simp: execute_slash_def Let_def split: option.splits if_splits)
  let ?e' = "entry\<lparr>ve_stake := saturating_sub (ve_stake entry) (min (ve_stake entry) VALIDATOR_STAKE),
      ve_status := 2, ve_exit_block := None\<rparr>"
  let ?s = "smt_insert ?k (validator_entry_encode ?e') smt"
  have ok: "ds_block_hash_1 ev \<noteq> ds_block_hash_2 ev" "evidence_error C chain_id ev (ve_pk entry) = None"
    "bal' = saturating_add bal (min (ve_stake entry) VALIDATOR_STAKE * FINDER_FEE_PERCENT div 100)"
    "smt' = (if ve_status entry = 0 then decrement_active_validator_count C ?s else ?s)"
    using assms(1,2) d by (auto simp: execute_slash_def Let_def split: option.splits if_splits)
  have "validator_entry_wf ?e'"
    using decoded_entry_pk [OF d(2)] decoded_entry_kem [OF d(2)] by (simp add: validator_entry_wf_def)
  then have dec: "validator_entry_decode (validator_entry_encode ?e') = Some ?e'" by (rule entry_read_back)
  have "validator_entry_encode ?e' \<noteq> []" by (simp add: validator_entry_encode_def)
  then have "smt_get ?s ?k = Some (validator_entry_encode ?e')" by (simp add: smt.get_ins)
  then have "smt_get smt' ?k = Some (validator_entry_encode ?e')"
    using assms(3) by (simp add: ok(4) decrement_active_validator_count_def active.write_frame)
  then have get: "Option.bind (smt_get smt' ?k) validator_entry_decode = Some ?e'" using dec by simp
  have "\<not> fst (fst (execute_slash C chain_id2 tx2 bal2 smt'))"
    using assms(4,5) \<open>smt_get smt' ?k = _\<close> dec by (simp add: execute_slash_def)
  moreover have "unat (ve_stake ?e') = unat (ve_stake entry) - unat VALIDATOR_STAKE"
    by (auto simp: unat_saturating_sub min_def word_le_nat_alt)
  ultimately show ?thesis
    using d get ok evidence_error_None [OF ok(1), of C chain_id "ve_pk entry"] by (auto simp: FINDER_FEE_PERCENT_def)
qed

section \<open>Emergency pause\<close>

text \<open>
  A pause ends. It is ordered by a quorum of the signers, and the chain is then paused exactly for
  the slots below an end that lies after the current height and at most 6,500,000 slots ahead: with
  no further action it is over from there on.
\<close>

theorem pause_expires:
  assumes "execute_emergency_pause C tx bc smt = ((True, gas, refund, lgs, ret), smt')"
    and "emergency_pause_end_slot_key C \<noteq> multisig_nonce_key C" "unat (bc_height bc) + 6500000 < 2 ^ 64"
  shows "\<exists>p. pause_decode (tx_data tx) = Some p
    \<and> quorum C smt (pause_sigs p) (pause_signing_bytes C p (read_multisig_nonce C smt) (bc_chain_id bc))
    \<and> (\<exists>end_slot. unat (bc_height bc) < unat end_slot \<and> unat end_slot \<le> unat (bc_height bc) + 6500000
         \<and> (\<forall>slot. is_paused C smt' slot \<longleftrightarrow> slot < end_slot))"
proof -
  obtain p where p: "pause_decode (tx_data tx) = Some p"
    using assms(1) by (auto simp: execute_emergency_pause_def split: option.splits)
  let ?n = "read_multisig_nonce C smt" and ?d = "pause_duration_slots p"
  let ?e = "saturating_add (bc_height bc) ?d"
  have ok: "multisig_ok C ''emergency'' smt (pause_sigs p) (pause_signing_bytes C p ?n (bc_chain_id bc))
        (per_sig_gas EMERGENCY_BASE_GAS (pause_sigs p)) = Inr ()"
    "?d \<noteq> 0" "\<not> MAX_PAUSE_DURATION_SLOTS < ?d"
    "smt' = write_multisig_nonce C (saturating_add ?n 1) (write_emergency_pause_end_slot C ?e smt)"
    using assms(1) p
    by (auto simp: execute_emergency_pause_def Let_def split: option.splits sum.splits if_splits)
  have d: "0 < unat ?d" "unat ?d \<le> 6500000"
    using ok(2,3) by (simp_all add: MAX_PAUSE_DURATION_SLOTS_def word_less_nat_alt unat_gt_0)
  then have "unat ?e = unat (bc_height bc) + unat ?d"
    using assms(3) by (simp add: unat_saturating_add)
  moreover have "read_emergency_pause_end_slot C smt' = ?e"
    unfolding ok(4) write_multisig_nonce_def using assms(2) by (simp add: pause.read_other pause.read_write)
  ultimately show ?thesis
    using p multisig_ok_quorum [OF ok(1)] d by (auto simp: is_paused_def intro!: exI [of _ ?e])
qed

section \<open>A governed state\<close>

definition one_signer_state :: store where
  "one_signer_state = smt_insert (multisig_threshold_key tagged_crypto) [1]
     (smt_insert (multisig_signers_key tagged_crypto) (1 # replicate 897 5) smt_new)"

definition one_sig :: "sig_entry list" where
  "one_sig = [\<lparr>signer_index = 0, entry_signature = replicate 600 0\<rparr>]"

definition example_block :: block_context where
  "example_block = \<lparr>bc_height = 10, bc_timestamp = 0, bc_base_fee = 3, bc_block_gas_limit = 1600000000, bc_chain_id = 1,
     bc_validator_address = replicate 32 9, bc_dev_skip_signature = False, bc_block_sigs_pre_verified = False\<rparr>"

definition governance_tx :: "transaction_type \<Rightarrow> bytes \<Rightarrow> transaction" where
  "governance_tx ty data = (transfer_tx (replicate 32 0) 0)\<lparr>tx_data := data, tx_gas_limit := 200000, tx_type := ty\<rparr>"

lemma system_keys_differ:
  "multisig_threshold_key tagged_crypto \<noteq> multisig_signers_key tagged_crypto"
  "multisig_nonce_key tagged_crypto \<noteq> multisig_signers_key tagged_crypto"
  "multisig_nonce_key tagged_crypto \<noteq> multisig_threshold_key tagged_crypto"
  "emergency_pause_end_slot_key tagged_crypto \<noteq> multisig_nonce_key tagged_crypto"
  "emergency_pause_end_slot_key tagged_crypto \<noteq> multisig_signers_key tagged_crypto"
  "emergency_pause_end_slot_key tagged_crypto \<noteq> multisig_threshold_key tagged_crypto"
  unfolding multisig_threshold_key_def multisig_signers_key_def multisig_nonce_key_def emergency_pause_end_slot_key_def
  by (intro tagged_hash_neq; simp add: disc_MULTISIG_SIGNERS_def disc_MULTISIG_THRESHOLD_def disc_MULTISIG_NONCE_def
      disc_EMERGENCY_PAUSE_END_SLOT_def)+

text \<open>Any state that agrees with it on the configuration of the multisig accepts the signature.\<close>

lemma one_signer_ok:
  assumes "smt_get s (multisig_signers_key tagged_crypto) = smt_get one_signer_state (multisig_signers_key tagged_crypto)"
    and "smt_get s (multisig_threshold_key tagged_crypto) = smt_get one_signer_state (multisig_threshold_key tagged_crypto)"
  shows "multisig_ok tagged_crypto what s one_sig msg gas = Inr ()"
proof -
  have "read_multisig_signers tagged_crypto s = Some [replicate 897 5]"
    using assms(1) system_keys_differ
    by (simp add: read_multisig_signers_def one_signer_state_def smt.get_ins decode_signer_set_def read_pks_shift)
  moreover have "read_multisig_threshold tagged_crypto s = 1"
    using assms(2) by (simp add: read_multisig_threshold_def one_signer_state_def smt.get_ins)
  moreover have "signature_ok tagged_crypto msg (replicate 897 5) (replicate 600 0)"
    by (simp add: signature_ok_def falcon_pk_from_bytes_def FALCON_PK_SIZE_def falcon_sig_from_bytes_def
        falcon_verify_def tagged_crypto_def accepting_crypto_def)
  then have "verify_sig_entry tagged_crypto \<lparr>signer_index = 0, entry_signature = replicate 600 0\<rparr> [replicate 897 5] msg \<noteq> None"
    by (simp add: verify_sig_entry_iff)
  then have "count_valid_sigs tagged_crypto one_sig [replicate 897 5] msg = Inr 1"
    by (simp add: count_valid_sigs_def one_sig_def Let_def)
  ultimately show ?thesis by (simp add: multisig_ok_def)
qed

lemma one_sig_wf: "sigs_wf one_sig" "length one_sig = 1"
  by (simp_all add: sigs_wf_def entry_wf_def one_sig_def)

definition pause_payload :: emergency_pause_payload where
  "pause_payload = \<lparr>pause_duration_slots = 500, pause_sigs = one_sig\<rparr>"

theorem pause_expires_witness:
  "\<exists>smt' end_slot. snd (execute_emergency_pause tagged_crypto
       (governance_tx EmergencyPause (the (pause_encode pause_payload))) example_block one_signer_state) = smt'
     \<and> 10 < unat end_slot \<and> (\<forall>slot. is_paused tagged_crypto smt' slot \<longleftrightarrow> slot < end_slot)"
proof -
  let ?tx = "governance_tx EmergencyPause (the (pause_encode pause_payload))"
  have "pause_encode pause_payload \<noteq> None" by (simp add: pause_encode_def pause_payload_def encode_sigs_def one_sig_def)
  then have dec: "pause_decode (tx_data ?tx) = Some pause_payload"
    using one_sig_wf by (simp add: pause_decode_iff governance_tx_def pause_payload_def)
  have "\<not> is_paused tagged_crypto one_signer_state 10"
    using system_keys_differ
    by (simp add: is_paused_def read_emergency_pause_end_slot_def read_u64_state_def one_signer_state_def smt_insert_def
        smt_get_def smt_new_def)
  then obtain r smt' where "execute_emergency_pause tagged_crypto ?tx example_block one_signer_state = ((True, r), smt')"
    using dec one_sig_wf one_signer_ok
    by (simp add: execute_emergency_pause_def pause_payload_def MAX_PAUSE_DURATION_SLOTS_def example_block_def
        per_sig_gas_def governance_tx_def EMERGENCY_BASE_GAS_def MULTISIG_PER_SIG_GAS_def saturating_add_def
        saturating_mul_def Let_def succeeded_def)
  moreover obtain g rf l m where "r = (g, rf, l, m)" by (cases r)
  ultimately have run: "execute_emergency_pause tagged_crypto ?tx example_block one_signer_state = ((True, g, rf, l, m), smt')"
    by simp
  from pause_expires [OF run system_keys_differ(4)] show ?thesis
    unfolding run by (auto simp: example_block_def)
qed

lemma account_key_not_system: "length addr = 32 \<Longrightarrow> balance_key tagged_crypto addr \<noteq> poseidon2_hash tagged_crypto [d]"
  unfolding balance_key_def by (rule tagged_hash_neq) auto

lemma treasury_not_target: "balance_key tagged_crypto (treasury_address tagged_crypto) \<noteq> balance_key tagged_crypto (replicate 32 2)"
proof -
  have "take 7 (treasury_address tagged_crypto) \<noteq> replicate 7 2" by code_simp
  then have "take 7 (treasury_address tagged_crypto @ [disc_BALANCE]) \<noteq> take 7 (replicate 32 2 @ [disc_BALANCE])"
    by (simp add: treasury_address_def)
  then show ?thesis unfolding balance_key_def by (intro tagged_hash_neq) (auto simp: treasury_address_def)
qed

definition funded :: "bytes \<Rightarrow> u128 \<Rightarrow> account" where
  "funded addr amount = (empty_account addr)\<lparr>acc_balance := amount\<rparr>"

lemma funded_simps [simp]:
  "acc_address (funded addr amount) = addr" "acc_balance (funded addr amount) = amount"
  "length addr = 32 \<Longrightarrow> account_wf (funded addr amount)"
  by (simp_all add: funded_def empty_account_wf) (simp add: empty_account_def)

definition spend_order :: multisig_spend where
  "spend_order = \<lparr>spend_target = replicate 32 2, spend_value = 400, spend_data_digest = replicate 32 0\<rparr>"

definition treasury_state :: store where
  "treasury_state = store_account tagged_crypto (funded (treasury_address tagged_crypto) 1000) one_signer_state"

lemma treasury_state_accounts:
  "load_account tagged_crypto treasury_state (treasury_address tagged_crypto) = funded (treasury_address tagged_crypto) 1000"
  "load_account tagged_crypto treasury_state (replicate 32 2) = empty_account (replicate 32 2)"
proof -
  have len: "length (treasury_address tagged_crypto) = 32" by (simp add: treasury_address_def)
  then show "load_account tagged_crypto treasury_state (treasury_address tagged_crypto) = funded (treasury_address tagged_crypto) 1000"
    using load_store_account [of "funded (treasury_address tagged_crypto) 1000"] by (simp add: treasury_state_def)
  have "load_account tagged_crypto treasury_state (replicate 32 2) = load_account tagged_crypto one_signer_state (replicate 32 2)"
    unfolding treasury_state_def using len treasury_not_target by (intro load_store_account_other) auto
  also have "\<dots> = empty_account (replicate 32 2)"
    using account_key_not_system [of "replicate 32 2"]
    by (simp add: load_account_def one_signer_state_def multisig_threshold_key_def multisig_signers_key_def
        smt_get_def smt_insert_def smt_new_def)
  finally show "load_account tagged_crypto treasury_state (replicate 32 2) = empty_account (replicate 32 2)" .
qed

lemma treasury_state_config:
  "k \<in> {multisig_signers_key tagged_crypto, multisig_threshold_key tagged_crypto, multisig_nonce_key tagged_crypto} \<Longrightarrow>
     smt_get treasury_state k = smt_get one_signer_state k"
proof -
  assume "k \<in> {multisig_signers_key tagged_crypto, multisig_threshold_key tagged_crypto, multisig_nonce_key tagged_crypto}"
  then obtain d where "k = poseidon2_hash tagged_crypto [d]"
    by (auto simp: multisig_signers_key_def multisig_threshold_key_def multisig_nonce_key_def)
  then have "k \<noteq> balance_key tagged_crypto (treasury_address tagged_crypto)"
    using account_key_not_system [of "treasury_address tagged_crypto" d] by (simp add: treasury_address_def)
  then show ?thesis by (simp add: treasury_state_def store_account_def smt.get_ins)
qed

theorem treasury_spend_authorised_witness:
  "\<exists>smt'. snd (execute_multisig_spend tagged_crypto
       (governance_tx MultisigTx (the (multisig_encode (Spend spend_order one_sig)))) example_block treasury_state) = smt'
     \<and> unat (acc_balance (load_account tagged_crypto smt' (replicate 32 2))) = 400
     \<and> unat (acc_balance (load_account tagged_crypto smt' (treasury_address tagged_crypto))) + 400 = 1000"
proof -
  let ?C = tagged_crypto and ?tx = "governance_tx MultisigTx (the (multisig_encode (Spend spend_order one_sig)))"
  have "multisig_encode (Spend spend_order one_sig) \<noteq> None" by (simp add: encode_sigs_def one_sig_def)
  then have dec: "multisig_decode (tx_data ?tx) = Some (Spend spend_order one_sig)"
    using one_sig_wf by (auto simp: multisig_decode_iff governance_tx_def spend_wf_def spend_order_def)
  have keys: "distinct [balance_key ?C (treasury_address ?C), balance_key ?C (spend_target spend_order), multisig_nonce_key ?C]"
    using treasury_not_target account_key_not_system [of "treasury_address ?C"] account_key_not_system [of "replicate 32 2"]
    by (simp add: spend_order_def multisig_nonce_key_def treasury_address_def)
  have "replicate 32 2 \<noteq> treasury_address ?C" using treasury_not_target by metis
  moreover have "replicate 32 2 \<noteq> (replicate 32 0 :: bytes)" "replicate 32 2 \<noteq> (replicate 32 1 :: bytes)"
    by (simp_all add: replicate_eq_replicate)
  ultimately have "spend_refusal ?C ?tx spend_order = None"
    by (simp add: spend_refusal_def spend_order_def governance_tx_def transfer_tx_def)
  moreover have "multisig_ok ?C what treasury_state one_sig msg gas = Inr ()" for what msg gas
    by (intro one_signer_ok treasury_state_config) simp_all
  ultimately obtain g rf l m smt' where
    run: "execute_multisig_spend ?C ?tx example_block treasury_state = ((True, g, rf, l, m), smt')"
    using dec one_sig_wf
    by (simp add: execute_multisig_spend_def per_sig_gas_def governance_tx_def MULTISIG_SPEND_BASE_GAS_def
        MULTISIG_PER_SIG_GAS_def saturating_add_def saturating_mul_def Let_def treasury_state_accounts spend_order_def)
  have len: "length (treasury_address ?C) = 32" by (simp add: treasury_address_def)
  have bal: "acc_balance (empty_account a) = 0" "acc_address (empty_account a) = a" for a by (simp_all add: empty_account_def)
  have "account_at ?C treasury_state (treasury_address ?C)" "account_at ?C treasury_state (spend_target spend_order)"
    using len by (simp_all add: account_at_def treasury_state_accounts spend_order_def empty_account_wf bal)
  from treasury_spend_authorised [OF run dec this keys] show ?thesis
    unfolding run by (simp add: treasury_state_accounts spend_order_def bal)
qed

definition airdrop_claim :: claim_payload where
  "airdrop_claim = \<lparr>leaf_index = 0, claim_amount = 50, claim_proof = []\<rparr>"

definition airdrop_state :: store where
  "airdrop_state = store_account tagged_crypto (funded (airdrop_pool_address tagged_crypto) 100)
     (smt_insert (airdrop_deadline_key tagged_crypto) (to_le_bytes 8 (20 :: u64))
       (smt_insert (airdrop_root_key tagged_crypto) (leaf_hash tagged_crypto 0 (replicate 32 1) 50) smt_new))"

lemma pool_key_frames:
  "poseidon2_hash tagged_crypto [d] \<noteq> balance_key tagged_crypto (airdrop_pool_address tagged_crypto)"
  "balance_key tagged_crypto (airdrop_pool_address tagged_crypto) \<noteq> airdrop_claimed_key tagged_crypto i"
  "poseidon2_hash tagged_crypto [d] \<noteq> airdrop_claimed_key tagged_crypto i"
  unfolding balance_key_def airdrop_claimed_key_def by (rule tagged_hash_neq; simp add: airdrop_pool_address_def)+

lemma airdrop_keys_differ: "airdrop_deadline_key tagged_crypto \<noteq> airdrop_root_key tagged_crypto"
  unfolding airdrop_deadline_key_def airdrop_root_key_def
  by (rule tagged_hash_neq) (simp_all add: disc_AIRDROP_DEADLINE_def disc_AIRDROP_ROOT_def)

lemma airdrop_state_reads:
  "load_account tagged_crypto airdrop_state (airdrop_pool_address tagged_crypto) = funded (airdrop_pool_address tagged_crypto) 100"
  "read_airdrop_deadline tagged_crypto airdrop_state = Some 20"
  "read_airdrop_root tagged_crypto airdrop_state = Some (leaf_hash tagged_crypto 0 (replicate 32 1) 50)"
  "\<not> is_airdrop_claimed tagged_crypto airdrop_state i"
proof -
  have len: "length (airdrop_pool_address tagged_crypto) = 32" by (simp add: airdrop_pool_address_def)
  then show "load_account tagged_crypto airdrop_state (airdrop_pool_address tagged_crypto) = funded (airdrop_pool_address tagged_crypto) 100"
    using load_store_account [of "funded (airdrop_pool_address tagged_crypto) 100"] by (simp add: airdrop_state_def)
  have get: "smt_get airdrop_state k = (if k = airdrop_deadline_key tagged_crypto then Some (to_le_bytes 8 (20 :: u64))
      else if k = airdrop_root_key tagged_crypto then Some (leaf_hash tagged_crypto 0 (replicate 32 1) 50) else None)"
    if "k \<noteq> balance_key tagged_crypto (airdrop_pool_address tagged_crypto)" for k
    using that length_poseidon2(1) [of tagged_crypto "[LEAF_TAG] @ to_le_bytes 8 (0 :: u64) @ replicate 32 1 @ to_le_bytes 16 (50 :: u128)"]
    by (auto simp: airdrop_state_def store_account_def smt_get_def smt_insert_def smt_new_def leaf_hash_def
        simp flip: length_0_conv)
  show "read_airdrop_deadline tagged_crypto airdrop_state = Some 20"
    using get pool_key_frames(1)
    by (simp add: read_airdrop_deadline_def read_u64_state_def airdrop_deadline_key_def from_to_le_bytes)
  show "read_airdrop_root tagged_crypto airdrop_state = Some (leaf_hash tagged_crypto 0 (replicate 32 1) 50)"
    using get [of "airdrop_root_key tagged_crypto"] pool_key_frames(1) airdrop_keys_differ
    by (simp add: read_airdrop_root_def airdrop_root_key_def leaf_hash_def)
  show "\<not> is_airdrop_claimed tagged_crypto airdrop_state i"
    using get [of "airdrop_claimed_key tagged_crypto i"] pool_key_frames(2) [of i] pool_key_frames(3) [of _ i]
    by (simp add: is_airdrop_claimed_def airdrop_deadline_key_def airdrop_root_key_def eq_commute)
qed

theorem airdrop_paid_once_witness:
  "\<exists>bal' smt'. snd (execute_claim_airdrop tagged_crypto (governance_tx ClaimAirdrop (the (claim_encode airdrop_claim)))
        example_block 7 airdrop_state) = (bal', smt')
     \<and> bal' = 57 \<and> unat (acc_balance (load_account tagged_crypto smt' (airdrop_pool_address tagged_crypto))) = 50
     \<and> \<not> fst (fst (execute_claim_airdrop tagged_crypto (governance_tx ClaimAirdrop (the (claim_encode airdrop_claim)))
          example_block bal' smt'))"
proof -
  let ?C = tagged_crypto and ?tx = "governance_tx ClaimAirdrop (the (claim_encode airdrop_claim))"
  have dec: "claim_decode (tx_data ?tx) = Some airdrop_claim"
    by (simp add: claim_decode_def claim_encode_def airdrop_claim_def governance_tx_def MIN_CLAIM_DATA_LEN_def
        MAX_PROOF_LEN_def byte_range_def from_to_le_bytes nth_append Let_def)
  have "verify_proof ?C 0 (replicate 32 1) 50 [] (leaf_hash ?C 0 (replicate 32 1) 50)"
    by (simp add: verify_proof_def compute_root_def)
  then have "claim_refusal ?C ?tx example_block airdrop_claim airdrop_state = None"
    by (simp add: claim_refusal_def airdrop_state_reads airdrop_claim_def example_block_def governance_tx_def transfer_tx_def)
  then obtain g rf l m smt' where run: "execute_claim_airdrop ?C ?tx example_block 7 airdrop_state = ((True, g, rf, l, m), 57, smt')"
    using dec
    by (simp add: execute_claim_airdrop_def airdrop_claim_def governance_tx_def AIRDROP_CLAIM_BASE_GAS_def
        AIRDROP_CLAIM_PER_LEVEL_GAS_def saturating_add_def saturating_mul_def Let_def)
  have "account_at ?C airdrop_state (airdrop_pool_address ?C)"
    by (simp add: account_at_def airdrop_state_reads) (simp add: airdrop_pool_address_def)
  from airdrop_paid_once [OF run dec this _ dec, of example_block 57] show ?thesis
    unfolding run using pool_key_frames(2) by (simp add: airdrop_state_reads airdrop_claim_def)
qed

definition double_sign_data :: bytes where
  "double_sign_data = [1] @ to_le_bytes 8 (4 :: u64) @ replicate 32 3 @ to_le_bytes 4 (600 :: u32) @ replicate 600 0
     @ replicate 32 4 @ to_le_bytes 4 (600 :: u32) @ replicate 600 0 @ replicate 32 8 @ replicate 32 1"

definition offender_entry :: validator_entry where
  "offender_entry = \<lparr>ve_pk = replicate 897 5, ve_stake = VALIDATOR_STAKE, ve_status = 0, ve_last_claimed_at = 0,
     ve_exit_block = None, ve_kem_pk = None\<rparr>"

definition offender_state :: store where
  "offender_state = smt_insert (validator_key tagged_crypto (replicate 32 8)) (validator_entry_encode offender_entry) smt_new"

theorem slash_verified_and_once_witness:
  "\<exists>bal' smt' entry'. snd (execute_slash tagged_crypto 1 (governance_tx transaction_type.Slash double_sign_data) 0 offender_state) = (bal', smt')
     \<and> bal' = 1000000000000
     \<and> Option.bind (smt_get smt' (validator_key tagged_crypto (replicate 32 8))) validator_entry_decode = Some entry'
     \<and> unat (ve_stake entry') = 0
     \<and> \<not> fst (fst (execute_slash tagged_crypto 1 (governance_tx transaction_type.Slash double_sign_data) bal' smt'))"
proof -
  let ?C = tagged_crypto and ?tx = "governance_tx transaction_type.Slash double_sign_data" and ?k = "validator_key tagged_crypto (replicate 32 8)"
  let ?ev = "\<lparr>ds_slot = 4, ds_block_hash_1 = replicate 32 3, ds_signature_1 = replicate 600 0, ds_block_hash_2 = replicate 32 4,
      ds_signature_2 = replicate 600 0, ds_signer = replicate 32 8, ds_submitter = replicate 32 1\<rparr>"
  have dec: "decode_slash_evidence (tx_data ?tx) = Inr ?ev"
    by (simp add: decode_slash_evidence_def double_sign_data_def governance_tx_def EVIDENCE_VERSION_def byte_range_def
        from_to_le_bytes Let_def)
  have key: "?k \<noteq> active_validator_count_key ?C"
    unfolding validator_key_def active_validator_count_key_def by (rule tagged_hash_neq) auto
  have e: "validator_entry_decode (validator_entry_encode offender_entry) = Some offender_entry"
    by (rule entry_read_back) (simp add: validator_entry_wf_def offender_entry_def)
  have get: "smt_get offender_state ?k = Some (validator_entry_encode offender_entry)"
    by (simp add: offender_state_def smt.get_ins validator_entry_encode_def)
  have "replicate 32 3 \<noteq> (replicate 32 4 :: bytes)" by (simp add: replicate_eq_replicate)
  then have "evidence_error ?C 1 ?ev (ve_pk offender_entry) = None"
    by (simp add: evidence_error_def offender_entry_def falcon_pk_from_bytes_def FALCON_PK_SIZE_def
        falcon_sig_from_bytes_def falcon_verify_def tagged_crypto_def accepting_crypto_def)
  then obtain g rf l m smt' where run: "execute_slash ?C 1 ?tx 0 offender_state = ((True, g, rf, l, m), 1000000000000, smt')"
    using dec get e \<open>replicate 32 3 \<noteq> (replicate 32 4 :: bytes)\<close>
    by (simp add: execute_slash_def Let_def)
      (simp add: offender_entry_def VALIDATOR_STAKE_def FINDER_FEE_PERCENT_def saturating_add_def)
  from slash_verified_and_once [OF run dec _ dec, of 1 1000000000000] show ?thesis
    unfolding run using key get e by (auto simp: offender_entry_def)
qed

end
