(* ===== verification/Pipeline.thy ===== *)
theory Pipeline
  imports Vm Handlers
begin

text \<open>
  Execution of transactions against the state (\<open>crates/tx/src/pipeline.rs\<close>): the call into the
  virtual machine, deployment, the pipeline from the pause gate to the receipt, the credit of a
  block's fees and the execution of a schedule. The root hash of the state is the parameter
  \<open>root\<close>. Native code (\<open>aot_fn\<close>) is not modelled: \<open>execute_transaction\<close> passes none.
\<close>

section \<open>Calls into the machine\<close>

definition access_list_keys :: "crypto_lib \<Rightarrow> access_entry list \<Rightarrow> bytes \<Rightarrow> u256 list" where
  "access_list_keys C access_list contract_address =
     concat (map (\<lambda>e.
       let target = (if ae_address e = replicate 32 0 then contract_address else ae_address e)
       in map (\<lambda>raw_key.
            let slot_bytes = to_le_bytes 32 (from_le_bytes raw_key :: u256);
                sig_len = 32 - length (takeWhile (\<lambda>b. b = 0) (rev slot_bytes));
                slot_len = max sig_len 8
            in from_le_bytes (poseidon2_hash C (target @ [0x04] @ take slot_len slot_bytes)))
          (ae_reads e @ ae_writes e)) access_list)"

definition pvm_context :: "transaction \<Rightarrow> block_context \<Rightarrow> execution_context" where
  "pvm_context tx bc =
     execution_context.make (tx_from tx) (tx_to tx) (ucast (tx_value tx)) (bc_height bc) (bc_timestamp bc)
       (ucast (bc_base_fee bc)) (transaction.tx_nonce tx) (transaction.tx_gas_limit tx) 0 (replicate 32 0) [] []"

definition pvm_machine :: "crypto_lib \<Rightarrow> transaction \<Rightarrow> store \<Rightarrow> block_context \<Rightarrow> vm" where
  "pvm_machine C tx smt bc =
     (let machine = (with_gas_limit_and_context (transaction.tx_gas_limit tx) (pvm_context tx bc))\<lparr>calldata := tx_data tx\<rparr>;
          keys = set (access_list_keys C (tx_access_list tx) (tx_to tx));
          machine = (if tx_access_list tx \<noteq> []
                     then machine\<lparr>allowed_storage_keys := Some keys, warm_storage_keys := warm_storage_keys machine \<union> keys\<rparr>
                     else machine)
      in machine\<lparr>storage_backend := Some (\<lambda>key. smt_get smt (to_le_bytes 32 key)),
                 code_backend := Some (\<lambda>addr. smt_get smt (code_key C addr))\<rparr>)"

definition persist_contract :: "crypto_lib \<Rightarrow> bytes \<times> bytes \<Rightarrow> store \<Rightarrow> store" where
  "persist_contract C c smt =
     (case c of (addr, code) \<Rightarrow>
        if smt_get smt (code_key C addr) = None
        then store_account C (new_contract C addr code) (smt_insert (code_key C addr) code smt)
        else smt)"

text \<open>\<open>None\<close> is the panic of the read: \<open>ptr + len\<close> wraps in \<open>usize\<close>, and the read does not check its range.\<close>

definition pvm_return_data :: "bool \<Rightarrow> vm \<Rightarrow> bytes option" where
  "pvm_return_data success s =
     (if return_data s \<noteq> [] then Some (return_data s)
      else if success then
        let r1 = read_gp (cpu s) 1; r2 = read_gp (cpu s) 2
        in if 0 < r2 then
             let len = min (unat r2) MEMORY_SIZE
             in if (unat r1 + len) mod 2 ^ 64 \<le> MEMORY_SIZE then load_bytes_or_panic (memory s) (unat r1) len
                else Some (to_le_bytes 8 r1)
           else Some (to_le_bytes 8 r1)
      else Some (return_data s))"

definition execute_in_pvm ::
  "crypto_lib \<Rightarrow> transaction \<Rightarrow> bytes \<Rightarrow> store \<Rightarrow> block_context \<Rightarrow> (handler_result \<times> store) option" where
  "execute_in_pvm C tx code smt bc =
     (case load code (pvm_machine C tx smt bc) of
        (Inl _, _) \<Rightarrow> Some ((False, transaction.tx_gas_limit tx, 0, [], []), smt)
      | (Inr _, machine) \<Rightarrow>
          (case execute C machine of (out, s) \<Rightarrow>
             let success = (out_outcome out = Success);
                 smt = (if success \<and> storage s \<noteq> []
                        then smt_update_all (map (\<lambda>(k, v). (to_le_bytes 32 k, v)) (storage s)) smt else smt);
                 smt = (if success then fold (persist_contract C) (contracts s) smt else smt);
                 entries = map (\<lambda>l. \<lparr>le_address = ev_address l, le_topics = map (to_le_bytes 32) (ev_topics l),
                                     le_data = ev_data l\<rparr>) (logs s)
             in map_option (\<lambda>ret. ((success, gas_used_total s, gas_refund s, entries, ret), smt)) (pvm_return_data success s)))"

section \<open>Dispatch\<close>

definition execute_deploy ::
  "crypto_lib \<Rightarrow> transaction \<Rightarrow> account \<Rightarrow> block_context \<Rightarrow> store \<Rightarrow> (handler_result \<times> account \<times> store) option" where
  "execute_deploy C tx sender bc smt =
     (let new_addr = derive_create_address C (tx_from tx) (acc_nonce sender);
          sender = sender\<lparr>acc_nonce := acc_nonce sender + 1\<rparr>;
          install = (\<lambda>code smt. store_account C (new_contract C new_addr code) (store_contract_code C new_addr code smt));
          data = tx_data tx;
          constructor_len = unat (from_le_bytes (byte_range 0 4 data) :: u32);
          runtime_len = unat (from_le_bytes (byte_range 4 8 data) :: u32)
      in if 8 \<le> length data \<and> 0 < constructor_len \<and> 0 < runtime_len \<and> constructor_len + runtime_len \<le> length data
            \<and> 8 + constructor_len + runtime_len \<le> length data
         then
           let constructor = byte_range 8 (8 + constructor_len) data;
               runtime = byte_range (8 + constructor_len) (8 + constructor_len + runtime_len) data;
               smt = install runtime smt;
               constructor_tx = tx\<lparr>tx_to := new_addr, tx_data := drop (8 + constructor_len + runtime_len) data\<rparr>
           in map_option (\<lambda>((_, gas, _), smt). (succeeded (32000 + gas) new_addr, sender, smt))
                (execute_in_pvm C constructor_tx constructor smt bc)
         else Some (succeeded 32000 new_addr, sender, install data smt))"

definition with_balance :: "account \<Rightarrow> handler_result \<times> u128 \<times> store \<Rightarrow> handler_result \<times> account \<times> store" where
  "with_balance sender res = (case res of (r, bal, smt) \<Rightarrow> (r, sender\<lparr>acc_balance := bal\<rparr>, smt))"

definition with_sender :: "account \<Rightarrow> handler_result \<times> store \<Rightarrow> handler_result \<times> account \<times> store" where
  "with_sender sender res = (case res of (r, smt) \<Rightarrow> (r, sender, smt))"

text \<open>The match on the transaction type; \<open>None\<close> is a panic.\<close>

fun execute_by_type ::
  "crypto_lib \<Rightarrow> transaction_type \<Rightarrow> transaction \<Rightarrow> account \<Rightarrow> block_context \<Rightarrow> store \<Rightarrow>
     (handler_result \<times> account \<times> store) option" where
  "execute_by_type C Standard tx sender bc smt =
     map_option (with_sender sender)
       (if tx_to tx \<noteq> replicate 32 0 then
          (case load_contract_code C smt (tx_to tx) of
             Some code \<Rightarrow> execute_in_pvm C tx code smt bc
           | None \<Rightarrow> Some (succeeded 21000 [], smt))
        else Some (succeeded 21000 [], smt))"
| "execute_by_type C Deploy tx sender bc smt = execute_deploy C tx sender bc smt"
| "execute_by_type C StakeDeposit tx sender bc smt =
     Some (with_balance sender (execute_stake_deposit C tx (acc_balance sender) smt))"
| "execute_by_type C StakeWithdraw tx sender bc smt = Some (with_sender sender (execute_stake_withdraw C tx bc smt))"
| "execute_by_type C RegisterPubkey tx sender bc smt =
     Some (succeeded 0 [], sender\<lparr>acc_auth_keys := AuthSingle (tx_data tx)\<rparr>, smt)"
| "execute_by_type C transaction_type.Slash tx sender bc smt =
     Some (with_balance sender (execute_slash C (bc_chain_id bc) tx (acc_balance sender) smt))"
| "execute_by_type C ClaimAirdrop tx sender bc smt =
     Some (with_balance sender (execute_claim_airdrop C tx bc (acc_balance sender) smt))"
| "execute_by_type C SweepAirdrop tx sender bc smt = Some (with_sender sender (execute_sweep_airdrop C tx bc smt))"
| "execute_by_type C MultisigTx tx sender bc smt = Some (with_sender sender (execute_multisig_spend C tx bc smt))"
| "execute_by_type C RotateMultisig tx sender bc smt =
     map_option (with_sender sender) (execute_rotate_multisig C tx bc smt)"
| "execute_by_type C EmergencyPause tx sender bc smt = Some (with_sender sender (execute_emergency_pause C tx bc smt))"
| "execute_by_type C EmergencyResume tx sender bc smt = Some (with_sender sender (execute_emergency_resume C tx bc smt))"
| "execute_by_type C ClaimReward tx sender bc smt =
     Some (with_balance sender (execute_claim_reward C tx (acc_balance sender) smt))"

section \<open>The pipeline\<close>

text \<open>\<open>StateError\<close> stands for failures of the disk and \<open>AccountNotFound\<close> is never produced; \<open>Panicked\<close> is a panic.\<close>

datatype pipeline_error =
  ValidationFailed validation_error | AccountNotFound bytes | ExecutionFailed bytes | StateError bytes | Panicked

definition emit_failed_execution_receipt ::
  "crypto_lib \<Rightarrow> (store \<Rightarrow> bytes) \<Rightarrow> transaction \<Rightarrow> block_context \<Rightarrow> account \<Rightarrow> account \<Rightarrow> bytes \<Rightarrow> store \<Rightarrow> receipt \<times> store" where
  "emit_failed_execution_receipt C root tx bc sender_initial sender error_msg smt =
     (let baseline_cost = ucast MIN_GAS_LIMIT * bc_base_fee bc;
          charged_quanta = min baseline_cost (acc_balance sender);
          sender = sender\<lparr>acc_balance := acc_balance sender - charged_quanta\<rparr>;
          effective_gas_charged =
            (if bc_base_fee bc = 0 then MIN_GAS_LIMIT else ucast (charged_quanta div bc_base_fee bc));
          smt = apply_account_delta C (tx_from tx) sender_initial sender smt
      in (generate_receipt C tx False MIN_GAS_LIMIT 0 effective_gas_charged (bc_base_fee bc) [] (root smt) error_msg, smt))"

definition finish_transaction ::
  "crypto_lib \<Rightarrow> (store \<Rightarrow> bytes) \<Rightarrow> transaction \<Rightarrow> block_context \<Rightarrow> account \<Rightarrow> account \<Rightarrow> account \<Rightarrow>
     handler_result \<times> account \<times> store \<Rightarrow> receipt \<times> store" where
  "finish_transaction C root tx bc sender_initial recipient_initial recipient res =
     (case res of ((success, gas_used, refunded, lgs, ret), sender, smt) \<Rightarrow>
        let payer_balance = (case tx_fee_payer tx of Sender \<Rightarrow> acc_balance sender | GasTank _ \<Rightarrow> acc_gas_tank sender | Paymaster _ \<Rightarrow> 0);
            ((effective_gas, refund_amount), payer_balance) =
              post_execution_refund gas_used (transaction.tx_gas_limit tx) refunded payer_balance (bc_base_fee bc);
            sender = (case tx_fee_payer tx of
                        Sender \<Rightarrow> sender\<lparr>acc_balance := payer_balance\<rparr>
                      | GasTank _ \<Rightarrow> sender\<lparr>acc_gas_tank := payer_balance\<rparr>
                      | Paymaster _ \<Rightarrow> sender);
            smt = apply_account_delta C (tx_from tx) sender_initial sender smt;
            smt = apply_account_delta C (tx_to tx) recipient_initial recipient smt
        in (generate_receipt C tx success gas_used refund_amount effective_gas (bc_base_fee bc) lgs (root smt) ret, smt))"

fun nonce_error_debug :: "nonce_error \<Rightarrow> string" where
  "nonce_error_debug BelowWindow = ''BelowWindow''"
| "nonce_error_debug AboveWindow = ''AboveWindow''"
| "nonce_error_debug AlreadyUsed = ''AlreadyUsed''"

definition sender_locked :: "crypto_lib \<Rightarrow> store \<Rightarrow> transaction \<Rightarrow> block_context \<Rightarrow> u128" where
  "sender_locked C smt tx bc =
     (case read_vesting_schedule C smt (tx_from tx) of Some s \<Rightarrow> locked_at s (bc_height bc) | None \<Rightarrow> 0)"

definition block_validation_context :: "crypto_lib \<Rightarrow> store \<Rightarrow> transaction \<Rightarrow> block_context \<Rightarrow> validation_context" where
  "block_validation_context C smt tx bc =
     \<lparr>vc_block_height = bc_height bc, vc_base_fee = bc_base_fee bc, vc_block_gas_limit = bc_block_gas_limit bc,
      vc_chain_id = bc_chain_id bc, vc_dev_skip_signature = bc_dev_skip_signature bc,
      vc_sender_locked = sender_locked C smt tx bc, vc_sig_pre_verified = bc_block_sigs_pre_verified bc\<rparr>"

text \<open>Steps 4 to 10, after the nonce is marked and stored.\<close>

definition charge_and_run ::
  "crypto_lib \<Rightarrow> (store \<Rightarrow> bytes) \<Rightarrow> transaction \<Rightarrow> block_context \<Rightarrow> account \<Rightarrow> account \<Rightarrow> store \<Rightarrow> (pipeline_error + receipt) \<times> store" where
  "charge_and_run C root tx bc sender recipient smt =
     (case pre_execution_charge tx (acc_balance sender) (acc_gas_tank sender) (bc_base_fee bc) of
        Inl e \<Rightarrow> (case emit_failed_execution_receipt C root tx bc sender sender e smt of (r, smt) \<Rightarrow> (Inr r, smt))
      | Inr (_, bal, tank) \<Rightarrow>
          (case (if carries_value (tx_type tx) then transfer_tx_value bal (acc_balance recipient) (tx_value tx)
                 else Inr (bal, acc_balance recipient)) of
             Inl e \<Rightarrow> (Inl (ExecutionFailed e), smt)
           | Inr (bal, recipient_bal) \<Rightarrow>
               (case execute_by_type C (tx_type tx) tx (sender\<lparr>acc_balance := bal, acc_gas_tank := tank\<rparr>) bc smt of
                  None \<Rightarrow> (Inl Panicked, smt)
                | Some res \<Rightarrow>
                    (case finish_transaction C root tx bc sender recipient (recipient\<lparr>acc_balance := recipient_bal\<rparr>) res of
                       (r, smt) \<Rightarrow> (Inr r, smt)))))"

definition execute_transaction ::
  "crypto_lib \<Rightarrow> (store \<Rightarrow> bytes) \<Rightarrow> transaction \<Rightarrow> block_context \<Rightarrow> store \<Rightarrow> (pipeline_error + receipt) \<times> store" where
  "execute_transaction C root tx bc smt =
     (if is_paused C smt (bc_height bc) \<and> tx_type tx \<noteq> EmergencyResume
      then (Inl (ExecutionFailed (ascii ''chain paused: only EmergencyResume accepted'')), smt)
      else
        let sender = load_account C smt (tx_from tx);
            recipient = load_account C smt (tx_to tx);
            ns = load_nonce C smt (tx_from tx)
        in (case validate_transaction C tx sender ns (block_validation_context C smt tx bc) of
              Inl e \<Rightarrow> (Inl (ValidationFailed e), smt)
            | Inr _ \<Rightarrow>
                (case use_nonce (transaction.tx_nonce tx) ns of
                   (Inl e, _) \<Rightarrow> (Inl (ExecutionFailed (ascii ''nonce error: '' @ ascii (nonce_error_debug e))), smt)
                 | (Inr _, ns) \<Rightarrow> charge_and_run C root tx bc sender recipient (store_nonce C (tx_from tx) ns smt))))"

section \<open>Blocks\<close>

definition credit :: "crypto_lib \<Rightarrow> bytes \<Rightarrow> u128 \<Rightarrow> store \<Rightarrow> store" where
  "credit C addr amount smt =
     (if 0 < amount
      then let a = load_account C smt addr in store_account C (a\<lparr>acc_balance := acc_balance a + amount\<rparr>) smt
      else smt)"

definition apply_block_fees :: "crypto_lib \<Rightarrow> bytes \<Rightarrow> receipt list \<Rightarrow> store \<Rightarrow> store" where
  "apply_block_fees C proposer receipts smt =
     credit C (treasury_address C) (sum_list (map rc_fee_treasury receipts))
       (credit C proposer (sum_list (map rc_fee_validator receipts)) smt)"

text \<open>The two nested loops over the groups of the schedule, in order, with the receipts so far.\<close>

fun execute_indices ::
  "crypto_lib \<Rightarrow> (store \<Rightarrow> bytes) \<Rightarrow> transaction list \<Rightarrow> block_context \<Rightarrow> nat list \<Rightarrow> receipt option list \<Rightarrow> store \<Rightarrow>
     (pipeline_error + receipt option list) \<times> store" where
  "execute_indices C root txs bc [] receipts smt = (Inr receipts, smt)"
| "execute_indices C root txs bc (i # idxs) receipts smt =
     (if i < length txs then
        (case execute_transaction C root (txs ! i) bc smt of
           (Inl e, smt) \<Rightarrow> (Inl e, smt)
         | (Inr r, smt) \<Rightarrow> execute_indices C root txs bc idxs (receipts[i := Some r]) smt)
      else (Inl Panicked, smt))"

definition execute_block_parallel ::
  "crypto_lib \<Rightarrow> (store \<Rightarrow> bytes) \<Rightarrow> transaction list \<Rightarrow> execution_schedule \<Rightarrow> block_context \<Rightarrow> store \<Rightarrow>
     (pipeline_error + receipt list) \<times> store" where
  "execute_block_parallel C root txs sched bc smt =
     (case execute_indices C root txs bc (concat (map tx_indices (sched_groups sched))) (replicate (length txs) None) smt of
        (Inl e, smt) \<Rightarrow> (Inl e, smt)
      | (Inr receipts, smt) \<Rightarrow>
          if None \<in> set receipts then (Inl Panicked, smt) else (Inr (map the receipts), smt))"

section \<open>Acceptance\<close>

lemma validated_nonce: "validate_transaction C tx sender ns vc = Inr u \<Longrightarrow> nonce_is_valid ns (transaction.tx_nonce tx)"
  by (auto simp: validate_transaction_def validate_register_pubkey_def first_error_ok validate_nonce_ok
      split: sum.splits if_splits)

text \<open>What the pipeline after validation needs of an accepted transaction: the charge and the transfer cannot fail.\<close>

definition covered :: "transaction \<Rightarrow> account \<Rightarrow> u128 \<Rightarrow> bool" where
  "covered tx sender base_fee \<longleftrightarrow>
     tx_fee_payer tx = Sender \<and> max_fee tx base_fee + unat (tx_value tx) \<le> unat (acc_balance sender)
     \<or> transaction.tx_gas_limit tx = 0 \<and> tx_value tx = 0"

lemma validated_covered:
  assumes "validate_transaction C tx sender ns vc = Inr u" "vc_chain_id vc \<noteq> DEVNET"
  shows "covered tx sender (vc_base_fee vc)"
proof (cases "tx_type tx = RegisterPubkey")
  case True
  then show ?thesis using assms
    by (auto simp: validate_transaction_def validate_register_pubkey_def first_error_ok covered_def
        split: sum.splits)
next
  case False
  then have "tx_fee_payer tx = Sender" "validate_balance tx sender vc = Inr ()"
    using assms by (auto simp: validate_transaction_def first_error_ok split: sum.splits)
  then show ?thesis
    using validate_balance_sender [of tx sender vc "()"] by (simp add: covered_def spendable_def) linarith
qed

lemma covered_charge:
  assumes "covered tx sender base_fee"
  obtains c bal tank where "pre_execution_charge tx (acc_balance sender) (acc_gas_tank sender) base_fee = Inr (c, bal, tank)"
    and "unat (tx_value tx) \<le> unat bal"
proof (cases "tx_fee_payer tx = Sender \<and> max_fee tx base_fee + unat (tx_value tx) \<le> unat (acc_balance sender)")
  case True
  then show ?thesis
    using charge_sender(1) [of tx base_fee "acc_balance sender" "acc_gas_tank sender"]
      charge_sender(2) [of tx base_fee "acc_balance sender"] by (intro that) auto
next
  case False
  then have "transaction.tx_gas_limit tx = 0" "tx_value tx = 0" using assms by (auto simp: covered_def)
  then show ?thesis
    by (cases "tx_fee_payer tx"; intro that) (simp_all add: pre_execution_charge_def checked_mul_def checked_add_def)
qed

text \<open>Only contract code can make the process panic.\<close>

lemma panics_in_contracts: "execute_by_type C ty tx sender bc smt = None \<Longrightarrow> ty = Standard \<or> ty = Deploy"
  using rotate_atomic [where C = C and tx = tx and bc = bc and smt = smt] by (cases ty) (auto split: option.splits)

lemma charge_and_run_covered:
  assumes "covered tx sender (bc_base_fee bc)"
  shows "(\<exists>r smt'. charge_and_run C root tx bc sender recipient smt = (Inr r, smt'))
    \<or> charge_and_run C root tx bc sender recipient smt = (Inl Panicked, smt)
      \<and> (\<exists>s. execute_by_type C (tx_type tx) tx s bc smt = None)"
proof -
  obtain c bal tank where charge:
    "pre_execution_charge tx (acc_balance sender) (acc_gas_tank sender) (bc_base_fee bc) = Inr (c, bal, tank)"
    "unat (tx_value tx) \<le> unat bal" using covered_charge [OF assms] .
  have "transfer_tx_value bal (acc_balance recipient) (tx_value tx) = Inl e \<Longrightarrow> False" for e
    using charge(2) by (simp add: transfer_tx_value_def word_less_nat_alt split: if_splits)
  then show ?thesis
    by (auto simp: charge_and_run_def charge(1) split: sum.splits option.splits prod.splits)
qed

lemma validated_nonce_used:
  "validate_transaction C tx sender ns vc = Inr u \<Longrightarrow> \<exists>ns'. use_nonce (transaction.tx_nonce tx) ns = (Inr (), ns')"
  using validated_nonce by (fastforce simp: use_nonce_def nonce_is_valid_def split: sum.splits)

text \<open>
  C3: on a production chain an error leaves no trace. When the pipeline answers with an error, the
  state is the one it was called with: a transaction that passes validation can always be charged
  and its value moved, whatever its type, so that no error follows the first write. The process can
  panic instead of answering, but only in a call or a deployment, where contract code ran.
\<close>

theorem rejected_transaction_leaves_no_trace:
  assumes "bc_chain_id bc \<noteq> DEVNET" "execute_transaction C root tx bc smt = (Inl e, smt')"
  shows "if e = Panicked then tx_type tx = Standard \<or> tx_type tx = Deploy else smt' = smt"
proof (cases "is_paused C smt (bc_height bc) \<and> tx_type tx \<noteq> EmergencyResume")
  case True
  then show ?thesis using assms(2) by (auto simp: execute_transaction_def)
next
  case False
  let ?sender = "load_account C smt (tx_from tx)" and ?vc = "block_validation_context C smt tx bc"
  let ?v = "validate_transaction C tx ?sender (load_nonce C smt (tx_from tx)) ?vc"
  show ?thesis
  proof (cases ?v)
    case (Inl x)
    then show ?thesis using assms(2) False by (auto simp: execute_transaction_def Let_def)
  next
    case (Inr u)
    then obtain ns where ns: "use_nonce (transaction.tx_nonce tx) (load_nonce C smt (tx_from tx)) = (Inr (), ns)"
      using validated_nonce_used by blast
    have "covered tx ?sender (bc_base_fee bc)"
      using validated_covered [OF Inr] assms(1) by (simp add: block_validation_context_def)
    from charge_and_run_covered [OF this, of C root "load_account C smt (tx_to tx)" "store_nonce C (tx_from tx) ns smt"]
    show ?thesis
      using assms(2) False Inr ns by (auto simp: execute_transaction_def Let_def dest: panics_in_contracts)
  qed
qed

lemma not_paused_new [simp]: "\<not> is_paused C smt_new h"
  by (simp add: is_paused_def read_emergency_pause_end_slot_def read_u64_state_def smt_get_def smt_new_def)

theorem rejected_transaction_leaves_no_trace_witness:
  "\<exists>e. execute_transaction tagged_crypto (\<lambda>_. []) (transfer_tx (replicate 32 2) 700) example_block smt_new = (Inl e, smt_new)
     \<and> e \<noteq> Panicked"
proof -
  have load: "load_account tagged_crypto smt_new (replicate 32 1) = empty_account (replicate 32 1)"
    by (simp add: load_account_def smt_get_def smt_new_def)
  have run: "execute_transaction tagged_crypto (\<lambda>_. []) (transfer_tx (replicate 32 2) 700) example_block smt_new
      = (Inl (ValidationFailed InvalidSignature), smt_new)"
    by (simp add: execute_transaction_def validate_transaction_def validate_chain_id_def block_validation_context_def
        transfer_tx_def example_block_def require_def load empty_account_def DEVNET_def Let_def)
  show ?thesis
    using rejected_transaction_leaves_no_trace [OF _ run] run by (simp add: example_block_def DEVNET_def)
qed

section \<open>Settlement\<close>

text \<open>Applying the pipeline's delta to an account writes that account only, and keeps it well formed.\<close>

lemma apply_account_delta_frame:
  "account_at C smt addr \<Longrightarrow> k \<noteq> balance_key C addr \<Longrightarrow> smt_get (apply_account_delta C addr i f smt) k = smt_get smt k"
  by (simp add: apply_account_delta_def store_account_def account_at_def Let_def smt.get_ins)

lemma apply_delta_same [simp]: "apply_delta i i c = c"
  using unat_lt_length [of c] by (simp add: apply_delta_def saturating_add_def)

lemma apply_account_delta_load:
  assumes "account_at C smt addr" "acc_auth_keys f = acc_auth_keys i" "acc_nonce f = acc_nonce i"
    and "acc_gas_tank f = acc_gas_tank i"
  shows "load_account C (apply_account_delta C addr i f smt) addr =
    (load_account C smt addr)\<lparr>acc_balance := apply_delta (acc_balance i) (acc_balance f) (acc_balance (load_account C smt addr))\<rparr>"
proof -
  let ?a = "load_account C smt addr"
  let ?a' = "?a\<lparr>acc_balance := apply_delta (acc_balance i) (acc_balance f) (acc_balance ?a)\<rparr>"
  have "apply_account_delta C addr i f smt = store_account C ?a' smt"
    using assms(2-4) by (simp add: apply_account_delta_def Let_def)
  then show ?thesis
    using assms(1) load_store_account [of ?a' C smt] by (simp add: account_at_def)
qed

lemma replay_refused:
  assumes "unat (transaction.tx_nonce tx) \<in> consumed (load_nonce C smt (tx_from tx))"
  shows "\<exists>e. execute_transaction C root tx bc smt = (Inl e, smt)"
proof -
  have "\<not> nonce_is_valid (load_nonce C smt (tx_from tx)) (transaction.tx_nonce tx)"
    using assms by (simp add: nonce_is_valid_def validate_spec)
  then have "validate_transaction C tx s (load_nonce C smt (tx_from tx)) vc \<noteq> Inr u" for s vc u
    using validated_nonce by blast
  then show ?thesis by (auto simp: execute_transaction_def Let_def split: sum.splits)
qed

text \<open>The final writes of a transaction that leaves the sender with \<open>bal\<close> and moves \<open>value\<close>.\<close>

definition settled :: "crypto_lib \<Rightarrow> transaction \<Rightarrow> u128 \<Rightarrow> account \<Rightarrow> account \<Rightarrow> store \<Rightarrow> store" where
  "settled C tx bal sender recipient smt =
     apply_account_delta C (tx_to tx) recipient (recipient\<lparr>acc_balance := acc_balance recipient + tx_value tx\<rparr>)
       (apply_account_delta C (tx_from tx) sender (sender\<lparr>acc_balance := bal\<rparr>) smt)"

lemma run_standard:
  assumes "tx_type tx = Standard" "tx_fee_payer tx = Sender"
    and paid: "max_fee tx (bc_base_fee bc) + unat (tx_value tx) \<le> unat (acc_balance sender)"
  defines "bal0 \<equiv> acc_balance sender - ucast (transaction.tx_gas_limit tx) * bc_base_fee bc - tx_value tx"
  shows "(\<And>s. execute_by_type C Standard tx s bc smt = Some ((ok, g, rf, lg, ret), s, smt2)) \<Longrightarrow>
      post_execution_refund g (transaction.tx_gas_limit tx) rf bal0 (bc_base_fee bc) = ((eff, rf'), bal) \<Longrightarrow>
      charge_and_run C root tx bc sender recipient smt =
        (let smt' = settled C tx bal sender recipient smt2
         in (Inr (generate_receipt C tx ok g rf' eff (bc_base_fee bc) lg (root smt') ret), smt'))"
    and "(\<And>s. execute_by_type C Standard tx s bc smt = None) \<Longrightarrow> charge_and_run C root tx bc sender recipient smt = (Inl Panicked, smt)"
proof -
  note charge = charge_sender(1) [OF assms(2) paid, of "acc_gas_tank sender"] charge_sender(2) [OF assms(2) paid]
  have "unat (tx_value tx) \<le> unat (acc_balance sender - ucast (transaction.tx_gas_limit tx) * bc_base_fee bc)"
    using charge(2) paid by simp
  then have moved: "transfer_tx_value (acc_balance sender - ucast (transaction.tx_gas_limit tx) * bc_base_fee bc)
      (acc_balance recipient) (tx_value tx) = Inr (bal0, acc_balance recipient + tx_value tx)"
    by (simp add: transfer_tx_value_def word_less_nat_alt bal0_def)
  note defs = charge_and_run_def carries_value_def finish_transaction_def settled_def Let_def
  show "charge_and_run C root tx bc sender recipient smt =
        (let smt' = settled C tx bal sender recipient smt2
         in (Inr (generate_receipt C tx ok g rf' eff (bc_base_fee bc) lg (root smt') ret), smt'))"
    if "\<And>s. execute_by_type C Standard tx s bc smt = Some ((ok, g, rf, lg, ret), s, smt2)"
      "post_execution_refund g (transaction.tx_gas_limit tx) rf bal0 (bc_base_fee bc) = ((eff, rf'), bal)"
    using assms(1,2) charge(1) moved that by (simp add: defs del: execute_by_type.simps)
  show "charge_and_run C root tx bc sender recipient smt = (Inl Panicked, smt)"
    if "\<And>s. execute_by_type C Standard tx s bc smt = None"
    using assms(1,2) charge(1) moved that by (simp add: defs del: execute_by_type.simps)
qed

text \<open>Balances after the final writes, for the two parties and for one that is both.\<close>

definition parties_ok :: "crypto_lib \<Rightarrow> transaction \<Rightarrow> store \<Rightarrow> bool" where
  "parties_ok C tx smt \<longleftrightarrow> account_at C smt (tx_from tx) \<and> account_at C smt (tx_to tx)
     \<and> (tx_from tx = tx_to tx \<or> balance_key C (tx_from tx) \<noteq> balance_key C (tx_to tx))
     \<and> unat (acc_balance (load_account C smt (tx_from tx))) < 2 ^ 127
     \<and> unat (acc_balance (load_account C smt (tx_to tx))) + unat (tx_value tx) < 2 ^ 127"

lemma settled_balances:
  fixes C tx smt
  defines "sender \<equiv> load_account C smt (tx_from tx)" and "recipient \<equiv> load_account C smt (tx_to tx)"
  assumes ok: "parties_ok C tx smt" and bal: "unat bal + unat (tx_value tx) \<le> unat (acc_balance sender)"
  shows "tx_from tx \<noteq> tx_to tx \<Longrightarrow>
      load_account C (settled C tx bal sender recipient smt) (tx_from tx) = sender\<lparr>acc_balance := bal\<rparr>
      \<and> load_account C (settled C tx bal sender recipient smt) (tx_to tx) = recipient\<lparr>acc_balance := acc_balance recipient + tx_value tx\<rparr>"
    and "tx_from tx = tx_to tx \<Longrightarrow>
      load_account C (settled C tx bal sender recipient smt) (tx_from tx) = sender\<lparr>acc_balance := bal + tx_value tx\<rparr>"
proof -
  let ?s1 = "apply_account_delta C (tx_from tx) sender (sender\<lparr>acc_balance := bal\<rparr>) smt"
  have delta: "apply_delta i f i = f" if "unat i < 2 ^ 127" "unat f < 2 ^ 127" for i f :: u128
    using apply_delta_exact [OF that, of i] that by (simp add: word_unat_eq_iff)
  have b: "unat (acc_balance sender) < 2 ^ 127" "unat bal < 2 ^ 127" "unat (acc_balance recipient) + unat (tx_value tx) < 2 ^ 127"
    using ok bal by (auto simp: parties_ok_def sender_def recipient_def)
  have v: "unat (acc_balance recipient + tx_value tx) = unat (acc_balance recipient) + unat (tx_value tx)"
    using b(3) by (simp add: unat_add_lem [THEN iffD1])
  have at: "account_at C smt (tx_from tx)" "account_at C smt (tx_to tx)" using ok by (simp_all add: parties_ok_def)
  have s1: "load_account C ?s1 (tx_from tx) = sender\<lparr>acc_balance := bal\<rparr>"
    using apply_account_delta_load [OF at(1), of "sender\<lparr>acc_balance := bal\<rparr>" sender] delta b
    by (simp add: sender_def)
  then have at1: "account_at C ?s1 (tx_from tx)" using at(1) by (simp add: account_at_def sender_def)
  {
    assume ne: "tx_from tx \<noteq> tx_to tx"
    then have k: "balance_key C (tx_from tx) \<noteq> balance_key C (tx_to tx)" using ok by (simp add: parties_ok_def)
    have to1: "load_account C ?s1 (tx_to tx) = recipient"
      unfolding recipient_def using k apply_account_delta_frame [OF at(1)] by (intro acct.read_local) metis
    then have at2: "account_at C ?s1 (tx_to tx)" using at(2) by (simp add: account_at_def recipient_def)
    have "load_account C (settled C tx bal sender recipient smt) (tx_to tx) = recipient\<lparr>acc_balance := acc_balance recipient + tx_value tx\<rparr>"
      unfolding settled_def using delta b v by (subst apply_account_delta_load [OF at2]) (simp_all add: to1)
    moreover have "load_account C (settled C tx bal sender recipient smt) (tx_from tx) = load_account C ?s1 (tx_from tx)"
      unfolding settled_def using k apply_account_delta_frame [OF at2] by (intro acct.read_local) metis
    ultimately show "load_account C (settled C tx bal sender recipient smt) (tx_from tx) = sender\<lparr>acc_balance := bal\<rparr>
      \<and> load_account C (settled C tx bal sender recipient smt) (tx_to tx) = recipient\<lparr>acc_balance := acc_balance recipient + tx_value tx\<rparr>"
      using s1 by simp
  next
    assume eq: "tx_from tx = tx_to tx"
    have bv: "unat (bal + tx_value tx) = unat bal + unat (tx_value tx)"
      using bal unat_lt_length [of "acc_balance sender"] by (simp add: unat_add_lem [THEN iffD1])
    have "unat (apply_delta (acc_balance recipient) (acc_balance recipient + tx_value tx) bal) = unat bal + unat (tx_value tx)"
      using b v bal by (subst apply_delta_exact) simp_all
    then have "apply_delta (acc_balance recipient) (acc_balance recipient + tx_value tx) bal = bal + tx_value tx"
      using bv by (simp add: word_unat_eq_iff)
    then show "load_account C (settled C tx bal sender recipient smt) (tx_from tx) = sender\<lparr>acc_balance := bal + tx_value tx\<rparr>"
      using apply_account_delta_load [OF at1, of "recipient\<lparr>acc_balance := acc_balance recipient + tx_value tx\<rparr>" recipient] s1 eq
      by (simp add: settled_def)
  }
qed

lemma settled_frame:
  assumes "parties_ok C tx smt" "k \<noteq> balance_key C (tx_from tx)" "k \<noteq> balance_key C (tx_to tx)"
    and "sender = load_account C smt (tx_from tx)" "recipient = load_account C smt (tx_to tx)"
  shows "smt_get (settled C tx bal sender recipient smt) k = smt_get smt k"
proof -
  let ?s1 = "apply_account_delta C (tx_from tx) sender (sender\<lparr>acc_balance := bal\<rparr>) smt"
  have at: "account_at C smt (tx_from tx)" "account_at C smt (tx_to tx)" using assms(1) by (simp_all add: parties_ok_def)
  have s1: "load_account C ?s1 (tx_from tx) = sender\<lparr>acc_balance := apply_delta (acc_balance sender) bal (acc_balance sender)\<rparr>"
    using apply_account_delta_load [OF at(1), of "sender\<lparr>acc_balance := bal\<rparr>" sender] by (simp add: assms(4))
  have "account_at C ?s1 (tx_to tx)"
  proof (cases "tx_from tx = tx_to tx")
    case True
    then show ?thesis using s1 at(1) assms(4) by (simp add: account_at_def)
  next
    case False
    then have "balance_key C (tx_to tx) \<noteq> balance_key C (tx_from tx)" using assms(1) by (auto simp: parties_ok_def)
    then have "load_account C ?s1 (tx_to tx) = load_account C smt (tx_to tx)"
      using apply_account_delta_frame [OF at(1)] by (intro acct.read_local) metis
    then show ?thesis using at(2) by (simp add: account_at_def)
  qed
  then show ?thesis
    using assms(2,3) at(1) by (simp add: settled_def apply_account_delta_frame)
qed

text \<open>What an executed transfer or call went through, up to the charge.\<close>

lemma executed_standard:
  assumes "bc_chain_id bc \<noteq> DEVNET" "tx_type tx = Standard" "execute_transaction C root tx bc smt = (Inr r, smt')"
  obtains ns where "use_nonce (transaction.tx_nonce tx) (load_nonce C smt (tx_from tx)) = (Inr (), ns)"
    and "charge_and_run C root tx bc (load_account C smt (tx_from tx)) (load_account C smt (tx_to tx))
      (store_nonce C (tx_from tx) ns smt) = (Inr r, smt')"
    and "tx_fee_payer tx = Sender" "21000 \<le> transaction.tx_gas_limit tx"
    and "max_fee tx (bc_base_fee bc) + unat (tx_value tx) \<le> unat (acc_balance (load_account C smt (tx_from tx)))"
proof -
  let ?sender = "load_account C smt (tx_from tx)" and ?vc = "block_validation_context C smt tx bc"
  let ?ns = "load_nonce C smt (tx_from tx)"
  have free: "\<not> is_paused C smt (bc_height bc)" using assms(2,3) by (auto simp: execute_transaction_def)
  then obtain u where ok: "validate_transaction C tx ?sender ?ns ?vc = Inr u"
    using assms(3) by (auto simp: execute_transaction_def Let_def split: sum.splits)
  then obtain ns where ns: "use_nonce (transaction.tx_nonce tx) ?ns = (Inr (), ns)" using validated_nonce_used by blast
  have gas: "21000 \<le> transaction.tx_gas_limit tx" "tx_fee_payer tx = Sender"
    using ok assms(1,2)
    by (auto simp: validate_transaction_def validate_gas_limit_def first_error_ok block_validation_context_def
        MIN_GAS_LIMIT_def split: sum.splits)
  then have "covered tx ?sender (bc_base_fee bc) \<and> transaction.tx_gas_limit tx \<noteq> 0"
    using validated_covered [OF ok] assms(1) by (auto simp: block_validation_context_def)
  then show thesis
    using that [OF ns] gas free ok ns assms(3) by (auto simp: execute_transaction_def covered_def Let_def)
qed

definition nonce_apart :: "crypto_lib \<Rightarrow> transaction \<Rightarrow> bool" where
  "nonce_apart C tx \<longleftrightarrow>
     nonce_key C (tx_from tx) \<notin> {balance_key C (tx_from tx), balance_key C (tx_to tx), code_key C (tx_to tx)}"

lemma after_nonce:
  assumes "nonce_apart C tx"
  defines "s \<equiv> \<lambda>ns smt. store_nonce C (tx_from tx) ns smt"
  shows "load_account C (s ns smt) (tx_from tx) = load_account C smt (tx_from tx)"
    and "load_account C (s ns smt) (tx_to tx) = load_account C smt (tx_to tx)"
    and "load_contract_code C (s ns smt) (tx_to tx) = load_contract_code C smt (tx_to tx)"
    and "parties_ok C tx (s ns smt) = parties_ok C tx smt"
proof -
  show 1: "load_account C (s ns smt) (tx_from tx) = load_account C smt (tx_from tx)"
    "load_account C (s ns smt) (tx_to tx) = load_account C smt (tx_to tx)"
    using assms(1) unfolding s_def store_nonce_def nonce_apart_def by (intro acct.read_other; auto)+
  show "load_contract_code C (s ns smt) (tx_to tx) = load_contract_code C smt (tx_to tx)"
    using assms(1) by (auto simp: s_def store_nonce_def nonce_apart_def load_contract_code_def smt.get_ins)
  show "parties_ok C tx (s ns smt) = parties_ok C tx smt"
    by (simp add: parties_ok_def account_at_def 1)
qed

text \<open>A transfer or call whose execution leaves the state as it is ends in \<open>settled\<close>.\<close>

lemma standard_outcome:
  fixes C tx smt
  defines "sender \<equiv> load_account C smt (tx_from tx)" and "recipient \<equiv> load_account C smt (tx_to tx)"
  assumes "bc_chain_id bc \<noteq> DEVNET" "tx_type tx = Standard" "execute_transaction C root tx bc smt = (Inr r, smt')"
    and run: "\<And>s ns. execute_by_type C Standard tx s bc (store_nonce C (tx_from tx) ns smt)
      = Some ((ok, g, rf, lg, ret), s, store_nonce C (tx_from tx) ns smt)"
  obtains ns eff rf' bal where
    "smt' = settled C tx bal sender recipient (store_nonce C (tx_from tx) ns smt)"
    and "consumed ns = insert (unat (transaction.tx_nonce tx)) (consumed (load_nonce C smt (tx_from tx)))"
    and "post_execution_refund g (transaction.tx_gas_limit tx) rf
      (acc_balance sender - ucast (transaction.tx_gas_limit tx) * bc_base_fee bc - tx_value tx) (bc_base_fee bc) = ((eff, rf'), bal)"
    and "r = generate_receipt C tx ok g rf' eff (bc_base_fee bc) lg (root smt') ret"
    and "21000 \<le> transaction.tx_gas_limit tx"
    and "max_fee tx (bc_base_fee bc) + unat (tx_value tx) \<le> unat (acc_balance sender)"
proof -
  obtain ns where ns: "use_nonce (transaction.tx_nonce tx) (load_nonce C smt (tx_from tx)) = (Inr (), ns)"
    and car: "charge_and_run C root tx bc sender recipient (store_nonce C (tx_from tx) ns smt) = (Inr r, smt')"
    and fit: "tx_fee_payer tx = Sender" "21000 \<le> transaction.tx_gas_limit tx"
      "max_fee tx (bc_base_fee bc) + unat (tx_value tx) \<le> unat (acc_balance sender)"
    using executed_standard [OF assms(3-5)] unfolding sender_def recipient_def by metis
  obtain eff rf' bal where refund: "post_execution_refund g (transaction.tx_gas_limit tx) rf
      (acc_balance sender - ucast (transaction.tx_gas_limit tx) * bc_base_fee bc - tx_value tx) (bc_base_fee bc) = ((eff, rf'), bal)"
    by (metis surj_pair)
  have "smt' = settled C tx bal sender recipient (store_nonce C (tx_from tx) ns smt)
      \<and> r = generate_receipt C tx ok g rf' eff (bc_base_fee bc) lg (root smt') ret"
    using run_standard(1) [OF assms(4) fit(1,3) run refund, of root recipient ns] car by (simp add: Let_def)
  then show thesis using that use_nonce_accepted(2) [OF ns] refund fit(2,3) by blast
qed

text \<open>The balance the refund leaves, for gas within the limit.\<close>

lemma refund_exact:
  assumes "max_fee tx base_fee + unat (tx_value tx) \<le> unat bal0" "g \<le> transaction.tx_gas_limit tx"
    and "post_execution_refund g (transaction.tx_gas_limit tx) rf
      (bal0 - ucast (transaction.tx_gas_limit tx) * base_fee - tx_value tx) base_fee = ((eff, rf'), bal)"
  shows "unat bal + unat (tx_value tx) + unat eff * unat base_fee = unat bal0 \<and> (rf = 0 \<longrightarrow> eff = g)"
proof -
  let ?c = "ucast (transaction.tx_gas_limit tx) * base_fee :: u128"
  have "max_fee tx base_fee < 2 ^ 128" using assms(1) unat_lt_length [of bal0] by simp
  then have c: "unat ?c = max_fee tx base_fee" by (rule unat_max_fee)
  have v: "unat (bal0 - tx_value tx) = unat bal0 - unat (tx_value tx)" using assms(1) by (simp add: unat_sub word_le_nat_alt)
  have "unat (bal0 - ?c) = unat bal0 - max_fee tx base_fee"
    using assms(1) c by (simp add: unat_sub word_le_nat_alt)
  then have "unat (bal0 - ?c - tx_value tx) = unat bal0 - max_fee tx base_fee - unat (tx_value tx)"
    using assms(1) by (simp add: unat_sub word_le_nat_alt)
  then have "unat (bal0 - ?c - tx_value tx) = unat (bal0 - tx_value tx) - max_fee tx base_fee"
    "max_fee tx base_fee \<le> unat (bal0 - tx_value tx)"
    using v assms(1) by simp_all
  from refund_within_limit [OF assms(2) this(2,1), of rf]
  have "unat bal = unat (bal0 - tx_value tx) - unat eff * unat base_fee" "unat eff * unat base_fee \<le> max_fee tx base_fee"
    unfolding assms(3) prod.case by blast+
  moreover have "rf = 0 \<longrightarrow> eff = g" using assms(3) by (auto simp: post_execution_refund_def Let_def)
  ultimately show ?thesis using v assms(1) by simp
qed

text \<open>
  C2: a transfer moves exactly its value and costs exactly its fee. On a production chain an executed
  transfer to an address without code succeeds with 21000 gas; the sender loses the value and the
  fee, the recipient gains the value, a transfer to oneself costs the fee only; burned, proposer and
  treasury shares of the receipt add up to the fee; the nonce is consumed; no other key of the state
  changes; and the same transaction is refused in every later block.
\<close>

theorem transfer_exact_and_final:
  fixes C tx smt smt'
  defines "bal \<equiv> \<lambda>s a. unat (acc_balance (load_account C s a))"
  assumes "bc_chain_id bc \<noteq> DEVNET" "tx_type tx = Standard" "execute_transaction C root tx bc smt = (Inr r, smt')"
    and "tx_to tx = replicate 32 0 \<or> load_contract_code C smt (tx_to tx) = None"
    and ok: "parties_ok C tx smt" and keys: "nonce_apart C tx" and small: "unat (bc_base_fee bc) < 2 ^ 100"
  shows "let fee = 21000 * unat (bc_base_fee bc)
    in rc_success r \<and> rc_gas_used r = 21000
      \<and> unat (rc_fee_burned r) + unat (rc_fee_validator r) + unat (rc_fee_treasury r) = fee
      \<and> (if tx_from tx = tx_to tx then bal smt' (tx_from tx) + fee = bal smt (tx_from tx)
         else bal smt' (tx_from tx) + unat (tx_value tx) + fee = bal smt (tx_from tx)
           \<and> bal smt' (tx_to tx) = bal smt (tx_to tx) + unat (tx_value tx))
      \<and> unat (transaction.tx_nonce tx) \<in> consumed (load_nonce C smt' (tx_from tx))
      \<and> (\<forall>k. k \<notin> {nonce_key C (tx_from tx), balance_key C (tx_from tx), balance_key C (tx_to tx)} \<longrightarrow> smt_get smt' k = smt_get smt k)
      \<and> (\<forall>later. \<exists>e. execute_transaction C root tx later smt' = (Inl e, smt'))"
proof -
  let ?sender = "load_account C smt (tx_from tx)" and ?recipient = "load_account C smt (tx_to tx)"
  have run: "execute_by_type C Standard tx s bc (store_nonce C (tx_from tx) ns smt)
      = Some ((True, 21000, 0, [], []), s, store_nonce C (tx_from tx) ns smt)" for s ns
    using assms(5) after_nonce(3) [OF keys] by (auto simp: with_sender_def succeeded_def split: option.splits)
  obtain ns eff rf' b where out:
    "smt' = settled C tx b ?sender ?recipient (store_nonce C (tx_from tx) ns smt)"
    "consumed ns = insert (unat (transaction.tx_nonce tx)) (consumed (load_nonce C smt (tx_from tx)))"
    "post_execution_refund 21000 (transaction.tx_gas_limit tx) 0
      (acc_balance ?sender - ucast (transaction.tx_gas_limit tx) * bc_base_fee bc - tx_value tx) (bc_base_fee bc) = ((eff, rf'), b)"
    "r = generate_receipt C tx True 21000 rf' eff (bc_base_fee bc) [] (root smt') []"
    "21000 \<le> transaction.tx_gas_limit tx"
    "max_fee tx (bc_base_fee bc) + unat (tx_value tx) \<le> unat (acc_balance ?sender)"
    using standard_outcome [OF assms(2-4) run] .
  from refund_exact [OF out(6,5,3)] have b: "eff = 21000" "unat b + unat (tx_value tx) + 21000 * unat (bc_base_fee bc) = bal smt (tx_from tx)"
    by (auto simp: bal_def)
  let ?s1 = "store_nonce C (tx_from tx) ns smt"
  have ok1: "parties_ok C tx ?s1" using ok after_nonce(4) [OF keys] by simp
  note loads = after_nonce(1,2) [OF keys]
  have frame: "smt_get smt' k = smt_get ?s1 k" if "k \<noteq> balance_key C (tx_from tx)" "k \<noteq> balance_key C (tx_to tx)" for k
    unfolding out(1) using that loads by (intro settled_frame [OF ok1]) simp_all
  then have "load_nonce C smt' (tx_from tx) = load_nonce C ?s1 (tx_from tx)"
    using keys by (intro nonces.read_local) (auto simp: nonce_apart_def)
  then have nonce: "load_nonce C smt' (tx_from tx) = ns" by (simp add: nonces.read_write)
  have le: "unat b + unat (tx_value tx) \<le> unat (acc_balance ?sender)" using b(2) by (simp add: bal_def)
  have sum: "unat (rc_fee_burned r) + unat (rc_fee_validator r) + unat (rc_fee_treasury r) = 21000 * unat (bc_base_fee bc)"
    using distribute_fee_shares(3) [of 21000 "bc_base_fee bc"] small b(1) by (simp add: out(4) generate_receipt_def Let_def)
  have moved: "if tx_from tx = tx_to tx then bal smt' (tx_from tx) = unat b + unat (tx_value tx)
      else bal smt' (tx_from tx) = unat b \<and> bal smt' (tx_to tx) = bal smt (tx_to tx) + unat (tx_value tx)"
    using settled_balances [OF ok1, unfolded loads, OF le] ok le unat_lt_length [of "acc_balance ?sender"]
    by (auto simp: out(1) bal_def parties_ok_def unat_add_lem [THEN iffD1])
  have "consumed (load_nonce C smt' (tx_from tx)) = insert (unat (transaction.tx_nonce tx)) (consumed (load_nonce C smt (tx_from tx)))"
    using nonce out(2) by simp
  then have used: "unat (transaction.tx_nonce tx) \<in> consumed (load_nonce C smt' (tx_from tx))" by simp
  have "smt_get smt' k = smt_get smt k"
    if "k \<notin> {nonce_key C (tx_from tx), balance_key C (tx_from tx), balance_key C (tx_to tx)}" for k
    using that frame [of k] by (simp add: store_nonce_def smt.get_ins)
  moreover have "rc_success r \<and> rc_gas_used r = 21000" by (simp add: out(4) generate_receipt_def Let_def)
  ultimately show ?thesis
    using sum moved b(2) used replay_refused [OF used] by (simp add: Let_def split: if_splits)
qed

section \<open>Failed calls\<close>

lemma failed_pvm_changes_nothing:
  "execute_in_pvm C tx code smt bc = Some ((ok, x), smt2) \<Longrightarrow> ok \<or> smt2 = smt"
  by (auto simp: execute_in_pvm_def Let_def split: sum.splits prod.splits)

lemma standard_run:
  "(\<forall>s. execute_by_type C Standard tx s bc smt = None)
   \<or> (\<exists>ok g rf lg ret s2. (\<forall>s. execute_by_type C Standard tx s bc smt = Some ((ok, g, rf, lg, ret), s, s2)) \<and> (ok \<or> s2 = smt))"
proof -
  let ?res = "if tx_to tx \<noteq> replicate 32 0 then
      (case load_contract_code C smt (tx_to tx) of Some code \<Rightarrow> execute_in_pvm C tx code smt bc | None \<Rightarrow> Some (succeeded 21000 [], smt))
    else Some (succeeded 21000 [], smt)"
  have by_type: "execute_by_type C Standard tx s bc smt = map_option (with_sender s) ?res" for s by simp
  consider "?res = None" | ok g rf lg ret s2 where "?res = Some ((ok, g, rf, lg, ret), s2)" by (metis not_Some_eq surj_pair)
  then show ?thesis
  proof cases
    case 1
    then show ?thesis unfolding by_type by simp
  next
    case res: 2
    then have "ok \<or> s2 = smt"
      by (auto simp: succeeded_def split: if_splits option.splits dest: failed_pvm_changes_nothing)
    then show ?thesis unfolding by_type res by (auto simp: with_sender_def)
  qed
qed

text \<open>
  C39: a failed call keeps the value. When the code of the recipient fails, with gas within the limit,
  its own writes are dropped, but the value has been moved before the call and is not moved back:
  the recipient of a failed transaction is paid.
\<close>

theorem failed_call_keeps_value:
  fixes C tx smt smt'
  defines "bal \<equiv> \<lambda>s a. unat (acc_balance (load_account C s a))"
  assumes "bc_chain_id bc \<noteq> DEVNET" "tx_type tx = Standard" "execute_transaction C root tx bc smt = (Inr r, smt')"
    and "\<not> rc_success r" "rc_gas_used r \<le> transaction.tx_gas_limit tx" "tx_from tx \<noteq> tx_to tx"
    and ok: "parties_ok C tx smt" and keys: "nonce_apart C tx"
  shows "bal smt' (tx_to tx) = bal smt (tx_to tx) + unat (tx_value tx)
    \<and> bal smt' (tx_from tx) + unat (tx_value tx) + unat (rc_effective_gas r) * unat (bc_base_fee bc) = bal smt (tx_from tx)"
proof -
  let ?sender = "load_account C smt (tx_from tx)" and ?recipient = "load_account C smt (tx_to tx)"
  obtain ns where car: "charge_and_run C root tx bc ?sender ?recipient (store_nonce C (tx_from tx) ns smt) = (Inr r, smt')"
    and fit: "tx_fee_payer tx = Sender" "max_fee tx (bc_base_fee bc) + unat (tx_value tx) \<le> unat (acc_balance ?sender)"
    using executed_standard [OF assms(2-4)] by metis
  let ?s1 = "store_nonce C (tx_from tx) ns smt"
  have "\<not> (\<forall>s. execute_by_type C Standard tx s bc ?s1 = None)"
    using run_standard(2) [OF assms(3) fit, of C ?s1 root ?recipient] car by (metis Inl_Inr_False prod.inject)
  then obtain okf g rf lg ret s2 where run: "\<And>s. execute_by_type C Standard tx s bc ?s1 = Some ((okf, g, rf, lg, ret), s, s2)"
    and failed: "\<not> okf \<Longrightarrow> s2 = ?s1"
    using standard_run [of C tx bc ?s1] by metis
  obtain eff rf' b where refund: "post_execution_refund g (transaction.tx_gas_limit tx) rf
      (acc_balance ?sender - ucast (transaction.tx_gas_limit tx) * bc_base_fee bc - tx_value tx) (bc_base_fee bc) = ((eff, rf'), b)"
    by (metis surj_pair)
  have out: "smt' = settled C tx b ?sender ?recipient s2"
    "r = generate_receipt C tx okf g rf' eff (bc_base_fee bc) lg (root smt') ret"
    using run_standard(1) [OF assms(3) fit run refund, of root ?recipient] car by (simp_all add: Let_def)
  then have "s2 = ?s1" "g \<le> transaction.tx_gas_limit tx" "rc_effective_gas r = eff"
    using assms(5,6) failed by (simp_all add: generate_receipt_def Let_def)
  moreover from this(2) have b: "unat b + unat (tx_value tx) + unat eff * unat (bc_base_fee bc) = unat (acc_balance ?sender)"
    using refund_exact [OF fit(2) _ refund] by blast
  then have le: "unat b + unat (tx_value tx) \<le> unat (acc_balance ?sender)" by simp
  have ok1: "parties_ok C tx ?s1" using ok after_nonce(4) [OF keys] by simp
  note settled_balances(1) [OF ok1, unfolded after_nonce(1,2) [OF keys], OF le assms(7)]
  ultimately show ?thesis
    using b ok by (simp add: out(1) bal_def parties_ok_def unat_add_lem [THEN iffD1])
qed

section \<open>Examples\<close>

text \<open>A funded sender and, at the recipient, the given code; empty code is no code.\<close>

definition payer_state :: "bytes \<Rightarrow> store" where
  "payer_state code = store_account tagged_crypto funded_sender (store_contract_code tagged_crypto (replicate 32 2) code smt_new)"

lemma payer_keys:
  "length a = 32 \<Longrightarrow> length b = 32 \<Longrightarrow> nonce_key tagged_crypto a \<noteq> balance_key tagged_crypto b"
  "length a = 32 \<Longrightarrow> length b = 32 \<Longrightarrow> nonce_key tagged_crypto a \<noteq> code_key tagged_crypto b"
  "length a = 32 \<Longrightarrow> length b = 32 \<Longrightarrow> code_key tagged_crypto a \<noteq> balance_key tagged_crypto b"
  "length a = 32 \<Longrightarrow> length b = 32 \<Longrightarrow> vesting_key tagged_crypto a \<noteq> balance_key tagged_crypto b"
  "length a = 32 \<Longrightarrow> length b = 32 \<Longrightarrow> vesting_key tagged_crypto a \<noteq> code_key tagged_crypto b"
  "length a = 32 \<Longrightarrow> length b = 32 \<Longrightarrow> take 7 a \<noteq> take 7 b \<Longrightarrow> balance_key tagged_crypto a \<noteq> balance_key tagged_crypto b"
  "length b = 32 \<Longrightarrow> emergency_pause_end_slot_key tagged_crypto \<noteq> balance_key tagged_crypto b"
  "length b = 32 \<Longrightarrow> emergency_pause_end_slot_key tagged_crypto \<noteq> code_key tagged_crypto b"
  unfolding nonce_key_def balance_key_def code_key_def vesting_key_def emergency_pause_end_slot_key_def
  by (rule tagged_hash_neq; auto simp: disc_NONCE_def disc_BALANCE_def disc_CODE_def disc_VESTING_def)+

lemma funded_sender_wf: "account_wf funded_sender" "acc_address funded_sender = replicate 32 1" "acc_balance funded_sender = 1000000"
  by (simp_all add: funded_sender_def account_wf_def new_system_def h256_zero_def)

lemma payer_reads:
  "load_account tagged_crypto (payer_state code) (replicate 32 1) = funded_sender"
  "load_account tagged_crypto (payer_state code) (replicate 32 2) = empty_account (replicate 32 2)"
  "load_nonce tagged_crypto (payer_state code) (replicate 32 1) = nonce_new"
  "load_contract_code tagged_crypto (payer_state code) (replicate 32 2) = (if code = [] then None else Some code)"
  "read_vesting_schedule tagged_crypto (payer_state code) (replicate 32 1) = None"
  "\<not> is_paused tagged_crypto (payer_state code) h"
proof -
  let ?a = "replicate 32 1 :: bytes" and ?b = "replicate 32 2 :: bytes"
  have len: "length ?a = 32" "length ?b = 32" "take 7 ?b \<noteq> take 7 ?a" by simp_all
  note keys = payer_keys(1-5) [OF len(1,1)] payer_keys(1-5) [OF len(1,2)] payer_keys(1-5) [OF len(2,1)] payer_keys(6) [OF len(2,1,3)]
    payer_keys(7,8) [OF len(1)] payer_keys(7,8) [OF len(2)]
  have ne: "account_to_bytes funded_sender \<noteq> []" by (rule account_to_bytes_nonempty)
  have get: "smt_get (payer_state code) k = (if k = balance_key tagged_crypto ?a then Some (account_to_bytes funded_sender)
      else if k = code_key tagged_crypto ?b \<and> code \<noteq> [] then Some code else None)" for k
    using ne
    by (simp only: payer_state_def store_account_def store_contract_code_def funded_sender_wf)
      (auto simp: smt_get_def smt_insert_def smt_new_def)
  show "load_account tagged_crypto (payer_state code) ?a = funded_sender"
    by (simp add: load_account_def get account_read_back funded_sender_wf)
  show "load_account tagged_crypto (payer_state code) ?b = empty_account ?b"
    using keys payer_keys(3) [OF len(2,2), symmetric] by (simp add: load_account_def get)
  show "load_nonce tagged_crypto (payer_state code) ?a = nonce_new"
    using keys by (simp add: load_nonce_def get)
  show "load_contract_code tagged_crypto (payer_state code) ?b = (if code = [] then None else Some code)"
    using keys by (simp add: load_contract_code_def get)
  show "read_vesting_schedule tagged_crypto (payer_state code) ?a = None"
    using keys by (simp add: read_vesting_schedule_def get)
  show "\<not> is_paused tagged_crypto (payer_state code) h"
    using keys by (simp add: is_paused_def read_emergency_pause_end_slot_def read_u64_state_def get)
qed

text \<open>Code that does not fit the code section: every call fails when it is loaded.\<close>

definition oversized_code :: bytes where "oversized_code = replicate (Suc (unat CODE_END)) 0"

lemma oversized_call_fails:
  "execute_in_pvm C tx oversized_code smt bc = Some ((False, transaction.tx_gas_limit tx, 0, [], []), smt)"
proof -
  have "\<exists>e s'. load oversized_code s = (Inl e, s')" for s
    by (auto simp: load_def sbind_def on_memory_def load_code_def oversized_code_def serr_def split: prod.splits)
  then show ?thesis
    unfolding execute_in_pvm_def by (metis (no_types, lifting) old.prod.case old.sum.simps(5))
qed

lemma payer_ok: "parties_ok tagged_crypto (transfer_tx (replicate 32 2) 700) (payer_state code)"
  "nonce_apart tagged_crypto (transfer_tx (replicate 32 2) 700)"
proof -
  have from_to: "tx_from (transfer_tx (replicate 32 2) 700) = replicate 32 1" "tx_to (transfer_tx (replicate 32 2) 700) = replicate 32 2"
    "tx_value (transfer_tx (replicate 32 2) 700) = 700" by (simp_all add: transfer_tx_def)
  show "parties_ok tagged_crypto (transfer_tx (replicate 32 2) 700) (payer_state code)"
    unfolding parties_ok_def account_at_def from_to payer_reads funded_sender_wf
    by (simp add: empty_account_wf funded_sender_wf payer_keys) (simp add: empty_account_def)
  show "nonce_apart tagged_crypto (transfer_tx (replicate 32 2) 700)"
    by (simp add: nonce_apart_def from_to payer_keys)
qed

lemma payer_pays: "max_fee (transfer_tx (replicate 32 2) 700) (bc_base_fee example_block) + unat (tx_value (transfer_tx (replicate 32 2) 700))
    \<le> unat (acc_balance funded_sender)"
  by (simp add: max_fee_def transfer_tx_def funded_sender_wf example_block_def)

lemma payer_charged:
  "\<exists>ns. execute_transaction tagged_crypto root (transfer_tx (replicate 32 2) 700) example_block (payer_state code) =
     charge_and_run tagged_crypto root (transfer_tx (replicate 32 2) 700) example_block funded_sender (empty_account (replicate 32 2))
       (store_nonce tagged_crypto (tx_from (transfer_tx (replicate 32 2) 700)) ns (payer_state code))"
proof -
  let ?tx = "transfer_tx (replicate 32 2) 700" and ?s = "payer_state code"
  have from_to: "tx_from ?tx = replicate 32 1" "tx_to ?tx = replicate 32 2" by (simp_all add: transfer_tx_def)
  have "tx_verify_signature tagged_crypto ?tx (replicate 897 1)"
    by (simp add: tx_verify_signature_def falcon_pk_from_bytes_def FALCON_PK_SIZE_def transfer_tx_def
        falcon_sig_from_bytes_def falcon_verify_def tagged_crypto_def accepting_crypto_def)
  then have sig: "validate_tx_signature tagged_crypto ?tx funded_sender = Inr ()"
    by (simp add: validate_tx_signature_def funded_sender_def)
  have vc: "block_validation_context tagged_crypto ?s ?tx example_block = \<lparr>vc_block_height = 10, vc_base_fee = 3,
      vc_block_gas_limit = 1600000000, vc_chain_id = 1, vc_dev_skip_signature = False, vc_sender_locked = 0, vc_sig_pre_verified = False\<rparr>"
    (is "_ = ?vc") by (simp add: block_validation_context_def sender_locked_def example_block_def from_to payer_reads)
  have "validate_balance ?tx funded_sender ?vc = Inr ()"
    using validate_balance_sender [of ?tx funded_sender ?vc "()"] payer_pays
    by (simp add: transfer_tx_def spendable_def example_block_def)
  moreover have "validate_nonce ?tx nonce_new = Inr ()"
    by (simp add: validate_nonce_ok nonce_is_valid_def validate_spec nonce_new_def transfer_tx_def consumed_def)
  ultimately have valid: "validate_transaction tagged_crypto ?tx funded_sender nonce_new ?vc = Inr ()"
    using sig
    by (simp add: validate_transaction_def validate_chain_id_def require_def validate_gas_limit_def validate_deadline_def
        validate_access_list_def validate_size_def DEVNET_def carries_value_def MIN_GAS_LIMIT_def MAX_CALLDATA_def MAX_TX_SIZE_def)
      (simp add: transfer_tx_def funded_sender_def tx_to_bytes_def serialize_access_list_def require_def Let_def)
  from validated_nonce_used [OF this] obtain ns where ns: "use_nonce (transaction.tx_nonce ?tx) nonce_new = (Inr (), ns)" by blast
  then show ?thesis using valid by (intro exI [of _ ns]) (simp add: execute_transaction_def payer_reads from_to vc Let_def)
qed

lemma payer_transfer_executes:
  assumes "code = [] \<or> code = oversized_code"
  shows "\<exists>r smt'. execute_transaction tagged_crypto root (transfer_tx (replicate 32 2) 700) example_block (payer_state code) = (Inr r, smt')"
proof -
  let ?tx = "transfer_tx (replicate 32 2) 700" and ?s = "payer_state code"
  obtain ns where ns: "execute_transaction tagged_crypto root ?tx example_block ?s =
      charge_and_run tagged_crypto root ?tx example_block funded_sender (empty_account (replicate 32 2)) (store_nonce tagged_crypto (tx_from ?tx) ns ?s)"
    using payer_charged by blast
  have "covered ?tx funded_sender (bc_base_fee example_block)"
    using payer_pays by (simp add: covered_def example_block_def transfer_tx_def)
  moreover have "execute_by_type tagged_crypto (tx_type ?tx) ?tx s example_block (store_nonce tagged_crypto (tx_from ?tx) ns ?s) \<noteq> None" for s
    using assms after_nonce(3) [OF payer_ok(2), of ns ?s]
    by (auto simp: transfer_tx_def payer_reads oversized_call_fails split: option.splits)
  ultimately show ?thesis unfolding ns using charge_and_run_covered by metis
qed

theorem transfer_exact_and_final_witness:
  "\<exists>r smt'. execute_transaction tagged_crypto (\<lambda>_. []) (transfer_tx (replicate 32 2) 700) example_block (payer_state []) = (Inr r, smt')
     \<and> rc_success r \<and> unat (acc_balance (load_account tagged_crypto smt' (replicate 32 1))) = 936300
     \<and> unat (acc_balance (load_account tagged_crypto smt' (replicate 32 2))) = 700
     \<and> (\<exists>e. execute_transaction tagged_crypto (\<lambda>_. []) (transfer_tx (replicate 32 2) 700) example_block smt' = (Inl e, smt'))"
proof -
  let ?tx = "transfer_tx (replicate 32 2) 700"
  have from_to: "tx_from ?tx = replicate 32 1" "tx_to ?tx = replicate 32 2" "tx_value ?tx = 700" "tx_type ?tx = Standard"
    "bc_chain_id example_block \<noteq> DEVNET" "bc_base_fee example_block = 3"
    by (simp_all add: transfer_tx_def example_block_def DEVNET_def)
  obtain r smt' where run: "execute_transaction tagged_crypto (\<lambda>_. []) ?tx example_block (payer_state []) = (Inr r, smt')"
    using payer_transfer_executes by blast
  from transfer_exact_and_final [OF from_to(5,4) run _ payer_ok]
  show ?thesis using run
    by (simp add: from_to payer_reads funded_sender_wf Let_def) (simp add: empty_account_def)
qed

theorem failed_call_keeps_value_witness:
  "\<exists>r smt'. execute_transaction tagged_crypto (\<lambda>_. []) (transfer_tx (replicate 32 2) 700) example_block (payer_state oversized_code) = (Inr r, smt')
     \<and> \<not> rc_success r \<and> unat (acc_balance (load_account tagged_crypto smt' (replicate 32 2))) = 700"
proof -
  let ?tx = "transfer_tx (replicate 32 2) 700" and ?s = "payer_state oversized_code"
  have from_to: "tx_from ?tx = replicate 32 1" "tx_to ?tx = replicate 32 2" "tx_value ?tx = 700" "tx_type ?tx = Standard"
    "bc_chain_id example_block \<noteq> DEVNET" "transaction.tx_gas_limit ?tx = 30000"
    by (simp_all add: transfer_tx_def example_block_def DEVNET_def)
  obtain r smt' where run: "execute_transaction tagged_crypto (\<lambda>_. []) ?tx example_block ?s = (Inr r, smt')"
    using payer_transfer_executes by blast
  have ne: "oversized_code \<noteq> []" by (simp add: oversized_code_def)
  have "load_contract_code tagged_crypto (store_nonce tagged_crypto (tx_from ?tx) ns ?s) (tx_to ?tx) = Some oversized_code" for ns
    unfolding after_nonce(3) [OF payer_ok(2)] using ne by (simp add: from_to payer_reads)
  then have fails: "execute_by_type tagged_crypto Standard ?tx s example_block (store_nonce tagged_crypto (tx_from ?tx) ns ?s)
      = Some ((False, 30000, 0, [], []), s, store_nonce tagged_crypto (tx_from ?tx) ns ?s)" for s ns
    by (simp add: with_sender_def oversized_call_fails from_to)
  have "\<not> rc_success r \<and> rc_gas_used r = 30000"
    by (rule standard_outcome [OF from_to(5,4) run fails]) (simp add: generate_receipt_def Let_def)
  with failed_call_keeps_value [OF from_to(5,4) run _ _ _ payer_ok]
  show ?thesis using run by (simp add: from_to payer_reads) (simp add: empty_account_def)
qed

section \<open>Return data\<close>

lemma load_bytes_wrapped:
  assumes "2 ^ 64 \<le> addr + len" "addr < 2 ^ 64" "len \<le> MEMORY_SIZE"
  shows "load_bytes_or_panic m addr len = None"
proof -
  define j where "j = 2 ^ 64 - addr"
  have j: "addr = 2 ^ 64 - j" "0 < j" "j \<le> len" "j \<le> 2 ^ 22" using assms by (auto simp: j_def MEMORY_SIZE_def)
  have "addr = (2 ^ 32 - 1) * 2 ^ 32 + (2 ^ 32 - j)" using j(1,4) by simp
  then have "addr mod 2 ^ 32 = 2 ^ 32 - j" using j(2) by (simp only: mod_mult_self3) simp
  then have "unat (of_nat addr :: u32) = 2 ^ 32 - j" by (simp add: unat_of_nat)
  then have "\<not> unat (of_nat (addr + 0) :: u32) div PAGE_SIZE < PAGE_COUNT"
    using j(4) by (simp add: MEMORY_SIZE_def PAGE_COUNT_def PAGE_SIZE_def div_less_iff_less_mult)
  moreover have "0 < len" using j by simp
  ultimately show ?thesis by (force simp: load_bytes_or_panic_def list_all_iff)
qed

lemma pvm_return_data_panics:
  "pvm_return_data success s = None \<longleftrightarrow>
     success \<and> return_data s = [] \<and> 0 < read_gp (cpu s) 2
     \<and> 2 ^ 64 \<le> unat (read_gp (cpu s) 1) + min (unat (read_gp (cpu s) 2)) MEMORY_SIZE"
proof -
  let ?ptr = "unat (read_gp (cpu s) 1)" and ?len = "min (unat (read_gp (cpu s) 2)) MEMORY_SIZE"
  have ptr: "?ptr < 2 ^ 64" using unat_lt_length [of "read_gp (cpu s) 1"] by simp
  show ?thesis
  proof (cases "2 ^ 64 \<le> ?ptr + ?len")
    case True
    moreover have "?ptr + ?len - 2 ^ 64 < 2 ^ 64" "?ptr + ?len - 2 ^ 64 \<le> MEMORY_SIZE" using ptr by (auto simp: MEMORY_SIZE_def)
    moreover from this have "(?ptr + ?len) mod 2 ^ 64 = ?ptr + ?len - 2 ^ 64"
      using True by (simp add: mod_if)
    ultimately show ?thesis using load_bytes_wrapped [OF True ptr] by (simp add: pvm_return_data_def Let_def)
  next
    case False
    then have "(?ptr + ?len) mod 2 ^ 64 = ?ptr + ?len" by simp
    then show ?thesis using False load_bytes_in_range [of ?ptr ?len "memory s"] by (simp add: pvm_return_data_def Let_def)
  qed
qed

text \<open>Three instructions: \<open>not r1, r0\<close>, \<open>not r2, r0\<close>, \<open>halt\<close>.\<close>

definition abort_code :: bytes where
  "abort_code = [0, 0, 0x40, 0x3C, 0, 0, 0x80, 0x3C, 0, 0, 0, 0xB0]"

definition abort_program :: "decoded_instruction list" where
  "abort_program = [\<lparr>opcode = Op_Not, rd = 1, rs1 = 0, rs2_or_imm = 0\<rparr>, \<lparr>opcode = Op_Not, rd = 2, rs1 = 0, rs2_or_imm = 0\<rparr>,
     \<lparr>opcode = Op_Halt, rd = 0, rs1 = 0, rs2_or_imm = 0\<rparr>]"

text \<open>A step of \<open>not r, r0\<close> and of \<open>halt\<close>, with gas left and no page charge pending.\<close>

lemma step_not_zero:
  assumes "check_pc_bounds s = (Inr (), s)" "current s = \<lparr>opcode = Op_Not, rd = r, rs1 = 0, rs2_or_imm = 0\<rparr>"
    and "page_gas_used (memory s) = 0" "gas_used_total s \<le> 6" "9 \<le> gas_limit s"
  shows "step C execf s = (Inr None, s\<lparr>gas_used_total := gas_used_total s + 3, cpu := write_gp r (- 1) (cpu s), pc := pc s + 4\<rparr>)"
proof -
  have "unat (gas_used_total s) \<le> 6" using assms(4) by (simp add: word_le_nat_alt)
  moreover from this have "unat (gas_used_total s + 3) = unat (gas_used_total s) + 3" by (simp add: unat_add_lem [THEN iffD1])
  moreover from calculation have "gas_used_total s + 3 \<le> gas_limit s" using assms(5) by (simp add: word_le_nat_alt)
  ultimately show ?thesis
    using assms(3) unfolding step_unfold [OF assms(1)] assms(2)
    by (simp add: step_eval step_alu_def set_gp_def next_pc_def gp_of_def read_gp_def drain_page_gas_def not_less)
qed

lemma step_halt:
  assumes "check_pc_bounds s = (Inr (), s)" "opcode (current s) = Op_Halt" "gas_used_total s \<le> 6" "9 \<le> gas_limit s"
  shows "step C execf s = (Inr (Some ExecHalt), s\<lparr>gas_used_total := gas_used_total s + 3\<rparr>)"
proof -
  have "unat (gas_used_total s) \<le> 6" using assms(3) by (simp add: word_le_nat_alt)
  moreover from this have "unat (gas_used_total s + 3) = unat (gas_used_total s) + 3" by (simp add: unat_add_lem [THEN iffD1])
  moreover from calculation have "gas_used_total s + 3 \<le> gas_limit s" using assms(4) by (simp add: word_le_nat_alt)
  ultimately show ?thesis
    unfolding step_unfold [OF assms(1)] by (simp add: step_eval assms(2) not_less)
qed

lemma abort_program_runs:
  assumes "pc s = 0" "decoded_cache s = abort_program" "page_gas_used (memory s) = 0" "gas_used_total s = 0" "9 \<le> gas_limit s"
  shows "run C execf s = (Inr ExecHalt, s\<lparr>gas_used_total := 9, cpu := write_gp 2 (- 1) (write_gp 1 (- 1) (cpu s)), pc := 8\<rparr>)"
proof -
  let ?s1 = "s\<lparr>gas_used_total := 3, cpu := write_gp 1 (- 1) (cpu s), pc := 4\<rparr>"
  let ?s2 = "s\<lparr>gas_used_total := 6, cpu := write_gp 2 (- 1) (write_gp 1 (- 1) (cpu s)), pc := 8\<rparr>"
  have pc: "check_pc_bounds s = (Inr (), s)" "check_pc_bounds ?s1 = (Inr (), ?s1)" "check_pc_bounds ?s2 = (Inr (), ?s2)"
    using assms(1,2) by (simp_all add: check_pc_bounds_def monad_simps abort_program_def)
  have "step C execf s = (Inr None, ?s1)"
    using assms by (subst step_not_zero [OF pc(1), of 1]) (simp_all add: abort_program_def)
  moreover have "step C execf ?s1 = (Inr None, ?s2)"
    using assms by (subst step_not_zero [OF pc(2), of 2]) (simp_all add: abort_program_def)
  moreover have "step C execf ?s2 = (Inr (Some ExecHalt), ?s2\<lparr>gas_used_total := 9\<rparr>)"
    using assms by (subst step_halt [OF pc(3)]) (simp_all add: abort_program_def)
  ultimately show ?thesis by (simp add: run_step)
qed

lemma abort_code_decodes: "decode_program abort_code = abort_program"
  by code_simp

lemma load_abort_code:
  assumes "tx_data tx = []"
  obtains s where "load abort_code (pvm_machine C tx smt bc) = (Inr (), s)"
    and "pc s = 0" "decoded_cache s = abort_program" "page_gas_used (memory s) = 0" "gas_used_total s = 0"
      "gas_limit s = transaction.tx_gas_limit tx" "return_data s = []"
proof -
  let ?m = "pvm_machine C tx smt bc"
  have m: "calldata ?m = []" "page_gas_used (memory ?m) = 0" "gas_used_total ?m = 0" "gas_limit ?m = transaction.tx_gas_limit tx" "return_data ?m = []"
    using assms by (simp_all add: pvm_machine_def with_gas_limit_and_context_def vm_new_def memory_new_def Let_def)
  have "length abort_code = 12" by (simp add: abort_code_def)
  then have "load abort_code ?m = (Inr (), ?m\<lparr>memory := (write_bytes CODE_START abort_code (memory ?m))\<lparr>code_end := of_nat (unat CODE_START + 12)\<rparr>,
      pc := 0, decoded_cache := abort_program\<rparr>)"
    by (simp add: load_def on_memory_def load_code_def monad_simps m(1) abort_code_decodes Let_def CODE_START_def CODE_END_def)
  from that [OF this] show thesis using m by simp
qed

lemma abort_code_aborts:
  assumes "9 \<le> transaction.tx_gas_limit tx" "tx_data tx = []"
  shows "execute_in_pvm C tx abort_code smt bc = None"
proof -
  obtain s where load: "load abort_code (pvm_machine C tx smt bc) = (Inr (), s)"
    and s: "pc s = 0" "decoded_cache s = abort_program" "page_gas_used (memory s) = 0" "gas_used_total s = 0"
      "gas_limit s = transaction.tx_gas_limit tx" "return_data s = []"
    using load_abort_code [OF assms(2)] .
  let ?c = "clear_journals s"
  let ?t = "clear_journals (?c\<lparr>gas_used_total := 9, cpu := write_gp 2 (- 1) (write_gp 1 (- 1) (cpu ?c)), pc := 8\<rparr>)"
  have "run C (execute C) ?c = (Inr ExecHalt, ?c\<lparr>gas_used_total := 9, cpu := write_gp 2 (- 1) (write_gp 1 (- 1) (cpu ?c)), pc := 8\<rparr>)"
    using s assms(1) by (intro abort_program_runs) (simp_all add: clear_journals_def)
  then have run: "\<exists>out. execute C s = (out, ?t) \<and> out_outcome out = Success"
    by (simp add: execute_unfold execute_with_def settle_def Let_def)
  have ones: "unat (- 1 :: u64) = 2 ^ 64 - 1" by (simp add: unat_eq_nat_uint uint_word_ariths)
  have "pvm_return_data True ?t = None"
    unfolding pvm_return_data_panics using s(6) by (simp add: clear_journals_def read_gp_def write_gp_def MEMORY_SIZE_def word_gt_0 ones)
  then show ?thesis using run by (auto simp: execute_in_pvm_def load Let_def)
qed

text \<open>
  C40: contract code can abort the node. Running a contract panics exactly when the code loads, ends
  in success without explicit return data, and leaves in r1 and r2 a range of return data whose end
  wraps around 64 bits: the check of that range is the wrapped sum and passes. Three instructions are
  enough, for any transaction without calldata that pays for nine gas.
\<close>

theorem return_data_panic:
  "(execute_in_pvm C tx code smt bc = None \<longleftrightarrow>
     (case load code (pvm_machine C tx smt bc) of
        (Inl _, _) \<Rightarrow> False
      | (Inr _, machine) \<Rightarrow>
          (case execute C machine of (out, s) \<Rightarrow>
             out_outcome out = Success \<and> return_data s = [] \<and> 0 < read_gp (cpu s) 2
             \<and> 2 ^ 64 \<le> unat (read_gp (cpu s) 1) + min (unat (read_gp (cpu s) 2)) MEMORY_SIZE)))
   \<and> (9 \<le> transaction.tx_gas_limit tx \<and> tx_data tx = [] \<longrightarrow> execute_in_pvm C tx abort_code smt bc = None)"
  using abort_code_aborts [of tx C smt bc] pvm_return_data_panics
  by (simp add: execute_in_pvm_def Let_def split: sum.splits prod.splits)

theorem return_data_panic_witness:
  "\<exists>smt'. execute_transaction tagged_crypto (\<lambda>_. []) (transfer_tx (replicate 32 2) 700) example_block (payer_state abort_code) = (Inl Panicked, smt')"
proof -
  let ?tx = "transfer_tx (replicate 32 2) 700" and ?s = "payer_state abort_code"
  have tx: "tx_type ?tx = Standard" "tx_fee_payer ?tx = Sender" "tx_to ?tx = replicate 32 2" "tx_data ?tx = []" "transaction.tx_gas_limit ?tx = 30000"
    by (simp_all add: transfer_tx_def)
  obtain ns where ns: "execute_transaction tagged_crypto (\<lambda>_. []) ?tx example_block ?s =
      charge_and_run tagged_crypto (\<lambda>_. []) ?tx example_block funded_sender (empty_account (replicate 32 2)) (store_nonce tagged_crypto (tx_from ?tx) ns ?s)"
    using payer_charged by blast
  have "load_contract_code tagged_crypto (store_nonce tagged_crypto (tx_from ?tx) ns ?s) (tx_to ?tx) = Some abort_code"
    unfolding after_nonce(3) [OF payer_ok(2)] by (simp add: tx payer_reads abort_code_def)
  then have "execute_by_type tagged_crypto Standard ?tx s example_block (store_nonce tagged_crypto (tx_from ?tx) ns ?s) = None" for s
    using return_data_panic [of tagged_crypto ?tx abort_code "store_nonce tagged_crypto (tx_from ?tx) ns ?s" example_block]
    by (simp add: tx)
  from run_standard(2) [OF tx(1,2) payer_pays this] show ?thesis unfolding ns by blast
qed

section \<open>Blocks\<close>

lemma execute_transaction_receipt:
  "execute_transaction C root tx bc smt = (Inr r, smt') \<Longrightarrow> rc_tx_hash r = Tx.tx_hash C tx"
  by (auto simp: execute_transaction_def charge_and_run_def emit_failed_execution_receipt_def finish_transaction_def
      generate_receipt_def Let_def split: sum.splits prod.splits option.splits if_splits)

text \<open>The reference for a block: its transactions one after the other, until one is an error.\<close>

fun run_in_order ::
  "crypto_lib \<Rightarrow> (store \<Rightarrow> bytes) \<Rightarrow> block_context \<Rightarrow> transaction list \<Rightarrow> store \<Rightarrow> (receipt list \<times> store) option" where
  "run_in_order C root bc [] smt = Some ([], smt)"
| "run_in_order C root bc (tx # txs) smt =
     (case execute_transaction C root tx bc smt of
        (Inl _, _) \<Rightarrow> None
      | (Inr r, smt) \<Rightarrow> map_option (\<lambda>(rs, smt). (r # rs, smt)) (run_in_order C root bc txs smt))"

text \<open>A block stops at the first transaction of its order that is an error, with that error and the state it left.\<close>

definition stops_at ::
  "crypto_lib \<Rightarrow> (store \<Rightarrow> bytes) \<Rightarrow> block_context \<Rightarrow> transaction list \<Rightarrow> store \<Rightarrow> nat \<Rightarrow> pipeline_error \<Rightarrow> store \<Rightarrow> bool" where
  "stops_at C root bc txs smt k e smt' \<longleftrightarrow> k < length txs
     \<and> (case run_in_order C root bc (take k txs) smt of
          None \<Rightarrow> False
        | Some (_, s) \<Rightarrow> execute_transaction C root (txs ! k) bc s = (Inl e, smt'))"

lemma stops_at_0: "execute_transaction C root tx bc smt = (Inl e, smt') \<Longrightarrow> stops_at C root bc (tx # txs) smt 0 e smt'"
  by (simp add: stops_at_def)

lemma stops_at_Suc:
  "execute_transaction C root tx bc smt = (Inr r, s1) \<Longrightarrow> stops_at C root bc txs s1 k e smt' \<Longrightarrow>
     stops_at C root bc (tx # txs) smt (Suc k) e smt'"
  by (auto simp: stops_at_def split: option.splits)

lemma execute_indices_spec:
  assumes "distinct idxs" "set idxs \<subseteq> {..<length txs}" "length rs = length txs"
  shows "case execute_indices C root txs bc idxs rs smt of
      (Inl e, smt') \<Rightarrow> \<exists>k. stops_at C root bc (map (nth txs) idxs) smt k e smt'
    | (Inr rs', smt') \<Rightarrow> length rs' = length txs \<and> (\<forall>i. i \<notin> set idxs \<longrightarrow> rs' ! i = rs ! i)
        \<and> (\<forall>i\<in>set idxs. \<exists>r. rs' ! i = Some r \<and> rc_tx_hash r = Tx.tx_hash C (txs ! i))
        \<and> run_in_order C root bc (map (nth txs) idxs) smt = Some (map (\<lambda>i. the (rs' ! i)) idxs, smt')"
  using assms
proof (induction idxs arbitrary: rs smt)
  case Nil
  then show ?case by simp
next
  case (Cons i idxs)
  have i: "i < length txs" using Cons.prems(2) by simp
  obtain res s1 where tx: "execute_transaction C root (txs ! i) bc smt = (res, s1)" by fastforce
  show ?case
  proof (cases res)
    case (Inl e)
    then show ?thesis using tx i by (auto intro: stops_at_0)
  next
    case (Inr r)
    have h: "rc_tx_hash r = Tx.tx_hash C (txs ! i)" using execute_transaction_receipt tx Inr by simp
    let ?rest = "execute_indices C root txs bc idxs (rs[i := Some r]) s1"
    have step: "execute_indices C root txs bc (i # idxs) rs smt = ?rest" using tx Inr i by simp
    obtain res' s2 where rest: "?rest = (res', s2)" by fastforce
    show ?thesis
    proof (cases res')
      case (Inl e)
      then obtain k where "stops_at C root bc (map (nth txs) idxs) s1 k e s2"
        using Cons.IH [where rs = "rs[i := Some r]" and smt = s1] Cons.prems rest by auto
      then show ?thesis unfolding step using tx Inr rest \<open>res' = Inl e\<close> by (auto intro: stops_at_Suc)
    next
      case rs': (Inr rs')
      from Cons.IH [where rs = "rs[i := Some r]" and smt = s1] Cons.prems
      have ih: "length rs' = length txs" "\<forall>j. j \<notin> set idxs \<longrightarrow> rs' ! j = rs[i := Some r] ! j"
        "\<forall>j\<in>set idxs. \<exists>r. rs' ! j = Some r \<and> rc_tx_hash r = Tx.tx_hash C (txs ! j)"
        "run_in_order C root bc (map (nth txs) idxs) s1 = Some (map (\<lambda>i. the (rs' ! i)) idxs, s2)"
        unfolding rest rs' by simp_all
      have "rs' ! i = Some r" using ih(2) Cons.prems(1,3) i by simp
      moreover have "rs' ! j = rs ! j" if "j \<notin> set (i # idxs)" for j using ih(2) that by simp
      ultimately show ?thesis
        unfolding step rest rs' using ih(1,3,4) h tx Inr by simp
    qed
  qed
qed

text \<open>
  C10: a block runs its schedule. For a schedule that lists every transaction once, executing the
  block runs the transactions one after the other in the order of the groups. When none of them is
  an error, it answers with one receipt per transaction, in the order of the block and each for
  the transaction at its index. Otherwise it stops at the first transaction of that order that is
  an error, with the error of that transaction and the state it left: the schedule and the receipts
  add no failure of their own.
\<close>

theorem block_runs_its_schedule:
  fixes txs sched
  defines "order \<equiv> concat (map tx_indices (sched_groups sched))"
  assumes "valid_schedule (length txs) sched"
  shows "case execute_block_parallel C root txs sched bc smt of
      (Inl e, smt') \<Rightarrow> \<exists>k. stops_at C root bc (map (nth txs) order) smt k e smt'
    | (Inr receipts, smt') \<Rightarrow>
        map rc_tx_hash receipts = map (Tx.tx_hash C) txs
        \<and> run_in_order C root bc (map (nth txs) order) smt = Some (map (nth receipts) order, smt')"
proof -
  let ?order = order and ?none = "replicate (length txs) None"
  have order: "distinct ?order" "set ?order = {..<length txs}" using assms(2) by (simp_all only: valid_schedule_def order_def)
  obtain res smt' where run: "execute_indices C root txs bc ?order ?none smt = (res, smt')" by fastforce
  note spec = execute_indices_spec [OF order(1) eq_refl [OF order(2)], where rs = ?none and C = C and root = root and bc = bc and smt = smt, unfolded run]
  show ?thesis
  proof (cases res)
    case (Inl e)
    then show ?thesis using spec run by (simp add: execute_block_parallel_def order_def)
  next
    case (Inr rs)
    then have rs: "length rs = length txs" "\<forall>i<length txs. \<exists>r. rs ! i = Some r \<and> rc_tx_hash r = Tx.tx_hash C (txs ! i)"
      "run_in_order C root bc (map (nth txs) ?order) smt = Some (map (\<lambda>i. the (rs ! i)) ?order, smt')"
      using spec order(2) by (auto simp del: set_concat)
    then have "None \<notin> set rs" by (force simp: in_set_conv_nth)
    then have out: "execute_block_parallel C root txs sched bc smt = (Inr (map the rs), smt')"
      using run Inr by (simp add: execute_block_parallel_def order_def)
    have "map rc_tx_hash (map the rs) = map (Tx.tx_hash C) txs"
      using rs(1,2) by (force simp: list_eq_iff_nth_eq)
    moreover have "map (\<lambda>i. the (rs ! i)) ?order = map (nth (map the rs)) ?order"
      using order(2) rs(1) by (intro map_cong refl) (metis lessThan_iff nth_map)
    ultimately show ?thesis using rs(3) by (simp only: out prod.case sum.case)
  qed
qed

definition single_schedule :: execution_schedule where
  "single_schedule = \<lparr>sched_groups = [\<lparr>tx_indices = [0]\<rparr>], total_txs = 1\<rparr>"

theorem block_runs_its_schedule_witness:
  "\<exists>receipts smt'. execute_block_parallel tagged_crypto (\<lambda>_. []) [transfer_tx (replicate 32 2) 700] single_schedule
       example_block (payer_state []) = (Inr receipts, smt')
     \<and> map rc_tx_hash receipts = [Tx.tx_hash tagged_crypto (transfer_tx (replicate 32 2) 700)]"
proof -
  let ?txs = "[transfer_tx (replicate 32 2) 700]"
  have valid: "valid_schedule (length ?txs) single_schedule" by (auto simp: valid_schedule_def single_schedule_def)
  obtain r smt' where "execute_transaction tagged_crypto (\<lambda>_. []) (transfer_tx (replicate 32 2) 700) example_block (payer_state []) = (Inr r, smt')"
    using payer_transfer_executes by blast
  then have run: "execute_block_parallel tagged_crypto (\<lambda>_. []) ?txs single_schedule example_block (payer_state []) = (Inr [r], smt')"
    by (simp add: execute_block_parallel_def single_schedule_def)
  show ?thesis
    using block_runs_its_schedule [OF valid, where C = tagged_crypto and root = "\<lambda>_. []" and bc = example_block and smt = "payer_state []"]
    unfolding run by simp
qed

text \<open>The credit of a block's fees, for sums that do not wrap.\<close>

lemma unat_sum_list:
  "sum_list (map unat ws) < 2 ^ LENGTH('a) \<Longrightarrow> unat (sum_list ws :: 'a::len word) = sum_list (map unat ws)"
proof (induction ws)
  case (Cons w ws)
  then have "unat (sum_list ws) = sum_list (map unat ws)" by simp
  then show ?case using Cons.prems by (simp add: unat_add_lem [THEN iffD1])
qed simp

lemma credit_load:
  assumes "account_at C smt addr" "unat (acc_balance (load_account C smt addr)) + unat amount < 2 ^ 128"
  shows "unat (acc_balance (load_account C (credit C addr amount smt) addr)) = unat (acc_balance (load_account C smt addr)) + unat amount"
    and "account_at C (credit C addr amount smt) addr"
    and "k \<noteq> balance_key C addr \<Longrightarrow> smt_get (credit C addr amount smt) k = smt_get smt k"
proof -
  let ?a = "load_account C smt addr"
  have wf: "account_wf ?a" "acc_address ?a = addr" using assms(1) by (simp_all add: account_at_def)
  have load: "load_account C (credit C addr amount smt) addr = ?a\<lparr>acc_balance := acc_balance ?a + amount\<rparr>"
    using load_store_account [of "?a\<lparr>acc_balance := acc_balance ?a + amount\<rparr>" C smt] wf
    by (simp add: credit_def Let_def word_gt_0)
  then show "unat (acc_balance (load_account C (credit C addr amount smt) addr)) = unat (acc_balance ?a) + unat amount"
    using assms(2) by (simp add: unat_add_lem [THEN iffD1])
  show "account_at C (credit C addr amount smt) addr" using load wf by (simp add: account_at_def)
  show "smt_get (credit C addr amount smt) k = smt_get smt k" if "k \<noteq> balance_key C addr"
    using that wf by (simp add: credit_def Let_def store_account_def smt.get_ins)
qed

text \<open>Every fee share of the receipts is credited, to two accounts or to one that is both.\<close>

lemma block_fees_credited:
  fixes C smt proposer receipts
  defines "bal \<equiv> \<lambda>s a. unat (acc_balance (load_account C s a))" and "treasury \<equiv> treasury_address C"
    and "pv \<equiv> sum_list (map (\<lambda>r. unat (rc_fee_validator r)) receipts)" and "tv \<equiv> sum_list (map (\<lambda>r. unat (rc_fee_treasury r)) receipts)"
  assumes "account_at C smt proposer" "account_at C smt treasury"
    and "proposer = treasury \<or> balance_key C proposer \<noteq> balance_key C treasury"
    and "bal smt proposer + pv + tv < 2 ^ 128" "bal smt treasury + pv + tv < 2 ^ 128"
  shows "if proposer = treasury then bal (apply_block_fees C proposer receipts smt) proposer = bal smt proposer + pv + tv
    else bal (apply_block_fees C proposer receipts smt) proposer = bal smt proposer + pv
      \<and> bal (apply_block_fees C proposer receipts smt) treasury = bal smt treasury + tv"
proof -
  let ?p = "sum_list (map rc_fee_validator receipts)" and ?t = "sum_list (map rc_fee_treasury receipts)"
  let ?s1 = "credit C proposer ?p smt"
  have sums: "unat ?p = pv" "unat ?t = tv"
    using unat_sum_list [of "map rc_fee_validator receipts"] unat_sum_list [of "map rc_fee_treasury receipts"] assms(8)
    by (simp_all add: pv_def tv_def o_def)
  have s1: "bal ?s1 proposer = bal smt proposer + pv" "account_at C ?s1 proposer"
    using credit_load(1,2) [OF assms(5), of ?p] assms(8) by (simp_all add: bal_def sums)
  have frame: "load_account C ?s1 a = load_account C smt a" if "balance_key C a \<noteq> balance_key C proposer" for a
    using credit_load(3) [OF assms(5), of ?p] that assms(8) by (intro acct.read_local) (simp add: bal_def sums)
  show ?thesis
  proof (cases "proposer = treasury")
    case True
    then show ?thesis
      using credit_load(1) [OF s1(2), of ?t] s1(1) assms(8)
      by (simp add: apply_block_fees_def treasury_def bal_def sums)
  next
    case False
    then have k: "balance_key C proposer \<noteq> balance_key C treasury" using assms(7) by simp
    then have t: "load_account C ?s1 treasury = load_account C smt treasury" by (intro frame) auto
    then have at: "account_at C ?s1 treasury" using assms(6) by (simp add: account_at_def)
    have "bal (credit C treasury ?t ?s1) treasury = bal smt treasury + tv"
      using credit_load(1) [OF at, of ?t] assms(9) by (simp add: bal_def t sums)
    moreover have "load_account C (credit C treasury ?t ?s1) proposer = load_account C ?s1 proposer"
      using credit_load(3) [OF at, of ?t] assms(9) k by (intro acct.read_local) (simp add: bal_def t sums)
    ultimately show ?thesis using False s1(1) by (simp add: apply_block_fees_def treasury_def bal_def)
  qed
qed

section \<open>Access lists\<close>

text \<open>
  The keys the pipeline derives for an access list are the ones the machine derives for the slots.
\<close>

lemma access_list_keys_derived:
  "access_list_keys C al self =
     concat (map (\<lambda>e. map (\<lambda>k. derive_storage_key C (if ae_address e = replicate 32 0 then self else ae_address e) (from_le_bytes k))
       (ae_reads e @ ae_writes e)) al)"
  by (simp add: access_list_keys_def derive_storage_key_def Let_def cong: map_cong)

lemma declared_slots_allowed:
  "tx_access_list tx \<noteq> [] \<Longrightarrow> allowed_storage_keys (pvm_machine C tx smt bc) =
     Some (\<Union>e\<in>set (tx_access_list tx).
       (\<lambda>k. derive_storage_key C (if ae_address e = replicate 32 0 then tx_to tx else ae_address e) (from_le_bytes k))
         ` set (ae_reads e @ ae_writes e))"
  by (simp add: pvm_machine_def Let_def access_list_keys_derived image_Un)

end
