(* ===== verification/Mempool.thy ===== *)
theory Mempool
  imports Tx Parallel Fees
begin

text \<open>
  The encrypted mempool (\<open>crates/mempool/src/encrypted.rs\<close> and \<open>pool.rs\<close>): encrypted transactions
  and their wire format, and the pool with its deduplication, quotas, expiry and eviction. The clock
  is an argument of the operations that read it, one reading per call in the source.
\<close>

section \<open>Ciphertexts\<close>

definition KYBER_CT_SIZE :: nat where "KYBER_CT_SIZE = 1088"

record threshold_ciphertext =
  kyber_ct :: bytes
  encrypted_msg :: bytes
  ct_mac :: bytes

definition ct_to_bytes :: "threshold_ciphertext \<Rightarrow> bytes" where
  "ct_to_bytes c = kyber_ct c @ encrypted_msg c @ ct_mac c"

definition ct_to_wire_bytes :: "threshold_ciphertext \<Rightarrow> bytes" where
  "ct_to_wire_bytes c =
     to_le_bytes 4 (of_nat (length (kyber_ct c)) :: u32) @ kyber_ct c
     @ to_le_bytes 4 (of_nat (length (encrypted_msg c)) :: u32) @ encrypted_msg c @ ct_mac c"

definition ct_from_wire_bytes :: "bytes \<Rightarrow> threshold_ciphertext option" where
  "ct_from_wire_bytes data =
     (if length data < 8 then None
      else
        let ct_len = unat (from_le_bytes (take 4 data) :: u32)
        in if length data < 4 + ct_len + 4 then None
           else if ct_len \<noteq> KYBER_CT_SIZE then None
           else
             let msg_off = 4 + ct_len;
                 msg_len = unat (from_le_bytes (byte_range msg_off (msg_off + 4) data) :: u32);
                 msg_start = msg_off + 4
             in if length data < msg_start + msg_len + 32 then None
                else Some \<lparr>kyber_ct = byte_range 4 (4 + ct_len) data,
                           encrypted_msg = byte_range msg_start (msg_start + msg_len) data,
                           ct_mac = byte_range (msg_start + msg_len) (msg_start + msg_len + 32) data\<rparr>)"

section \<open>Encrypted transactions\<close>

definition MAX_ETX_SIZE :: nat where "MAX_ETX_SIZE = 128 * 1024"
definition MAX_ACCESS_ENTRIES :: nat where "MAX_ACCESS_ENTRIES = 1024"
definition MAX_KEYS_PER_ACCESS_ENTRY :: nat where "MAX_KEYS_PER_ACCESS_ENTRY = 1024"
definition MAX_SIG_LEN :: nat where "MAX_SIG_LEN = 1024"
definition MAX_CT_LEN :: nat where "MAX_CT_LEN = 72 * 1024"

record encrypted_tx =
  etx_sender :: bytes
  etx_nonce :: u64
  etx_gas_limit :: u64
  etx_access_list :: "access_entry list"
  etx_deadline :: "u64 option"
  etx_chain_id :: u64
  etx_signature :: bytes
  etx_ciphertext :: threshold_ciphertext

definition etx_size :: "encrypted_tx \<Rightarrow> nat" where
  "etx_size tx =
     32 + 8 + 8 + length (etx_access_list tx) * 68 + 8 + 8 + length (etx_signature tx)
     + length (encrypted_msg (etx_ciphertext tx))"

definition etx_hash :: "crypto_lib \<Rightarrow> encrypted_tx \<Rightarrow> bytes" where
  "etx_hash C tx =
     poseidon2_hash C (etx_sender tx @ to_le_bytes 8 (etx_nonce tx) @ to_le_bytes 8 (etx_gas_limit tx)
       @ to_le_bytes 8 (etx_chain_id tx) @ poseidon2_hash C (ct_to_bytes (etx_ciphertext tx)))"

definition encode_etx_entry :: "access_entry \<Rightarrow> bytes" where
  "encode_etx_entry e =
     ae_address e @ to_le_bytes 2 (of_nat (length (ae_reads e)) :: u16) @ concat (ae_reads e)
     @ to_le_bytes 2 (of_nat (length (ae_writes e)) :: u16) @ concat (ae_writes e)"

definition etx_to_bytes :: "encrypted_tx \<Rightarrow> bytes" where
  "etx_to_bytes tx =
     (let ct_bytes = ct_to_wire_bytes (etx_ciphertext tx)
      in etx_sender tx @ to_le_bytes 8 (etx_nonce tx) @ to_le_bytes 8 (etx_gas_limit tx)
         @ to_le_bytes 8 (etx_chain_id tx) @ encode_deadline (etx_deadline tx)
         @ to_le_bytes 4 (of_nat (length (etx_access_list tx)) :: u32)
         @ concat (map encode_etx_entry (etx_access_list tx))
         @ to_le_bytes 4 (of_nat (length (etx_signature tx)) :: u32) @ etx_signature tx
         @ to_le_bytes 4 (of_nat (length ct_bytes) :: u32) @ ct_bytes)"

text \<open>The counts of the cursor, capped before they drive a loop.\<close>

definition u16_count :: "nat \<Rightarrow> bytes \<Rightarrow> (nat \<times> bytes) option" where
  "u16_count max_n bs =
     do { (c, bs) \<leftarrow> rd 2 bs;
          let n = unat (from_le_bytes c :: u16);
          if n > max_n then None else Some (n, bs) }"

definition u32_count :: "nat \<Rightarrow> bytes \<Rightarrow> (nat \<times> bytes) option" where
  "u32_count max_n bs =
     do { (c, bs) \<leftarrow> rd 4 bs;
          let n = unat (from_le_bytes c :: u32);
          if n > max_n then None else Some (n, bs) }"

definition read_etx_deadline :: "bytes \<Rightarrow> (u64 option \<times> bytes) option" where
  "read_etx_deadline bs =
     do { (flag, bs) \<leftarrow> rd 1 bs;
          if flag \<noteq> [0] then do { (d, bs) \<leftarrow> rd 8 bs; Some (Some (from_le_bytes d), bs) }
          else Some (None, bs) }"

fun read_etx_entries :: "nat \<Rightarrow> bytes \<Rightarrow> (access_entry list \<times> bytes) option" where
  "read_etx_entries 0 bs = Some ([], bs)"
| "read_etx_entries (Suc n) bs =
     do { (address, bs) \<leftarrow> rd 32 bs;
          (read_count, bs) \<leftarrow> u16_count MAX_KEYS_PER_ACCESS_ENTRY bs;
          (reads, bs) \<leftarrow> read_hashes read_count bs;
          (write_count, bs) \<leftarrow> u16_count MAX_KEYS_PER_ACCESS_ENTRY bs;
          (writes, bs) \<leftarrow> read_hashes write_count bs;
          (entries, bs) \<leftarrow> read_etx_entries n bs;
          Some (\<lparr>ae_address = address, ae_reads = reads, ae_writes = writes\<rparr> # entries, bs) }"

definition etx_from_bytes :: "bytes \<Rightarrow> encrypted_tx option" where
  "etx_from_bytes data =
     (if length data > MAX_ETX_SIZE then None
      else
        do { (sender, bs) \<leftarrow> rd 32 data;
             (nonce, bs) \<leftarrow> rd 8 bs;
             (gas_limit, bs) \<leftarrow> rd 8 bs;
             (chain_id, bs) \<leftarrow> rd 8 bs;
             (deadline, bs) \<leftarrow> read_etx_deadline bs;
             (al_count, bs) \<leftarrow> u32_count MAX_ACCESS_ENTRIES bs;
             (access_list, bs) \<leftarrow> read_etx_entries al_count bs;
             (sig_len, bs) \<leftarrow> u32_count MAX_SIG_LEN bs;
             (signature, bs) \<leftarrow> rd sig_len bs;
             (ct_len, bs) \<leftarrow> u32_count MAX_CT_LEN bs;
             (ct_bytes, bs) \<leftarrow> rd ct_len bs;
             ciphertext \<leftarrow> ct_from_wire_bytes ct_bytes;
             Some \<lparr>etx_sender = sender, etx_nonce = from_le_bytes nonce, etx_gas_limit = from_le_bytes gas_limit,
               etx_access_list = access_list, etx_deadline = deadline, etx_chain_id = from_le_bytes chain_id,
               etx_signature = signature, etx_ciphertext = ciphertext\<rparr> })"

definition is_expired :: "encrypted_tx \<Rightarrow> u64 \<Rightarrow> bool" where
  "is_expired tx current = (case etx_deadline tx of Some d \<Rightarrow> d \<le> current | None \<Rightarrow> False)"

definition is_oversized :: "encrypted_tx \<Rightarrow> bool" where
  "is_oversized tx \<longleftrightarrow> etx_size tx > MAX_ETX_SIZE"

section \<open>The pool\<close>

definition RATE_WINDOW_MS :: u64 where "RATE_WINDOW_MS = 1000"
definition DEFAULT_MAX_POOL_SIZE :: nat where "DEFAULT_MAX_POOL_SIZE = 500000"

datatype mempool_error =
  Duplicate | Expired | Oversized | BadSignature | GasTooLow | GasTooHigh | MalformedEncryption
| MissingAccessList | RateLimitExceeded | TooManyConcurrentFromSender | UnknownOrUnverifiedSender

record sender_quota =
  submit_timestamps :: "u64 list"
  in_pool_count :: u32

definition default_quota :: sender_quota where
  "default_quota = \<lparr>submit_timestamps = [], in_pool_count = 0\<rparr>"

record mempool =
  mp_txs :: "encrypted_tx list"
  seen_hashes :: "bytes set"
  sender_nonces :: "(bytes, u64) hashmap"
  first_seen_slot :: "(bytes, u64) hashmap"
  sender_quotas :: "(bytes, sender_quota) hashmap"
  sender_tx_index :: "(bytes, bytes set) hashmap"
  max_tx_per_window :: u32
  max_concurrent :: u32
  mp_max_size :: nat
  mp_current_block :: u64
  mp_block_gas_limit :: u64

definition mempool_with_capacity :: "nat \<Rightarrow> mempool" where
  "mempool_with_capacity max_size =
     \<lparr>mp_txs = [], seen_hashes = {}, sender_nonces = [], first_seen_slot = [], sender_quotas = [],
      sender_tx_index = [], max_tx_per_window = 10, max_concurrent = 100, mp_max_size = max_size,
      mp_current_block = 0, mp_block_gas_limit = GAS_CEILING\<rparr>"

type_synonym 'a poolop = "(mempool, mempool_error, 'a) srm"

definition quota_of :: "bytes \<Rightarrow> mempool \<Rightarrow> sender_quota" where
  "quota_of sender m = (case hm_get (sender_quotas m) sender of Some q \<Rightarrow> q | None \<Rightarrow> default_quota)"

definition set_quota :: "bytes \<Rightarrow> sender_quota \<Rightarrow> mempool \<Rightarrow> mempool" where
  "set_quota sender q m = m\<lparr>sender_quotas := hm_insert sender q (sender_quotas m)\<rparr>"

definition check_sender_rate :: "u64 \<Rightarrow> bytes \<Rightarrow> unit poolop" where
  "check_sender_rate now sender = (\<lambda>m.
     let window_cutoff = saturating_sub now RATE_WINDOW_MS;
         q = quota_of sender m;
         q = q\<lparr>submit_timestamps := dropWhile (\<lambda>t. t < window_cutoff) (submit_timestamps q)\<rparr>;
         m = set_quota sender q m
     in (if (of_nat (length (submit_timestamps q)) :: u32) \<ge> max_tx_per_window m then Inl RateLimitExceeded
         else if in_pool_count q \<ge> max_concurrent m then Inl TooManyConcurrentFromSender
         else Inr (), m))"

definition check_core_validity :: "crypto_lib \<Rightarrow> encrypted_tx \<Rightarrow> unit poolop" where
  "check_core_validity C tx = (\<lambda>m.
     (if etx_gas_limit tx < 21000 then Inl GasTooLow
      else if etx_gas_limit tx > mp_block_gas_limit m then Inl GasTooHigh
      else if encrypted_msg (etx_ciphertext tx) = [] then Inl MalformedEncryption
      else if etx_access_list tx = [] then Inl MissingAccessList
      else if is_oversized tx then Inl Oversized
      else if is_expired tx (mp_current_block m) then Inl Expired
      else if etx_hash C tx \<in> seen_hashes m then Inl Duplicate
      else Inr (), m))"

definition release_sender_slot :: "bytes \<Rightarrow> bytes \<Rightarrow> mempool \<Rightarrow> mempool" where
  "release_sender_slot sender hash m =
     (let m = (case hm_get (sender_tx_index m) sender of
                 None \<Rightarrow> m
               | Some hs \<Rightarrow>
                   let hs = hs - {hash}
                   in m\<lparr>sender_tx_index := (if hs = {} then hm_remove sender (sender_tx_index m)
                                            else hm_insert sender hs (sender_tx_index m))\<rparr>)
      in case hm_get (sender_quotas m) sender of
           None \<Rightarrow> m
         | Some q \<Rightarrow>
             let q = q\<lparr>in_pool_count := saturating_sub (in_pool_count q) 1\<rparr>
             in if in_pool_count q = 0 \<and> submit_timestamps q = []
                then m\<lparr>sender_quotas := hm_remove sender (sender_quotas m)\<rparr>
                else set_quota sender q m)"

definition evict_oldest :: "crypto_lib \<Rightarrow> mempool \<Rightarrow> mempool" where
  "evict_oldest C m =
     (case mp_txs m of
        [] \<Rightarrow> m
      | evicted # rest \<Rightarrow>
          let h = etx_hash C evicted
          in release_sender_slot (etx_sender evicted) h
               (m\<lparr>mp_txs := rest, seen_hashes := seen_hashes m - {h}, first_seen_slot := hm_remove h (first_seen_slot m)\<rparr>))"

definition insert_tx :: "crypto_lib \<Rightarrow> u64 \<Rightarrow> encrypted_tx \<Rightarrow> mempool \<Rightarrow> mempool" where
  "insert_tx C now tx m =
     (let m = (if length (mp_txs m) \<ge> mp_max_size m then evict_oldest C m else m);
          hash = etx_hash C tx;
          sender = etx_sender tx;
          highest = (case hm_get (sender_nonces m) sender of Some n \<Rightarrow> n | None \<Rightarrow> 0);
          q = quota_of sender m;
          index = (case hm_get (sender_tx_index m) sender of Some hs \<Rightarrow> hs | None \<Rightarrow> {});
          m = set_quota sender \<lparr>submit_timestamps = submit_timestamps q @ [now], in_pool_count = in_pool_count q + 1\<rparr> m
      in m\<lparr>sender_nonces := hm_insert sender (if etx_nonce tx > highest then etx_nonce tx else highest) (sender_nonces m),
           sender_tx_index := hm_insert sender (insert hash index) (sender_tx_index m),
           seen_hashes := insert hash (seen_hashes m),
           first_seen_slot := hm_insert hash (mp_current_block m) (first_seen_slot m),
           mp_txs := mp_txs m @ [tx]\<rparr>)"

definition verify_signature :: "encrypted_tx \<Rightarrow> unit poolop" where
  "verify_signature tx =
     (if etx_signature tx = [] then serr BadSignature
      else if length (etx_signature tx) < 500 \<or> length (etx_signature tx) > 1000 then serr BadSignature
      else sret ())"

definition verify_signature_with_key :: "crypto_lib \<Rightarrow> encrypted_tx \<Rightarrow> bytes \<Rightarrow> bool" where
  "verify_signature_with_key C tx public_key =
     (case falcon_pk_from_bytes public_key of
        None \<Rightarrow> False
      | Some pk \<Rightarrow>
          (case falcon_sig_from_bytes (etx_signature tx) of
             None \<Rightarrow> False
           | Some sig \<Rightarrow> falcon_verify C pk (etx_hash C tx) sig))"

text \<open>The two readings of the clock are the one of the rate check and the one of the insertion.\<close>

definition add_unverified_for_devnet :: "crypto_lib \<Rightarrow> u64 \<Rightarrow> u64 \<Rightarrow> encrypted_tx \<Rightarrow> unit poolop" where
  "add_unverified_for_devnet C now now' tx =
     sbind (check_sender_rate now (etx_sender tx)) (\<lambda>_.
     sbind (verify_signature tx) (\<lambda>_.
     sbind (check_core_validity C tx) (\<lambda>_.
     smod (insert_tx C now' tx))))"

definition add_with_pubkey :: "crypto_lib \<Rightarrow> u64 \<Rightarrow> u64 \<Rightarrow> encrypted_tx \<Rightarrow> bytes \<Rightarrow> unit poolop" where
  "add_with_pubkey C now now' tx sender_pubkey =
     sbind (check_sender_rate now (etx_sender tx)) (\<lambda>_.
     if derive_eoa_address C sender_pubkey \<noteq> etx_sender tx then serr UnknownOrUnverifiedSender
     else if \<not> verify_signature_with_key C tx sender_pubkey then serr UnknownOrUnverifiedSender
     else sbind (check_core_validity C tx) (\<lambda>_. smod (insert_tx C now' tx)))"

definition forget :: "crypto_lib \<Rightarrow> encrypted_tx \<Rightarrow> mempool \<Rightarrow> mempool" where
  "forget C tx m =
     (let h = etx_hash C tx
      in release_sender_slot (etx_sender tx) h
           (m\<lparr>seen_hashes := seen_hashes m - {h}, first_seen_slot := hm_remove h (first_seen_slot m)\<rparr>))"

definition prune_expired :: "crypto_lib \<Rightarrow> mempool \<Rightarrow> mempool" where
  "prune_expired C m =
     (let expired = filter (\<lambda>tx. is_expired tx (mp_current_block m)) (mp_txs m)
      in if expired = [] then m
         else fold (forget C) expired (m\<lparr>mp_txs := filter (\<lambda>tx. \<not> is_expired tx (mp_current_block m)) (mp_txs m)\<rparr>))"

definition remove_included :: "crypto_lib \<Rightarrow> bytes list \<Rightarrow> mempool \<Rightarrow> mempool" where
  "remove_included C hashes m =
     (let removed = filter (\<lambda>tx. etx_hash C tx \<in> set hashes) (mp_txs m);
          m = m\<lparr>mp_txs := filter (\<lambda>tx. etx_hash C tx \<notin> set hashes) (mp_txs m),
                seen_hashes := seen_hashes m - set hashes,
                first_seen_slot := fold hm_remove hashes (first_seen_slot m)\<rparr>
      in fold (\<lambda>tx. release_sender_slot (etx_sender tx) (etx_hash C tx)) removed m)"

definition view_with_slots :: "crypto_lib \<Rightarrow> mempool \<Rightarrow> (encrypted_tx \<times> u64) list" where
  "view_with_slots C m =
     List.map_filter (\<lambda>tx. map_option (Pair tx) (hm_get (first_seen_slot m) (etx_hash C tx))) (mp_txs m)"

definition pool_contains :: "mempool \<Rightarrow> bytes \<Rightarrow> bool" where
  "pool_contains m hash \<longleftrightarrow> hash \<in> seen_hashes m"

fun check_no_duplicates :: "crypto_lib \<Rightarrow> bytes set \<Rightarrow> encrypted_tx list \<Rightarrow> bytes + unit" where
  "check_no_duplicates C seen [] = Inr ()"
| "check_no_duplicates C seen (tx # txs) =
     (if etx_hash C tx \<in> seen then Inl (etx_hash C tx)
      else check_no_duplicates C (insert (etx_hash C tx) seen) txs)"

section \<open>The books of the pool\<close>

text \<open>
  The hash indices and the per-sender books, for a list of transactions. The lists of the pool have
  pairwise different hashes.
\<close>

definition hashes_apart :: "crypto_lib \<Rightarrow> encrypted_tx list \<Rightarrow> bool" where
  "hashes_apart C txs \<longleftrightarrow> distinct (map (etx_hash C) txs)"

definition books_seen :: "crypto_lib \<Rightarrow> encrypted_tx list \<Rightarrow> mempool \<Rightarrow> bool" where
  "books_seen C txs m \<longleftrightarrow> seen_hashes m = etx_hash C ` set txs
     \<and> (\<forall>h. hm_get (first_seen_slot m) h \<noteq> None \<longleftrightarrow> h \<in> seen_hashes m)"

definition sender_count :: "bytes \<Rightarrow> encrypted_tx list \<Rightarrow> nat" where
  "sender_count s txs = length (filter (\<lambda>tx. etx_sender tx = s) txs)"

definition sender_hashes :: "crypto_lib \<Rightarrow> bytes \<Rightarrow> encrypted_tx list \<Rightarrow> bytes set" where
  "sender_hashes C s txs = etx_hash C ` {tx \<in> set txs. etx_sender tx = s}"

definition books_quota :: "crypto_lib \<Rightarrow> encrypted_tx list \<Rightarrow> mempool \<Rightarrow> bool" where
  "books_quota C txs m \<longleftrightarrow>
     (\<forall>s. unat (in_pool_count (quota_of s m)) = sender_count s txs)
     \<and> (\<forall>s. hm_get (sender_tx_index m) s =
          (if sender_hashes C s txs = {} then None else Some (sender_hashes C s txs)))"

definition pool_wf :: "crypto_lib \<Rightarrow> mempool \<Rightarrow> bool" where
  "pool_wf C m \<longleftrightarrow> hashes_apart C (mp_txs m) \<and> books_seen C (mp_txs m) m \<and> books_quota C (mp_txs m) m
     \<and> length (mp_txs m) \<le> max 1 (mp_max_size m)"

definition quotas_kept :: "mempool \<Rightarrow> bool" where
  "quotas_kept m \<longleftrightarrow> (\<forall>s. in_pool_count (quota_of s m) \<le> max_concurrent m
     \<and> length (submit_timestamps (quota_of s m)) \<le> unat (max_tx_per_window m))"

lemma hashes_apart_distinct: "hashes_apart C txs \<Longrightarrow> distinct txs"
  by (simp add: hashes_apart_def distinct_map)

lemma hashes_apart_filter: "hashes_apart C txs \<Longrightarrow> hashes_apart C (filter P txs)"
  by (simp add: hashes_apart_def distinct_map) (auto intro: inj_on_subset)

lemma hashes_apart_inj: "hashes_apart C txs \<Longrightarrow> inj_on (etx_hash C) (set txs)"
  by (simp add: hashes_apart_def distinct_map)

lemma hashes_apart_remove: "hashes_apart C txs \<Longrightarrow> hashes_apart C (removeAll tx txs)"
  unfolding removeAll_filter_not_eq by (rule hashes_apart_filter)

lemma sender_count_remove:
  assumes "hashes_apart C txs" "tx \<in> set txs"
  shows "sender_count s (removeAll tx txs) = sender_count s txs - (if s = etx_sender tx then 1 else 0)"
proof -
  have "removeAll tx txs = remove1 tx txs"
    using hashes_apart_distinct [OF assms(1)] by (simp add: distinct_remove1_removeAll)
  then show ?thesis using assms(2) by (simp add: sender_count_def filter_remove1 length_remove1)
qed

lemma sender_count_pos: "tx \<in> set txs \<Longrightarrow> 0 < sender_count (etx_sender tx) txs"
  by (auto simp: sender_count_def length_greater_0_conv filter_empty_conv)

lemma sender_hashes_remove:
  assumes "hashes_apart C txs" "tx \<in> set txs"
  shows "sender_hashes C s (removeAll tx txs) = (if s = etx_sender tx then sender_hashes C s txs - {etx_hash C tx} else sender_hashes C s txs)"
  using assms(2) hashes_apart_inj [OF assms(1)] by (auto simp: sender_hashes_def inj_on_def)

lemma quota_of_simps [simp]:
  "quota_of s (set_quota s' q m) = (if s = s' then q else quota_of s m)"
  "quota_of s (m\<lparr>sender_quotas := hm_remove s' (sender_quotas m)\<rparr>) = (if s = s' then default_quota else quota_of s m)"
  "quota_of s (m\<lparr>mp_txs := t\<rparr>) = quota_of s m" "quota_of s (m\<lparr>seen_hashes := h\<rparr>) = quota_of s m"
  "quota_of s (m\<lparr>first_seen_slot := f\<rparr>) = quota_of s m" "quota_of s (m\<lparr>sender_nonces := n\<rparr>) = quota_of s m"
  "quota_of s (m\<lparr>sender_tx_index := i\<rparr>) = quota_of s m" "quota_of s (m\<lparr>mp_current_block := b\<rparr>) = quota_of s m"
  "quota_of s (m\<lparr>mp_block_gas_limit := g\<rparr>) = quota_of s m"
  by (simp_all add: quota_of_def set_quota_def)

lemma set_quota_simps [simp]:
  "mp_txs (set_quota s q m) = mp_txs m" "seen_hashes (set_quota s q m) = seen_hashes m"
  "first_seen_slot (set_quota s q m) = first_seen_slot m" "sender_tx_index (set_quota s q m) = sender_tx_index m"
  "max_concurrent (set_quota s q m) = max_concurrent m" "max_tx_per_window (set_quota s q m) = max_tx_per_window m"
  "mp_max_size (set_quota s q m) = mp_max_size m" "mp_current_block (set_quota s q m) = mp_current_block m"
  "mp_block_gas_limit (set_quota s q m) = mp_block_gas_limit m" "sender_nonces (set_quota s q m) = sender_nonces m"
  by (simp_all add: set_quota_def)

lemma release_quota_of:
  "quota_of s (release_sender_slot s' h m) =
     (if s = s' then (quota_of s m)\<lparr>in_pool_count := saturating_sub (in_pool_count (quota_of s m)) 1\<rparr> else quota_of s m)"
proof -
  have sub: "saturating_sub 0 (1 :: u32) = 0" by (simp add: saturating_sub_def)
  show ?thesis
  proof (cases "hm_get (sender_quotas m) s'")
    case None
    then have "quota_of s' m = default_quota" by (simp add: quota_of_def)
    then show ?thesis using None sub
      by (auto simp: release_sender_slot_def Let_def default_quota_def split: option.splits)
  next
    case (Some q)
    then have "quota_of s' m = q" by (simp add: quota_of_def)
    then show ?thesis using Some
      by (auto simp: release_sender_slot_def Let_def default_quota_def split: option.splits)
  qed
qed

lemma release_simps [simp]:
  "mp_txs (release_sender_slot s h m) = mp_txs m" "seen_hashes (release_sender_slot s h m) = seen_hashes m"
  "first_seen_slot (release_sender_slot s h m) = first_seen_slot m"
  "max_concurrent (release_sender_slot s h m) = max_concurrent m"
  "max_tx_per_window (release_sender_slot s h m) = max_tx_per_window m"
  "mp_max_size (release_sender_slot s h m) = mp_max_size m"
  "mp_current_block (release_sender_slot s h m) = mp_current_block m"
  by (simp_all add: release_sender_slot_def Let_def split: option.splits)

lemma release_index:
  "hm_get (sender_tx_index (release_sender_slot s' h m)) s =
     (if s = s' then (case hm_get (sender_tx_index m) s of None \<Rightarrow> None | Some hs \<Rightarrow> if hs - {h} = {} then None else Some (hs - {h}))
      else hm_get (sender_tx_index m) s)"
  by (auto simp: release_sender_slot_def Let_def split: option.splits)

lemma release_books:
  assumes "books_quota C txs m" "hashes_apart C txs" "tx \<in> set txs"
  shows "books_quota C (removeAll tx txs) (release_sender_slot (etx_sender tx) (etx_hash C tx) m)"
proof -
  have "unat (in_pool_count (quota_of s (release_sender_slot (etx_sender tx) (etx_hash C tx) m))) = sender_count s (removeAll tx txs)" for s
    using assms(1) sender_count_pos [OF assms(3)]
    by (simp add: release_quota_of sender_count_remove [OF assms(2,3)] books_quota_def unat_saturating_sub)
  moreover have "etx_hash C tx \<in> sender_hashes C (etx_sender tx) txs" using assms(3) by (auto simp: sender_hashes_def)
  then have "hm_get (sender_tx_index (release_sender_slot (etx_sender tx) (etx_hash C tx) m)) s =
      (if sender_hashes C s (removeAll tx txs) = {} then None else Some (sender_hashes C s (removeAll tx txs)))" for s
    using assms(1) by (auto simp: release_index sender_hashes_remove [OF assms(2,3)] books_quota_def)
  ultimately show ?thesis by (simp add: books_quota_def)
qed

text \<open>A run of removals, as in eviction, pruning and the removal of included transactions.\<close>

lemma fold_removal:
  assumes step: "\<And>txs m tx. B txs m \<Longrightarrow> hashes_apart C txs \<Longrightarrow> tx \<in> set txs \<Longrightarrow> B (removeAll tx txs) (f tx m)"
    and "B txs m" "hashes_apart C txs" "set rs \<subseteq> set txs" "distinct rs"
  shows "B (filter (\<lambda>t. t \<notin> set rs) txs) (fold f rs m)"
  using assms(2-)
proof (induction rs arbitrary: txs m)
  case (Cons r rs)
  have "B (removeAll r txs) (f r m)" using Cons.prems by (intro step) auto
  note ih = Cons.IH [OF this hashes_apart_remove [OF Cons.prems(2)]]
  have "filter (\<lambda>t. t \<notin> set (r # rs)) txs = filter (\<lambda>t. t \<notin> set rs) (removeAll r txs)"
    by (auto simp: removeAll_filter_not_eq intro!: filter_cong)
  moreover have "set rs \<subseteq> set (removeAll r txs)" using Cons.prems by auto
  ultimately show ?case using ih Cons.prems(4) by simp
qed simp

text \<open>What no removal touches: limits, histories of submissions; counts only go down.\<close>

definition trims :: "mempool \<Rightarrow> mempool \<Rightarrow> bool" where
  "trims m m' \<longleftrightarrow> mp_txs m' = mp_txs m \<and> max_concurrent m' = max_concurrent m \<and> max_tx_per_window m' = max_tx_per_window m
     \<and> mp_max_size m' = mp_max_size m \<and> mp_current_block m' = mp_current_block m
     \<and> (\<forall>s. submit_timestamps (quota_of s m') = submit_timestamps (quota_of s m)
          \<and> in_pool_count (quota_of s m') \<le> in_pool_count (quota_of s m))"

lemma trims_trans: "trims a b \<Longrightarrow> trims b c \<Longrightarrow> trims a c"
  unfolding trims_def by (metis order_trans)

lemma trims_fold: "(\<And>x m. trims m (f x m)) \<Longrightarrow> trims m (fold f xs m)"
  by (induction xs arbitrary: m) (simp add: trims_def, metis fold_simps(2) trims_trans)

lemma trims_release: "trims m (release_sender_slot s h m)"
  by (simp add: trims_def release_quota_of word_le_nat_alt unat_saturating_sub)

lemma trims_forget: "trims m (forget C tx m)"
  by (simp add: trims_def forget_def release_quota_of word_le_nat_alt unat_saturating_sub Let_def)

lemma trims_quotas: "trims m m' \<Longrightarrow> quotas_kept m \<Longrightarrow> quotas_kept m'"
  unfolding trims_def quotas_kept_def by (metis order_trans)

lemma books_seen_release [simp]: "books_seen C txs (release_sender_slot s h m) = books_seen C txs m"
  by (simp add: books_seen_def)

lemma forget_books:
  assumes "books_seen C txs m \<and> books_quota C txs m" "hashes_apart C txs" "tx \<in> set txs"
  shows "books_seen C (removeAll tx txs) (forget C tx m) \<and> books_quota C (removeAll tx txs) (forget C tx m)"
proof -
  let ?m = "m\<lparr>seen_hashes := seen_hashes m - {etx_hash C tx}, first_seen_slot := hm_remove (etx_hash C tx) (first_seen_slot m)\<rparr>"
  have "etx_hash C ` set (removeAll tx txs) = etx_hash C ` set txs - {etx_hash C tx}"
    using hashes_apart_inj [OF assms(2)] assms(3) by (auto simp: inj_on_def)
  then have "books_seen C (removeAll tx txs) ?m" using assms(1) by (auto simp: books_seen_def)
  moreover have "books_quota C txs ?m" using assms(1) by (simp add: books_quota_def)
  from release_books [OF this assms(2,3)]
  have "books_quota C (removeAll tx txs) (forget C tx m)" by (simp add: forget_def Let_def)
  ultimately show ?thesis by (simp add: forget_def Let_def)
qed

lemma fold_hm_remove: "hm_get (fold hm_remove ks f) h = (if h \<in> set ks then None else hm_get f h)"
  by (induction ks arbitrary: f) auto

lemma filter_kept:
  "filter (\<lambda>t. t \<notin> set (filter P txs)) txs = filter (\<lambda>t. \<not> P t) txs"
  by (auto intro!: filter_cong)

lemma wf_filter_length: "pool_wf C m \<Longrightarrow> length (filter P (mp_txs m)) \<le> max 1 (mp_max_size m)"
  using order_trans [OF length_filter_le, of "mp_txs m"] by (simp add: pool_wf_def)

lemma prune_wf:
  assumes "pool_wf C m"
  shows "pool_wf C (prune_expired C m)" and "trims (m\<lparr>mp_txs := mp_txs (prune_expired C m)\<rparr>) (prune_expired C m)"
proof -
  let ?P = "\<lambda>tx. is_expired tx (mp_current_block m)"
  let ?rs = "filter ?P (mp_txs m)" and ?m0 = "m\<lparr>mp_txs := filter (\<lambda>tx. \<not> is_expired tx (mp_current_block m)) (mp_txs m)\<rparr>"
  have ap: "hashes_apart C (mp_txs m)" using assms by (simp add: pool_wf_def)
  have "books_seen C (mp_txs m) ?m0 \<and> books_quota C (mp_txs m) ?m0"
    using assms by (simp add: pool_wf_def books_quota_def books_seen_def)
  from fold_removal [where f = "forget C", OF forget_books this ap, of ?rs]
  have books: "books_seen C (filter (\<lambda>t. \<not> ?P t) (mp_txs m)) (fold (forget C) ?rs ?m0)
      \<and> books_quota C (filter (\<lambda>t. \<not> ?P t) (mp_txs m)) (fold (forget C) ?rs ?m0)"
    using hashes_apart_distinct [OF ap] unfolding filter_kept by simp
  have tr: "trims ?m0 (fold (forget C) ?rs ?m0)" by (intro trims_fold trims_forget)
  then have "pool_wf C (fold (forget C) ?rs ?m0)"
    using books assms hashes_apart_filter [OF ap, of "\<lambda>tx. \<not> ?P tx"] wf_filter_length [OF assms, of "\<lambda>tx. \<not> ?P tx"]
    by (simp add: pool_wf_def trims_def)
  moreover have "prune_expired C m = (if ?rs = [] then m else fold (forget C) ?rs ?m0)"
    by (simp add: prune_expired_def Let_def)
  ultimately show "pool_wf C (prune_expired C m)" "trims (m\<lparr>mp_txs := mp_txs (prune_expired C m)\<rparr>) (prune_expired C m)"
    using assms tr by (auto simp: trims_def)
qed

lemma included_wf:
  assumes "pool_wf C m"
  shows "pool_wf C (remove_included C hs m)" and "trims (m\<lparr>mp_txs := mp_txs (remove_included C hs m)\<rparr>) (remove_included C hs m)"
proof -
  let ?P = "\<lambda>tx. etx_hash C tx \<in> set hs" and ?f = "\<lambda>tx. release_sender_slot (etx_sender tx) (etx_hash C tx)"
  let ?rs = "filter ?P (mp_txs m)" and ?m0 = "m\<lparr>mp_txs := filter (\<lambda>tx. etx_hash C tx \<notin> set hs) (mp_txs m),
    seen_hashes := seen_hashes m - set hs, first_seen_slot := fold hm_remove hs (first_seen_slot m)\<rparr>"
  have ap: "hashes_apart C (mp_txs m)" using assms by (simp add: pool_wf_def)
  have "books_quota C (mp_txs m) ?m0" using assms by (simp add: pool_wf_def books_quota_def)
  from fold_removal [where f = ?f, OF release_books this ap, of ?rs]
  have quota: "books_quota C (filter (\<lambda>t. \<not> ?P t) (mp_txs m)) (fold ?f ?rs ?m0)"
    using hashes_apart_distinct [OF ap] unfolding filter_kept by simp
  have fr: "seen_hashes (fold ?f xs m1) = seen_hashes m1 \<and> first_seen_slot (fold ?f xs m1) = first_seen_slot m1" for xs m1
    by (induction xs arbitrary: m1) simp_all
  have seen: "books_seen C (filter (\<lambda>t. \<not> ?P t) (mp_txs m)) (fold ?f ?rs ?m0)"
    using assms by (auto simp: books_seen_def pool_wf_def fr fold_hm_remove)
  have tr: "trims ?m0 (fold ?f ?rs ?m0)" by (intro trims_fold trims_release)
  have eq: "remove_included C hs m = fold ?f ?rs ?m0" by (simp add: remove_included_def Let_def)
  show "pool_wf C (remove_included C hs m)"
    using quota seen tr assms hashes_apart_filter [OF ap, of "\<lambda>tx. \<not> ?P tx"] wf_filter_length [OF assms, of "\<lambda>tx. \<not> ?P tx"]
    unfolding eq by (simp add: pool_wf_def trims_def)
  show "trims (m\<lparr>mp_txs := mp_txs (remove_included C hs m)\<rparr>) (remove_included C hs m)"
    using tr unfolding eq by (simp add: trims_def)
qed

lemma evict_wf:
  assumes "pool_wf C m" "mp_txs m \<noteq> []"
  shows "pool_wf C (evict_oldest C m)" and "trims (m\<lparr>mp_txs := tl (mp_txs m)\<rparr>) (evict_oldest C m)"
    and "seen_hashes (evict_oldest C m) \<subseteq> seen_hashes m"
proof -
  obtain tx rest where txs: "mp_txs m = tx # rest" using assms(2) by (cases "mp_txs m") auto
  let ?m0 = "m\<lparr>mp_txs := rest\<rparr>"
  have eq: "evict_oldest C m = forget C tx ?m0" by (simp add: evict_oldest_def forget_def txs Let_def)
  have ap: "hashes_apart C (tx # rest)" using assms(1) by (simp add: pool_wf_def txs)
  have "books_seen C (tx # rest) ?m0 \<and> books_quota C (tx # rest) ?m0"
    using assms(1) by (simp add: pool_wf_def books_quota_def books_seen_def txs)
  moreover have "removeAll tx (tx # rest) = rest" using hashes_apart_distinct [OF ap] by (simp add: removeAll_id)
  ultimately have "books_seen C rest (forget C tx ?m0) \<and> books_quota C rest (forget C tx ?m0)"
    using forget_books [OF _ ap, of ?m0 tx] by simp
  moreover have tr: "trims ?m0 (forget C tx ?m0)" by (rule trims_forget)
  moreover have "hashes_apart C rest" using ap by (simp add: hashes_apart_def)
  ultimately show "pool_wf C (evict_oldest C m)" "trims (m\<lparr>mp_txs := tl (mp_txs m)\<rparr>) (evict_oldest C m)"
    using assms(1) unfolding eq by (auto simp: pool_wf_def trims_def txs)
  show "seen_hashes (evict_oldest C m) \<subseteq> seen_hashes m" unfolding eq by (auto simp: forget_def Let_def)
qed

text \<open>Making room: the pool to which the new transaction is appended.\<close>

definition make_room :: "crypto_lib \<Rightarrow> mempool \<Rightarrow> mempool" where
  "make_room C m = (if length (mp_txs m) \<ge> mp_max_size m then evict_oldest C m else m)"

lemma make_room_wf:
  assumes "pool_wf C m"
  shows "pool_wf C (make_room C m)" and "trims (m\<lparr>mp_txs := mp_txs (make_room C m)\<rparr>) (make_room C m)"
    and "seen_hashes (make_room C m) \<subseteq> seen_hashes m" "length (mp_txs (make_room C m)) < max 1 (mp_max_size m)"
proof -
  have "pool_wf C (make_room C m) \<and> trims (m\<lparr>mp_txs := mp_txs (make_room C m)\<rparr>) (make_room C m)
      \<and> seen_hashes (make_room C m) \<subseteq> seen_hashes m \<and> length (mp_txs (make_room C m)) < max 1 (mp_max_size m)"
  proof (cases "length (mp_txs m) \<ge> mp_max_size m \<and> mp_txs m \<noteq> []")
    case True
    then have room: "make_room C m = evict_oldest C m" by (simp add: make_room_def)
    from evict_wf [OF assms] True have ev: "pool_wf C (evict_oldest C m)"
      "trims (m\<lparr>mp_txs := tl (mp_txs m)\<rparr>) (evict_oldest C m)" "seen_hashes (evict_oldest C m) \<subseteq> seen_hashes m" by simp_all
    then have "mp_txs (evict_oldest C m) = tl (mp_txs m)" by (simp add: trims_def)
    moreover have "length (tl (mp_txs m)) < max 1 (mp_max_size m)"
      using assms True by (cases "mp_txs m") (auto simp: pool_wf_def)
    ultimately show ?thesis using ev room by simp
  next
    case False
    then have "make_room C m = m" by (auto simp: make_room_def evict_oldest_def)
    then show ?thesis using assms False by (auto simp: trims_def)
  qed
  then show "pool_wf C (make_room C m)" "trims (m\<lparr>mp_txs := mp_txs (make_room C m)\<rparr>) (make_room C m)"
    "seen_hashes (make_room C m) \<subseteq> seen_hashes m" "length (mp_txs (make_room C m)) < max 1 (mp_max_size m)" by blast+
qed

lemma insert_quota_of:
  "quota_of s (insert_tx C now tx m) =
     (let q = quota_of s (make_room C m)
      in if s = etx_sender tx then \<lparr>submit_timestamps = submit_timestamps q @ [now], in_pool_count = in_pool_count q + 1\<rparr> else q)"
  by (simp add: insert_tx_def make_room_def Let_def)

lemma insert_simps:
  "mp_txs (insert_tx C now tx m) = mp_txs (make_room C m) @ [tx]"
  "seen_hashes (insert_tx C now tx m) = insert (etx_hash C tx) (seen_hashes (make_room C m))"
  "first_seen_slot (insert_tx C now tx m) = hm_insert (etx_hash C tx) (mp_current_block (make_room C m)) (first_seen_slot (make_room C m))"
  "max_concurrent (insert_tx C now tx m) = max_concurrent (make_room C m)"
  "max_tx_per_window (insert_tx C now tx m) = max_tx_per_window (make_room C m)"
  "mp_max_size (insert_tx C now tx m) = mp_max_size (make_room C m)"
  "hm_get (sender_tx_index (insert_tx C now tx m)) s =
     (if s = etx_sender tx
      then Some (insert (etx_hash C tx) (case hm_get (sender_tx_index (make_room C m)) s of Some hs \<Rightarrow> hs | None \<Rightarrow> {}))
      else hm_get (sender_tx_index (make_room C m)) s)"
  by (simp_all add: insert_tx_def make_room_def Let_def)

lemma insert_wf:
  assumes wf: "pool_wf C m" and q: "quotas_kept m" and new: "etx_hash C tx \<notin> seen_hashes m"
    and conc: "in_pool_count (quota_of (etx_sender tx) m) < max_concurrent m"
    and rate: "length (submit_timestamps (quota_of (etx_sender tx) m)) < unat (max_tx_per_window m)"
  shows "pool_wf C (insert_tx C now tx m)" and "quotas_kept (insert_tx C now tx m)"
proof -
  let ?r = "make_room C m" and ?m = "insert_tx C now tx m" and ?s = "etx_sender tx"
  note room = make_room_wf [OF wf]
  have r: "hashes_apart C (mp_txs ?r)" "books_seen C (mp_txs ?r) ?r" "books_quota C (mp_txs ?r) ?r"
    using room(1) by (simp_all add: pool_wf_def)
  have same: "max_concurrent ?r = max_concurrent m" "max_tx_per_window ?r = max_tx_per_window m" "mp_max_size ?r = mp_max_size m"
    and qr: "submit_timestamps (quota_of s ?r) = submit_timestamps (quota_of s m)"
      "in_pool_count (quota_of s ?r) \<le> in_pool_count (quota_of s m)" for s
    using room(2) by (simp_all add: trims_def)
  have fresh: "etx_hash C tx \<notin> seen_hashes ?r" using new room(3) by blast
  then have ap: "hashes_apart C (mp_txs ?r @ [tx])" using r(1,2) by (simp add: hashes_apart_def books_seen_def)
  have lt: "in_pool_count (quota_of ?s ?r) < max_concurrent m" using qr(2) [of ?s] conc by (rule le_less_trans)
  then have inc: "unat (in_pool_count (quota_of ?s ?r) + 1) = Suc (unat (in_pool_count (quota_of ?s ?r)))"
    using unat_lt_length [of "max_concurrent m"] by (subst unat_add_lem [THEN iffD1]) (simp_all add: word_less_nat_alt)
  have "books_quota C (mp_txs ?r @ [tx]) ?m"
    using r(3) inc
    by (auto simp: books_quota_def insert_quota_of Let_def insert_simps sender_count_def sender_hashes_def split: option.splits)
  moreover have "books_seen C (mp_txs ?r @ [tx]) ?m" using r(2) by (auto simp: books_seen_def insert_simps)
  ultimately show "pool_wf C ?m" using ap room(4) same by (simp add: pool_wf_def insert_simps)
  have "in_pool_count (quota_of ?s ?r) + 1 \<le> max_concurrent m" using lt inc by (simp add: word_le_nat_alt word_less_nat_alt)
  then show "quotas_kept ?m"
    using q rate qr order_trans by (fastforce simp: quotas_kept_def insert_quota_of Let_def insert_simps same)
qed

section \<open>Life of a pool\<close>

text \<open>
  What a node does to its pool: submissions with or without a known key, each with its two readings
  of the clock, pruning, removal of included transactions, and the two settings. A run collects the
  accepted submissions as (time, sender).
\<close>

datatype pool_event =
  Submit u64 u64 encrypted_tx "bytes option" | PruneExpired | RemoveIncluded "bytes list"
| SetCurrentBlock u64 | SetBlockGasLimit u64

definition submit :: "crypto_lib \<Rightarrow> u64 \<Rightarrow> u64 \<Rightarrow> encrypted_tx \<Rightarrow> bytes option \<Rightarrow> unit poolop" where
  "submit C now now' tx pk =
     (case pk of None \<Rightarrow> add_unverified_for_devnet C now now' tx | Some k \<Rightarrow> add_with_pubkey C now now' tx k)"

fun pool_apply :: "crypto_lib \<Rightarrow> pool_event \<Rightarrow> mempool \<Rightarrow> (u64 \<times> bytes) list \<times> mempool" where
  "pool_apply C (Submit now now' tx pk) m =
     (case submit C now now' tx pk m of (Inr _, m) \<Rightarrow> ([(now', etx_sender tx)], m) | (Inl _, m) \<Rightarrow> ([], m))"
| "pool_apply C PruneExpired m = ([], prune_expired C m)"
| "pool_apply C (RemoveIncluded hs) m = ([], remove_included C hs m)"
| "pool_apply C (SetCurrentBlock b) m = ([], m\<lparr>mp_current_block := b\<rparr>)"
| "pool_apply C (SetBlockGasLimit g) m = ([], m\<lparr>mp_block_gas_limit := g\<rparr>)"

fun pool_run :: "crypto_lib \<Rightarrow> pool_event list \<Rightarrow> mempool \<Rightarrow> (u64 \<times> bytes) list \<times> mempool" where
  "pool_run C [] m = ([], m)"
| "pool_run C (ev # evs) m =
     (case pool_apply C ev m of (acc, m) \<Rightarrow> case pool_run C evs m of (acc', m) \<Rightarrow> (acc @ acc', m))"

definition pruned_quota :: "u64 \<Rightarrow> bytes \<Rightarrow> mempool \<Rightarrow> sender_quota" where
  "pruned_quota now s m = (quota_of s m)\<lparr>submit_timestamps :=
     dropWhile (\<lambda>t. t < saturating_sub now RATE_WINDOW_MS) (submit_timestamps (quota_of s m))\<rparr>"

lemma check_sender_rate_state: "snd (check_sender_rate now s m) = set_quota s (pruned_quota now s m) m"
  by (simp add: check_sender_rate_def pruned_quota_def Let_def)

lemma submit_result:
  "case submit C now now' tx pk m of
     (Inl _, m') \<Rightarrow> m' = set_quota (etx_sender tx) (pruned_quota now (etx_sender tx) m) m
   | (Inr _, m') \<Rightarrow> fst (check_sender_rate now (etx_sender tx) m) = Inr () \<and> etx_hash C tx \<notin> seen_hashes m
       \<and> m' = insert_tx C now' tx (set_quota (etx_sender tx) (pruned_quota now (etx_sender tx) m) m)"
proof -
  obtain r m1 where c: "check_sender_rate now (etx_sender tx) m = (r, m1)" by fastforce
  then have m1: "m1 = set_quota (etx_sender tx) (pruned_quota now (etx_sender tx) m) m"
    using check_sender_rate_state [of now "etx_sender tx" m] by simp
  then show ?thesis
    using c by (cases r)
      (auto simp: submit_def add_unverified_for_devnet_def add_with_pubkey_def verify_signature_def check_core_validity_def
        sbind_def serr_def sret_def smod_def split: option.splits sum.splits prod.splits if_splits)
qed

lemma check_sender_rate_ok:
  assumes "quotas_kept m" "fst (check_sender_rate now s m) = Inr ()"
  shows "length (submit_timestamps (pruned_quota now s m)) < unat (max_tx_per_window m)"
    and "in_pool_count (quota_of s m) < max_concurrent m"
proof -
  let ?n = "length (submit_timestamps (pruned_quota now s m))"
  have "?n \<le> length (submit_timestamps (quota_of s m))" by (simp add: pruned_quota_def length_dropWhile_le)
  also have "\<dots> \<le> unat (max_tx_per_window m)" using assms(1) by (simp add: quotas_kept_def)
  finally have "?n \<le> unat (max_tx_per_window m)" .
  then have "unat (of_nat ?n :: u32) = ?n"
    using unat_lt_length [of "max_tx_per_window m"] by (intro unat_of_nat_small) simp
  moreover have "\<not> (of_nat ?n :: u32) \<ge> max_tx_per_window m" "\<not> in_pool_count (pruned_quota now s m) \<ge> max_concurrent m"
    using assms(2) by (auto simp: check_sender_rate_def pruned_quota_def Let_def split: if_splits)
  ultimately show "?n < unat (max_tx_per_window m)" "in_pool_count (quota_of s m) < max_concurrent m"
    by (simp_all add: word_le_nat_alt word_less_nat_alt pruned_quota_def)
qed

lemma pruned_wf:
  assumes "pool_wf C m" "quotas_kept m"
  shows "pool_wf C (set_quota s (pruned_quota now s m) m)" and "quotas_kept (set_quota s (pruned_quota now s m) m)"
proof -
  show "pool_wf C (set_quota s (pruned_quota now s m) m)"
    using assms(1) by (simp add: pool_wf_def books_seen_def books_quota_def pruned_quota_def)
  have "length (submit_timestamps (pruned_quota now s m)) \<le> unat (max_tx_per_window m)"
    unfolding pruned_quota_def using assms(2)
    by (simp add: quotas_kept_def) (meson length_dropWhile_le order_trans)
  then show "quotas_kept (set_quota s (pruned_quota now s m) m)"
    using assms(2) by (simp add: quotas_kept_def) (simp add: pruned_quota_def)
qed

lemma submit_wf:
  assumes "pool_wf C m" "quotas_kept m"
  shows "pool_wf C (snd (submit C now now' tx pk m)) \<and> quotas_kept (snd (submit C now now' tx pk m))"
proof (cases "submit C now now' tx pk m")
  case (Pair r m')
  show ?thesis
  proof (cases r)
    case (Inl e)
    then show ?thesis using submit_result [where C = C and now = now and now' = now' and tx = tx and pk = pk and m = m] pruned_wf [OF assms] Pair by simp
  next
    case (Inr u)
    then have ok: "fst (check_sender_rate now (etx_sender tx) m) = Inr ()" "etx_hash C tx \<notin> seen_hashes m"
      "m' = insert_tx C now' tx (set_quota (etx_sender tx) (pruned_quota now (etx_sender tx) m) m)"
      using submit_result [where C = C and now = now and now' = now' and tx = tx and pk = pk and m = m] Pair by simp_all
    have "in_pool_count (pruned_quota now (etx_sender tx) m) < max_concurrent m"
      using check_sender_rate_ok(2) [OF assms(2) ok(1)] by (simp add: pruned_quota_def)
    then show ?thesis
      using insert_wf [OF pruned_wf [OF assms]] ok(2,3) check_sender_rate_ok(1) [OF assms(2) ok(1)] Pair by simp
  qed
qed

lemma event_wf:
  "pool_wf C m \<Longrightarrow> quotas_kept m \<Longrightarrow> pool_wf C (snd (pool_apply C ev m)) \<and> quotas_kept (snd (pool_apply C ev m))"
proof (cases ev)
  case (Submit now now' tx pk)
  assume "pool_wf C m" "quotas_kept m"
  from submit_wf [OF this, of now now' tx pk] show ?thesis using Submit by (auto split: sum.splits prod.splits)
next
  case PruneExpired
  assume wf: "pool_wf C m" "quotas_kept m"
  then have "quotas_kept (m\<lparr>mp_txs := txs\<rparr>)" for txs by (simp add: quotas_kept_def)
  then have "quotas_kept (prune_expired C m)" by (rule trims_quotas [OF prune_wf(2) [OF wf(1)]])
  then show ?thesis using prune_wf(1) [OF wf(1)] PruneExpired by simp
next
  case (RemoveIncluded hs)
  assume wf: "pool_wf C m" "quotas_kept m"
  then have "quotas_kept (m\<lparr>mp_txs := txs\<rparr>)" for txs by (simp add: quotas_kept_def)
  then have "quotas_kept (remove_included C hs m)" by (rule trims_quotas [OF included_wf(2) [OF wf(1)]])
  then show ?thesis using included_wf(1) [OF wf(1)] RemoveIncluded by simp
qed (simp_all add: pool_wf_def books_seen_def books_quota_def quotas_kept_def)

lemma pool_run_Cons:
  "pool_run C (ev # evs) m =
     (fst (pool_apply C ev m) @ fst (pool_run C evs (snd (pool_apply C ev m))), snd (pool_run C evs (snd (pool_apply C ev m))))"
  by (simp split: prod.splits)

declare pool_run.simps(2) [simp del]

lemma run_wf:
  "pool_wf C m \<Longrightarrow> quotas_kept m \<Longrightarrow> pool_wf C (snd (pool_run C evs m)) \<and> quotas_kept (snd (pool_run C evs m))"
proof (induction evs arbitrary: m)
  case (Cons ev evs)
  from event_wf [OF Cons.prems, of ev] Cons.IH show ?case by (simp add: pool_run_Cons)
qed simp

lemma new_pool_wf: "pool_wf C (mempool_with_capacity n)" "quotas_kept (mempool_with_capacity n)"
  by (simp_all add: pool_wf_def mempool_with_capacity_def hashes_apart_def books_seen_def books_quota_def quotas_kept_def
      quota_of_def default_quota_def sender_count_def sender_hashes_def)

text \<open>
  C15: the books of the mempool balance. After any sequence of submissions, prunings, removals and
  evictions the pool holds no two transactions with one hash and no more than its capacity, its
  hash index and arrival slots are exactly those of its transactions, the count and the hash set of
  every sender are those of the sender's transactions, and no sender holds more transactions or
  recent submissions than the limits allow.
\<close>

theorem mempool_books_balance:
  fixes C evs n
  defines "m \<equiv> snd (pool_run C evs (mempool_with_capacity n))"
  shows "distinct (map (etx_hash C) (mp_txs m)) \<and> length (mp_txs m) \<le> max 1 (mp_max_size m)
    \<and> seen_hashes m = etx_hash C ` set (mp_txs m)
    \<and> (\<forall>h. hm_get (first_seen_slot m) h \<noteq> None \<longleftrightarrow> h \<in> seen_hashes m)
    \<and> (\<forall>s. unat (in_pool_count (quota_of s m)) = sender_count s (mp_txs m)
         \<and> (case hm_get (sender_tx_index m) s of None \<Rightarrow> {} | Some hs \<Rightarrow> hs) = sender_hashes C s (mp_txs m)
         \<and> sender_count s (mp_txs m) \<le> unat (max_concurrent m)
         \<and> length (submit_timestamps (quota_of s m)) \<le> unat (max_tx_per_window m))"
proof -
  have "pool_wf C m \<and> quotas_kept m" unfolding m_def by (rule run_wf [OF new_pool_wf])
  then show ?thesis
    by (auto simp: pool_wf_def hashes_apart_def books_seen_def books_quota_def quotas_kept_def word_le_nat_alt)
qed

section \<open>The rate limit\<close>

text \<open>A clock that does not run backwards.\<close>

fun clock_ok :: "nat \<Rightarrow> pool_event list \<Rightarrow> bool" where
  "clock_ok t [] \<longleftrightarrow> True"
| "clock_ok t (Submit now now' tx pk # evs) \<longleftrightarrow> t \<le> unat now \<and> now \<le> now' \<and> clock_ok (unat now') evs"
| "clock_ok t (ev # evs) \<longleftrightarrow> clock_ok t evs"

definition accept_times :: "bytes \<Rightarrow> (u64 \<times> bytes) list \<Rightarrow> nat list" where
  "accept_times s log = map (unat \<circ> fst) (filter (\<lambda>e. snd e = s) log)"

definition in_window :: "nat \<Rightarrow> nat list \<Rightarrow> nat" where
  "in_window t xs = length (filter (\<lambda>x. t \<le> x \<and> x \<le> t + 1000) xs)"

text \<open>The timestamps kept for a sender are all accepted times from some point a window ago.\<close>

definition sender_history :: "nat \<Rightarrow> nat \<Rightarrow> nat list \<Rightarrow> u64 list \<Rightarrow> bool" where
  "sender_history n c past ts \<longleftrightarrow> sorted past \<and> (\<forall>t\<in>set past. t \<le> c)
     \<and> (\<exists>k\<le>c - 1000. map unat ts = filter (\<lambda>t. k \<le> t) past) \<and> (\<forall>t. in_window t past \<le> n)"

lemma length_filter_mono: "(\<And>x. x \<in> set xs \<Longrightarrow> P x \<Longrightarrow> Q x) \<Longrightarrow> length (filter P xs) \<le> length (filter Q xs)"
  by (induction xs) (auto simp: le_Suc_eq)

lemma sorted_dropWhile_unat:
  "sorted (map unat ts) \<Longrightarrow> map unat (dropWhile (\<lambda>t. t < c) ts) = filter (\<lambda>t. unat c \<le> t) (map unat ts)"
proof (induction ts)
  case (Cons t ts)
  then have "unat c \<le> unat t \<Longrightarrow> filter (\<lambda>t. unat c \<le> t) (map unat ts) = map unat ts"
    by (intro filter_True) fastforce
  with Cons show ?case by (auto simp: word_less_nat_alt not_less)
qed simp

lemma history_later: "sender_history n c past ts \<Longrightarrow> c \<le> c' \<Longrightarrow> sender_history n c' past ts"
  unfolding sender_history_def by (meson diff_le_mono order_trans)

lemma history_pruned:
  assumes h: "sender_history n c past ts" and le: "c \<le> unat now"
  shows "\<exists>k\<le>unat now - 1000. unat now - 1000 \<le> k
    \<and> map unat (dropWhile (\<lambda>t. t < saturating_sub now RATE_WINDOW_MS) ts) = filter (\<lambda>t. k \<le> t) past"
proof -
  obtain k where k: "k \<le> c - 1000" "map unat ts = filter (\<lambda>t. k \<le> t) past" "sorted past"
    using h by (auto simp: sender_history_def)
  have "unat (saturating_sub now RATE_WINDOW_MS) = unat now - 1000" by (simp add: unat_saturating_sub RATE_WINDOW_MS_def)
  moreover have "sorted (map unat ts)" unfolding k(2) using k(3) by (rule sorted_wrt_filter)
  ultimately have "map unat (dropWhile (\<lambda>t. t < saturating_sub now RATE_WINDOW_MS) ts)
      = filter (\<lambda>t. unat now - 1000 \<le> t) (filter (\<lambda>t. k \<le> t) past)"
    using sorted_dropWhile_unat [of ts "saturating_sub now RATE_WINDOW_MS"] k(2) by simp
  also have "\<dots> = filter (\<lambda>t. unat now - 1000 \<le> t) past" using k(1) le by (auto intro!: filter_cong)
  finally show ?thesis by blast
qed

text \<open>One accepted submission: the new window is full at most, because the check saw all its predecessors.\<close>

lemma history_accept:
  assumes h: "sender_history n c past ts" and le: "c \<le> unat now" "now \<le> now'"
    and room: "length (dropWhile (\<lambda>t. t < saturating_sub now RATE_WINDOW_MS) ts) < n"
  shows "sender_history n (unat now') (past @ [unat now']) (dropWhile (\<lambda>t. t < saturating_sub now RATE_WINDOW_MS) ts @ [now'])"
proof -
  let ?ts = "dropWhile (\<lambda>t. t < saturating_sub now RATE_WINDOW_MS) ts"
  obtain k where k: "k \<le> unat now - 1000" "unat now - 1000 \<le> k" "map unat ?ts = filter (\<lambda>t. k \<le> t) past"
    using history_pruned [OF h le(1)] by blast
  have le': "unat now \<le> unat now'" using le(2) by (simp add: word_le_nat_alt)
  have old: "\<forall>t\<in>set past. t \<le> unat now'" using h le(1) le' by (fastforce simp: sender_history_def)
  have win: "in_window t (past @ [unat now']) \<le> n" for t
  proof (cases "t \<le> unat now' \<and> unat now' \<le> t + 1000")
    case True
    then have "in_window t past \<le> length (filter (\<lambda>t. k \<le> t) past)"
      unfolding in_window_def using k(1) le' by (intro length_filter_mono) auto
    also have "\<dots> = length ?ts" using arg_cong [OF k(3), of length] by simp
    finally show ?thesis using True room by (simp add: in_window_def)
  next
    case False
    then show ?thesis using h by (auto simp: in_window_def sender_history_def)
  qed
  have "map unat (?ts @ [now']) = filter (\<lambda>t. k \<le> t) (past @ [unat now'])" using k le' by simp
  moreover have "k \<le> unat now' - 1000" using k(1) le' by linarith
  ultimately show ?thesis using h old win by (auto simp: sender_history_def sorted_append)
qed

definition rate_history :: "nat \<Rightarrow> (u64 \<times> bytes) list \<Rightarrow> mempool \<Rightarrow> bool" where
  "rate_history c log m \<longleftrightarrow>
     (\<forall>s. sender_history (unat (max_tx_per_window m)) c (accept_times s log) (submit_timestamps (quota_of s m)))"

lemma history_prune_only:
  assumes "sender_history n c past ts" "c \<le> unat now" "now \<le> now'"
  shows "sender_history n (unat now') past (dropWhile (\<lambda>t. t < saturating_sub now RATE_WINDOW_MS) ts)"
proof -
  obtain k where k: "k \<le> unat now - 1000" "map unat (dropWhile (\<lambda>t. t < saturating_sub now RATE_WINDOW_MS) ts) = filter (\<lambda>t. k \<le> t) past"
    using history_pruned [OF assms(1,2)] by blast
  have "unat now \<le> unat now'" using assms(3) by (simp add: word_le_nat_alt)
  then have "k \<le> unat now' - 1000" "\<forall>t\<in>set past. t \<le> unat now'" using k(1) assms(1,2) by (fastforce simp: sender_history_def)+
  then show ?thesis using k(2) assms(1) by (auto simp: sender_history_def)
qed

lemma submit_history:
  assumes wf: "pool_wf C m" "quotas_kept m" and h: "rate_history c log m" and clock: "c \<le> unat now" "now \<le> now'"
  shows "rate_history (unat now') (log @ fst (pool_apply C (Submit now now' tx pk) m)) (snd (pool_apply C (Submit now now' tx pk) m))
    \<and> max_tx_per_window (snd (pool_apply C (Submit now now' tx pk) m)) = max_tx_per_window m"
proof -
  let ?s = "etx_sender tx" and ?m1 = "set_quota (etx_sender tx) (pruned_quota now (etx_sender tx) m) m"
  have le: "c \<le> unat now'" using clock by (simp add: word_le_nat_alt)
  have base: "sender_history (unat (max_tx_per_window m)) c (accept_times s log) (submit_timestamps (quota_of s m))" for s
    using h by (simp add: rate_history_def)
  obtain r m' where sub: "submit C now now' tx pk m = (r, m')" by fastforce
  note res = submit_result [where C = C and now = now and now' = now' and tx = tx and pk = pk and m = m, unfolded sub]
  show ?thesis
  proof (cases r)
    case (Inl e)
    then have "m' = ?m1" using res by simp
    then show ?thesis
      using Inl sub history_prune_only [OF base clock] history_later [OF base le]
      by (simp add: rate_history_def pruned_quota_def)
  next
    case (Inr u)
    then have ok: "fst (check_sender_rate now ?s m) = Inr ()" "m' = insert_tx C now' tx ?m1" using res by simp_all
    have room: "length (dropWhile (\<lambda>t. t < saturating_sub now RATE_WINDOW_MS) (submit_timestamps (quota_of ?s m))) < unat (max_tx_per_window m)"
      using check_sender_rate_ok(1) [OF wf(2) ok(1)] by (simp add: pruned_quota_def)
    have "trims (?m1\<lparr>mp_txs := mp_txs (make_room C ?m1)\<rparr>) (make_room C ?m1)" by (rule make_room_wf(2) [OF pruned_wf(1) [OF wf]])
    then have tr: "submit_timestamps (quota_of s (make_room C ?m1)) = submit_timestamps (quota_of s ?m1)"
      "max_tx_per_window (make_room C ?m1) = max_tx_per_window m" for s by (simp_all add: trims_def)
    have times: "accept_times s (log @ [(now', ?s)]) = accept_times s log @ (if s = ?s then [unat now'] else [])" for s
      by (simp add: accept_times_def)
    have pq: "submit_timestamps (pruned_quota now ?s m) =
        dropWhile (\<lambda>t. t < saturating_sub now RATE_WINDOW_MS) (submit_timestamps (quota_of ?s m))"
      by (simp add: pruned_quota_def)
    show ?thesis
      using Inr sub ok(2) history_accept [OF base clock room] history_later [OF base le]
      by (simp add: rate_history_def insert_quota_of insert_simps tr times Let_def pq)
  qed
qed

lemma event_history:
  assumes wf: "pool_wf C m" "quotas_kept m" and h: "rate_history c log m" and clock: "clock_ok c (ev # evs)"
  obtains c' where "rate_history c' (log @ fst (pool_apply C ev m)) (snd (pool_apply C ev m))" "clock_ok c' evs"
    and "max_tx_per_window (snd (pool_apply C ev m)) = max_tx_per_window m"
proof (cases ev)
  case (Submit now now' tx pk)
  then show ?thesis using that [of "unat now'"] submit_history [OF wf h, of now now' tx pk] clock by simp
next
  case PruneExpired
  then show ?thesis using that [of c] h clock prune_wf(2) [OF wf(1)] by (simp add: rate_history_def trims_def)
next
  case (RemoveIncluded hs)
  then show ?thesis using that [of c] h clock included_wf(2) [OF wf(1), of hs] by (simp add: rate_history_def trims_def)
next
  case (SetCurrentBlock b)
  then show ?thesis using that [of c] h clock by (simp add: rate_history_def)
next
  case (SetBlockGasLimit g)
  then show ?thesis using that [of c] h clock by (simp add: rate_history_def)
qed

lemma run_history:
  assumes "pool_wf C m" "quotas_kept m" "rate_history c log m" "clock_ok c evs"
  shows "\<exists>c'. rate_history c' (log @ fst (pool_run C evs m)) (snd (pool_run C evs m))
    \<and> max_tx_per_window (snd (pool_run C evs m)) = max_tx_per_window m"
  using assms
proof (induction evs arbitrary: m c log)
  case (Cons ev evs)
  obtain c' where c': "rate_history c' (log @ fst (pool_apply C ev m)) (snd (pool_apply C ev m))" "clock_ok c' evs"
    "max_tx_per_window (snd (pool_apply C ev m)) = max_tx_per_window m"
    using event_history [OF Cons.prems] .
  from Cons.IH [OF _ _ c'(1,2)] event_wf [OF Cons.prems(1,2), of ev] c'(3) show ?case by (simp add: pool_run_Cons)
qed auto

text \<open>
  C16: the rate limit holds over every window. As long as the clock does not run backwards, in no
  interval of one second are more than ten submissions of one sender accepted, whatever is
  evicted, pruned or included meanwhile.
\<close>

theorem rate_limit_enforced:
  assumes "clock_ok 0 evs"
  shows "in_window t (accept_times s (fst (pool_run C evs (mempool_with_capacity n)))) \<le> 10"
proof -
  have "rate_history 0 [] (mempool_with_capacity n)"
    by (simp add: rate_history_def sender_history_def accept_times_def in_window_def mempool_with_capacity_def quota_of_def default_quota_def)
  from run_history [OF new_pool_wf this assms, of C]
  obtain c' where "rate_history c' (fst (pool_run C evs (mempool_with_capacity n))) (snd (pool_run C evs (mempool_with_capacity n)))"
    "max_tx_per_window (snd (pool_run C evs (mempool_with_capacity n))) = 10"
    by (auto simp: mempool_with_capacity_def)
  then show ?thesis by (auto simp: rate_history_def sender_history_def)
qed

definition sample_etx :: "u64 \<Rightarrow> encrypted_tx" where
  "sample_etx nonce = \<lparr>etx_sender = replicate 32 1, etx_nonce = nonce, etx_gas_limit = 30000,
     etx_access_list = [\<lparr>ae_address = replicate 32 2, ae_reads = [], ae_writes = [replicate 32 3]\<rparr>],
     etx_deadline = None, etx_chain_id = 1, etx_signature = replicate 600 0,
     etx_ciphertext = \<lparr>kyber_ct = replicate 1088 0, encrypted_msg = replicate 48 0, ct_mac = replicate 32 0\<rparr>\<rparr>"

theorem rate_limit_enforced_witness:
  "in_window 0 (accept_times (replicate 32 1) (fst (pool_run example_crypto
     [Submit 5 6 (sample_etx 1) None, PruneExpired, Submit 7 7 (sample_etx 2) (Some []), Submit 9 9 (sample_etx 2) None]
     (mempool_with_capacity 1)))) \<le> 10"
  by (rule rate_limit_enforced) simp

section \<open>What the signature covers\<close>

text \<open>
  C35: a relay can replace what the sender signed. The hash that is signed and deduplicated covers
  neither the access list nor the deadline: a copy with other values verifies under the same key, and
  once such a copy is accepted the original is refused.
\<close>

theorem relayed_copy_displaces_original:
  fixes tx al d
  defines "copy \<equiv> tx\<lparr>etx_access_list := al, etx_deadline := d\<rparr>"
  assumes "submit C now now' copy pk m = (Inr u, m')"
  shows "verify_signature_with_key C copy key = verify_signature_with_key C tx key
    \<and> (\<exists>e. fst (submit C later later' tx pk' m') = Inl e)"
proof -
  have same: "etx_hash C copy = etx_hash C tx" by (simp add: copy_def etx_hash_def)
  then have sig: "verify_signature_with_key C copy key = verify_signature_with_key C tx key"
    by (simp add: verify_signature_with_key_def copy_def split: option.splits)
  have "etx_hash C tx \<in> seen_hashes m'"
    using submit_result [where C = C and now = now and now' = now' and tx = copy and pk = pk and m = m] assms(2) same
    by (simp add: insert_simps)
  then have "\<exists>e. fst (submit C later later' tx pk' m') = Inl e"
    using submit_result [where C = C and now = later and now' = later' and tx = tx and pk = pk' and m = m']
    by (cases "submit C later later' tx pk' m'") (auto split: sum.splits)
  then show ?thesis using sig by blast
qed

lemma sample_accepted:
  "submit C 5 6 ((sample_etx 1)\<lparr>etx_access_list := [\<lparr>ae_address = replicate 32 2, ae_reads = [], ae_writes = []\<rparr>], etx_deadline := Some 9\<rparr>) None
     (mempool_with_capacity 10) = (Inr (), snd (submit C 5 6 ((sample_etx 1)\<lparr>etx_access_list :=
       [\<lparr>ae_address = replicate 32 2, ae_reads = [], ae_writes = []\<rparr>], etx_deadline := Some 9\<rparr>) None (mempool_with_capacity 10)))"
  by (simp add: submit_def add_unverified_for_devnet_def verify_signature_def check_core_validity_def check_sender_rate_def
      sbind_def sret_def smod_def Let_def sample_etx_def mempool_with_capacity_def quota_of_def set_quota_def default_quota_def
      is_oversized_def is_expired_def etx_size_def MAX_ETX_SIZE_def GAS_CEILING_def)

theorem relayed_copy_displaces_original_witness:
  "\<exists>e. fst (submit example_crypto 7 8 (sample_etx 1) None (snd (submit example_crypto 5 6 ((sample_etx 1)\<lparr>etx_access_list :=
       [\<lparr>ae_address = replicate 32 2, ae_reads = [], ae_writes = []\<rparr>], etx_deadline := Some 9\<rparr>) None (mempool_with_capacity 10)))) = Inl e"
  using relayed_copy_displaces_original [OF sample_accepted [of example_crypto]] by blast

end
