(* ===== verification/Inclusion.thy ===== *)
theory Inclusion
  imports Ledger Mempool "HOL-Library.Multiset"
begin

text \<open>
  From the pool to a block (\<open>crates/mempool/src/pool.rs\<close>, \<open>ordering.rs\<close>, \<open>inclusion.rs\<close>): the
  round-robin selection of encrypted transactions, the shuffle by the proposer's random output, and
  the audit of a proposed block against a validator's own pool.
\<close>

section \<open>Selection\<close>

text \<open>The pending transactions by sender, and the senders in the order of their first transaction.\<close>

definition enqueue_pending ::
  "u64 \<Rightarrow> encrypted_tx \<Rightarrow> (bytes, encrypted_tx list) hashmap \<times> bytes list \<Rightarrow> (bytes, encrypted_tx list) hashmap \<times> bytes list" where
  "enqueue_pending slot tx acc =
     (case acc of (per_sender, sender_order) \<Rightarrow>
        if is_expired tx slot then acc
        else case hm_get per_sender (etx_sender tx) of
          None \<Rightarrow> (hm_insert (etx_sender tx) [tx] per_sender, sender_order @ [etx_sender tx])
        | Some q \<Rightarrow> (hm_insert (etx_sender tx) (q @ [tx]) per_sender, sender_order))"

record selection =
  sel_queues :: "(bytes, encrypted_tx list) hashmap"
  sel_selected :: "encrypted_tx list"
  sel_gas :: u64
  sel_exhausted :: "bytes set"
  sel_progressed :: bool

definition exhaust :: "bytes \<Rightarrow> selection \<Rightarrow> selection" where
  "exhaust s st = st\<lparr>sel_exhausted := insert s (sel_exhausted st)\<rparr>"

definition take_front :: "bytes \<Rightarrow> encrypted_tx \<Rightarrow> encrypted_tx list \<Rightarrow> selection \<Rightarrow> selection" where
  "take_front s tx q st =
     st\<lparr>sel_queues := hm_insert s q (sel_queues st), sel_gas := sel_gas st + etx_gas_limit tx,
        sel_selected := sel_selected st @ [tx], sel_progressed := True\<rparr>"

text \<open>One pass over the senders; it stops when the block is full.\<close>

fun select_round :: "u64 \<Rightarrow> nat \<Rightarrow> bytes list \<Rightarrow> selection \<Rightarrow> selection" where
  "select_round limit max_count [] st = st"
| "select_round limit max_count (s # ss) st =
     (if length (sel_selected st) \<ge> max_count then st
      else if s \<in> sel_exhausted st then select_round limit max_count ss st
      else case hm_get (sel_queues st) s of
        None \<Rightarrow> select_round limit max_count ss st
      | Some [] \<Rightarrow> select_round limit max_count ss (exhaust s st)
      | Some (tx # q) \<Rightarrow>
          if saturating_add (sel_gas st) (etx_gas_limit tx) > limit
          then select_round limit max_count ss (exhaust s st)
          else select_round limit max_count ss (take_front s tx q st))"

definition queued :: "selection \<Rightarrow> nat" where
  "queued st = sum_list (map (length \<circ> snd) (sel_queues st))"

lemma queued_insert:
  "hm_get m s = Some q0 \<Longrightarrow>
     sum_list (map (length \<circ> snd) (hm_insert s q m)) + length q0 = sum_list (map (length \<circ> snd) m) + length q"
  by (induction m) (auto simp: hm_get_def hm_insert_def split: if_splits)

lemma queued_simps [simp]:
  "queued (exhaust s st) = queued st" "queued (st\<lparr>sel_progressed := b\<rparr>) = queued st"
  "hm_get (sel_queues st) s = Some (tx # q) \<Longrightarrow> queued (take_front s tx q st) = queued st - 1 \<and> 0 < queued st"
  using queued_insert [of "sel_queues st" s "tx # q" q] by (auto simp: queued_def exhaust_def take_front_def)

lemma exhaust_simps [simp]:
  "sel_progressed (exhaust s st) = sel_progressed st" "sel_selected (exhaust s st) = sel_selected st"
  "sel_queues (exhaust s st) = sel_queues st" "sel_gas (exhaust s st) = sel_gas st"
  "sel_exhausted (exhaust s st) = insert s (sel_exhausted st)"
  by (simp_all add: exhaust_def)

lemma round_progress:
  "queued (select_round limit max_count ss st) \<le> queued st
   \<and> (\<not> sel_progressed st \<and> sel_progressed (select_round limit max_count ss st) \<longrightarrow>
        queued (select_round limit max_count ss st) < queued st)"
proof (induction ss arbitrary: st)
  case (Cons s ss)
  have "queued (select_round limit max_count ss (take_front s tx q st)) < queued st" if "hm_get (sel_queues st) s = Some (tx # q)" for tx q
    using Cons.IH [of "take_front s tx q st"] queued_simps(3) [OF that] by linarith
  then show ?case
    using Cons.IH [of st] Cons.IH [of "exhaust s st"] by (auto split: option.splits list.splits dest: less_imp_le)
qed simp

function select_loop :: "u64 \<Rightarrow> nat \<Rightarrow> bytes list \<Rightarrow> selection \<Rightarrow> selection" where
  "select_loop limit max_count order st =
     (if length (sel_selected st) \<ge> max_count then st
      else let st' = select_round limit max_count order (st\<lparr>sel_progressed := False\<rparr>)
           in if \<not> sel_progressed st' then st' else select_loop limit max_count order st')"
  by pat_completeness auto

termination select_loop
proof (relation "measure (\<lambda>(_, _, _, st). queued st)")
  fix limit max_count order st st'
  assume "st' = select_round limit max_count order (st\<lparr>sel_progressed := False\<rparr>)" "\<not> \<not> sel_progressed st'"
  then show "((limit, max_count, order, st'), (limit, max_count, order, st)) \<in> measure (\<lambda>(_, _, _, st). queued st)"
    using round_progress [of limit max_count order "st\<lparr>sel_progressed := False\<rparr>"] by simp
qed simp

declare select_loop.simps [simp del]

definition select_for_block :: "u64 \<Rightarrow> nat \<Rightarrow> u64 \<Rightarrow> mempool \<Rightarrow> encrypted_tx list" where
  "select_for_block limit max_count slot m =
     (if max_count = 0 then []
      else case fold (enqueue_pending slot) (mp_txs m) ([], []) of (per_sender, sender_order) \<Rightarrow>
        sel_selected (select_loop limit max_count sender_order
          \<lparr>sel_queues = per_sender, sel_selected = [], sel_gas = 0, sel_exhausted = {}, sel_progressed = False\<rparr>))"

section \<open>The audit\<close>

record inclusion_audit_result =
  missing_older_than_grace :: "bytes list"
  gas_used_by_encrypted :: u64
  gas_remaining :: u64

definition audit_is_clean :: "inclusion_audit_result \<Rightarrow> bool" where
  "audit_is_clean r \<longleftrightarrow> missing_older_than_grace r = []"

definition audit_inclusion ::
  "crypto_lib \<Rightarrow> (encrypted_tx \<times> u64) list \<Rightarrow> bytes set \<Rightarrow> u64 \<Rightarrow> u64 \<Rightarrow> u64 \<Rightarrow> u64 \<Rightarrow> inclusion_audit_result" where
  "audit_inclusion C view block_hashes block_gas slot grace_slots gas_ceiling =
     (let remaining = saturating_sub gas_ceiling block_gas
      in \<lparr>missing_older_than_grace =
            map (etx_hash C \<circ> fst) (filter (\<lambda>(tx, first_seen).
              \<not> saturating_sub slot first_seen < grace_slots \<and> etx_hash C tx \<notin> block_hashes
              \<and> \<not> etx_gas_limit tx > remaining) view),
          gas_used_by_encrypted = block_gas, gas_remaining = remaining\<rparr>)"

definition audit_block_inclusion ::
  "crypto_lib \<Rightarrow> bytes list \<Rightarrow> (encrypted_tx \<times> u64) list \<Rightarrow> u64 \<Rightarrow> u64 \<Rightarrow> u64 \<Rightarrow> inclusion_audit_result" where
  "audit_block_inclusion C block_bytes view slot grace_slots gas_ceiling =
     (let etxs = List.map_filter etx_from_bytes block_bytes
      in audit_inclusion C view (set (map (etx_hash C) etxs))
           (fold (\<lambda>tx g. saturating_add g (etx_gas_limit tx)) etxs 0) slot grace_slots gas_ceiling)"

section \<open>The shuffle\<close>

definition shuffle_seed :: "crypto_lib \<Rightarrow> bytes \<Rightarrow> bytes" where
  "shuffle_seed C vrf_output = poseidon2_hash C (ascii ''vrf_shuffle'' @ vrf_output)"

definition prng_at :: "crypto_lib \<Rightarrow> bytes \<Rightarrow> nat \<Rightarrow> u64" where
  "prng_at C seed index = from_le_bytes (take 8 (poseidon2_hash C (seed @ to_le_bytes 8 (of_nat index :: u64))))"

definition swap_at :: "nat \<Rightarrow> nat \<Rightarrow> 'a list \<Rightarrow> 'a list" where
  "swap_at i j xs = xs[i := xs ! j, j := xs ! i]"

definition vrf_shuffle :: "crypto_lib \<Rightarrow> nat \<Rightarrow> bytes \<Rightarrow> nat list" where
  "vrf_shuffle C n seed =
     fold (\<lambda>i. swap_at i (unat (prng_at C seed i) mod (i + 1))) (rev [1..<n]) [0..<n]"

definition apply_shuffle :: "'a list \<Rightarrow> nat list \<Rightarrow> 'a list" where
  "apply_shuffle items permutation = map (nth items) permutation"

definition verify_shuffle :: "crypto_lib \<Rightarrow> nat \<Rightarrow> bytes \<Rightarrow> nat list \<Rightarrow> bool" where
  "verify_shuffle C n vrf_output claimed_order \<longleftrightarrow>
     length claimed_order = n \<and> claimed_order = vrf_shuffle C n (shuffle_seed C vrf_output)"

section \<open>Fair selection\<close>

definition of_sender :: "bytes \<Rightarrow> encrypted_tx list \<Rightarrow> encrypted_tx list" where
  "of_sender s txs = filter (\<lambda>tx. etx_sender tx = s) txs"

definition pending :: "u64 \<Rightarrow> mempool \<Rightarrow> encrypted_tx list" where
  "pending slot m = filter (\<lambda>tx. \<not> is_expired tx slot) (mp_txs m)"

definition gas_sum :: "encrypted_tx list \<Rightarrow> nat" where
  "gas_sum txs = sum_list (map (unat \<circ> etx_gas_limit) txs)"

definition queue_of :: "(bytes, encrypted_tx list) hashmap \<Rightarrow> bytes \<Rightarrow> encrypted_tx list" where
  "queue_of qs s = (case hm_get qs s of Some q \<Rightarrow> q | None \<Rightarrow> [])"

lemma of_sender_append [simp]: "of_sender s (xs @ ys) = of_sender s xs @ of_sender s ys"
  by (simp add: of_sender_def)

lemma of_sender_Cons [simp]: "of_sender s (tx # txs) = (if etx_sender tx = s then tx # of_sender s txs else of_sender s txs)"
  "of_sender s [] = []"
  by (simp_all add: of_sender_def)

lemma gas_sum_simps [simp]: "gas_sum [] = 0" "gas_sum (xs @ ys) = gas_sum xs + gas_sum ys"
  "gas_sum (tx # xs) = unat (etx_gas_limit tx) + gas_sum xs"
  by (simp_all add: gas_sum_def)

text \<open>The grouping keeps, for each sender, the pending transactions in arrival order.\<close>

lemma grouping:
  assumes "fold (enqueue_pending slot) txs ([], []) = (qs, order)"
  shows "(\<forall>s. hm_get qs s \<noteq> Some [] \<and> queue_of qs s = of_sender s (filter (\<lambda>tx. \<not> is_expired tx slot) txs))
    \<and> distinct order \<and> set order = {s. hm_get qs s \<noteq> None}"
  using assms
proof (induction txs arbitrary: qs order rule: rev_induct)
  case Nil
  then show ?case by (simp add: queue_of_def)
next
  case (snoc tx txs)
  obtain qs0 order0 where f: "fold (enqueue_pending slot) txs ([], []) = (qs0, order0)" by fastforce
  note ih = snoc.IH [OF this]
  have step: "(qs, order) = enqueue_pending slot tx (qs0, order0)" using snoc.prems f by simp
  show ?case
  proof (cases "is_expired tx slot")
    case True
    then show ?thesis using ih step by (simp add: enqueue_pending_def)
  next
    case False
    have old: "(case hm_get qs0 (etx_sender tx) of Some q \<Rightarrow> q | None \<Rightarrow> []) = of_sender (etx_sender tx) (filter (\<lambda>tx. \<not> is_expired tx slot) txs)"
      using ih by (simp add: queue_of_def)
    show ?thesis
    proof (cases "hm_get qs0 (etx_sender tx)")
      case None
      then show ?thesis using ih step old False by (auto simp: enqueue_pending_def queue_of_def)
    next
      case (Some q)
      then show ?thesis using ih step old False by (auto simp: enqueue_pending_def queue_of_def)
    qed
  qed
qed

text \<open>A queue from which nothing more fits into the block.\<close>

definition blocked :: "u64 \<Rightarrow> nat \<Rightarrow> encrypted_tx list \<Rightarrow> bool" where
  "blocked limit gas q = (case q of [] \<Rightarrow> True | tx # _ \<Rightarrow> unat limit < gas + unat (etx_gas_limit tx))"

lemma blocked_mono: "blocked limit gas q \<Longrightarrow> gas \<le> gas' \<Longrightarrow> blocked limit gas' q"
  by (auto simp: blocked_def split: list.splits)

text \<open>What holds at every point of the loop, for the queues at its start.\<close>

definition sel_ok :: "u64 \<Rightarrow> nat \<Rightarrow> (bytes \<Rightarrow> encrypted_tx list) \<Rightarrow> selection \<Rightarrow> bool" where
  "sel_ok limit max_count start st \<longleftrightarrow>
     (\<forall>s. of_sender s (sel_selected st) @ queue_of (sel_queues st) s = start s)
     \<and> (\<forall>s tx. tx \<in> set (start s) \<longrightarrow> etx_sender tx = s)
     \<and> unat (sel_gas st) = gas_sum (sel_selected st) \<and> sel_gas st \<le> limit \<and> length (sel_selected st) \<le> max_count
     \<and> (\<forall>s\<in>sel_exhausted st. blocked limit (gas_sum (sel_selected st)) (queue_of (sel_queues st) s))"

definition picked :: "selection \<Rightarrow> bytes \<Rightarrow> nat" where
  "picked st s = length (of_sender s (sel_selected st))"

text \<open>After \<open>r\<close> rounds a sender has \<open>r\<close> transactions, or dropped out before.\<close>

definition served :: "nat \<Rightarrow> selection \<Rightarrow> bytes \<Rightarrow> bool" where
  "served r st s \<longleftrightarrow> picked st s = r \<or> s \<in> sel_exhausted st \<and> picked st s \<le> r"

lemma sel_ok_progress [simp]: "sel_ok limit max_count start (st\<lparr>sel_progressed := b\<rparr>) = sel_ok limit max_count start st"
  by (simp add: sel_ok_def)

lemma sel_ok_exhaust:
  assumes "sel_ok limit max_count start st"
    and "blocked limit (gas_sum (sel_selected st)) (queue_of (sel_queues st) s)"
  shows "sel_ok limit max_count start (exhaust s st)"
  using assms by (simp add: sel_ok_def)

lemma sel_ok_take:
  assumes ok: "sel_ok limit max_count start st" and q: "hm_get (sel_queues st) s = Some (tx # q)" and s: "s \<notin> sel_exhausted st"
    and fits: "\<not> saturating_add (sel_gas st) (etx_gas_limit tx) > limit" and limit: "limit \<noteq> - 1"
    and room: "length (sel_selected st) < max_count"
  shows "sel_ok limit max_count start (take_front s tx q st)"
proof -
  have queue: "queue_of (sel_queues st) s = tx # q" using q by (simp add: queue_of_def)
  have all: "of_sender x (sel_selected st) @ queue_of (sel_queues st) x = start x" for x using ok by (simp add: sel_ok_def)
  have "tx \<in> set (start s)" using all [of s] queue by (metis in_set_conv_decomp)
  then have sender: "etx_sender tx = s" using ok by (simp add: sel_ok_def)
  have "unat limit < 2 ^ 64 - 1" using limit unat_lt_length [of limit] by (simp add: word_unat_eq_iff unat_max_word)
  then have sum: "unat (sel_gas st) + unat (etx_gas_limit tx) \<le> unat limit"
    using fits by (simp add: word_le_nat_alt [symmetric] not_less word_le_nat_alt unat_saturating_add split: if_splits)
  then have gas: "unat (sel_gas st + etx_gas_limit tx) = unat (sel_gas st) + unat (etx_gas_limit tx)"
    using unat_lt_length [of limit] by (subst unat_add_lem [THEN iffD1]) simp_all
  have split: "of_sender x (sel_selected st @ [tx]) @ queue_of (hm_insert s q (sel_queues st)) x = start x" for x
    using all [of x] queue sender by (auto simp: queue_of_def)
  have more: "blocked limit (gas_sum (sel_selected st @ [tx])) (queue_of (hm_insert s q (sel_queues st)) x)" if "x \<in> sel_exhausted st" for x
  proof -
    have "queue_of (hm_insert s q (sel_queues st)) x = queue_of (sel_queues st) x" using s that by (auto simp: queue_of_def)
    then show ?thesis using ok that by (auto simp: sel_ok_def intro: blocked_mono)
  qed
  show ?thesis using ok split more sum gas room by (simp add: sel_ok_def take_front_def word_le_nat_alt)
qed

text \<open>What a round does with one sender.\<close>

definition visit :: "u64 \<Rightarrow> bytes \<Rightarrow> selection \<Rightarrow> selection" where
  "visit limit s st =
     (if s \<in> sel_exhausted st then st
      else case hm_get (sel_queues st) s of
        None \<Rightarrow> st
      | Some [] \<Rightarrow> exhaust s st
      | Some (tx # q) \<Rightarrow>
          if saturating_add (sel_gas st) (etx_gas_limit tx) > limit then exhaust s st else take_front s tx q st)"

lemma select_round_visit:
  "select_round limit max_count (s # ss) st =
     (if length (sel_selected st) \<ge> max_count then st else select_round limit max_count ss (visit limit s st))"
  by (simp add: visit_def split: option.splits list.splits)

lemma take_front_simps [simp]:
  "sel_selected (take_front s tx q st) = sel_selected st @ [tx]" "sel_exhausted (take_front s tx q st) = sel_exhausted st"
  "sel_queues (take_front s tx q st) = hm_insert s q (sel_queues st)" "sel_progressed (take_front s tx q st)"
  by (simp_all add: take_front_def)

lemma front_sender:
  assumes "sel_ok limit max_count start st" "hm_get (sel_queues st) s = Some (tx # q)"
  shows "etx_sender tx = s"
proof -
  have "of_sender s (sel_selected st) @ tx # q = start s" using assms by (auto simp: sel_ok_def queue_of_def split: option.splits)
  then have "tx \<in> set (start s)" by (metis in_set_conv_decomp)
  then show ?thesis using assms(1) by (simp add: sel_ok_def)
qed

lemma visit_spec:
  assumes ok: "sel_ok limit max_count start st" and "served r st s" "hm_get (sel_queues st) s \<noteq> None"
    and limit: "limit \<noteq> - 1" and room: "length (sel_selected st) < max_count"
  shows "sel_ok limit max_count start (visit limit s st)" "served (Suc r) (visit limit s st) s"
    and "x \<noteq> s \<Longrightarrow> picked (visit limit s st) x = picked st x \<and> (x \<in> sel_exhausted (visit limit s st) \<longleftrightarrow> x \<in> sel_exhausted st)"
    and "hm_get (sel_queues (visit limit s st)) x = None \<longleftrightarrow> hm_get (sel_queues st) x = None"
    and "sel_progressed st \<Longrightarrow> sel_progressed (visit limit s st)"
    and "sel_progressed (visit limit s st) \<or> s \<in> sel_exhausted (visit limit s st)"
proof -
  have gas: "unat (sel_gas st) = gas_sum (sel_selected st)" using ok by (simp add: sel_ok_def)
  have over: "blocked limit (gas_sum (sel_selected st)) (tx # q)" if "saturating_add (sel_gas st) (etx_gas_limit tx) > limit" for tx q
    using that gas by (simp add: blocked_def word_less_nat_alt unat_saturating_add split: if_splits)
  consider (out) "s \<in> sel_exhausted st" | (empty) "s \<notin> sel_exhausted st" "hm_get (sel_queues st) s = Some []"
    | (full) tx q where "s \<notin> sel_exhausted st" "hm_get (sel_queues st) s = Some (tx # q)" "saturating_add (sel_gas st) (etx_gas_limit tx) > limit"
    | (fits) tx q where "s \<notin> sel_exhausted st" "hm_get (sel_queues st) s = Some (tx # q)" "\<not> saturating_add (sel_gas st) (etx_gas_limit tx) > limit"
    using assms(3) by (metis list.exhaust option.exhaust)
  then have "sel_ok limit max_count start (visit limit s st) \<and> served (Suc r) (visit limit s st) s
    \<and> (x \<noteq> s \<longrightarrow> picked (visit limit s st) x = picked st x \<and> (x \<in> sel_exhausted (visit limit s st) \<longleftrightarrow> x \<in> sel_exhausted st))
    \<and> (hm_get (sel_queues (visit limit s st)) x = None \<longleftrightarrow> hm_get (sel_queues st) x = None)
    \<and> (sel_progressed st \<longrightarrow> sel_progressed (visit limit s st))
    \<and> (sel_progressed (visit limit s st) \<or> s \<in> sel_exhausted (visit limit s st))"
  proof cases
    case out
    then show ?thesis using assms(2) ok by (auto simp: visit_def served_def)
  next
    case empty
    then have "blocked limit (gas_sum (sel_selected st)) (queue_of (sel_queues st) s)" by (simp add: queue_of_def blocked_def)
    from sel_ok_exhaust [OF ok this] show ?thesis using empty assms(2) by (auto simp: visit_def served_def picked_def)
  next
    case full
    then have "blocked limit (gas_sum (sel_selected st)) (queue_of (sel_queues st) s)" using over by (simp add: queue_of_def)
    from sel_ok_exhaust [OF ok this] show ?thesis using full assms(2) by (auto simp: visit_def served_def picked_def)
  next
    case (fits tx q)
    have "picked st s = r" using assms(2) fits(1) by (simp add: served_def)
    then show ?thesis
      using sel_ok_take [OF ok fits(2,1,3) limit room] front_sender [OF ok fits(2)] fits
      by (auto simp: visit_def served_def picked_def)
  qed
  then show "sel_ok limit max_count start (visit limit s st)" "served (Suc r) (visit limit s st) s"
    and "x \<noteq> s \<Longrightarrow> picked (visit limit s st) x = picked st x \<and> (x \<in> sel_exhausted (visit limit s st) \<longleftrightarrow> x \<in> sel_exhausted st)"
    and "hm_get (sel_queues (visit limit s st)) x = None \<longleftrightarrow> hm_get (sel_queues st) x = None"
    and "sel_progressed st \<Longrightarrow> sel_progressed (visit limit s st)"
    and "sel_progressed (visit limit s st) \<or> s \<in> sel_exhausted (visit limit s st)" by blast+
qed

text \<open>What a round over \<open>ss\<close> after \<open>r\<close> full rounds leaves.\<close>

definition round_done :: "nat \<Rightarrow> nat \<Rightarrow> bytes list \<Rightarrow> selection \<Rightarrow> selection \<Rightarrow> bool" where
  "round_done max_count r ss st st' \<longleftrightarrow>
     (\<forall>x. x \<notin> set ss \<longrightarrow> picked st' x = picked st x \<and> (x \<in> sel_exhausted st' \<longleftrightarrow> x \<in> sel_exhausted st))
     \<and> (\<forall>x. hm_get (sel_queues st') x = None \<longleftrightarrow> hm_get (sel_queues st) x = None)
     \<and> ((\<forall>s\<in>set ss. served (Suc r) st' s)
        \<or> length (sel_selected st') \<ge> max_count \<and> (\<forall>s\<in>set ss. served r st' s \<or> served (Suc r) st' s))
     \<and> (sel_progressed st \<longrightarrow> sel_progressed st')
     \<and> (sel_progressed st' \<or> length (sel_selected st') \<ge> max_count \<or> set ss \<subseteq> sel_exhausted st')"

lemma round_done_Cons:
  assumes w: "round_done max_count r ss v w" and "s \<notin> set ss" and s: "served (Suc r) v s" "sel_progressed v \<or> s \<in> sel_exhausted v"
    and p: "sel_progressed st \<longrightarrow> sel_progressed v"
    and x: "\<And>x. x \<noteq> s \<Longrightarrow> picked v x = picked st x \<and> (x \<in> sel_exhausted v \<longleftrightarrow> x \<in> sel_exhausted st)"
      "\<And>x. hm_get (sel_queues v) x = None \<longleftrightarrow> hm_get (sel_queues st) x = None"
  shows "round_done max_count r (s # ss) st w"
proof -
  have ws: "picked w s = picked v s" "s \<in> sel_exhausted w \<longleftrightarrow> s \<in> sel_exhausted v"
    using w assms(2) by (simp_all add: round_done_def)
  then have serv: "served (Suc r) w s" using s(1) by (simp add: served_def)
  have 1: "picked w y = picked st y \<and> (y \<in> sel_exhausted w \<longleftrightarrow> y \<in> sel_exhausted st)" if "y \<notin> set (s # ss)" for y
    using w x(1) [of y] that by (simp add: round_done_def)
  have 2: "hm_get (sel_queues w) y = None \<longleftrightarrow> hm_get (sel_queues st) y = None" for y
    using w x(2) [of y] by (simp add: round_done_def)
  have 3: "(\<forall>t\<in>set (s # ss). served (Suc r) w t)
      \<or> length (sel_selected w) \<ge> max_count \<and> (\<forall>t\<in>set (s # ss). served r w t \<or> served (Suc r) w t)"
    using w serv unfolding round_done_def by auto
  have 4: "sel_progressed st \<longrightarrow> sel_progressed w" using w p unfolding round_done_def by blast
  have "sel_progressed w \<or> s \<in> sel_exhausted w" using w s(2) ws(2) unfolding round_done_def by blast
  then have 5: "sel_progressed w \<or> length (sel_selected w) \<ge> max_count \<or> set (s # ss) \<subseteq> sel_exhausted w"
    using w unfolding round_done_def by auto
  show ?thesis unfolding round_done_def using 1 2 3 4 5 by blast
qed

lemma round_spec:
  assumes "sel_ok limit max_count start st" "distinct ss" "\<forall>s\<in>set ss. served r st s" "\<forall>s\<in>set ss. hm_get (sel_queues st) s \<noteq> None"
    and limit: "limit \<noteq> - 1"
  shows "sel_ok limit max_count start (select_round limit max_count ss st)
    \<and> round_done max_count r ss st (select_round limit max_count ss st)"
  using assms(1-4)
proof (induction ss arbitrary: st)
  case Nil
  then show ?case by (simp add: round_done_def)
next
  case (Cons s ss)
  show ?case
  proof (cases "length (sel_selected st) \<ge> max_count")
    case True
    then show ?thesis using Cons.prems by (simp add: select_round_visit round_done_def del: select_round.simps)
  next
    case False
    let ?v = "visit limit s st"
    note v = visit_spec [OF Cons.prems(1) _ _ limit, of r s]
    have v1: "sel_ok limit max_count start ?v" "served (Suc r) ?v s" "sel_progressed ?v \<or> s \<in> sel_exhausted ?v"
      "sel_progressed st \<longrightarrow> sel_progressed ?v"
      using v False Cons.prems(3,4) by auto
    have v2: "x \<noteq> s \<Longrightarrow> picked ?v x = picked st x \<and> (x \<in> sel_exhausted ?v \<longleftrightarrow> x \<in> sel_exhausted st)"
      "hm_get (sel_queues ?v) x = None \<longleftrightarrow> hm_get (sel_queues st) x = None" for x
      using v False Cons.prems(3,4) by auto
    have "\<forall>t\<in>set ss. served r ?v t"
    proof
      fix t assume t: "t \<in> set ss"
      then have "t \<noteq> s" "served r st t" using Cons.prems(2,3) by auto
      then show "served r ?v t" using v2(1) [of t] by (simp add: served_def)
    qed
    moreover have "\<forall>t\<in>set ss. hm_get (sel_queues ?v) t \<noteq> None" using Cons.prems(4) v2(2) by simp
    ultimately have ih: "sel_ok limit max_count start (select_round limit max_count ss ?v)"
      "round_done max_count r ss ?v (select_round limit max_count ss ?v)"
      using Cons.IH [OF v1(1)] Cons.prems(2) by simp_all
    have "select_round limit max_count (s # ss) st = select_round limit max_count ss ?v"
      using False by (simp add: select_round_visit del: select_round.simps)
    then show ?thesis using ih(1) round_done_Cons [OF ih(2) _ v1(2,3,4) v2] Cons.prems(2) by simp
  qed
qed

lemma loop_spec:
  assumes "sel_ok limit max_count start st" "distinct order" "\<forall>s\<in>set order. served r st s"
    and "\<forall>s\<in>set order. hm_get (sel_queues st) s \<noteq> None" "limit \<noteq> - 1"
  shows "sel_ok limit max_count start (select_loop limit max_count order st)
    \<and> (\<exists>r. \<forall>s\<in>set order. served r (select_loop limit max_count order st) s \<or> served (Suc r) (select_loop limit max_count order st) s)
    \<and> (length (sel_selected (select_loop limit max_count order st)) \<ge> max_count
       \<or> set order \<subseteq> sel_exhausted (select_loop limit max_count order st))"
  using assms
proof (induction limit max_count order st arbitrary: r rule: select_loop.induct)
  case (1 limit max_count order st)
  show ?case
  proof (cases "length (sel_selected st) \<ge> max_count")
    case True
    then show ?thesis using 1(2,4) by (auto simp: select_loop.simps)
  next
    case False
    let ?s0 = "st\<lparr>sel_progressed := False\<rparr>" and ?s1 = "select_round limit max_count order (st\<lparr>sel_progressed := False\<rparr>)"
    have "sel_ok limit max_count start ?s0" "\<forall>s\<in>set order. served r ?s0 s" "\<forall>s\<in>set order. hm_get (sel_queues ?s0) s \<noteq> None"
      using 1(2,4,5) by (simp_all add: served_def picked_def)
    from round_spec [OF this(1) 1(3) this(2,3) 1(6)]
    have s1: "sel_ok limit max_count start ?s1" "round_done max_count r order ?s0 ?s1" by simp_all
    show ?thesis
    proof (cases "sel_progressed ?s1 \<and> \<not> length (sel_selected ?s1) \<ge> max_count")
      case True
      then have "\<forall>s\<in>set order. served (Suc r) ?s1 s" "\<forall>s\<in>set order. hm_get (sel_queues ?s1) s \<noteq> None"
        using s1(2) 1(5) by (simp_all add: round_done_def)
      then show ?thesis using 1(1) [OF False refl _ s1(1) 1(3) _ _ 1(6)] True False by (simp add: select_loop.simps [of limit max_count order st] Let_def)
    next
      case stop: False
      then have "select_loop limit max_count order st = ?s1"
        using False by (auto simp: select_loop.simps [of limit max_count order st] select_loop.simps [of limit max_count order ?s1] Let_def)
      moreover have "\<forall>s\<in>set order. served r ?s1 s \<or> served (Suc r) ?s1 s"
        "length (sel_selected ?s1) \<ge> max_count \<or> set order \<subseteq> sel_exhausted ?s1"
        using s1(2) stop by (auto simp: round_done_def)
      ultimately show ?thesis using s1(1) by auto
    qed
  qed
qed

lemma selection_run:
  fixes limit max_count slot m
  defines "start \<equiv> \<lambda>s. of_sender s (pending slot m)"
  assumes "limit \<noteq> - 1" "max_count \<noteq> 0"
  obtains st order r where "select_for_block limit max_count slot m = sel_selected st" "sel_ok limit max_count start st"
    and "\<And>s. s \<notin> set order \<Longrightarrow> start s = []" "\<forall>s\<in>set order. served r st s \<or> served (Suc r) st s"
    and "length (sel_selected st) \<ge> max_count \<or> set order \<subseteq> sel_exhausted st"
proof -
  obtain qs order where f: "fold (enqueue_pending slot) (mp_txs m) ([], []) = (qs, order)" by fastforce
  note g = grouping [OF f, folded pending_def]
  let ?st = "\<lparr>sel_queues = qs, sel_selected = [], sel_gas = 0, sel_exhausted = {}, sel_progressed = False\<rparr>"
  let ?fin = "select_loop limit max_count order ?st"
  have "sel_ok limit max_count start ?st" using g by (auto simp: sel_ok_def of_sender_def start_def)
  moreover have "\<forall>s\<in>set order. served 0 ?st s" by (simp add: served_def picked_def)
  moreover have "distinct order" "\<forall>s\<in>set order. hm_get (sel_queues ?st) s \<noteq> None" using g by auto
  ultimately have e: "sel_ok limit max_count start ?fin"
    "\<exists>r. \<forall>s\<in>set order. served r ?fin s \<or> served (Suc r) ?fin s"
    "length (sel_selected ?fin) \<ge> max_count \<or> set order \<subseteq> sel_exhausted ?fin"
    using loop_spec [of limit max_count start ?st order 0] assms(2) by simp_all
  have none: "start s = []" if "s \<notin> set order" for s
  proof -
    have "hm_get qs s = None" "queue_of qs s = start s" using g that by (simp_all add: start_def)
    then show ?thesis by (simp add: queue_of_def)
  qed
  have "select_for_block limit max_count slot m = sel_selected ?fin" using assms(3) f by (simp add: select_for_block_def)
  then show thesis using that e none by blast
qed

text \<open>
  C14: the selection for a block is fair, and complete up to the front of the queues, for a gas limit
  below \<open>u64::MAX\<close>. It takes no more than the count and the gas allow; of each sender it takes the
  oldest pending transactions, in arrival order, none expired; a sender gets two more than another
  only if the other has no pending transaction left or the oldest one left does not fit the remaining
  gas; and it stops short of the count only when this holds of every sender. A later transaction of
  a sender that would fit behind one that does not is not taken.
\<close>

theorem selection_fair_and_complete:
  fixes limit max_count slot m
  defines "sel \<equiv> select_for_block limit max_count slot m"
  defines "rest \<equiv> \<lambda>s. drop (length (of_sender s sel)) (of_sender s (pending slot m))"
  assumes "limit \<noteq> - 1"
  shows "length sel \<le> max_count \<and> gas_sum sel \<le> unat limit
    \<and> (\<forall>s. of_sender s sel = take (length (of_sender s sel)) (of_sender s (pending slot m)))
    \<and> (\<forall>a b. length (of_sender a sel) \<le> length (of_sender b sel) + 1 \<or> blocked limit (gas_sum sel) (rest b))
    \<and> (length sel = max_count \<or> (\<forall>s. blocked limit (gas_sum sel) (rest s)))"
proof (cases "max_count = 0")
  case True
  then show ?thesis by (simp add: sel_def select_for_block_def)
next
  case False
  obtain st order r where run: "sel = sel_selected st" "sel_ok limit max_count (\<lambda>s. of_sender s (pending slot m)) st"
    "\<And>s. s \<notin> set order \<Longrightarrow> of_sender s (pending slot m) = []" "\<forall>s\<in>set order. served r st s \<or> served (Suc r) st s"
    "length (sel_selected st) \<ge> max_count \<or> set order \<subseteq> sel_exhausted st"
    unfolding sel_def using selection_run [OF assms(3) False, of slot m] by blast
  have split: "of_sender s sel @ queue_of (sel_queues st) s = of_sender s (pending slot m)" for s
    using run(1,2) by (simp add: sel_ok_def)
  then have nxt: "rest s = queue_of (sel_queues st) s" for s by (simp add: rest_def flip: split)
  have take: "of_sender s sel = take (length (of_sender s sel)) (of_sender s (pending slot m))" for s by (simp flip: split)
  have out: "blocked limit (gas_sum sel) (rest s)" if "s \<in> sel_exhausted st \<or> s \<notin> set order" for s
  proof (cases "s \<in> set order")
    case True
    then show ?thesis using that run(1,2) by (simp add: sel_ok_def nxt)
  next
    case False
    then show ?thesis using run(3) [of s] by (simp add: rest_def blocked_def)
  qed
  have "length (of_sender a sel) \<le> length (of_sender b sel) + 1 \<or> blocked limit (gas_sum sel) (rest b)" for a b
  proof (cases "b \<in> set order \<and> b \<notin> sel_exhausted st")
    case True
    then have "r \<le> picked st b" using run(4) by (auto simp: served_def)
    moreover have "picked st a \<le> Suc r"
      using run(1,4) run(3) [of a] split [of a] by (cases "a \<in> set order") (auto simp: served_def picked_def)
    ultimately show ?thesis by (simp add: picked_def run(1))
  next
    case False
    then show ?thesis using out by blast
  qed
  moreover have bounds: "length sel \<le> max_count" "gas_sum sel \<le> unat limit"
    using run(1,2) by (simp_all add: sel_ok_def word_le_nat_alt)
  moreover have "length sel = max_count \<or> (\<forall>s. blocked limit (gas_sum sel) (rest s))"
    using run(1,5) bounds(1) out by (metis le_antisym subsetD)
  ultimately show ?thesis using take by blast
qed

definition two_senders :: mempool where
  "two_senders = (mempool_with_capacity 9)\<lparr>mp_txs := [sample_etx 1, sample_etx 2, (sample_etx 1)\<lparr>etx_sender := replicate 32 7\<rparr>]\<rparr>"

theorem selection_fair_and_complete_witness:
  "length (of_sender (replicate 32 1) (select_for_block 100000 2 0 two_senders)) \<le> 1 + length (of_sender (replicate 32 7) (select_for_block 100000 2 0 two_senders))
   \<or> blocked 100000 (gas_sum (select_for_block 100000 2 0 two_senders))
       (drop (length (of_sender (replicate 32 7) (select_for_block 100000 2 0 two_senders))) (of_sender (replicate 32 7) (pending 0 two_senders)))"
  using selection_fair_and_complete [of 100000 2 0 two_senders] by simp

section \<open>Honest blocks and the audit\<close>

text \<open>Selected transactions are pending ones, each at most as often as it is pending.\<close>

lemma selection_sub:
  assumes "limit \<noteq> - 1"
  shows "mset (select_for_block limit max_count slot m) \<subseteq># mset (pending slot m)"
    and "length (select_for_block limit max_count slot m) \<le> max_count"
    and "gas_sum (select_for_block limit max_count slot m) \<le> unat limit"
proof -
  let ?sel = "select_for_block limit max_count slot m"
  have "(\<forall>s. \<exists>q. of_sender s ?sel @ q = of_sender s (pending slot m)) \<and> length ?sel \<le> max_count \<and> gas_sum ?sel \<le> unat limit"
  proof (cases "max_count = 0")
    case True
    then show ?thesis by (simp add: select_for_block_def)
  next
    case False
    obtain st where "?sel = sel_selected st" "sel_ok limit max_count (\<lambda>s. of_sender s (pending slot m)) st"
      by (rule selection_run [OF assms False, of slot m])
    then show ?thesis by (auto simp: sel_ok_def word_le_nat_alt)
  qed
  then have takes: "\<exists>q. of_sender s ?sel @ q = of_sender s (pending slot m)"
    and bounds: "length ?sel \<le> max_count" "gas_sum ?sel \<le> unat limit" for s by blast+
  show "length ?sel \<le> max_count" "gas_sum ?sel \<le> unat limit" using bounds .
  have count: "count (mset txs) x = count (mset (of_sender (etx_sender x) txs)) x" for x txs
    by (simp add: of_sender_def)
  show "mset ?sel \<subseteq># mset (pending slot m)"
  proof (rule mset_subset_eqI)
    fix x :: encrypted_tx
    obtain q where "of_sender (etx_sender x) ?sel @ q = of_sender (etx_sender x) (pending slot m)" using takes by blast
    then have "count (mset (of_sender (etx_sender x) ?sel)) x \<le> count (mset (of_sender (etx_sender x) (pending slot m))) x"
      by (metis count_union le_add1 mset_append)
    then show "count (mset ?sel) x \<le> count (mset (pending slot m)) x"
      using count [of ?sel x] count [of "pending slot m" x] by linarith
  qed
qed

text \<open>A transaction within the caps of the decoder is read back from a block.\<close>

definition etx_entry_wf :: "access_entry \<Rightarrow> bool" where
  "etx_entry_wf e \<longleftrightarrow> length (ae_address e) = 32
     \<and> list_all (\<lambda>k. length k = 32) (ae_reads e) \<and> list_all (\<lambda>k. length k = 32) (ae_writes e)
     \<and> length (ae_reads e) \<le> MAX_KEYS_PER_ACCESS_ENTRY \<and> length (ae_writes e) \<le> MAX_KEYS_PER_ACCESS_ENTRY"

definition etx_wf :: "encrypted_tx \<Rightarrow> bool" where
  "etx_wf tx \<longleftrightarrow> length (etx_sender tx) = 32 \<and> list_all etx_entry_wf (etx_access_list tx)
     \<and> length (etx_access_list tx) \<le> MAX_ACCESS_ENTRIES \<and> length (etx_signature tx) \<le> MAX_SIG_LEN
     \<and> length (kyber_ct (etx_ciphertext tx)) = KYBER_CT_SIZE \<and> length (ct_mac (etx_ciphertext tx)) = 32
     \<and> length (ct_to_wire_bytes (etx_ciphertext tx)) \<le> MAX_CT_LEN \<and> length (etx_to_bytes tx) \<le> MAX_ETX_SIZE"

lemma u16_count_encode:
  "n \<le> max_n \<Longrightarrow> n < 2 ^ 16 \<Longrightarrow> u16_count max_n (to_le_bytes 2 (of_nat n :: u16) @ rest) = Some (n, rest)"
  by (simp add: u16_count_def from_to_le_bytes unat_length_u16)

lemma u32_count_encode:
  "n \<le> max_n \<Longrightarrow> n < 2 ^ 32 \<Longrightarrow> u32_count max_n (to_le_bytes 4 (of_nat n :: u32) @ rest) = Some (n, rest)"
  by (simp add: u32_count_def from_to_le_bytes unat_length_u32)

lemma read_etx_entries_encode:
  "list_all etx_entry_wf al \<Longrightarrow> read_etx_entries (length al) (concat (map encode_etx_entry al) @ rest) = Some (al, rest)"
proof (induction al)
  case (Cons e al)
  then have wf: "etx_entry_wf e" and ih: "read_etx_entries (length al) (concat (map encode_etx_entry al) @ rest) = Some (al, rest)"
    by simp_all
  then show ?case
    using read_hashes_concat [of "ae_reads e"] read_hashes_concat [of "ae_writes e"]
    by (simp add: encode_etx_entry_def [of e] etx_entry_wf_def u16_count_encode MAX_KEYS_PER_ACCESS_ENTRY_def)
qed simp

lemma read_etx_deadline_encode: "read_etx_deadline (encode_deadline d @ rest) = Some (d, rest)"
  by (cases d) (simp_all add: read_etx_deadline_def from_to_le_bytes)

lemma ct_wire_roundtrip:
  assumes "length (kyber_ct c) = KYBER_CT_SIZE" "length (ct_mac c) = 32" "length (encrypted_msg c) < 2 ^ 32"
  shows "ct_from_wire_bytes (ct_to_wire_bytes c) = Some c"
  using assms
  by (simp add: ct_from_wire_bytes_def ct_to_wire_bytes_def KYBER_CT_SIZE_def from_to_le_bytes unat_length_u32 byte_range_def Let_def)

lemma etx_roundtrip:
  assumes "etx_wf tx"
  shows "etx_from_bytes (etx_to_bytes tx) = Some tx"
proof -
  let ?ct = "ct_to_wire_bytes (etx_ciphertext tx)"
  have len: "length ?ct \<le> MAX_CT_LEN" "\<not> length (etx_to_bytes tx) > MAX_ETX_SIZE" using assms by (simp_all add: etx_wf_def)
  then have "length (encrypted_msg (etx_ciphertext tx)) < 2 ^ 32" by (simp add: ct_to_wire_bytes_def MAX_CT_LEN_def)
  then have ct: "ct_from_wire_bytes ?ct = Some (etx_ciphertext tx)"
    using assms by (intro ct_wire_roundtrip) (simp_all add: etx_wf_def)
  have last: "rd (length ?ct) ?ct = Some (?ct, [])" by (simp add: rd_def)
  have "length ?ct < 2 ^ 32" "length (etx_access_list tx) < 2 ^ 32" "length (etx_signature tx) < 2 ^ 32"
    using assms by (simp_all add: etx_wf_def MAX_CT_LEN_def MAX_ACCESS_ENTRIES_def MAX_SIG_LEN_def)
  note counts = u32_count_encode [OF len(1) this(1)] u32_count_encode [OF _ this(2), of MAX_ACCESS_ENTRIES]
    u32_count_encode [OF _ this(3), of MAX_SIG_LEN] u32_count_encode [OF len(1) this(1), of "[]"]
  show ?thesis
    using assms len
    by (simp add: etx_from_bytes_def etx_to_bytes_def Let_def etx_wf_def from_to_le_bytes read_etx_deadline_encode
        counts read_etx_entries_encode ct last)
qed

lemma decoded_block: "\<forall>tx\<in>set txs. etx_wf tx \<Longrightarrow> List.map_filter etx_from_bytes (map etx_to_bytes txs) = txs"
  by (induction txs) (simp_all add: etx_roundtrip)

lemma saturating_gas_sum:
  "unat (fold (\<lambda>tx g. saturating_add g (etx_gas_limit tx)) txs g) \<le> unat g + gas_sum txs"
proof (induction txs arbitrary: g)
  case (Cons tx txs)
  from Cons.IH [of "saturating_add g (etx_gas_limit tx)"] show ?case by (simp add: unat_saturating_add)
qed simp

text \<open>Of more pending transactions than are selected, one is left out, and it fits beside the selected ones.\<close>

lemma left_out:
  assumes "mset sel \<subseteq># mset txs" "length sel < length txs" "distinct txs"
  obtains tx where "tx \<in> set txs" "tx \<notin> set sel" "gas_sum sel + unat (etx_gas_limit tx) \<le> gas_sum txs"
proof -
  obtain rest where rest: "mset txs = mset sel + mset rest" using assms(1) by (metis ex_mset subset_mset.add_diff_inverse)
  then have "length txs = length sel + length rest" by (metis size_mset size_union)
  then obtain tx rest' where r: "rest = tx # rest'" using assms(2) by (cases rest) auto
  have "distinct (sel @ rest)" using assms(3) rest mset_eq_imp_distinct_iff [of txs "sel @ rest"] by simp
  then have "tx \<notin> set sel" using r by auto
  moreover have "tx \<in> set txs" using rest r by (metis list.set_intros(1) set_mset_mset union_iff)
  moreover have "gas_sum txs = gas_sum sel + gas_sum rest"
    using rest unfolding gas_sum_def by (metis map_append mset_append mset_map sum_list.append sum_mset_sum_list)
  ultimately show thesis using that r by simp
qed

text \<open>
  C34: the audit flags blocks built by the selection itself. When the proposer and the validator have
  the same pool, of transactions that are all well formed, unexpired, older than the grace period and
  of distinct hashes, and more of them than the cap on the number of encrypted transactions in a
  block, and when the gas ceiling of the audit has room for the whole pool, then the block that the
  selection yields fails the audit: the audit excuses a missing transaction for lack of gas and not
  for the cap.
\<close>

theorem honest_block_fails_audit:
  fixes limit max_count slot m
  defines "block \<equiv> map etx_to_bytes (select_for_block limit max_count slot m)"
  assumes "limit \<noteq> - 1" "max_count < length (mp_txs m)" "hashes_apart C (mp_txs m)"
    and old: "\<forall>tx\<in>set (mp_txs m). etx_wf tx \<and> \<not> is_expired tx slot
      \<and> (\<exists>first_seen. hm_get (first_seen_slot m) (etx_hash C tx) = Some first_seen \<and> grace \<le> saturating_sub slot first_seen)"
    and gas: "gas_sum (mp_txs m) \<le> unat ceiling"
  shows "\<not> audit_is_clean (audit_block_inclusion C block (view_with_slots C m) slot grace ceiling)"
proof -
  let ?sel = "select_for_block limit max_count slot m"
  have pend: "pending slot m = mp_txs m" using old by (simp add: pending_def)
  note sub = selection_sub [OF assms(2), of max_count slot m, unfolded pend]
  obtain tx where tx: "tx \<in> set (mp_txs m)" "tx \<notin> set ?sel" "gas_sum ?sel + unat (etx_gas_limit tx) \<le> gas_sum (mp_txs m)"
    by (rule left_out [OF sub(1)]) (use sub(2) assms(3) hashes_apart_distinct [OF assms(4)] in auto)
  obtain f where f: "hm_get (first_seen_slot m) (etx_hash C tx) = Some f" "grace \<le> saturating_sub slot f" using old tx(1) by blast
  have subset: "set ?sel \<subseteq> set (mp_txs m)" using sub(1) by (metis set_mset_mono set_mset_mset)
  then have hash: "etx_hash C tx \<notin> set (map (etx_hash C) ?sel)"
    using assms(4) tx(1,2) by (auto simp: hashes_apart_def distinct_map dest: inj_onD)
  have dec: "List.map_filter etx_from_bytes block = ?sel"
    unfolding block_def using old subset by (intro decoded_block) blast
  let ?used = "fold (\<lambda>tx g. saturating_add g (etx_gas_limit tx)) ?sel 0"
  have "unat ?used + unat (etx_gas_limit tx) \<le> unat ceiling"
    using saturating_gas_sum [of ?sel 0] tx(3) gas by simp
  then have "\<not> etx_gas_limit tx > saturating_sub ceiling ?used"
    by (simp add: word_less_nat_alt unat_saturating_sub)
  moreover have "(tx, f) \<in> set (view_with_slots C m)"
    using tx(1) f(1) by (force simp: view_with_slots_def List.map_filter_def)
  ultimately show ?thesis
    using f(2) hash
    by (auto simp: audit_block_inclusion_def audit_inclusion_def audit_is_clean_def dec filter_empty_conv Let_def
        intro!: bexI [of _ "(tx, f)"])
qed

definition waiting_pool :: mempool where
  "waiting_pool = two_senders\<lparr>mp_txs := [sample_etx 1, (sample_etx 1)\<lparr>etx_sender := replicate 32 7\<rparr>],
     first_seen_slot := [(etx_hash tagged_crypto (sample_etx 1), 0), (etx_hash tagged_crypto ((sample_etx 1)\<lparr>etx_sender := replicate 32 7\<rparr>), 0)]\<rparr>"

lemma sample_etx_wf: "length s = 32 \<Longrightarrow> etx_wf ((sample_etx n)\<lparr>etx_sender := s\<rparr>)" "etx_wf (sample_etx n)"
  by (simp_all add: etx_wf_def sample_etx_def etx_entry_wf_def etx_to_bytes_def encode_etx_entry_def ct_to_wire_bytes_def Let_def
      MAX_KEYS_PER_ACCESS_ENTRY_def MAX_ACCESS_ENTRIES_def MAX_SIG_LEN_def KYBER_CT_SIZE_def MAX_CT_LEN_def MAX_ETX_SIZE_def)

lemma waiting_hashes_differ: "etx_hash tagged_crypto (sample_etx 1) \<noteq> etx_hash tagged_crypto ((sample_etx 1)\<lparr>etx_sender := replicate 32 7\<rparr>)"
  unfolding etx_hash_def by (rule tagged_hash_neq) (simp_all add: sample_etx_def)

theorem honest_block_fails_audit_witness:
  "\<not> audit_is_clean (audit_block_inclusion tagged_crypto (map etx_to_bytes (select_for_block 1000000 1 10 waiting_pool))
       (view_with_slots tagged_crypto waiting_pool) 10 2 1000000)"
proof (rule honest_block_fails_audit)
  show "hashes_apart tagged_crypto (mp_txs waiting_pool)"
    using waiting_hashes_differ by (simp add: hashes_apart_def waiting_pool_def)
  show "\<forall>tx\<in>set (mp_txs waiting_pool). etx_wf tx \<and> \<not> is_expired tx 10
      \<and> (\<exists>first_seen. hm_get (first_seen_slot waiting_pool) (etx_hash tagged_crypto tx) = Some first_seen \<and> 2 \<le> saturating_sub 10 first_seen)"
    using waiting_hashes_differ
    by (simp add: waiting_pool_def sample_etx_wf) (simp add: is_expired_def sample_etx_def hm_get_def saturating_sub_def)
qed (simp_all add: waiting_pool_def sample_etx_def)

section \<open>The order within a block\<close>

lemma length_swap_at [simp]: "length (swap_at i j xs) = length xs"
  by (simp add: swap_at_def)

lemma mset_swap_at: "i < length xs \<Longrightarrow> j < length xs \<Longrightarrow> mset (swap_at i j xs) = mset xs"
  by (simp add: swap_at_def mset_swap)

lemma fold_swap_at:
  assumes "\<forall>i\<in>set ks. i < length xs \<and> f i < length xs"
  shows "mset (fold (\<lambda>i. swap_at i (f i)) ks xs) = mset xs"
  using assms
proof (induction ks arbitrary: xs)
  case (Cons i ks)
  then show ?case by (simp add: mset_swap_at)
qed simp

lemma vrf_shuffle_permutes: "mset (vrf_shuffle C n seed) = mset [0..<n]"
proof -
  have "unat (prng_at C seed i) mod (i + 1) < n" if "i < n" for i
    using that mod_less_divisor [of "i + 1" "unat (prng_at C seed i)"] by linarith
  then show ?thesis unfolding vrf_shuffle_def by (intro fold_swap_at) auto
qed

text \<open>
  C36: the order of a block is a permutation fixed by the proposer's random output. Applied to the
  selected transactions it neither drops nor repeats one, and it is the only order, of any length,
  that the validators accept for that output.
\<close>

theorem shuffle_permutes_and_is_unique:
  fixes items :: "'a list"
  shows "mset (apply_shuffle items (vrf_shuffle C (length items) (shuffle_seed C vrf_output))) = mset items
    \<and> (\<exists>!order. verify_shuffle C (length items) vrf_output order)"
proof -
  let ?p = "vrf_shuffle C (length items) (shuffle_seed C vrf_output)"
  have perm: "mset ?p = mset [0..<length items]" by (rule vrf_shuffle_permutes)
  then have len: "length ?p = length items" by (metis diff_zero length_upt size_mset)
  have "mset (apply_shuffle items ?p) = image_mset (nth items) (mset [0..<length items])"
    by (simp add: apply_shuffle_def perm)
  also have "\<dots> = mset items" by (metis map_nth mset_map)
  finally show ?thesis using len by (auto simp: verify_shuffle_def)
qed

end
