(* ===== verification/Spec2Isabelle.thy ===== *)
theory Spec2Isabelle
  imports Integrity Balances Finality Snapshot Pipeline Inclusion
begin

text \<open>
  Verification of the Pyde chain (\<open>src/crates\<close>): the virtual machine that runs contracts, the
  transactions and the state they act on, the mempool, and the consensus that orders blocks.

  \<^bold>\<open>How the parts interact.\<close> Clients submit encrypted transactions to the mempool. A proposer, chosen
  by a verifiable random function, selects from the pool, shuffles, and proposes a block; validators
  audit the selection, vote, and a quorum of votes forms a certificate. Decided blocks are split by
  the conflict scheduler into groups, and every transaction of a group is validated, charged,
  executed (by a typed handler, or by the virtual machine when it calls or deploys a contract) and
  settled against the state. The state manager keeps undo logs to revert blocks that lose a fork.
  Evidence of misbehaviour comes back as slash transactions.

  \<^bold>\<open>Modelling conventions\<close> (theory \<open>Prelude\<close>). The release profile of Rust is modelled: plain
  arithmetic on machine integers wraps and is arithmetic on words; \<open>usize\<close> lengths are natural
  numbers. Structs are records, enums are datatypes, hash maps are association lists with lookup
  laws, \<open>Result\<close> is a sum type, and methods that may fail after a partial update are in a result
  monad with state. Third-party code (the Poseidon2 sponge, the FN-DSA signatures) is the record
  \<open>crypto_lib\<close>, an argument of every definition that hashes or verifies; a theorem that needs the
  hash not to collide says so for the keys involved. Signing, wall clocks and environment variables
  are arguments. A panic, which aborts the process in the release profile, is an outcome of its own:
  \<open>None\<close> in the parts that can panic, \<open>Panicked\<close> in the pipeline. The transaction code runs over the
  execution overlay or the state manager, whose writes return \<open>Ok\<close>; branches of the source for a
  failed account write are kept where a handler reports failure in them and are not reached.

  \<^bold>\<open>The virtual machine\<close> (\<open>pvm/src\<close>). \<open>Isa\<close>, \<open>Cpu\<close> and \<open>Memory\<close> model \<open>isa.rs\<close>, \<open>cpu.rs\<close> with
  \<open>wide.rs\<close>, and \<open>memory.rs\<close>; \<open>VmState\<close>, \<open>VmOps\<close>, \<open>VmCall\<close> and \<open>Vm\<close> model \<open>vm.rs\<close>: its state, one
  definition per arm of \<open>Vm::step\<close>, calls and deployments, and the loops \<open>run\<close> and \<open>execute\<close>. The run
  loop is total: every step but the halting one uses gas, so a third of the gas limit (of \<open>2 ^ 64\<close>
  without one) bounds the steps, and calls nest at most to the depth limit, which is the fuel of the
  recursion. \<open>Journal\<close>, \<open>VmFrame\<close> and \<open>CallFrame\<close> are the
  library: what journals restore and what each instruction leaves alone, as locales interpreted on
  the storage and the balance journal and as a rule collection for the result monad. The ALU
  instructions of \<open>Vm::step\<close> are shown to implement a contract on numbers, next to that of
  \<open>Cpu::exec_alu\<close>, which only tests call and which differs for \<open>Addi\<close>. \<open>Integrity\<close> and
  \<open>Balances\<close> hold the invariants of whole executions: the decoded instructions agree with memory,
  stacks stay in bounds, value is conserved through nested calls, and failure restores the state.

  \<^bold>\<open>Accounts, keys and transactions\<close> (\<open>account/src\<close>, \<open>state/src/keys.rs\<close>, \<open>tx/src\<close>). \<open>Nonce\<close>
  refines the 16-slot window to a set of used numbers; \<open>Account\<close>, \<open>Keys\<close>, \<open>Tx\<close>, \<open>Airdrop\<close> and
  \<open>Multisig\<close> model records, derived keys and payloads with their encodings; \<open>Fees\<close> models base fee,
  rewards, vesting and gas tanks; \<open>Parallel\<close> shows that the scheduler puts transactions into one
  group exactly when a chain of detected conflicts links them. \<open>Validation\<close> gives the admission
  checks, \<open>Execution\<close> charging and settlement, \<open>Ledger\<close> the typed cells of the state, \<open>Handlers\<close> the
  special transaction types, and \<open>Pipeline\<close> puts them together up to the execution of a block
  (\<open>execute_block_parallel\<close>). Their theorems say what a rejected, failed or successful transaction
  leaves in the state, who can authorise what, that claims and evidence pay once, and that a block is
  its transactions in the order of the schedule up to the first error.

  \<^bold>\<open>State\<close>. \<open>Store\<close> models the tree of \<open>state/src/smt.rs\<close> as a keyed store behind the interface
  \<open>state_access\<close> (interpreted on the tree, the execution overlay and the state manager) and
  \<open>node/src/state_manager.rs\<close> with cache, deferred writes and undo logs. \<open>Snapshot\<close> models
  \<open>state/src/snapshot.rs\<close>.

  \<^bold>\<open>Mempool\<close> (\<open>mempool/src\<close>). \<open>Mempool\<close> models encrypted transactions (\<open>encrypted.rs\<close>) and the pool
  (\<open>pool.rs\<close>) and shows, over all sequences of events, that its indexes and quotas describe its
  contents and that the rate limit holds in every window. \<open>Inclusion\<close> models the round-robin selection
  for a block, the shuffle (\<open>ordering.rs\<close>) and the audit (\<open>inclusion.rs\<close>); the selection loop
  terminates because a round that makes progress shortens a queue.

  \<^bold>\<open>Consensus\<close> (\<open>consensus/src\<close>, \<open>slashing/src\<close>, \<open>crypto/src/vrf.rs\<close>). \<open>Block\<close>, \<open>ViewChange\<close>,
  \<open>HotStuff\<close> and \<open>Finality\<close> model headers and certificates, timeouts and view change, the vote rule
  and certificate formation, and soft and hard finality; \<open>Validators\<close> and \<open>Slashing\<close> model the
  validator set, committees, proposer selection, evidence and its application. The theorems cover
  the order of votes, formation and verification of certificates, the permanence of finality and
  that conflicting certificates expose a third of the committee.

  \<^bold>\<open>Where the code falls short.\<close> Several theorems state what the code does where a comment or the
  purpose says otherwise: forged sentinel certificates, certificates adopted unverified in a view
  change, honest votes that are slashable, a random function whose output is not unique, missed
  read-write conflicts, collisions of the pair hash, reverted writes that come back, gas settlement
  that mints, value kept by a failed call, contract code whose return data aborts the process, altered
  copies of encrypted transactions, and honest blocks that fail the audit.

  \<^bold>\<open>Not modelled.\<close> The assembler (\<open>pvm/src/asm.rs\<close>), access inference and the ahead-of-time path
  of the pipeline; node hashing, disk layout and proofs of the state tree (a third-party tree over
  RocksDB); threshold encryption, key generation ceremonies and epoch randomness; the decryption
  buffer and the unused block builder of the mempool; the contract compiler \<open>otic\<close>; the peer-to-peer
  layer, the node process, tools and SDK, which are asynchronous input and output around the parts above.
  Thread interleavings inside a block are not modelled: groups run one after another. The undo theorem
  covers the writes of the execution overlay, and the vote theorem one committee without a restart of
  the process.
\<close>

end
